(* ===== verification/Prelude.thy ===== *)
theory Prelude
  imports Main "HOL-Library.AList" "HOL-Library.Signed_Division"
begin

text \<open>
  What every component of the development shares.
  \<^item> The result type of fallible code, \<open>'e + 'a\<close> with \<open>Inl\<close> for the error: the sequencing of
    Rust's question-mark operator (\<open>r_bind\<close>), the early return of a failed check (\<open>ensure\<close>)
    and a loop whose body may fail (\<open>r_fold\<close>), with their inversion rules in the
    collection \<open>res_inv\<close>.
  \<^item> Integer division as the code uses it: \<open>div_ceil\<close> of \<open>BigInt\<close> values and checked 64-bit
    arithmetic (the WebAssembly profile of the workspace is compiled with overflow checks).
  \<^item> Sums over finite maps, with the effect of an update and of a deletion on them.
\<close>

section \<open>Results\<close>

named_theorems res_inv "inversion rules for results: what a success implies of every step"

definition r_bind :: "'e + 'a \<Rightarrow> ('a \<Rightarrow> 'e + 'b) \<Rightarrow> 'e + 'b" where
  "r_bind m f = (case m of Inl e \<Rightarrow> Inl e | Inr x \<Rightarrow> f x)"

definition ensure :: "bool \<Rightarrow> 'e \<Rightarrow> 'e + 'a \<Rightarrow> 'e + 'a" where
  "ensure c e k = (if c then k else Inl e)"

fun r_fold :: "('a \<Rightarrow> 's \<Rightarrow> 'e + 's) \<Rightarrow> 'a list \<Rightarrow> 's \<Rightarrow> 'e + 's" where
  "r_fold f [] s = Inr s"
| "r_fold f (x # xs) s = r_bind (f x s) (r_fold f xs)"

lemma r_bind_Inl [simp]: "r_bind (Inl e) f = Inl e"
  by (simp add: r_bind_def)

lemma r_bind_Inr [simp]: "r_bind (Inr x) f = f x"
  by (simp add: r_bind_def)

lemma r_bind_eq_Inr [res_inv]: "r_bind m f = Inr y \<longleftrightarrow> (\<exists>x. m = Inr x \<and> f x = Inr y)"
  by (cases m) auto

lemma r_bind_eq_Inl: "r_bind m f = Inl e \<longleftrightarrow> m = Inl e \<or> (\<exists>x. m = Inr x \<and> f x = Inl e)"
  by (cases m) auto

lemma r_bind_assoc: "r_bind (r_bind m f) g = r_bind m (\<lambda>x. r_bind (f x) g)"
  by (cases m) auto

lemma r_bind_cong [fundef_cong]:
  "m = m' \<Longrightarrow> (\<And>x. m' = Inr x \<Longrightarrow> f x = f' x) \<Longrightarrow> r_bind m f = r_bind m' f'"
  by (cases m') auto

lemma ensure_True [simp]: "ensure True e k = k"
  by (simp add: ensure_def)

lemma ensure_False [simp]: "ensure False e k = Inl e"
  by (simp add: ensure_def)

lemma ensure_eq_Inr [res_inv]: "ensure c e k = Inr y \<longleftrightarrow> c \<and> k = Inr y"
  by (simp add: ensure_def)

lemma ensure_eq_Inl: "ensure c e k = Inl d \<longleftrightarrow> (c \<and> k = Inl d) \<or> (\<not> c \<and> d = e)"
  by (auto simp: ensure_def)

lemma ensure_cong [fundef_cong]:
  "c = c' \<Longrightarrow> e = e' \<Longrightarrow> (c' \<Longrightarrow> k = k') \<Longrightarrow> ensure c e k = ensure c' e' k'"
  by (simp add: ensure_def)

lemma r_fold_append: "r_fold f (xs @ ys) s = r_bind (r_fold f xs s) (r_fold f ys)"
proof (induction xs arbitrary: s)
  case (Cons x xs)
  then have "r_fold f (xs @ ys) = (\<lambda>u. r_bind (r_fold f xs u) (r_fold f ys))"
    by (intro ext)
  then show ?case by (simp add: r_bind_assoc)
qed simp

lemma enumerate_snd: "x \<in> set (enumerate n xs) \<Longrightarrow> snd x \<in> set xs"
  by (cases x) (auto simp: enumerate_eq_zip dest: set_zip_rightD)

text \<open>The loop rule: what every iteration keeps holds at the end of a loop that succeeds.\<close>

lemma r_fold_inv:
  assumes "r_fold f xs s = Inr t" and "P s"
    and "\<And>x s t. x \<in> set xs \<Longrightarrow> P s \<Longrightarrow> f x s = Inr t \<Longrightarrow> P t"
  shows "P t"
  using assms
proof (induction xs arbitrary: s)
  case Nil
  then show ?case by simp
next
  case (Cons x xs)
  then obtain u where u: "f x s = Inr u" "r_fold f xs u = Inr t"
    by (auto simp: r_bind_eq_Inr)
  moreover have "P u"
    by (rule Cons.prems(3) [OF _ Cons.prems(2) u(1)]) simp
  ultimately show ?case
    using Cons.IH [of u] Cons.prems(3) by (meson list.set_intros(2))
qed

lemma r_fold_succeeds:
  assumes "P s"
    and "\<And>x s. x \<in> set xs \<Longrightarrow> P s \<Longrightarrow> \<exists>t. f x s = Inr t \<and> P t"
  shows "\<exists>t. r_fold f xs s = Inr t \<and> P t"
  using assms
proof (induction xs arbitrary: s)
  case Nil
  then show ?case by simp
next
  case (Cons x xs)
  then obtain u where "f x s = Inr u" "P u" by fastforce
  with Cons.IH [of u] Cons.prems(2) show ?case by simp
qed

section \<open>Methods that change the state and may fail\<close>

text \<open>
  A method on a mutable reference that fails leaves the state as far as it got: the result comes with the
  state in both cases. \<open>s_bind\<close> is the question-mark operator on such methods; \<open>or_abort\<close> is the end of a
  transaction, where a failure drops the state.
\<close>

definition s_bind :: "('e + 'a) \<times> 's \<Rightarrow> ('a \<Rightarrow> 's \<Rightarrow> ('e + 'b) \<times> 's) \<Rightarrow> ('e + 'b) \<times> 's" where
  "s_bind m f = (case m of (Inl e, s) \<Rightarrow> (Inl e, s) | (Inr x, s) \<Rightarrow> f x s)"

definition or_abort :: "('e + 'a) \<times> 's \<Rightarrow> 'e + ('a \<times> 's)" where
  "or_abort rs = (case rs of (r, s) \<Rightarrow> r_bind r (\<lambda>x. Inr (x, s)))"

lemma s_bind_Inl [simp]: "s_bind (Inl e, s) f = (Inl e, s)"
  by (simp add: s_bind_def)

lemma s_bind_Inr [simp]: "s_bind (Inr x, s) f = f x s"
  by (simp add: s_bind_def)

lemma s_bind_eq_Inr [res_inv]: "s_bind m f = (Inr y, t) \<longleftrightarrow> (\<exists>x s. m = (Inr x, s) \<and> f x s = (Inr y, t))"
  by (cases m; cases "fst m") (auto simp: s_bind_def)

lemma or_abort_eq_Inr [res_inv]: "or_abort m = Inr (x, s) \<longleftrightarrow> m = (Inr x, s)"
  by (cases m; cases "fst m") (auto simp: or_abort_def)

section \<open>Integers\<close>

text \<open>\<open>Integer::div_ceil\<close> on \<open>BigInt\<close>: the quotient rounded towards plus infinity.\<close>

definition div_ceil :: "int \<Rightarrow> int \<Rightarrow> int" where
  "div_ceil a b = - ((- a) div b)"

lemma div_ceil_upper: "0 < b \<Longrightarrow> a \<le> div_ceil a b * b"
proof -
  assume b: "0 < b"
  have "- a = ((- a) div b) * b + (- a) mod b"
    by (simp only: div_mult_mod_eq)
  with b pos_mod_sign [of b "- a"] show ?thesis
    unfolding div_ceil_def by linarith
qed

lemma div_ceil_lower: "0 < b \<Longrightarrow> div_ceil a b * b < a + b"
proof -
  assume b: "0 < b"
  have "- a = ((- a) div b) * b + (- a) mod b"
    by (simp only: div_mult_mod_eq)
  with b pos_mod_bound [of b "- a"] show ?thesis
    unfolding div_ceil_def by linarith
qed

lemma div_ceil_mono: "0 < b \<Longrightarrow> a \<le> a' \<Longrightarrow> div_ceil a b \<le> div_ceil a' b"
  by (simp add: div_ceil_def zdiv_mono1)

lemma div_ceil_nonneg: "0 < b \<Longrightarrow> 0 \<le> a \<Longrightarrow> 0 \<le> div_ceil a b"
  using div_ceil_mono [of b 0 a] by (simp add: div_ceil_def)

lemma div_ceil_mult_self [simp]: "0 < b \<Longrightarrow> div_ceil (a * b) b = a"
  by (simp add: div_ceil_def flip: mult_minus_left)

lemma div_ge: "0 < d \<Longrightarrow> p * d \<le> z \<Longrightarrow> p \<le> z div d" for d :: int
  using zdiv_mono1 [of "p * d" z d] by simp

lemma div_lt: "0 < d \<Longrightarrow> z < q * d \<Longrightarrow> z div d < q" for d :: int
  by (metis div_mult_mod_eq less_le_trans linorder_not_less mult_right_mono order_le_less pos_mod_sign le_add_same_cancel1)

text \<open>\<open>TokenAmount::div_floor\<close>: the quotient rounded towards minus infinity.\<close>

definition div_floor :: "int \<Rightarrow> int \<Rightarrow> int" where
  "div_floor a b = a div b"

section \<open>Sums over finite maps\<close>

definition map_total :: "('v \<Rightarrow> int) \<Rightarrow> ('k \<rightharpoonup> 'v) \<Rightarrow> int" where
  "map_total f m = (\<Sum>k \<in> dom m. f (the (m k)))"

definition map_at :: "('v \<Rightarrow> int) \<Rightarrow> ('k \<rightharpoonup> 'v) \<Rightarrow> 'k \<Rightarrow> int" where
  "map_at f m k = (case m k of None \<Rightarrow> 0 | Some v \<Rightarrow> f v)"

lemma map_at_None [simp]: "m k = None \<Longrightarrow> map_at f m k = 0"
  by (simp add: map_at_def)

lemma map_at_Some [simp]: "m k = Some v \<Longrightarrow> map_at f m k = f v"
  by (simp add: map_at_def)

lemma map_total_empty [simp]: "map_total f (\<lambda>k. None) = 0"
  by (simp add: map_total_def)

lemma map_total_split:
  assumes "finite (dom m)"
  shows "map_total f m = map_at f m k + (\<Sum>j \<in> dom m - {k}. f (the (m j)))"
proof (cases "m k")
  case None
  then have "dom m - {k} = dom m" by auto
  with None show ?thesis by (simp add: map_total_def)
next
  case (Some v)
  then have "k \<in> dom m" by auto
  with assms Some show ?thesis
    by (simp add: map_total_def sum.remove)
qed

lemma map_total_update:
  assumes "finite (dom m)"
  shows "map_total f (m(k \<mapsto> v)) = map_total f m - map_at f m k + f v"
proof -
  have "(\<Sum>j \<in> dom (m(k \<mapsto> v)) - {k}. f (the ((m(k \<mapsto> v)) j))) =
      (\<Sum>j \<in> dom m - {k}. f (the (m j)))"
    by (rule sum.cong) auto
  moreover have "map_at f (m(k \<mapsto> v)) k = f v"
    by (simp add: map_at_def)
  ultimately show ?thesis
    using map_total_split [of "m(k \<mapsto> v)" f k] map_total_split [of m f k] assms by simp
qed

lemma map_total_delete:
  assumes "finite (dom m)"
  shows "map_total f (m(k := None)) = map_total f m - map_at f m k"
proof -
  have "(\<Sum>j \<in> dom (m(k := None)) - {k}. f (the ((m(k := None)) j))) =
      (\<Sum>j \<in> dom m - {k}. f (the (m j)))"
    by (rule sum.cong) auto
  moreover have "map_at f (m(k := None)) k = 0"
    by (simp add: map_at_def)
  ultimately show ?thesis
    using map_total_split [of "m(k := None)" f k] map_total_split [of m f k] assms by simp
qed

lemma map_total_nonneg:
  "(\<And>k v. m k = Some v \<Longrightarrow> 0 \<le> f v) \<Longrightarrow> 0 \<le> map_total f m"
  unfolding map_total_def by (rule sum_nonneg) auto

lemma map_at_le_total:
  assumes "finite (dom m)" and "\<And>k v. m k = Some v \<Longrightarrow> 0 \<le> f v"
  shows "map_at f m k \<le> map_total f m"
proof -
  have "0 \<le> (\<Sum>j \<in> dom m - {k}. f (the (m j)))"
    using assms(2) by (intro sum_nonneg) auto
  with map_total_split [OF assms(1), of f k] show ?thesis by simp
qed

section \<open>Checked 64-bit arithmetic\<close>

definition in_i64 :: "int \<Rightarrow> bool" where
  "in_i64 n \<longleftrightarrow> - (2 ^ 63) \<le> n \<and> n < 2 ^ 63"

definition in_u64 :: "int \<Rightarrow> bool" where
  "in_u64 n \<longleftrightarrow> 0 \<le> n \<and> n < 2 ^ 64"

end
