(* ===== verification/Map2.thy ===== *)
theory Map2
  imports Prelude
begin

text \<open>
  The key-value stores behind the actors' state roots.

  \<^item> \<open>runtime/src/util/map.rs\<close>: \<open>Map2\<close>, the wrapper of a HAMT. The HAMT of a state root is
    represented by its content, an association list with distinct keys in the order in which
    the map is traversed; a \<open>Cid\<close> field of a state is represented by the content it refers to,
    so \<open>load\<close> and \<open>flush\<close> are the identity. Failures of the block store are not represented.
  \<^item> The AMT (\<open>fil_actors_runtime::Array\<close>): a sparse array over \<open>u64\<close> keys, traversed in
    ascending key order, represented by the association list sorted by key.

  Both implement the contract \<open>finite_store\<close>, inside which the effect of an update and of a
  deletion on the sum over the stored values is proved once.
\<close>

section \<open>The contract of a key-value store\<close>

locale finite_store =
  fixes empty :: "'m"
    and lookup :: "'m \<Rightarrow> 'k \<Rightarrow> 'v option"
    and put :: "'k \<Rightarrow> 'v \<Rightarrow> 'm \<Rightarrow> 'm"
    and del :: "'k \<Rightarrow> 'm \<Rightarrow> 'm"
    and invar :: "'m \<Rightarrow> bool"
  assumes lookup_empty: "lookup empty k = None"
    and lookup_put: "invar m \<Longrightarrow> lookup (put k v m) = (lookup m)(k \<mapsto> v)"
    and lookup_del: "invar m \<Longrightarrow> lookup (del k m) = (lookup m)(k := None)"
    and finite_lookup: "finite (dom (lookup m))"
    and invar_empty: "invar empty"
    and invar_put: "invar m \<Longrightarrow> invar (put k v m)"
    and invar_del: "invar m \<Longrightarrow> invar (del k m)"
begin

lemma total_empty: "map_total f (lookup empty) = 0"
proof -
  have "lookup empty = (\<lambda>k. None)"
    by (rule ext) (rule lookup_empty)
  then show ?thesis by simp
qed

lemma total_put:
  "invar m \<Longrightarrow> map_total f (lookup (put k v m)) = map_total f (lookup m) - map_at f (lookup m) k + f v"
  by (simp add: lookup_put map_total_update finite_lookup)

lemma total_del:
  "invar m \<Longrightarrow> map_total f (lookup (del k m)) = map_total f (lookup m) - map_at f (lookup m) k"
  by (simp add: lookup_del map_total_delete finite_lookup)

lemma at_le_total:
  assumes "\<And>k v. lookup m k = Some v \<Longrightarrow> 0 \<le> f v"
  shows "map_at f (lookup m) k \<le> map_total f (lookup m)"
  by (rule map_at_le_total [OF finite_lookup]) (rule assms)

lemma put_same: "invar m \<Longrightarrow> lookup (put k v m) k = Some v"
  by (simp add: lookup_put)

lemma put_other: "invar m \<Longrightarrow> j \<noteq> k \<Longrightarrow> lookup (put k v m) j = lookup m j"
  by (simp add: lookup_put)

end

section \<open>Map2\<close>

type_synonym ('k, 'v) map2 = "('k \<times> 'v) list"

definition map2_empty :: "('k, 'v) map2" where
  "map2_empty = []"

definition map2_is_empty :: "('k, 'v) map2 \<Rightarrow> bool" where
  "map2_is_empty m = (m = [])"

definition map2_get :: "('k, 'v) map2 \<Rightarrow> 'k \<Rightarrow> 'v option" where
  "map2_get m k = map_of m k"

definition map2_contains_key :: "('k, 'v) map2 \<Rightarrow> 'k \<Rightarrow> bool" where
  "map2_contains_key m k = (map2_get m k \<noteq> None)"

text \<open>\<open>set\<close> returns the value previously stored; the model returns it beside the new map.\<close>

definition map2_put :: "'k \<Rightarrow> 'v \<Rightarrow> ('k, 'v) map2 \<Rightarrow> ('k, 'v) map2" where
  "map2_put k v m = AList.update k v m"

definition map2_set :: "'k \<Rightarrow> 'v \<Rightarrow> ('k, 'v) map2 \<Rightarrow> 'v option \<times> ('k, 'v) map2" where
  "map2_set k v m = (map2_get m k, map2_put k v m)"

definition map2_set_if_absent :: "'k \<Rightarrow> 'v \<Rightarrow> ('k, 'v) map2 \<Rightarrow> bool \<times> ('k, 'v) map2" where
  "map2_set_if_absent k v m =
     (if map2_contains_key m k then (False, m) else (True, map2_put k v m))"

definition map2_remove :: "'k \<Rightarrow> ('k, 'v) map2 \<Rightarrow> ('k, 'v) map2" where
  "map2_remove k m = AList.delete k m"

definition map2_delete :: "'k \<Rightarrow> ('k, 'v) map2 \<Rightarrow> 'v option \<times> ('k, 'v) map2" where
  "map2_delete k m = (map2_get m k, map2_remove k m)"

definition map2_for_each :: "('k \<Rightarrow> 'v \<Rightarrow> 's \<Rightarrow> 'e + 's) \<Rightarrow> ('k, 'v) map2 \<Rightarrow> 's \<Rightarrow> 'e + 's" where
  "map2_for_each f m s = r_fold (\<lambda>(k, v). f k v) m s"

definition map2_ok :: "('k, 'v) map2 \<Rightarrow> bool" where
  "map2_ok m = distinct (map fst m)"

interpretation m2: finite_store map2_empty map2_get map2_put map2_remove map2_ok
proof unfold_locales
  fix m :: "('a, 'b) map2" and k :: 'a and v :: 'b
  show "map2_get map2_empty k = (None :: 'b option)"
    by (simp add: map2_get_def map2_empty_def)
  show "map2_get (map2_put k v m) = (map2_get m)(k \<mapsto> v)"
    by (simp add: map2_get_def map2_put_def update_conv' fun_eq_iff)
  show "map2_get (map2_remove k m) = (map2_get m)(k := None)"
    by (simp add: map2_get_def map2_remove_def delete_conv' fun_eq_iff)
  have "map2_get m = map_of m"
    by (simp add: map2_get_def fun_eq_iff)
  then show "finite (dom (map2_get m))" by (simp add: finite_dom_map_of)
  show "map2_ok (map2_empty :: ('a, 'b) map2)"
    by (simp add: map2_ok_def map2_empty_def)
  show "map2_ok m \<Longrightarrow> map2_ok (map2_put k v m)"
    by (simp add: map2_ok_def map2_put_def distinct_update)
  show "map2_ok m \<Longrightarrow> map2_ok (map2_remove k m)"
    by (simp add: map2_ok_def map2_remove_def distinct_delete)
qed

declare m2.invar_empty [simp] m2.invar_put [simp] m2.invar_del [simp] m2.lookup_empty [simp]

lemma map2_get_put [simp]: "map2_get (map2_put k v m) j = (if j = k then Some v else map2_get m j)"
  by (simp add: map2_get_def map2_put_def update_conv')

lemma map2_get_remove [simp]: "map2_get (map2_remove k m) j = (if j = k then None else map2_get m j)"
  by (simp add: map2_get_def map2_remove_def delete_conv')

lemma map2_get_Some_mem: "map2_ok m \<Longrightarrow> map2_get m k = Some v \<longleftrightarrow> (k, v) \<in> set m"
  by (simp add: map2_ok_def map2_get_def)

lemma map2_get_mem: "map2_get m k = Some v \<Longrightarrow> (k, v) \<in> set m"
  by (simp add: map2_get_def map_of_SomeD)

lemma length_map2_put: "length (map2_put k v m) = (if map2_get m k = None then Suc (length m) else length m)"
  unfolding map2_put_def map2_get_def by (induction m) auto

lemma length_map2_remove: "map2_ok m \<Longrightarrow> length (map2_remove k m) = (if map2_get m k = None then length m else length m - 1)"
proof (induction m)
  case (Cons x m)
  obtain j w where "x = (j, w)" by (cases x)
  with Cons show ?case
    by (cases "k = j") (auto simp: map2_ok_def map2_remove_def map2_get_def delete_notin_dom map_of_eq_None_iff
        dest!: map_of_SomeD length_pos_if_in_set)
qed (simp add: map2_remove_def map2_get_def)

lemma map2_remove_put: "map2_remove a (map2_put a x m) = map2_remove a m"
  unfolding map2_remove_def map2_put_def by (induction m) auto

section \<open>Sparse arrays\<close>

type_synonym 'v amt = "(nat \<times> 'v) list"

definition amt_empty :: "'v amt" where
  "amt_empty = []"

definition amt_get :: "'v amt \<Rightarrow> nat \<Rightarrow> 'v option" where
  "amt_get a i = map_of a i"

fun amt_set :: "nat \<Rightarrow> 'v \<Rightarrow> 'v amt \<Rightarrow> 'v amt" where
  "amt_set i v [] = [(i, v)]"
| "amt_set i v ((j, w) # a) =
     (if i < j then (i, v) # (j, w) # a
      else if i = j then (i, v) # a else (j, w) # amt_set i v a)"

definition amt_delete :: "nat \<Rightarrow> 'v amt \<Rightarrow> 'v amt" where
  "amt_delete i a = filter (\<lambda>(j, w). j \<noteq> i) a"

definition amt_batch_delete :: "nat list \<Rightarrow> 'v amt \<Rightarrow> 'v amt" where
  "amt_batch_delete is a = fold amt_delete is a"

definition amt_ok :: "'v amt \<Rightarrow> bool" where
  "amt_ok a = sorted_wrt (<) (map fst a)"

lemma amt_set_keys: "fst ` set (amt_set i v a) = insert i (fst ` set a)"
  by (induction i v a rule: amt_set.induct) auto

lemma amt_get_Nil [simp]: "amt_get [] i = None"
  by (simp add: amt_get_def)

lemma amt_get_Cons [simp]: "amt_get ((j, w) # a) i = (if i = j then Some w else amt_get a i)"
  by (simp add: amt_get_def)

lemma amt_get_set [simp]: "amt_get (amt_set i v a) j = (if j = i then Some v else amt_get a j)"
  by (induction i v a rule: amt_set.induct) auto

lemma amt_get_delete [simp]: "amt_get (amt_delete i a) j = (if j = i then None else amt_get a j)"
  by (induction a) (auto simp: amt_delete_def)

lemma amt_ok_set: "amt_ok a \<Longrightarrow> amt_ok (amt_set i v a)"
proof (induction i v a rule: amt_set.induct)
  case (2 i v j w a)
  then show ?case
    using amt_set_keys [of i v a] by (auto simp: amt_ok_def)
qed (simp add: amt_ok_def)

lemma amt_ok_filter: "amt_ok a \<Longrightarrow> amt_ok (filter P a)"
  by (auto simp: amt_ok_def sorted_wrt_map sorted_wrt_filter)

lemma amt_ok_delete: "amt_ok a \<Longrightarrow> amt_ok (amt_delete i a)"
  by (simp add: amt_delete_def amt_ok_filter)

interpretation am: finite_store amt_empty amt_get amt_set amt_delete amt_ok
proof unfold_locales
  fix a :: "'a amt" and i :: nat and v :: 'a
  show "amt_get amt_empty i = (None :: 'a option)"
    by (simp add: amt_empty_def)
  show "amt_get (amt_set i v a) = (amt_get a)(i \<mapsto> v)"
    by (simp add: fun_eq_iff)
  show "amt_get (amt_delete i a) = (amt_get a)(i := None)"
    by (simp add: fun_eq_iff)
  have "amt_get a = map_of a"
    by (simp add: amt_get_def fun_eq_iff)
  then show "finite (dom (amt_get a))" by (simp add: finite_dom_map_of)
  show "amt_ok (amt_empty :: 'a amt)"
    by (simp add: amt_ok_def amt_empty_def)
qed (simp_all add: amt_ok_set amt_ok_delete)

declare am.invar_empty [simp] am.invar_put [simp] am.invar_del [simp] am.lookup_empty [simp]

lemma amt_ok_batch_delete [simp]: "amt_ok a \<Longrightarrow> amt_ok (amt_batch_delete is a)"
  by (induction "is" arbitrary: a) (auto simp: amt_batch_delete_def)

lemma amt_get_batch_delete [simp]:
  "amt_get (amt_batch_delete is a) j = (if j \<in> set is then None else amt_get a j)"
  by (induction "is" arbitrary: a) (auto simp: amt_batch_delete_def)

lemma amt_get_Some_mem: "amt_ok a \<Longrightarrow> amt_get a i = Some v \<longleftrightarrow> (i, v) \<in> set a"
proof -
  assume "amt_ok a"
  then have "distinct (map fst a)"
    by (simp add: amt_ok_def strict_sorted_iff)
  then show ?thesis by (simp add: amt_get_def)
qed

text \<open>A sparse array is determined by its lookups; filtering it by key; adding up its values.\<close>

lemma amt_ext:
  assumes "amt_ok a" and "amt_ok b" and "\<And>k. amt_get a k = amt_get b k"
  shows "a = b"
proof (rule map_sorted_distinct_set_unique [where f = fst])
  show eq: "set a = set b" using assms amt_get_Some_mem [of a] amt_get_Some_mem [of b] by auto
  have "distinct (map fst a)" using assms(1) by (auto simp: amt_ok_def strict_sorted_iff)
  then show "inj_on fst (set a \<union> set b)" by (simp add: eq [symmetric] distinct_map)
qed (use assms in \<open>auto simp: amt_ok_def strict_sorted_iff\<close>)

lemma amt_get_filter: "amt_get (filter (\<lambda>(k, v). P k) a) k = (if P k then amt_get a k else None)"
  by (induction a) auto

lemma amt_batch_delete_filter: "amt_batch_delete ks a = filter (\<lambda>(k, v). k \<notin> set ks) a"
proof (induction ks arbitrary: a)
  case (Cons k ks)
  have "amt_batch_delete (k # ks) a = amt_batch_delete ks (amt_delete k a)"
    by (simp add: amt_batch_delete_def)
  also have "\<dots> = filter (\<lambda>(j, v). j \<notin> set ks) (filter (\<lambda>(j, v). j \<noteq> k) a)"
    by (simp add: Cons.IH amt_delete_def)
  also have "\<dots> = filter (\<lambda>(j, v). j \<notin> set (k # ks)) a"
    by (simp add: case_prod_unfold)
  finally show ?case .
qed (simp add: amt_batch_delete_def)

definition amt_sum :: "('v \<Rightarrow> 'b::ab_group_add) \<Rightarrow> 'v amt \<Rightarrow> 'b" where
  "amt_sum f a = sum_list (map (\<lambda>(k, v). f v) a)"

lemma amt_sum_set:
  "amt_ok a \<Longrightarrow> amt_sum f (amt_set k v a) =
     amt_sum f a - (case amt_get a k of None \<Rightarrow> 0 | Some w \<Rightarrow> f w) + f v"
proof (induction k v a rule: amt_set.induct)
  case (2 k v j w a)
  have "amt_get a k = None" if "k < j" using that "2.prems"
    by (auto simp: amt_ok_def amt_get_def map_of_eq_None_iff)
  with 2 show ?case by (auto simp: amt_sum_def amt_ok_def algebra_simps)
qed (simp add: amt_sum_def)

lemma amt_sum_split:
  "amt_sum f a = amt_sum f (filter (\<lambda>(k, v). P k) a) + amt_sum f (filter (\<lambda>(k, v). \<not> P k) a)"
  by (induction a) (auto simp: amt_sum_def algebra_simps)

lemma amt_sum_zero [simp]: "amt_sum (\<lambda>_. 0) a = 0"
  by (induction a) (auto simp: amt_sum_def)

end
