(* ===== verification/Runtime.thy ===== *)
theory Runtime
  imports Map2 "HOL-Library.Word"
begin

text \<open>
  The runtime an actor method runs in.

  \<^item> Errors and results of sends: \<open>runtime/src/actor_error.rs\<close> and \<open>runtime/src/builtin/shared.rs\<close>
    (\<open>extract_send_result\<close>, \<open>resolve_to_actor_id\<close>, \<open>restrict_internal_api\<close>); error messages are
    left out, exit codes and exit data are kept. A Rust panic (an \<open>unwrap\<close>, a failed overflow
    check) is the error \<open>Panic\<close>.
  \<^item> Caller validation: \<open>runtime/src/runtime/fvm.rs\<close>.
  \<^item> The virtual machine around the actor. The rest of the chain is not modelled: what a send
    returns, and what other actors do before it returns, is data (\<open>resp\<close>), and the theorems
    hold for all such data. A response lists the calls that re-enter the sending actor, each
    with its own context and its own responses, to any depth. What the machine itself does
    around a send follows \<open>InvocationCtx::invoke\<close> of \<open>test_vm/src/messaging.rs\<close> and the
    contract documented at \<open>Runtime::send\<close>: the value is moved first, a bare transfer
    (\<open>METHOD_SEND\<close>) runs no code, and the effects of a call that fails are rolled back.

  The locale \<open>valued_actor\<close> states what an actor's methods have to keep, relative to a sender
  that keeps it, and derives that every tree of calls keeps it; \<open>reentrant_actor\<close> is its simpler special case.
\<close>

section \<open>Addresses, exit codes, errors\<close>

type_synonym bytes = "8 word list"
type_synonym actor_id = nat
type_synonym method_num = nat
type_synonym cid = nat

datatype address =
    ID actor_id
  | Secp256k1 bytes
  | Actor bytes
  | BLS bytes
  | Delegated actor_id bytes

datatype actor_type =
    System | Init | Cron | Account | Power | Miner | Market | PaymentChannel | Multisig | Reward
  | VerifiedRegistry | DataCap | Placeholder | EVM | EAM | EthAccount

datatype exit_code =
    OK
  | SYS_MISSING_RETURN
  | SYS_ILLEGAL_INSTRUCTION
  | SYS_ILLEGAL_EXIT_CODE
  | SYS_OTHER nat
  | USR_ILLEGAL_ARGUMENT
  | USR_NOT_FOUND
  | USR_FORBIDDEN
  | USR_INSUFFICIENT_FUNDS
  | USR_ILLEGAL_STATE
  | USR_SERIALIZATION
  | USR_UNHANDLED_MESSAGE
  | USR_UNSPECIFIED
  | USR_ASSERTION_FAILED
  | USR_READ_ONLY
  | USR_OTHER nat

fun is_system_error :: "exit_code \<Rightarrow> bool" where
  "is_system_error SYS_MISSING_RETURN = True"
| "is_system_error SYS_ILLEGAL_INSTRUCTION = True"
| "is_system_error SYS_ILLEGAL_EXIT_CODE = True"
| "is_system_error (SYS_OTHER n) = True"
| "is_system_error c = False"

datatype actor_error = ActorError exit_code "bytes option" | Panic

type_synonym 'a result = "actor_error + 'a"

text \<open>An \<open>anyhow\<close> result: the error may or may not wrap an \<open>ActorError\<close>.\<close>

type_synonym 'a anyhow = "actor_error option + 'a"

text \<open>\<open>ActorError::checked\<close>: a system exit code of a callee becomes a user exit code.\<close>

definition actor_error_checked :: "exit_code \<Rightarrow> bytes option \<Rightarrow> actor_error" where
  "actor_error_checked code data =
     ActorError
       (case code of
          SYS_MISSING_RETURN \<Rightarrow> USR_UNSPECIFIED
        | SYS_ILLEGAL_INSTRUCTION \<Rightarrow> USR_UNSPECIFIED
        | SYS_ILLEGAL_EXIT_CODE \<Rightarrow> USR_UNSPECIFIED
        | c \<Rightarrow> (if is_system_error c then USR_ASSERTION_FAILED else c)) data"

abbreviation illegal_argument :: actor_error where
  "illegal_argument \<equiv> ActorError USR_ILLEGAL_ARGUMENT None"

abbreviation not_found :: actor_error where
  "not_found \<equiv> ActorError USR_NOT_FOUND None"

abbreviation forbidden :: actor_error where
  "forbidden \<equiv> ActorError USR_FORBIDDEN None"

abbreviation insufficient_funds :: actor_error where
  "insufficient_funds \<equiv> ActorError USR_INSUFFICIENT_FUNDS None"

abbreviation illegal_state :: actor_error where
  "illegal_state \<equiv> ActorError USR_ILLEGAL_STATE None"

abbreviation unhandled_message :: actor_error where
  "unhandled_message \<equiv> ActorError USR_UNHANDLED_MESSAGE None"

fun err_code :: "actor_error \<Rightarrow> exit_code" where
  "err_code (ActorError c d) = c"
| "err_code Panic = USR_ASSERTION_FAILED"

fun err_data :: "actor_error \<Rightarrow> bytes option" where
  "err_data (ActorError c d) = d"
| "err_data Panic = None"

section \<open>Singletons and protocol constants\<close>

definition SYSTEM_ACTOR_ADDR :: address where "SYSTEM_ACTOR_ADDR = ID 0"
definition INIT_ACTOR_ADDR :: address where "INIT_ACTOR_ADDR = ID 1"
definition REWARD_ACTOR_ADDR :: address where "REWARD_ACTOR_ADDR = ID 2"
definition CRON_ACTOR_ADDR :: address where "CRON_ACTOR_ADDR = ID 3"
definition STORAGE_POWER_ACTOR_ADDR :: address where "STORAGE_POWER_ACTOR_ADDR = ID 4"
definition STORAGE_MARKET_ACTOR_ADDR :: address where "STORAGE_MARKET_ACTOR_ADDR = ID 5"
definition VERIFIED_REGISTRY_ACTOR_ADDR :: address where "VERIFIED_REGISTRY_ACTOR_ADDR = ID 6"
definition DATACAP_TOKEN_ACTOR_ADDR :: address where "DATACAP_TOKEN_ACTOR_ADDR = ID 7"
definition EAM_ACTOR_ADDR :: address where "EAM_ACTOR_ADDR = ID 10"
definition BURNT_FUNDS_ACTOR_ADDR :: address where "BURNT_FUNDS_ACTOR_ADDR = ID 99"

definition FIRST_NON_SINGLETON_ADDR :: actor_id where "FIRST_NON_SINGLETON_ADDR = 100"

definition METHOD_SEND :: method_num where "METHOD_SEND = 0"
definition METHOD_CONSTRUCTOR :: method_num where "METHOD_CONSTRUCTOR = 1"

definition FIRST_EXPORTED_METHOD_NUMBER :: method_num where
  "FIRST_EXPORTED_METHOD_NUMBER = 2 ^ 24"

definition EPOCHS_IN_HOUR :: int where "EPOCHS_IN_HOUR = 3600 div 30"
definition EPOCHS_IN_DAY :: int where "EPOCHS_IN_DAY = 86400 div 30"
definition EPOCHS_IN_YEAR :: int where "EPOCHS_IN_YEAR = 31556925 div 30"
definition EXPECTED_LEADERS_PER_EPOCH :: int where "EXPECTED_LEADERS_PER_EPOCH = 5"

section \<open>The context of a call and the machine\<close>

text \<open>The message being processed (\<open>MessageInfo\<close>) and the epoch.\<close>

record ctx =
  caller :: address
  origin :: address
  receiver :: address
  value_received :: int
  curr_epoch :: int

text \<open>What the actor can read of the rest of the chain.\<close>

record world =
  addr_table :: "address \<Rightarrow> actor_id option"
  code_table :: "actor_id \<Rightarrow> cid option"
  type_table :: "cid \<Rightarrow> actor_type option"

record 'p send_req =
  req_to :: address
  req_method :: method_num
  req_params :: "'p option"
  req_value :: int
  req_read_only :: bool

datatype error_number =
    NotFound | InsufficientFunds | LimitExceeded | ReadOnly | IllegalArgument | Forbidden
  | OtherErrno nat

datatype send_result = SendError error_number | Response exit_code "bytes option"

fun send_success :: "send_result \<Rightarrow> bool" where
  "send_success (Response c d) = (c = OK)"
| "send_success (SendError e) = False"

text \<open>
  The actor in the machine: its state, its balance, the rest of the chain as it can be read,
  and the sends that took effect, latest first.
\<close>

record ('st, 'p) vm =
  vm_state :: 'st
  vm_balance :: int
  vm_world :: world
  vm_sends :: "'p send_req list"

type_synonym ('st, 'p) sender =
  "nat \<Rightarrow> 'p send_req \<Rightarrow> ('st, 'p) vm \<Rightarrow> send_result \<times> ('st, 'p) vm"

definition send_simple :: "address \<Rightarrow> method_num \<Rightarrow> 'p option \<Rightarrow> int \<Rightarrow> 'p send_req" where
  "send_simple to m p v =
     \<lparr>req_to = to, req_method = m, req_params = p, req_value = v, req_read_only = False\<rparr>"

definition debit :: "'p send_req \<Rightarrow> ('st, 'p) vm \<Rightarrow> ('st, 'p) vm" where
  "debit req v = v\<lparr>vm_balance := vm_balance v - req_value req, vm_sends := req # vm_sends v\<rparr>"

text \<open>\<open>From<SendError> for ActorError\<close> and \<open>extract_send_result\<close>.\<close>

fun send_error_to_actor_error :: "error_number \<Rightarrow> actor_error" where
  "send_error_to_actor_error NotFound = ActorError USR_UNSPECIFIED None"
| "send_error_to_actor_error InsufficientFunds = insufficient_funds"
| "send_error_to_actor_error LimitExceeded = ActorError USR_ASSERTION_FAILED None"
| "send_error_to_actor_error ReadOnly = ActorError USR_READ_ONLY None"
| "send_error_to_actor_error e = ActorError USR_ASSERTION_FAILED None"

fun extract_send_result :: "send_result \<Rightarrow> bytes option result" where
  "extract_send_result (SendError e) = Inl (send_error_to_actor_error e)"
| "extract_send_result (Response c d) =
     (if c = OK then Inr d else Inl (actor_error_checked c d))"

lemma extract_send_result_Inr: "extract_send_result r = Inr d \<longleftrightarrow> r = Response OK d"
  by (cases r) auto

text \<open>A send whose failure is propagated with the question-mark operator.\<close>

definition send_or_fail ::
  "('p send_req \<Rightarrow> ('st, 'p) vm \<Rightarrow> send_result \<times> ('st, 'p) vm) \<Rightarrow> 'p send_req \<Rightarrow> ('st, 'p) vm \<Rightarrow>
   (bytes option \<times> ('st, 'p) vm) result" where
  "send_or_fail snd_op req v =
     (case snd_op req v of (r, v') \<Rightarrow> r_bind (extract_send_result r) (\<lambda>d. Inr (d, v')))"

lemma send_or_fail_Inr [res_inv]:
  "send_or_fail f req v = Inr (d, v') \<longleftrightarrow> f req v = (Response OK d, v')"
  by (auto simp: send_or_fail_def res_inv extract_send_result_Inr split: prod.splits)

definition resolve_address :: "('st, 'p) vm \<Rightarrow> address \<Rightarrow> actor_id option" where
  "resolve_address v a = addr_table (vm_world v) a"

definition get_actor_code_cid :: "('st, 'p) vm \<Rightarrow> actor_id \<Rightarrow> cid option" where
  "get_actor_code_cid v i = code_table (vm_world v) i"

definition resolve_builtin_actor_type :: "('st, 'p) vm \<Rightarrow> cid \<Rightarrow> actor_type option" where
  "resolve_builtin_actor_type v c = type_table (vm_world v) c"

text \<open>
  \<open>resolve_to_actor_id\<close>: resolve an address, creating its account with a zero-value send when it
  does not resolve yet.
\<close>

definition resolve_to_actor_id ::
  "('p send_req \<Rightarrow> ('st, 'p) vm \<Rightarrow> send_result \<times> ('st, 'p) vm) \<Rightarrow> address \<Rightarrow> bool \<Rightarrow> ('st, 'p) vm \<Rightarrow>
   (actor_id \<times> ('st, 'p) vm) result" where
  "resolve_to_actor_id snd_op addr check_existence v =
     r_bind
       (case resolve_address v addr of
          Some i \<Rightarrow> Inr (Some i, v)
        | None \<Rightarrow>
            r_bind (send_or_fail snd_op (send_simple addr METHOD_SEND None 0) v)
              (\<lambda>(d, v'). Inr (resolve_address v' addr, v')))
       (\<lambda>(found, v'). case found of
          Some i \<Rightarrow>
            ensure (\<not> check_existence \<or> get_actor_code_cid v' i \<noteq> None) not_found (Inr (i, v'))
        | None \<Rightarrow> Inl illegal_argument)"

text \<open>\<open>address.id().unwrap()\<close>, and an error whose exit code is replaced (\<open>context_code\<close>).\<close>

fun addr_id :: "address \<Rightarrow> actor_id result" where
  "addr_id (ID i) = Inr i"
| "addr_id _ = Inl Panic"

fun set_code :: "exit_code \<Rightarrow> 'a result \<Rightarrow> 'a result" where
  "set_code code (Inl Panic) = Inl Panic"
| "set_code code (Inl (ActorError _ _)) = Inl (ActorError code None)"
| "set_code code (Inr x) = Inr x"

lemma set_code_Inr: "set_code code m = Inr y \<longleftrightarrow> m = Inr y"
  by (cases m; cases "projl m") auto

section \<open>Caller validation\<close>

definition validate_immediate_caller_is :: "ctx \<Rightarrow> address list \<Rightarrow> unit result" where
  "validate_immediate_caller_is c addrs =
     (if caller c \<in> set addrs then Inr () else Inl forbidden)"

definition validate_immediate_caller_type :: "ctx \<Rightarrow> ('st, 'p) vm \<Rightarrow> actor_type list \<Rightarrow> unit result" where
  "validate_immediate_caller_type c v types =
     (case caller c of
        ID i \<Rightarrow>
          (case get_actor_code_cid v i of
             None \<Rightarrow> Inl Panic
           | Some code \<Rightarrow>
               (case resolve_builtin_actor_type v code of
                  Some t \<Rightarrow> (if t \<in> set types then Inr () else Inl forbidden)
                | None \<Rightarrow> Inl forbidden))
      | _ \<Rightarrow> Inl Panic)"

definition restrict_internal_api :: "ctx \<Rightarrow> ('st, 'p) vm \<Rightarrow> method_num \<Rightarrow> unit result" where
  "restrict_internal_api c v method =
     (if FIRST_EXPORTED_METHOD_NUMBER \<le> method then Inr ()
      else
        case caller c of
          ID i \<Rightarrow>
            (case get_actor_code_cid v i of
               None \<Rightarrow> Inl forbidden
             | Some code \<Rightarrow>
                 (case resolve_builtin_actor_type v code of
                    None \<Rightarrow> Inl forbidden
                  | Some t \<Rightarrow> (if t = EVM then Inl forbidden else Inr ())))
        | _ \<Rightarrow> Inl Panic)"

lemma validate_immediate_caller_is_Inr [res_inv]:
  "validate_immediate_caller_is c as = Inr u \<longleftrightarrow> caller c \<in> set as"
  by (simp add: validate_immediate_caller_is_def)

text \<open>\<open>Runtime::transaction\<close>: run the closure on the state, store its result.\<close>

definition transaction ::
  "('st, 'p) vm \<Rightarrow> ('st \<Rightarrow> ('a \<times> 'st) result) \<Rightarrow> ('a \<times> ('st, 'p) vm) result" where
  "transaction v f = r_bind (f (vm_state v)) (\<lambda>(x, s). Inr (x, v\<lparr>vm_state := s\<rparr>))"

lemma transaction_Inr [res_inv]:
  "transaction v f = Inr (x, v') \<longleftrightarrow>
     (\<exists>s. f (vm_state v) = Inr (x, s) \<and> v' = v\<lparr>vm_state := s\<rparr>)"
  by (auto simp: transaction_def res_inv)

section \<open>Calls, responses, re-entrancy\<close>

datatype 'm call =
    Call ctx 'm "'m resp list"
  | Deposit nat
and 'm resp = Resp "'m call list" send_result world

text \<open>What the actor provides: one function that runs a method with a sender.\<close>

type_synonym ('st, 'p, 'm, 'r) dispatch =
  "('st, 'p) sender \<Rightarrow> ctx \<Rightarrow> 'm \<Rightarrow> ('st, 'p) vm \<Rightarrow> ('r \<times> ('st, 'p) vm) result"

text \<open>The value a handler returns, as a return of the dispatcher.\<close>

definition as_ret :: "('a \<Rightarrow> 'r) \<Rightarrow> ('a \<times> 'v) result \<Rightarrow> ('r \<times> 'v) result" where
  "as_ret f x = r_bind x (\<lambda>(y, v). Inr (f y, v))"

lemma as_ret_Inr [res_inv]: "as_ret f x = Inr (r, v) \<longleftrightarrow> (\<exists>y. x = Inr (y, v) \<and> r = f y)"
  by (auto simp: as_ret_def res_inv)

text \<open>What a response deposits without calling the actor, all that a bare transfer can do.\<close>

definition deposits :: "'m call list \<Rightarrow> int" where
  "deposits cs = sum_list (map (\<lambda>c. case c of Deposit n \<Rightarrow> int n | _ \<Rightarrow> 0) cs)"

lemma deposits_nonneg [simp]: "0 \<le> deposits cs"
  unfolding deposits_def by (rule sum_list_nonneg) (auto split: call.splits)

text \<open>
  A call is delivered with its value credited; a plain deposit only credits. A failed call
  leaves the machine as it was. The \<open>i\<close>-th send of a call is answered by its \<open>i\<close>-th response.
\<close>

function (sequential) invoke ::
    "('st, 'p, 'm, 'r) dispatch \<Rightarrow> 'm call \<Rightarrow> ('st, 'p) vm \<Rightarrow> ('r option \<times> ('st, 'p) vm) result"
  and run_resp ::
    "('st, 'p, 'm, 'r) dispatch \<Rightarrow> 'm resp \<Rightarrow> 'p send_req \<Rightarrow> ('st, 'p) vm \<Rightarrow>
     send_result \<times> ('st, 'p) vm" where
  "invoke d (Call c m rs) v =
     (if value_received c < 0 then Inl (ActorError (SYS_OTHER 0) None)
      else
        r_bind
          (d (\<lambda>i req u. if i < length rs then run_resp d (rs ! i) req u
                        else (SendError LimitExceeded, u))
             c m (v\<lparr>vm_balance := vm_balance v + value_received c\<rparr>))
          (\<lambda>(r, v'). Inr (Some r, v')))"
| "invoke d (Deposit n) v = Inr (None, v\<lparr>vm_balance := vm_balance v + int n\<rparr>)"
| "run_resp d (Resp cs r w) req v =
     (if req_value req < 0 then (SendError IllegalArgument, v)
      else if vm_balance v < req_value req then (SendError InsufficientFunds, v)
      else
        let v1 = debit req v;
            v2 = (if req_method req = METHOD_SEND
                  then v1\<lparr>vm_balance := vm_balance v1 + deposits cs\<rparr>
                  else fold (\<lambda>c u. case invoke d c u of Inl e \<Rightarrow> u | Inr (x, u') \<Rightarrow> u') cs v1)
        in if send_success r \<and> \<not> req_read_only req then (r, v2\<lparr>vm_world := w\<rparr>) else (r, v))"
  by pat_completeness auto
termination
proof (relation "measure (case_sum (\<lambda>(d, c, v). size c) (\<lambda>(d, r, req, v). size r))", goal_cases)
  case (2 d c m rs v i req u)
  then have "rs ! i \<in> set rs" by simp
  then have "size (rs ! i) \<le> size_list size rs"
    by (simp add: size_list_estimation')
  then show ?case by simp
next
  case (3 d cs r w req v v1 c u)
  then have "size c \<le> size_list size cs"
    by (simp add: size_list_estimation')
  then show ?case by simp
qed simp

declare invoke.simps [simp del] run_resp.simps [simp del]

text \<open>A sequence of top-level calls.\<close>

definition run_calls ::
  "('st, 'p, 'm, 'r) dispatch \<Rightarrow> 'm call list \<Rightarrow> ('st, 'p) vm \<Rightarrow> ('st, 'p) vm" where
  "run_calls d cs v = fold (\<lambda>c u. case invoke d c u of Inl e \<Rightarrow> u | Inr (x, u') \<Rightarrow> u') cs v"


section \<open>What a tree of calls keeps\<close>

text \<open>
  What a method may rely on when it sends: a send that fails changes nothing, one that succeeds
  was covered by the balance, a read-only one changes nothing, a bare transfer does nothing but
  move the value (and credit what comes back, as when the actor pays itself), and a send whose payment keeps the invariant ends in a state that has it.
\<close>

definition bare_transfer :: "'p send_req \<Rightarrow> ('st, 'p) vm \<Rightarrow> ('st, 'p) vm \<Rightarrow> bool" where
  "bare_transfer req v v' \<longleftrightarrow>
     (\<exists>w a. 0 \<le> a \<and>
        v' = v\<lparr>vm_balance := vm_balance v - req_value req + a, vm_sends := req # vm_sends v,
               vm_world := w\<rparr>)"

definition sender_ok :: "(('st, 'p) vm \<Rightarrow> bool) \<Rightarrow> ('st, 'p) sender \<Rightarrow> bool" where
  "sender_ok I send \<longleftrightarrow>
     (\<forall>i req v r v'. send i req v = (r, v') \<longrightarrow>
        (send_success r \<or> v' = v) \<and>
        (send_success r \<longrightarrow> 0 \<le> req_value req \<and> req_value req \<le> vm_balance v) \<and>
        (req_read_only req \<longrightarrow> v' = v) \<and>
        (req_method req = METHOD_SEND \<longrightarrow> send_success r \<longrightarrow> \<not> req_read_only req \<longrightarrow> bare_transfer req v v') \<and>
        (I v \<longrightarrow> I (debit req v) \<longrightarrow> I v'))"

lemma sender_okD:
  assumes "sender_ok I send" and "send i req v = (r, v')"
  shows "send_success r \<or> v' = v"
    and "send_success r \<Longrightarrow> 0 \<le> req_value req \<and> req_value req \<le> vm_balance v"
    and "req_read_only req \<Longrightarrow> v' = v"
    and "req_method req = METHOD_SEND \<Longrightarrow> send_success r \<Longrightarrow> \<not> req_read_only req \<Longrightarrow> bare_transfer req v v'"
    and "I v \<Longrightarrow> I (debit req v) \<Longrightarrow> I v'"
  using assms unfolding sender_ok_def by blast+

lemma state_send_keeps:
  assumes "sender_ok (\<lambda>v. J (vm_state v)) send" and "send i req v = (r, v')" and "J (vm_state v)"
  shows "J (vm_state v')"
  using sender_okD(5) [OF assms(1,2)] assms(3) by (simp add: debit_def)

lemma fold_keeps:
  assumes "I v" and "\<And>c u. c \<in> set cs \<Longrightarrow> I u \<Longrightarrow> I (f c u)"
  shows "I (fold f cs v)"
  using assms by (induction cs arbitrary: v) auto

lemma resolve_to_actor_id_frame:
  assumes "sender_ok I send" and "resolve_to_actor_id (send i) a b v = Inr (r, v')"
  shows "vm_state v' = vm_state v" and "vm_balance v \<le> vm_balance v'"
proof -
  have send: "vm_state u = vm_state v \<and> vm_balance v \<le> vm_balance u"
    if "send i (send_simple a METHOD_SEND None 0) v = (x, u)" for x u
    using sender_okD(1,4) [OF assms(1) that] by (auto simp: send_simple_def bare_transfer_def)
  from assms(2) have "vm_state v' = vm_state v \<and> vm_balance v \<le> vm_balance v'"
    by (auto simp: resolve_to_actor_id_def res_inv split: option.splits prod.splits dest: send)
  then show "vm_state v' = vm_state v" and "vm_balance v \<le> vm_balance v'" by auto
qed

text \<open>
  An actor whose methods keep a family of invariants, given that the invariant holds before the value of
  the call is credited. A method may rely on every member of the family being kept by its sends: a
  family indexed by an amount says that the sends do not use up a reserve.
  \<open>reentrant_actor\<close> below is the special case of one invariant that does not account for the value.
\<close>

locale valued_actor =
  fixes d :: "('st, 'p, 'm, 'r) dispatch"
    and I :: "'k \<Rightarrow> ('st, 'p) vm \<Rightarrow> bool"
  assumes valued_dispatch_keeps:
      "(\<And>j. sender_ok (I j) send) \<Longrightarrow> I k v \<Longrightarrow> 0 \<le> value_received c \<Longrightarrow>
       d send c m (v\<lparr>vm_balance := vm_balance v + value_received c\<rparr>) = Inr (r, v') \<Longrightarrow> I k v'"
    and credit_keeps: "I k v \<Longrightarrow> 0 \<le> a \<Longrightarrow> I k (v\<lparr>vm_balance := vm_balance v + a\<rparr>)"
    and world_keeps: "I k v \<Longrightarrow> I k (v\<lparr>vm_world := w\<rparr>)"
begin

lemma sender_of_resps:
  assumes "\<And>r. r \<in> set rs \<Longrightarrow> sender_ok (I k) (\<lambda>i. run_resp d r)"
  shows "sender_ok (I k) (\<lambda>i req u. if i < length rs then run_resp d (rs ! i) req u
                                 else (SendError LimitExceeded, u))"
  unfolding sender_ok_def
proof (intro allI impI)
  fix i req v r v'
  assume eq: "(if i < length rs then run_resp d (rs ! i) req v
               else (SendError LimitExceeded, v)) = (r, v')"
  show "(send_success r \<or> v' = v) \<and>
        (send_success r \<longrightarrow> 0 \<le> req_value req \<and> req_value req \<le> vm_balance v) \<and>
        (req_read_only req \<longrightarrow> v' = v) \<and>
        (req_method req = METHOD_SEND \<longrightarrow> send_success r \<longrightarrow> \<not> req_read_only req \<longrightarrow> bare_transfer req v v') \<and>
        (I k v \<longrightarrow> I k (debit req v) \<longrightarrow> I k v')"
  proof (cases "i < length rs")
    case True
    then have "sender_ok (I k) (\<lambda>_. run_resp d (rs ! i))"
      using assms by simp
    moreover from True eq have "(\<lambda>_. run_resp d (rs ! i)) i req v = (r, v')" by simp
    ultimately show ?thesis unfolding sender_ok_def by blast
  next
    case False
    with eq show ?thesis by auto
  qed
qed

lemma call_keeps:
  assumes "\<And>r j. r \<in> set rs \<Longrightarrow> sender_ok (I j) (\<lambda>i. run_resp d r)"
    and "I k v" and "invoke d (Call c m rs) v = Inr (x, v')"
  shows "I k v'"
proof -
  from assms(3) obtain r where "0 \<le> value_received c"
    and "d (\<lambda>i req u. if i < length rs then run_resp d (rs ! i) req u
                        else (SendError LimitExceeded, u)) c m
           (v\<lparr>vm_balance := vm_balance v + value_received c\<rparr>) = Inr (r, v')"
    by (auto simp: invoke.simps res_inv split: if_splits)
  then show ?thesis
    using valued_dispatch_keeps [OF sender_of_resps [OF assms(1)] assms(2)] by blast
qed

lemma resp_keeps:
  assumes "\<And>c v x v'. c \<in> set cs \<Longrightarrow> I k v \<Longrightarrow> invoke d c v = Inr (x, v') \<Longrightarrow> I k v'"
  shows "sender_ok (I k) (\<lambda>i. run_resp d (Resp cs r w))"
proof -
  have "I k (fold (\<lambda>c u. case invoke d c u of Inl e \<Rightarrow> u | Inr (x, u') \<Rightarrow> u') cs u)" if "I k u" for u
    using that by (rule fold_keeps [of "I k"]) (auto split: sum.splits dest: assms)
  moreover have "bare_transfer req v
      ((debit req v)\<lparr>vm_balance := vm_balance (debit req v) + deposits cs, vm_world := w\<rparr>)" for req v
    unfolding bare_transfer_def debit_def by (intro exI [of _ w] exI [of _ "deposits cs"]) simp
  moreover have "I k (u\<lparr>vm_balance := vm_balance u + deposits cs\<rparr>)" if "I k u" for u
    using that by (rule credit_keeps) simp
  ultimately show ?thesis
    unfolding sender_ok_def
    by (auto simp: run_resp.simps Let_def world_keeps split: if_splits)
qed

lemma invoke_keeps_all:
  "\<forall>k v x v'. I k v \<longrightarrow> invoke d c v = Inr (x, v') \<longrightarrow> I k v'"
  and resp_sender_ok_all: "\<forall>k. sender_ok (I k) (\<lambda>i. run_resp d r)"
proof (induction c and r rule: call.induct resp.induct)
  case (Call c m rs)
  then show ?case using call_keeps by blast
next
  case (Deposit n)
  then show ?case by (simp add: invoke.simps credit_keeps)
next
  case (Resp cs r w)
  then show ?case by (intro allI resp_keeps) blast
qed

lemma invoke_keeps: "I k v \<Longrightarrow> invoke d c v = Inr (x, v') \<Longrightarrow> I k v'"
  using invoke_keeps_all by blast

lemma resp_sender_ok: "sender_ok (I k) (\<lambda>i. run_resp d r)"
  using resp_sender_ok_all by blast

lemma run_calls_keeps: "I k v \<Longrightarrow> I k (run_calls d cs v)"
  unfolding run_calls_def
  by (rule fold_keeps [of "I k"]) (auto split: sum.splits dest: invoke_keeps)

end

locale reentrant_actor =
  fixes d :: "('st, 'p, 'm, 'r) dispatch"
    and I :: "('st, 'p) vm \<Rightarrow> bool"
  assumes dispatch_keeps:
      "sender_ok I send \<Longrightarrow> I v \<Longrightarrow> d send c m v = Inr (r, v') \<Longrightarrow> I v'"
    and credit_keeps: "I v \<Longrightarrow> 0 \<le> a \<Longrightarrow> I (v\<lparr>vm_balance := vm_balance v + a\<rparr>)"
    and world_keeps: "I v \<Longrightarrow> I (v\<lparr>vm_world := w\<rparr>)"

sublocale reentrant_actor \<subseteq> val: valued_actor d "\<lambda>_ :: unit. I"
  by unfold_locales (use dispatch_keeps credit_keeps world_keeps in blast)+

context reentrant_actor
begin

lemma run_calls_keeps: "I v \<Longrightarrow> I (run_calls d cs v)"
  by (rule val.run_calls_keeps)

lemma resp_sender_ok: "sender_ok I (\<lambda>i. run_resp d r)"
  by (rule val.resp_sender_ok)

end

section \<open>A concrete context\<close>

text \<open>A chain of accounts, a caller at epoch 5 and a sender that accepts every send, for witnesses.\<close>

definition ex_world :: world where
  "ex_world = \<lparr>addr_table = (\<lambda>a. case a of ID i \<Rightarrow> Some i | _ \<Rightarrow> None),
               code_table = (\<lambda>i. Some 0), type_table = (\<lambda>c. Some Account)\<rparr>"

definition ex_ctx :: "address \<Rightarrow> ctx" where
  "ex_ctx a = \<lparr>caller = a, origin = a, receiver = ID 99, value_received = 0, curr_epoch = 5\<rparr>"

definition ex_send :: "('st, 'p) sender" where
  "ex_send i req v = (Response OK None, debit req v)"

text \<open>A sender that pays every send the balance covers.\<close>

definition ex_pay :: "('st, 'p) sender" where
  "ex_pay i req v =
     (if 0 \<le> req_value req \<and> req_value req \<le> vm_balance v \<and> \<not> req_read_only req
      then (Response OK None, debit req v) else (SendError LimitExceeded, v))"

lemma ex_pay_ok: "sender_ok I ex_pay"
proof -
  have "bare_transfer req v (debit req v)" for req :: "'b send_req" and v :: "('a, 'b) vm"
    unfolding bare_transfer_def debit_def by (intro exI [of _ "vm_world v"] exI [of _ 0]) simp
  then show ?thesis by (auto simp: sender_ok_def ex_pay_def split: if_splits)
qed

end
