(* ===== verification/Multisig.thy ===== *)
theory Multisig
  imports Runtime
begin

text \<open>
  The multisig wallet: \<open>actors/multisig/src/state.rs\<close>, \<open>types.rs\<close> and \<open>lib.rs\<close>. The state, every
  method, and the dispatch. The serialisation of the proposal data and the BLAKE2b hash are the
  parameters \<open>ph_serialize\<close> and \<open>ph_hash\<close> of the methods that use them.
\<close>

section \<open>Data\<close>

definition SIGNERS_MAX :: nat where "SIGNERS_MAX = 256"

record txn =
  txn_to :: address
  txn_value :: int
  txn_method :: method_num
  txn_params :: bytes
  approved :: "address list"

record msig_state =
  signers :: "address list"
  num_approvals_threshold :: nat
  next_tx_id :: int
  initial_balance :: int
  start_epoch :: int
  unlock_duration :: int
  pending_txs :: "(int, txn) map2"

record proposal_hash_data =
  ph_requester :: "address option"
  ph_to :: address
  ph_value :: int
  ph_method :: method_num
  ph_params :: bytes

record msig_prims =
  ph_serialize :: "proposal_hash_data \<Rightarrow> bytes option"
  ph_hash :: "bytes \<Rightarrow> bytes"

record msig_constructor_params =
  cp_signers :: "address list"
  cp_num_approvals_threshold :: nat
  cp_unlock_duration :: int
  cp_start_epoch :: int

record propose_params =
  pp_to :: address
  pp_value :: int
  pp_method :: method_num
  pp_params :: bytes

record txn_id_params =
  ti_id :: int
  ti_proposal_hash :: bytes

type_synonym msig_vm = "(msig_state, bytes) vm"
type_synonym msig_send = "(msig_state, bytes) sender"

section \<open>State\<close>

definition is_signer :: "msig_state \<Rightarrow> address \<Rightarrow> bool" where
  "is_signer st a = (a \<in> set (signers st))"

definition set_locked :: "int \<Rightarrow> int \<Rightarrow> int \<Rightarrow> msig_state \<Rightarrow> msig_state" where
  "set_locked start dur amount st =
     st\<lparr>start_epoch := start, unlock_duration := dur, initial_balance := amount\<rparr>"

definition amount_locked :: "msig_state \<Rightarrow> int \<Rightarrow> int" where
  "amount_locked st elapsed =
     (if unlock_duration st \<le> elapsed then 0
      else if elapsed \<le> 0 then initial_balance st
      else
        let remaining = unlock_duration st - elapsed;
            numerator = initial_balance st * remaining
        in div_ceil numerator (unlock_duration st))"

text \<open>
  \<open>purge_approvals\<close> first collects the transactions that carry an approval of the address, then
  rewrites or deletes each of them.
\<close>

definition txns_to_purge :: "address \<Rightarrow> (int, txn) map2 \<Rightarrow> (int, txn) map2" where
  "txns_to_purge a m = filter (\<lambda>(i, t). a \<in> set (approved t)) m"

definition purge_one :: "address \<Rightarrow> int \<times> txn \<Rightarrow> (int, txn) map2 \<Rightarrow> (int, txn) map2" where
  "purge_one a it m =
     (let t = (snd it)\<lparr>approved := filter (\<lambda>b. b \<noteq> a) (approved (snd it))\<rparr>
      in if approved t \<noteq> [] then map2_put (fst it) t m else map2_remove (fst it) m)"

definition purge_approvals :: "address \<Rightarrow> msig_state \<Rightarrow> msig_state" where
  "purge_approvals a st =
     st\<lparr>pending_txs := fold (purge_one a) (txns_to_purge a (pending_txs st)) (pending_txs st)\<rparr>"

text \<open>The subtraction of epochs is on \<open>i64\<close> and panics when it overflows.\<close>

definition check_available :: "msig_state \<Rightarrow> int \<Rightarrow> int \<Rightarrow> int \<Rightarrow> unit result" where
  "check_available st balance amount_to_spend epoch =
     (if amount_to_spend < 0 then Inl illegal_argument
      else if balance < amount_to_spend then Inl insufficient_funds
      else if amount_to_spend = 0 then Inr ()
      else if \<not> in_i64 (epoch - start_epoch st) then Inl Panic
      else
        let remaining_balance = balance - amount_to_spend;
            locked = amount_locked st (epoch - start_epoch st)
        in if remaining_balance < locked then Inl insufficient_funds else Inr ())"

section \<open>Helpers of the methods\<close>

definition compute_proposal_hash :: "msig_prims \<Rightarrow> txn \<Rightarrow> bytes option" where
  "compute_proposal_hash P t =
     map_option (ph_hash P)
       (ph_serialize P
          \<lparr>ph_requester = (case approved t of [] \<Rightarrow> None | a # as \<Rightarrow> Some a),
           ph_to = txn_to t, ph_value = txn_value t, ph_method = txn_method t,
           ph_params = txn_params t\<rparr>)"

definition get_transaction ::
  "msig_prims \<Rightarrow> (int, txn) map2 \<Rightarrow> int \<Rightarrow> bytes \<Rightarrow> txn result" where
  "get_transaction P ptx i proposal_hash =
     (case map2_get ptx i of
        None \<Rightarrow> Inl not_found
      | Some t \<Rightarrow>
          (if proposal_hash \<noteq> [] then
             case compute_proposal_hash P t of
               None \<Rightarrow> Inl illegal_state
             | Some h \<Rightarrow> ensure (proposal_hash = h) illegal_argument (Inr t)
           else Inr t))"

definition send_outcome :: "send_result \<Rightarrow> bytes \<times> exit_code" where
  "send_outcome r =
     (case extract_send_result r of
        Inr (Some d) \<Rightarrow> (d, OK)
      | Inr None \<Rightarrow> ([], OK)
      | Inl e \<Rightarrow> ((case err_data e of Some d \<Rightarrow> d | None \<Rightarrow> []), err_code e))"

definition execute_transaction_if_approved ::
  "msig_send \<Rightarrow> ctx \<Rightarrow> msig_state \<Rightarrow> int \<Rightarrow> txn \<Rightarrow> msig_vm \<Rightarrow>
   ((bool \<times> bytes \<times> exit_code) \<times> msig_vm) result" where
  "execute_transaction_if_approved send c st i t v =
     (if num_approvals_threshold st \<le> length (approved t) then
        r_bind (check_available st (vm_balance v) (txn_value t) (curr_epoch c)) (\<lambda>_.
        r_bind (transaction v (\<lambda>s.
            Inr ((), s\<lparr>pending_txs := snd (map2_delete i (pending_txs s))\<rparr>))) (\<lambda>(_, v1).
        case send 0 (send_simple (txn_to t) (txn_method t) (Some (txn_params t)) (txn_value t)) v1 of
          (r, v2) \<Rightarrow> Inr ((True, send_outcome r), v2)))
      else Inr ((False, [], OK), v))"

definition approve_transaction ::
  "msig_send \<Rightarrow> ctx \<Rightarrow> int \<Rightarrow> txn \<Rightarrow> msig_vm \<Rightarrow>
   ((bool \<times> bytes \<times> exit_code) \<times> msig_vm) result" where
  "approve_transaction send c i t v =
     (if caller c \<in> set (approved t) then Inl forbidden
      else
        let t' = t\<lparr>approved := approved t @ [caller c]\<rparr> in
        r_bind (transaction v (\<lambda>s.
            let s' = s\<lparr>pending_txs := map2_put i t' (pending_txs s)\<rparr> in Inr (s', s')))
          (\<lambda>(s', v1). execute_transaction_if_approved send c s' i t' v1))"

section \<open>Methods\<close>

text \<open>
  The constructor resolves the signers in order; the zero-value send that may create the
  account of the \<open>i\<close>-th signer is the \<open>i\<close>-th send of the call.
\<close>

definition resolve_signer ::
  "(unit, bytes) sender \<Rightarrow> nat \<times> address \<Rightarrow> actor_id list \<times> (unit, bytes) vm \<Rightarrow>
   (actor_id list \<times> (unit, bytes) vm) result" where
  "resolve_signer send ia rv =
     r_bind (resolve_to_actor_id (send (fst ia)) (snd ia) True (snd rv)) (\<lambda>(resolved, v).
       ensure (resolved \<notin> set (fst rv)) illegal_argument (Inr (fst rv @ [resolved], v)))"

definition msig_constructor ::
  "(unit, bytes) sender \<Rightarrow> ctx \<Rightarrow> msig_constructor_params \<Rightarrow> (unit, bytes) vm \<Rightarrow>
   msig_vm result" where
  "msig_constructor send c p v =
     r_bind (validate_immediate_caller_is c [INIT_ACTOR_ADDR]) (\<lambda>_.
     if cp_signers p = [] then Inl illegal_argument
     else if SIGNERS_MAX < length (cp_signers p) then Inl illegal_argument
     else
       r_bind (r_fold (resolve_signer send) (enumerate 0 (cp_signers p)) ([], v)) (\<lambda>(resolved, v1).
       if length (cp_signers p) < cp_num_approvals_threshold p then Inl illegal_argument
       else if cp_num_approvals_threshold p < 1 then Inl illegal_argument
       else if cp_unlock_duration p < 0 then Inl illegal_argument
       else
         let st = \<lparr>signers = map ID resolved,
                   num_approvals_threshold = cp_num_approvals_threshold p,
                   next_tx_id = 0, initial_balance = 0, start_epoch = 0, unlock_duration = 0,
                   pending_txs = map2_empty\<rparr>;
             st' = (if cp_unlock_duration p \<noteq> 0
                    then set_locked (cp_start_epoch p) (cp_unlock_duration p) (value_received c) st
                    else st)
         in Inr \<lparr>vm_state = st', vm_balance = vm_balance v1, vm_world = vm_world v1,
                 vm_sends = vm_sends v1\<rparr>))"

definition propose ::
  "msig_send \<Rightarrow> ctx \<Rightarrow> propose_params \<Rightarrow> msig_vm \<Rightarrow>
   ((int \<times> bool \<times> bytes \<times> exit_code) \<times> msig_vm) result" where
  "propose send c p v =
     (if pp_value p < 0 then Inl illegal_argument
      else
        r_bind (transaction v (\<lambda>st.
            if \<not> is_signer st (caller c) then Inl forbidden
            else if \<not> in_i64 (next_tx_id st + 1) then Inl Panic
            else
              let t_id = next_tx_id st;
                  t = \<lparr>txn_to = pp_to p, txn_value = pp_value p, txn_method = pp_method p,
                       txn_params = pp_params p, approved = []\<rparr>
              in Inr ((t_id, t),
                      st\<lparr>next_tx_id := next_tx_id st + 1,
                         pending_txs := map2_put t_id t (pending_txs st)\<rparr>)))
        (\<lambda>((t_id, t), v1).
        r_bind (approve_transaction send c t_id t v1) (\<lambda>(r, v2). Inr ((t_id, r), v2))))"

definition approve ::
  "msig_prims \<Rightarrow> msig_send \<Rightarrow> ctx \<Rightarrow> txn_id_params \<Rightarrow> msig_vm \<Rightarrow>
   ((bool \<times> bytes \<times> exit_code) \<times> msig_vm) result" where
  "approve P send c p v =
     r_bind (transaction v (\<lambda>st.
         if \<not> is_signer st (caller c) then Inl forbidden
         else r_bind (get_transaction P (pending_txs st) (ti_id p) (ti_proposal_hash p))
                (\<lambda>t. Inr ((st, t), st)))) (\<lambda>((st, t), v1).
     r_bind (execute_transaction_if_approved send c st (ti_id p) t v1) (\<lambda>((applied, out), v2).
     if \<not> applied then approve_transaction send c (ti_id p) t v2
     else Inr ((applied, out), v2)))"

definition cancel ::
  "msig_prims \<Rightarrow> ctx \<Rightarrow> txn_id_params \<Rightarrow> msig_vm \<Rightarrow> (unit \<times> msig_vm) result" where
  "cancel P c p v =
     transaction v (\<lambda>st.
       if \<not> is_signer st (caller c) then Inl forbidden
       else
         case map2_delete (ti_id p) (pending_txs st) of
           (None, ptx) \<Rightarrow> Inl not_found
         | (Some t, ptx) \<Rightarrow>
             (if (case approved t of [] \<Rightarrow> None | a # as \<Rightarrow> Some a) \<noteq> Some (caller c)
              then Inl forbidden
              else
                case compute_proposal_hash P t of
                  None \<Rightarrow> Inl illegal_state
                | Some h \<Rightarrow>
                    (if ti_proposal_hash p \<noteq> [] \<and> ti_proposal_hash p \<noteq> h then Inl illegal_state
                     else Inr ((), st\<lparr>pending_txs := ptx\<rparr>))))"

definition add_signer ::
  "msig_send \<Rightarrow> ctx \<Rightarrow> address \<Rightarrow> bool \<Rightarrow> msig_vm \<Rightarrow> (unit \<times> msig_vm) result" where
  "add_signer send c signer increase v =
     r_bind (validate_immediate_caller_is c [receiver c]) (\<lambda>_.
     r_bind (resolve_to_actor_id (send 0) signer True v) (\<lambda>(resolved, v1).
     transaction v1 (\<lambda>st.
       if SIGNERS_MAX \<le> length (signers st) then Inl forbidden
       else if is_signer st (ID resolved) then Inl forbidden
       else
         Inr ((), st\<lparr>signers := signers st @ [ID resolved],
                     num_approvals_threshold :=
                       (if increase then num_approvals_threshold st + 1
                        else num_approvals_threshold st)\<rparr>))))"

definition remove_signer ::
  "msig_send \<Rightarrow> ctx \<Rightarrow> address \<Rightarrow> bool \<Rightarrow> msig_vm \<Rightarrow> (unit \<times> msig_vm) result" where
  "remove_signer send c signer decrease v =
     r_bind (validate_immediate_caller_is c [receiver c]) (\<lambda>_.
     r_bind (resolve_to_actor_id (send 0) signer False v) (\<lambda>(resolved, v1).
     transaction v1 (\<lambda>st.
       if \<not> is_signer st (ID resolved) then Inl forbidden
       else if length (signers st) = 1 then Inl forbidden
       else if \<not> decrease \<and> length (signers st) - 1 < num_approvals_threshold st
       then Inl illegal_argument
       else if decrease \<and> num_approvals_threshold st < 2 then Inl illegal_argument
       else
         let st1 = st\<lparr>num_approvals_threshold :=
                        (if decrease then num_approvals_threshold st - 1
                         else num_approvals_threshold st)\<rparr>;
             st2 = purge_approvals (ID resolved) st1
         in Inr ((), st2\<lparr>signers := filter (\<lambda>s. s \<noteq> ID resolved) (signers st2)\<rparr>))))"

definition swap_signer ::
  "msig_send \<Rightarrow> ctx \<Rightarrow> address \<Rightarrow> address \<Rightarrow> msig_vm \<Rightarrow> (unit \<times> msig_vm) result" where
  "swap_signer send c from to v =
     r_bind (validate_immediate_caller_is c [receiver c]) (\<lambda>_.
     r_bind (resolve_to_actor_id (send 0) from False v) (\<lambda>(from_resolved, v1).
     r_bind (resolve_to_actor_id (send 1) to True v1) (\<lambda>(to_resolved, v2).
     transaction v2 (\<lambda>st.
       if \<not> is_signer st (ID from_resolved) then Inl forbidden
       else if is_signer st (ID to_resolved) then Inl illegal_argument
       else
         Inr ((), purge_approvals (ID from_resolved)
                    (st\<lparr>signers := filter (\<lambda>s. s \<noteq> ID from_resolved) (signers st)
                                     @ [ID to_resolved]\<rparr>))))))"

definition change_num_approvals_threshold ::
  "ctx \<Rightarrow> nat \<Rightarrow> msig_vm \<Rightarrow> (unit \<times> msig_vm) result" where
  "change_num_approvals_threshold c new_threshold v =
     r_bind (validate_immediate_caller_is c [receiver c]) (\<lambda>_.
     transaction v (\<lambda>st.
       if new_threshold = 0 \<or> length (signers st) < new_threshold then Inl illegal_argument
       else Inr ((), st\<lparr>num_approvals_threshold := new_threshold\<rparr>)))"

definition lock_balance ::
  "ctx \<Rightarrow> int \<Rightarrow> int \<Rightarrow> int \<Rightarrow> msig_vm \<Rightarrow> (unit \<times> msig_vm) result" where
  "lock_balance c start dur amount v =
     r_bind (validate_immediate_caller_is c [receiver c]) (\<lambda>_.
     if dur \<le> 0 then Inl illegal_argument
     else if amount < 0 then Inl illegal_argument
     else
       transaction v (\<lambda>st.
         if unlock_duration st \<noteq> 0 then Inl forbidden
         else Inr ((), set_locked start dur amount st)))"

definition msig_fallback :: "method_num \<Rightarrow> msig_vm \<Rightarrow> (unit \<times> msig_vm) result" where
  "msig_fallback method v =
     (if FIRST_EXPORTED_METHOD_NUMBER \<le> method then Inr ((), v) else Inl unhandled_message)"

section \<open>Dispatch\<close>

datatype msig_msg =
    Propose propose_params
  | Approve txn_id_params
  | Cancel txn_id_params
  | AddSigner address bool
  | RemoveSigner address bool
  | SwapSigner address address
  | ChangeNumApprovalsThreshold nat
  | LockBalance int int int
  | UniversalReceiverHook
  | OtherMethod method_num

datatype msig_ret =
    ProposeReturn "int \<times> bool \<times> bytes \<times> exit_code"
  | ApproveReturn "bool \<times> bytes \<times> exit_code"
  | NoReturn

text \<open>
  The method number of a message; that of the receiver hook is an exported (FRC-42) number, at
  least \<open>FIRST_EXPORTED_METHOD_NUMBER\<close>, so that it is open to every caller.
\<close>

fun msig_method :: "msig_msg \<Rightarrow> method_num" where
  "msig_method (Propose p) = 2"
| "msig_method (Approve p) = 3"
| "msig_method (Cancel p) = 4"
| "msig_method (AddSigner a b) = 5"
| "msig_method (RemoveSigner a b) = 6"
| "msig_method (SwapSigner a b) = 7"
| "msig_method (ChangeNumApprovalsThreshold n) = 8"
| "msig_method (LockBalance s d a) = 9"
| "msig_method UniversalReceiverHook = FIRST_EXPORTED_METHOD_NUMBER"
| "msig_method (OtherMethod m) = m"

definition msig_dispatch :: "msig_prims \<Rightarrow> (msig_state, bytes, msig_msg, msig_ret) dispatch" where
  "msig_dispatch P send c m v =
     r_bind (restrict_internal_api c v (msig_method m)) (\<lambda>_.
     case m of
       Propose p \<Rightarrow> as_ret ProposeReturn (propose send c p v)
     | Approve p \<Rightarrow> as_ret ApproveReturn (approve P send c p v)
     | Cancel p \<Rightarrow> as_ret (\<lambda>_. NoReturn) (cancel P c p v)
     | AddSigner a inc \<Rightarrow> as_ret (\<lambda>_. NoReturn) (add_signer send c a inc v)
     | RemoveSigner a dec \<Rightarrow> as_ret (\<lambda>_. NoReturn) (remove_signer send c a dec v)
     | SwapSigner a b \<Rightarrow> as_ret (\<lambda>_. NoReturn) (swap_signer send c a b v)
     | ChangeNumApprovalsThreshold n \<Rightarrow>
         as_ret (\<lambda>_. NoReturn) (change_num_approvals_threshold c n v)
     | LockBalance s dur a \<Rightarrow> as_ret (\<lambda>_. NoReturn) (lock_balance c s dur a v)
     | UniversalReceiverHook \<Rightarrow> Inr (NoReturn, v)
     | OtherMethod n \<Rightarrow> as_ret (\<lambda>_. NoReturn) (msig_fallback n v))"


section \<open>Vesting of the locked balance\<close>

lemma amount_locked_bounds:
  assumes "0 \<le> initial_balance st"
  shows "0 \<le> amount_locked st e" and "amount_locked st e \<le> initial_balance st"
proof -
  let ?d = "unlock_duration st" and ?b = "initial_balance st"
  have "0 \<le> div_ceil (?b * (?d - e)) ?d \<and> div_ceil (?b * (?d - e)) ?d \<le> ?b"
    if "0 < e" "e < ?d"
  proof
    from that have d: "0 < ?d" by simp
    from that assms show "0 \<le> div_ceil (?b * (?d - e)) ?d"
      by (intro div_ceil_nonneg) auto
    from that assms have "?b * (?d - e) \<le> ?b * ?d"
      by (intro mult_left_mono) auto
    from div_ceil_mono [OF d this] d show "div_ceil (?b * (?d - e)) ?d \<le> ?b"
      by simp
  qed
  with assms show "0 \<le> amount_locked st e" and "amount_locked st e \<le> ?b"
    by (auto simp: amount_locked_def Let_def)
qed

lemma amount_locked_antimono:
  assumes "0 \<le> initial_balance st" and "e \<le> e'"
  shows "amount_locked st e' \<le> amount_locked st e"
proof (cases "unlock_duration st \<le> e' \<or> e \<le> 0")
  case True
  then show ?thesis
  proof
    assume "unlock_duration st \<le> e'"
    then have "amount_locked st e' = 0" by (simp add: amount_locked_def)
    with amount_locked_bounds(1) [OF assms(1)] show ?thesis by simp
  next
    assume "e \<le> 0"
    show ?thesis
    proof (cases "unlock_duration st \<le> e")
      case True
      with assms(2) show ?thesis by (simp add: amount_locked_def)
    next
      case False
      with \<open>e \<le> 0\<close> have "amount_locked st e = initial_balance st"
        by (simp add: amount_locked_def)
      with amount_locked_bounds(2) [OF assms(1)] show ?thesis by simp
    qed
  qed
next
  case False
  with assms have "0 < unlock_duration st"
    and "initial_balance st * (unlock_duration st - e') \<le> initial_balance st * (unlock_duration st - e)"
    by (auto intro: mult_left_mono)
  then have "div_ceil (initial_balance st * (unlock_duration st - e')) (unlock_duration st)
      \<le> div_ceil (initial_balance st * (unlock_duration st - e)) (unlock_duration st)"
    by (rule div_ceil_mono)
  with False assms(2) show ?thesis by (simp add: amount_locked_def Let_def)
qed

lemma check_available_Inr [res_inv]:
  "check_available st b a e = Inr u \<longleftrightarrow>
     0 \<le> a \<and> a \<le> b \<and>
     (a = 0 \<or> in_i64 (e - start_epoch st) \<and> amount_locked st (e - start_epoch st) \<le> b - a)"
  by (auto simp: check_available_def Let_def)

section \<open>Purging the approvals of a signer\<close>

definition purge_spec :: "address \<Rightarrow> txn \<Rightarrow> txn option" where
  "purge_spec a t =
     (let as = filter (\<lambda>b. b \<noteq> a) (approved t)
      in if a \<notin> set (approved t) then Some t
         else if as = [] then None else Some (t\<lparr>approved := as\<rparr>))"

lemma map2_get_purge_one:
  "map2_get (purge_one a (i, t) m) j =
     (if j = i then (let as = filter (\<lambda>b. b \<noteq> a) (approved t)
                     in if as = [] then None else Some (t\<lparr>approved := as\<rparr>))
      else map2_get m j)"
  by (simp add: purge_one_def Let_def)

lemma map2_get_purge_fold:
  assumes "distinct (map fst L)"
  shows "map2_get (fold (purge_one a) L m) j =
    (case map_of L j of
       None \<Rightarrow> map2_get m j
     | Some t \<Rightarrow> (let as = filter (\<lambda>b. b \<noteq> a) (approved t)
                  in if as = [] then None else Some (t\<lparr>approved := as\<rparr>)))"
  using assms
proof (induction L arbitrary: m)
  case (Cons it L)
  obtain i t where it: "it = (i, t)" by (cases it)
  from Cons.prems it have "map_of L i = None"
    by (simp add: map_of_eq_None_iff)
  with Cons it show ?case
    by (auto simp: map2_get_purge_one split: option.splits)
qed simp

lemma map_of_filter_val:
  "distinct (map fst m) \<Longrightarrow>
   map_of (filter (\<lambda>(i, t). P t) m) j =
     (case map_of m j of None \<Rightarrow> None | Some t \<Rightarrow> if P t then Some t else None)"
proof (induction m)
  case (Cons it m)
  obtain i t where it: "it = (i, t)" by (cases it)
  from Cons.prems it have "map_of m i = None"
    by (simp add: map_of_eq_None_iff)
  with Cons it show ?case by auto
qed simp

lemma map2_get_purge_approvals:
  assumes "map2_ok (pending_txs st)"
  shows "map2_get (pending_txs (purge_approvals a st)) j =
    Option.bind (map2_get (pending_txs st) j) (purge_spec a)"
proof -
  have "distinct (map fst (txns_to_purge a (pending_txs st)))"
    using assms unfolding map2_ok_def txns_to_purge_def
    by (metis distinct_map_filter)
  then have "map2_get (pending_txs (purge_approvals a st)) j =
    (case map_of (txns_to_purge a (pending_txs st)) j of
       None \<Rightarrow> map2_get (pending_txs st) j
     | Some t \<Rightarrow> (let as = filter (\<lambda>b. b \<noteq> a) (approved t)
                  in if as = [] then None else Some (t\<lparr>approved := as\<rparr>)))"
    by (simp add: purge_approvals_def map2_get_purge_fold)
  also have "map_of (txns_to_purge a (pending_txs st)) j =
      (case map2_get (pending_txs st) j of
         None \<Rightarrow> None | Some t \<Rightarrow> if a \<in> set (approved t) then Some t else None)"
    using assms unfolding map2_ok_def txns_to_purge_def map2_get_def
    by (rule map_of_filter_val)
  finally show ?thesis
    by (auto simp: purge_spec_def Let_def split: option.splits)
qed

lemma map2_ok_purge_approvals: "map2_ok (pending_txs st) \<Longrightarrow> map2_ok (pending_txs (purge_approvals a st))"
proof -
  assume "map2_ok (pending_txs st)"
  moreover have "map2_ok (fold (purge_one a) L m)" if "map2_ok m" for L m
    using that by (rule fold_keeps [of map2_ok]) (simp add: purge_one_def Let_def)
  ultimately show ?thesis by (simp add: purge_approvals_def)
qed

lemma purge_approvals_frame [simp]:
  "signers (purge_approvals a st) = signers st"
  "num_approvals_threshold (purge_approvals a st) = num_approvals_threshold st"
  "next_tx_id (purge_approvals a st) = next_tx_id st"
  "initial_balance (purge_approvals a st) = initial_balance st"
  "unlock_duration (purge_approvals a st) = unlock_duration st"
  "start_epoch (purge_approvals a st) = start_epoch st"
  by (simp_all add: purge_approvals_def)

section \<open>The invariant of the wallet\<close>

definition txn_ok :: "msig_state \<Rightarrow> int \<Rightarrow> txn \<Rightarrow> bool" where
  "txn_ok st i t \<longleftrightarrow>
     0 \<le> i \<and> i < next_tx_id st \<and> 0 \<le> txn_value t \<and>
     approved t \<noteq> [] \<and> distinct (approved t) \<and> set (approved t) \<subseteq> set (signers st)"

definition msig_inv :: "msig_state \<Rightarrow> bool" where
  "msig_inv st \<longleftrightarrow>
     distinct (signers st) \<and> length (signers st) \<le> SIGNERS_MAX \<and>
     1 \<le> num_approvals_threshold st \<and> num_approvals_threshold st \<le> length (signers st) \<and>
     0 \<le> next_tx_id st \<and> next_tx_id st < 2 ^ 63 \<and>
     0 \<le> initial_balance st \<and> 0 \<le> unlock_duration st \<and>
     map2_ok (pending_txs st) \<and>
     (\<forall>i t. map2_get (pending_txs st) i = Some t \<longrightarrow> txn_ok st i t)"

lemma txn_ok_purged:
  assumes "txn_ok st i t" and "purge_spec a t = Some t'"
  shows "approved t' \<noteq> [] \<and> distinct (approved t') \<and> set (approved t') \<subseteq> set (signers st) - {a}
    \<and> txn_value t' = txn_value t"
  using assms by (auto simp: txn_ok_def purge_spec_def Let_def split: if_splits)

lemma msig_inv_purge:
  assumes "msig_inv st"
    and "distinct S" "length S \<le> SIGNERS_MAX" "set (signers st) - {a} \<subseteq> set S"
    and "1 \<le> n" "n \<le> length S"
  shows "msig_inv ((purge_approvals a st)\<lparr>signers := S, num_approvals_threshold := n\<rparr>)"
proof -
  have ok: "map2_ok (pending_txs st)" using assms(1) by (simp add: msig_inv_def)
  have "txn_ok ((purge_approvals a st)\<lparr>signers := S, num_approvals_threshold := n\<rparr>) i t'"
    if "map2_get (pending_txs (purge_approvals a st)) i = Some t'" for i t'
  proof -
    from that ok obtain t where t: "map2_get (pending_txs st) i = Some t" "purge_spec a t = Some t'"
      by (auto simp: map2_get_purge_approvals bind_eq_Some_conv)
    with assms(1) have "txn_ok st i t" by (simp add: msig_inv_def)
    with txn_ok_purged [OF this t(2)] assms(4) show ?thesis
      by (auto simp: txn_ok_def)
  qed
  with assms ok show ?thesis
    by (simp add: msig_inv_def map2_ok_purge_approvals)
qed


lemma msig_inv_remove:
  "msig_inv st \<Longrightarrow> msig_inv (st\<lparr>pending_txs := map2_remove i (pending_txs st)\<rparr>)"
  by (auto simp: msig_inv_def txn_ok_def)

lemma msig_inv_put:
  "msig_inv st \<Longrightarrow> txn_ok st i t \<Longrightarrow> msig_inv (st\<lparr>pending_txs := map2_put i t (pending_txs st)\<rparr>)"
  by (auto simp: msig_inv_def txn_ok_def)

abbreviation msig_vm_inv :: "msig_vm \<Rightarrow> bool" where
  "msig_vm_inv v \<equiv> msig_inv (vm_state v)"

text \<open>What an execution is, when it succeeds: the transaction is deleted before the send.\<close>

lemma execute_transaction_if_approved_Inr:
  "execute_transaction_if_approved send c st i t v = Inr ((applied, out), v') \<longleftrightarrow>
     (if num_approvals_threshold st \<le> length (approved t) then
        applied \<and> check_available st (vm_balance v) (txn_value t) (curr_epoch c) = Inr () \<and>
        (\<exists>r. send 0 (send_simple (txn_to t) (txn_method t) (Some (txn_params t)) (txn_value t))
               (v\<lparr>vm_state := (vm_state v)\<lparr>pending_txs := map2_remove i (pending_txs (vm_state v))\<rparr>\<rparr>)
             = (r, v') \<and> out = send_outcome r)
      else \<not> applied \<and> out = ([], OK) \<and> v' = v)"
  by (auto simp: execute_transaction_if_approved_def r_bind_eq_Inr transaction_Inr map2_delete_def
      split: prod.splits)

lemma execute_keeps_inv:
  assumes "sender_ok msig_vm_inv send" and "msig_vm_inv v"
    and "execute_transaction_if_approved send c st i t v = Inr (x, v')"
  shows "msig_vm_inv v'"
proof -
  obtain applied out where x: "x = (applied, out)" by (cases x)
  show ?thesis
  proof (cases "num_approvals_threshold st \<le> length (approved t)")
    case True
    let ?v1 = "v\<lparr>vm_state := (vm_state v)\<lparr>pending_txs := map2_remove i (pending_txs (vm_state v))\<rparr>\<rparr>"
    from True assms(3) x obtain r
      where "send 0 (send_simple (txn_to t) (txn_method t) (Some (txn_params t)) (txn_value t)) ?v1
        = (r, v')"
      by (auto simp: execute_transaction_if_approved_Inr)
    from sender_okD(5) [OF assms(1) this] assms(2) show ?thesis
      by (simp add: debit_def msig_inv_remove)
  next
    case False
    with assms(2,3) x show ?thesis
      by (simp add: execute_transaction_if_approved_Inr)
  qed
qed

lemma approve_transaction_Inr:
  "approve_transaction send c i t v = Inr (x, v') \<longleftrightarrow>
     caller c \<notin> set (approved t) \<and>
     (let t' = t\<lparr>approved := approved t @ [caller c]\<rparr>;
          s' = (vm_state v)\<lparr>pending_txs := map2_put i t' (pending_txs (vm_state v))\<rparr>
      in execute_transaction_if_approved send c s' i t' (v\<lparr>vm_state := s'\<rparr>) = Inr (x, v'))"
  by (auto simp: approve_transaction_def r_bind_eq_Inr transaction_def Let_def)

lemma approve_transaction_keeps_inv:
  assumes "sender_ok msig_vm_inv send"
    and "msig_inv ((vm_state v)\<lparr>pending_txs :=
           map2_put i (t\<lparr>approved := approved t @ [caller c]\<rparr>) (pending_txs (vm_state v))\<rparr>)"
    and "approve_transaction send c i t v = Inr (x, v')"
  shows "msig_vm_inv v'"
proof -
  let ?t = "t\<lparr>approved := approved t @ [caller c]\<rparr>"
  let ?s = "(vm_state v)\<lparr>pending_txs := map2_put i ?t (pending_txs (vm_state v))\<rparr>"
  from assms(3) have "execute_transaction_if_approved send c ?s i ?t (v\<lparr>vm_state := ?s\<rparr>) = Inr (x, v')"
    by (simp add: approve_transaction_Inr Let_def)
  from execute_keeps_inv [OF assms(1) _ this] assms(2) show ?thesis by simp
qed

lemma propose_keeps_inv:
  assumes ok: "sender_ok msig_vm_inv send" and inv: "msig_vm_inv v"
    and "propose send c p v = Inr (x, v')"
  shows "msig_vm_inv v'"
proof -
  let ?st = "vm_state v"
  let ?t = "\<lparr>txn_to = pp_to p, txn_value = pp_value p, txn_method = pp_method p,
             txn_params = pp_params p, approved = []\<rparr>"
  let ?st1 = "?st\<lparr>next_tx_id := next_tx_id ?st + 1,
                  pending_txs := map2_put (next_tx_id ?st) ?t (pending_txs ?st)\<rparr>"
  from assms(3) obtain y where p: "0 \<le> pp_value p" "is_signer ?st (caller c)"
    "in_i64 (next_tx_id ?st + 1)"
    and app: "approve_transaction send c (next_tx_id ?st) ?t (v\<lparr>vm_state := ?st1\<rparr>) = Inr (y, v')"
    by (auto simp: propose_def res_inv Let_def split: if_splits)
  have "msig_inv ((vm_state (v\<lparr>vm_state := ?st1\<rparr>))\<lparr>pending_txs :=
      map2_put (next_tx_id ?st) (?t\<lparr>approved := approved ?t @ [caller c]\<rparr>)
        (pending_txs (vm_state (v\<lparr>vm_state := ?st1\<rparr>)))\<rparr>)"
    using inv p by (fastforce simp: msig_inv_def txn_ok_def is_signer_def in_i64_def)
  from approve_transaction_keeps_inv [OF ok this app] show ?thesis .
qed

lemma get_transaction_Inr:
  "get_transaction P m i h = Inr t \<Longrightarrow> map2_get m i = Some t"
  by (auto simp: get_transaction_def res_inv split: option.splits if_splits)

lemma approve_cases:
  assumes "approve P send c p v = Inr (x, v')"
  obtains (executed) t out where "is_signer (vm_state v) (caller c)"
      "map2_get (pending_txs (vm_state v)) (ti_id p) = Some t"
      "execute_transaction_if_approved send c (vm_state v) (ti_id p) t v = Inr ((True, out), v')"
      "x = (True, out)"
    | (approved) t where "is_signer (vm_state v) (caller c)"
      "map2_get (pending_txs (vm_state v)) (ti_id p) = Some t"
      "length (approved t) < num_approvals_threshold (vm_state v)"
      "approve_transaction send c (ti_id p) t v = Inr (x, v')"
proof -
  from assms obtain t applied out v2
    where t: "is_signer (vm_state v) (caller c)"
      "get_transaction P (pending_txs (vm_state v)) (ti_id p) (ti_proposal_hash p) = Inr t"
      and ex: "execute_transaction_if_approved send c (vm_state v) (ti_id p) t v
        = Inr ((applied, out), v2)"
      and rest: "(if \<not> applied then approve_transaction send c (ti_id p) t v2
        else Inr ((applied, out), v2)) = Inr (x, v')"
    by (auto simp: approve_def res_inv split: if_splits)
  from t(2) have get: "map2_get (pending_txs (vm_state v)) (ti_id p) = Some t"
    by (rule get_transaction_Inr)
  show thesis
  proof (cases applied)
    case True
    with rest have "x = (True, out)" "v2 = v'" by auto
    with True ex executed [OF t(1) get] show thesis by simp
  next
    case False
    with ex have "v2 = v" "length (approved t) < num_approvals_threshold (vm_state v)"
      by (auto simp: execute_transaction_if_approved_Inr split: if_splits)
    with False rest approved [OF t(1) get] show thesis by simp
  qed
qed

lemma approve_keeps_inv:
  assumes ok: "sender_ok msig_vm_inv send" and inv: "msig_vm_inv v"
    and "approve P send c p v = Inr (x, v')"
  shows "msig_vm_inv v'"
  using assms(3)
proof (cases rule: approve_cases)
  case (executed t out)
  from execute_keeps_inv [OF ok inv executed(3)] show ?thesis .
next
  case (approved t)
  then have "caller c \<notin> set (approved t)"
    by (simp add: approve_transaction_Inr)
  with approved(1,2) inv
  have "txn_ok (vm_state v) (ti_id p) (t\<lparr>approved := Multisig.approved t @ [caller c]\<rparr>)"
    by (auto simp: msig_inv_def txn_ok_def is_signer_def)
  from approve_transaction_keeps_inv [OF ok msig_inv_put [OF inv this] approved(4)]
  show ?thesis .
qed


lemma cancel_Inr:
  assumes "cancel P c p v = Inr (u, v')"
  obtains t where "is_signer (vm_state v) (caller c)"
    "map2_get (pending_txs (vm_state v)) (ti_id p) = Some t"
    "\<exists>as. approved t = caller c # as"
    "v' = v\<lparr>vm_state := (vm_state v)\<lparr>pending_txs := map2_remove (ti_id p) (pending_txs (vm_state v))\<rparr>\<rparr>"
  using assms
  by (auto simp: cancel_def res_inv map2_delete_def split: if_splits option.splits list.splits)

lemma cancel_keeps_inv: "msig_vm_inv v \<Longrightarrow> cancel P c p v = Inr (u, v') \<Longrightarrow> msig_vm_inv v'"
  by (erule cancel_Inr) (simp add: msig_inv_remove)

lemma add_signer_keeps_inv:
  assumes "sender_ok I send" and "msig_vm_inv v" and "add_signer send c a inc v = Inr (u, v')"
  shows "msig_vm_inv v'"
proof -
  from assms(3) obtain i v1 st where r: "resolve_to_actor_id (send 0) a True v = Inr (i, v1)"
    and st: "length (signers (vm_state v1)) < SIGNERS_MAX" "\<not> is_signer (vm_state v1) (ID i)"
      "v' = v1\<lparr>vm_state := (vm_state v1)\<lparr>signers := signers (vm_state v1) @ [ID i],
         num_approvals_threshold :=
           (if inc then num_approvals_threshold (vm_state v1) + 1
            else num_approvals_threshold (vm_state v1))\<rparr>\<rparr>"
    by (auto simp: add_signer_def res_inv split: if_splits)
  from resolve_to_actor_id_frame(1) [OF assms(1) r] assms(2) have "msig_vm_inv v1" by simp
  with st show ?thesis
    by (auto simp: msig_inv_def txn_ok_def is_signer_def)
qed

lemma length_remove_one:
  "distinct xs \<Longrightarrow> x \<in> set xs \<Longrightarrow> length (filter (\<lambda>y. y \<noteq> x) xs) = length xs - 1"
proof -
  assume d: "distinct xs" and x: "x \<in> set xs"
  then have "filter (\<lambda>y. y \<noteq> x) xs = remove1 x xs"
    by (simp add: distinct_remove1_removeAll removeAll_filter_not_eq eq_commute)
  with x show ?thesis by (simp add: length_remove1)
qed

lemma remove_signer_keeps_inv:
  assumes "sender_ok I send" and "msig_vm_inv v" and "remove_signer send c a dec v = Inr (u, v')"
  shows "msig_vm_inv v'"
proof -
  from assms(3) obtain i v1 where r: "resolve_to_actor_id (send 0) a False v = Inr (i, v1)"
    and g: "is_signer (vm_state v1) (ID i)" "length (signers (vm_state v1)) \<noteq> 1"
      "\<not> dec \<Longrightarrow> num_approvals_threshold (vm_state v1) \<le> length (signers (vm_state v1)) - 1"
      "dec \<Longrightarrow> 2 \<le> num_approvals_threshold (vm_state v1)"
    and v': "v' = v1\<lparr>vm_state := (purge_approvals (ID i) (vm_state v1))\<lparr>
        signers := filter (\<lambda>s. s \<noteq> ID i) (signers (vm_state v1)),
        num_approvals_threshold :=
          (if dec then num_approvals_threshold (vm_state v1) - 1
           else num_approvals_threshold (vm_state v1))\<rparr>\<rparr>"
    by (auto simp: remove_signer_def res_inv Let_def purge_approvals_def split: if_splits)
  from resolve_to_actor_id_frame(1) [OF assms(1) r] assms(2) have inv: "msig_vm_inv v1" by simp
  let ?S = "filter (\<lambda>s. s \<noteq> ID i) (signers (vm_state v1))"
  from inv g(1) have len: "length ?S = length (signers (vm_state v1)) - 1"
    by (intro length_remove_one) (auto simp: msig_inv_def is_signer_def)
  have "msig_inv ((purge_approvals (ID i) (vm_state v1))\<lparr>signers := ?S,
      num_approvals_threshold :=
        (if dec then num_approvals_threshold (vm_state v1) - 1
         else num_approvals_threshold (vm_state v1))\<rparr>)"
    by (rule msig_inv_purge [OF inv]) (use inv g len in \<open>auto simp: msig_inv_def\<close>)
  then show ?thesis unfolding v' by simp
qed

lemma swap_signer_keeps_inv:
  assumes "sender_ok I send" and "msig_vm_inv v" and "swap_signer send c a b v = Inr (u, v')"
  shows "msig_vm_inv v'"
proof -
  from assms(3) obtain i j v1 v2 where r: "resolve_to_actor_id (send 0) a False v = Inr (i, v1)"
      "resolve_to_actor_id (send 1) b True v1 = Inr (j, v2)"
    and g: "is_signer (vm_state v2) (ID i)" "\<not> is_signer (vm_state v2) (ID j)"
    and v': "v' = v2\<lparr>vm_state := (purge_approvals (ID i) (vm_state v2))\<lparr>
        signers := filter (\<lambda>s. s \<noteq> ID i) (signers (vm_state v2)) @ [ID j],
        num_approvals_threshold := num_approvals_threshold (vm_state v2)\<rparr>\<rparr>"
    by (auto simp: swap_signer_def res_inv purge_approvals_def split: if_splits)
  from resolve_to_actor_id_frame(1) [OF assms(1) r(1)] resolve_to_actor_id_frame(1) [OF assms(1) r(2)]
    assms(2) have inv: "msig_vm_inv v2" by simp
  let ?S = "filter (\<lambda>s. s \<noteq> ID i) (signers (vm_state v2))"
  from inv g(1) have len: "length ?S = length (signers (vm_state v2)) - 1"
    by (intro length_remove_one) (auto simp: msig_inv_def is_signer_def)
  have "msig_inv ((purge_approvals (ID i) (vm_state v2))\<lparr>signers := ?S @ [ID j],
      num_approvals_threshold := num_approvals_threshold (vm_state v2)\<rparr>)"
    by (rule msig_inv_purge [OF inv]) (use inv g len in \<open>auto simp: msig_inv_def is_signer_def\<close>)
  then show ?thesis unfolding v' by simp
qed

lemma change_num_approvals_threshold_keeps_inv:
  "msig_vm_inv v \<Longrightarrow> change_num_approvals_threshold c n v = Inr (u, v') \<Longrightarrow> msig_vm_inv v'"
  by (auto simp: change_num_approvals_threshold_def res_inv msig_inv_def txn_ok_def split: if_splits)

lemma lock_balance_keeps_inv:
  "msig_vm_inv v \<Longrightarrow> lock_balance c s dur a v = Inr (u, v') \<Longrightarrow> msig_vm_inv v'"
  by (auto simp: lock_balance_def res_inv msig_inv_def txn_ok_def set_locked_def split: if_splits)

lemma msig_fallback_Inr: "msig_fallback n v = Inr (u, v') \<Longrightarrow> v' = v"
  by (auto simp: msig_fallback_def split: if_splits)

lemmas msig_methods_keep_inv =
  propose_keeps_inv approve_keeps_inv cancel_keeps_inv add_signer_keeps_inv
  remove_signer_keeps_inv swap_signer_keeps_inv change_num_approvals_threshold_keeps_inv
  lock_balance_keeps_inv

lemma msig_dispatch_keeps_inv:
  assumes "sender_ok msig_vm_inv send" and "msig_vm_inv v"
    and "msig_dispatch P send c m v = Inr (r, v')"
  shows "msig_vm_inv v'"
  using assms
  by (cases m)
    (auto simp: msig_dispatch_def r_bind_eq_Inr as_ret_Inr
      dest: msig_fallback_Inr msig_methods_keep_inv)

interpretation ms: reentrant_actor "msig_dispatch P" msig_vm_inv for P
  by unfold_locales (auto intro: msig_dispatch_keeps_inv)


section \<open>Transaction identifiers are used once\<close>

text \<open>
  An identifier is spent once it has been allocated and is no longer pending: it was executed,
  cancelled, or purged with its last approval.
\<close>

definition spent_id :: "int \<Rightarrow> msig_state \<Rightarrow> bool" where
  "spent_id i st \<longleftrightarrow> i < next_tx_id st \<and> map2_get (pending_txs st) i = None"

abbreviation spent_in :: "int \<Rightarrow> msig_vm \<Rightarrow> bool" where
  "spent_in i v \<equiv> spent_id i (vm_state v) \<and> map2_ok (pending_txs (vm_state v))"

lemma execute_keeps_spent:
  assumes "sender_ok (spent_in i) send" and "spent_in i v"
    and "execute_transaction_if_approved send c st j t v = Inr (x, v')"
  shows "spent_in i v'"
proof -
  obtain applied out where x: "x = (applied, out)" by (cases x)
  let ?v1 = "v\<lparr>vm_state := (vm_state v)\<lparr>pending_txs := map2_remove j (pending_txs (vm_state v))\<rparr>\<rparr>"
  consider "v' = v" | r where "send 0 (send_simple (txn_to t) (txn_method t) (Some (txn_params t))
      (txn_value t)) ?v1 = (r, v')"
    using assms(3) x by (auto simp: execute_transaction_if_approved_Inr split: if_splits)
  then show ?thesis
  proof cases
    case 1
    with assms(2) show ?thesis by simp
  next
    case 2
    from sender_okD(5) [OF assms(1) 2] assms(2) show ?thesis
      by (simp add: debit_def spent_id_def)
  qed
qed

lemma approve_transaction_keeps_spent:
  assumes "sender_ok (spent_in i) send" and "spent_in i v" and "j \<noteq> i"
    and "approve_transaction send c j t v = Inr (x, v')"
  shows "spent_in i v'"
proof -
  let ?t = "t\<lparr>approved := approved t @ [caller c]\<rparr>"
  let ?s = "(vm_state v)\<lparr>pending_txs := map2_put j ?t (pending_txs (vm_state v))\<rparr>"
  from assms(4) have "execute_transaction_if_approved send c ?s j ?t (v\<lparr>vm_state := ?s\<rparr>) = Inr (x, v')"
    by (simp add: approve_transaction_Inr Let_def)
  from execute_keeps_spent [OF assms(1) _ this] assms(2,3) show ?thesis
    by (simp add: spent_id_def)
qed

lemma propose_keeps_spent:
  assumes "sender_ok (spent_in i) send" and "spent_in i v" and "propose send c p v = Inr (x, v')"
  shows "spent_in i v'"
proof -
  from assms(3) obtain t st1 y where st1: "st1 = (vm_state v)\<lparr>next_tx_id := next_tx_id (vm_state v) + 1,
      pending_txs := map2_put (next_tx_id (vm_state v)) t (pending_txs (vm_state v))\<rparr>"
    and app: "approve_transaction send c (next_tx_id (vm_state v)) t (v\<lparr>vm_state := st1\<rparr>) = Inr (y, v')"
    by (auto simp: propose_def res_inv Let_def split: if_splits)
  from assms(2) have "spent_in i (v\<lparr>vm_state := st1\<rparr>)" "next_tx_id (vm_state v) \<noteq> i"
    by (auto simp: st1 spent_id_def)
  from approve_transaction_keeps_spent [OF assms(1) this app] show ?thesis .
qed

lemma approve_keeps_spent:
  assumes "sender_ok (spent_in i) send" and "spent_in i v" and "approve P send c p v = Inr (x, v')"
  shows "spent_in i v'"
  using assms(3)
proof (cases rule: approve_cases)
  case (executed t out)
  from execute_keeps_spent [OF assms(1,2) executed(3)] show ?thesis .
next
  case (approved t)
  with assms(2) have "ti_id p \<noteq> i" by (auto simp: spent_id_def)
  from approve_transaction_keeps_spent [OF assms(1,2) this approved(4)] show ?thesis .
qed

lemma purge_keeps_spent:
  "spent_id i st \<Longrightarrow> map2_ok (pending_txs st) \<Longrightarrow>
   spent_id i (purge_approvals a st) \<and> map2_ok (pending_txs (purge_approvals a st))"
  by (simp add: spent_id_def map2_get_purge_approvals map2_ok_purge_approvals)

lemma governance_keeps_spent:
  assumes "sender_ok I send" and "spent_in i v"
  shows "add_signer send c a b v = Inr (u, v') \<Longrightarrow> spent_in i v'"
    and "remove_signer send c a b v = Inr (u, v') \<Longrightarrow> spent_in i v'"
    and "swap_signer send c a a' v = Inr (u, v') \<Longrightarrow> spent_in i v'"
    and "cancel P c p v = Inr (u, v') \<Longrightarrow> spent_in i v'"
    and "change_num_approvals_threshold c n v = Inr (u, v') \<Longrightarrow> spent_in i v'"
    and "lock_balance c s dur amt v = Inr (u, v') \<Longrightarrow> spent_in i v'"
proof -
  note frame = resolve_to_actor_id_frame(1) [OF assms(1)]
  show "add_signer send c a b v = Inr (u, v') \<Longrightarrow> spent_in i v'"
    using assms(2)
    by (auto simp: add_signer_def res_inv spent_id_def split: if_splits dest!: frame)
  show "remove_signer send c a b v = Inr (u, v') \<Longrightarrow> spent_in i v'"
    using assms(2) purge_keeps_spent [of i "vm_state v\<lparr>num_approvals_threshold := k\<rparr>" for k]
    by (auto simp: remove_signer_def res_inv Let_def spent_id_def map2_get_purge_approvals
        map2_ok_purge_approvals split: if_splits dest!: frame)
  show "swap_signer send c a a' v = Inr (u, v') \<Longrightarrow> spent_in i v'"
    using assms(2)
    by (auto simp: swap_signer_def res_inv Let_def spent_id_def map2_get_purge_approvals
        map2_ok_purge_approvals split: if_splits dest!: frame)
  show "cancel P c p v = Inr (u, v') \<Longrightarrow> spent_in i v'"
    using assms(2) by (auto simp: spent_id_def elim!: cancel_Inr)
  show "change_num_approvals_threshold c n v = Inr (u, v') \<Longrightarrow> spent_in i v'"
    using assms(2)
    by (auto simp: change_num_approvals_threshold_def res_inv spent_id_def split: if_splits)
  show "lock_balance c s dur amt v = Inr (u, v') \<Longrightarrow> spent_in i v'"
    using assms(2)
    by (auto simp: lock_balance_def res_inv spent_id_def set_locked_def split: if_splits)
qed

lemma msig_dispatch_keeps_spent:
  assumes "sender_ok (spent_in i) send" and "spent_in i v"
    and "msig_dispatch P send c m v = Inr (r, v')"
  shows "spent_in i v'"
proof -
  note methods = propose_keeps_spent [OF assms(1,2)] approve_keeps_spent [OF assms(1,2)]
    governance_keeps_spent [OF assms(1,2)]
  from assms(2,3) show ?thesis
    by (cases m)
      (auto simp only: msig_dispatch_def r_bind_eq_Inr as_ret_Inr msig_msg.case Inr_inject prod.inject
        dest!: msig_fallback_Inr methods)
qed

interpretation msp: reentrant_actor "msig_dispatch P" "spent_in i" for P i
  by unfold_locales (erule (2) msig_dispatch_keeps_spent, simp_all add: spent_id_def)


lemma resolve_signer_Inr:
  "resolve_signer send x (ids, v) = Inr s \<Longrightarrow> \<exists>k u. k \<notin> set ids \<and> s = (ids @ [k], u)"
  by (auto simp: resolve_signer_def res_inv)

lemma resolve_signers_distinct:
  assumes "r_fold (resolve_signer send) xs (ids, v) = Inr (ids', v')" and "distinct ids"
  shows "distinct ids' \<and> length ids' = length ids + length xs"
  using assms
proof (induction xs arbitrary: ids v)
  case (Cons x xs)
  then obtain s where "resolve_signer send x (ids, v) = Inr s"
    and rest: "r_fold (resolve_signer send) xs s = Inr (ids', v')"
    by (auto simp: r_bind_eq_Inr)
  from resolve_signer_Inr [OF this(1)] obtain k u where "k \<notin> set ids" "s = (ids @ [k], u)"
    by blast
  with Cons.IH [of "ids @ [k]" u] rest Cons.prems(2) show ?case by simp
qed simp

section \<open>Properties\<close>

text \<open>A wallet with two signers and one pending proposal, for the witnesses.\<close>

definition ex_txn :: txn where
  "ex_txn = \<lparr>txn_to = ID 200, txn_value = 40, txn_method = 0, txn_params = [],
             approved = [ID 100]\<rparr>"

definition ex_wallet :: msig_vm where
  "ex_wallet =
     \<lparr>vm_state = \<lparr>signers = [ID 100, ID 101], num_approvals_threshold = 2, next_tx_id = 1,
                  initial_balance = 100, start_epoch = 0, unlock_duration = 10,
                  pending_txs = [(0, ex_txn)]\<rparr>,
      vm_balance = 100, vm_world = ex_world, vm_sends = []\<rparr>"

definition ex_prims :: msig_prims where
  "ex_prims = \<lparr>ph_serialize = (\<lambda>d. Some []), ph_hash = (\<lambda>b. b)\<rparr>"

lemma ex_wallet_inv: "msig_inv (vm_state ex_wallet)"
  by (simp add: ex_wallet_def msig_inv_def SIGNERS_MAX_def map2_ok_def map2_get_def txn_ok_def ex_txn_def)

text \<open>
  C5: whatever sequence of calls reaches the wallet, and whatever the actors it sends to do in
  turn, re-entering it to any depth, the wallet keeps its invariant: between one and 256 distinct
  signers, a threshold between one and their number, and every pending transaction allocated,
  of non-negative value, approved by at least one signer and by no one twice or from outside.
\<close>

theorem msig_run_inv:
  assumes "msig_inv (vm_state v)"
  shows "msig_inv (vm_state (run_calls (msig_dispatch P) cs v))"
  using assms by (rule ms.run_calls_keeps)

theorem msig_run_inv_witness:
  "msig_inv (vm_state ex_wallet) \<and>
   msig_inv (vm_state (run_calls (msig_dispatch ex_prims)
     [Call (ex_ctx (ID 101)) (Approve \<lparr>ti_id = 0, ti_proposal_hash = []\<rparr>) []] ex_wallet))"
  using ex_wallet_inv msig_run_inv [OF ex_wallet_inv] by blast

text \<open>
  The constructor establishes the invariant, on any signers, threshold and vesting schedule
  it accepts.
\<close>

theorem msig_constructor_inv:
  assumes "msig_constructor send c p v = Inr v'" and "0 \<le> value_received c"
  shows "msig_inv (vm_state v') \<and> num_approvals_threshold (vm_state v') = cp_num_approvals_threshold p
    \<and> length (signers (vm_state v')) = length (cp_signers p) \<and> pending_txs (vm_state v') = map2_empty"
proof -
  from assms(1) obtain ids v1
    where "r_fold (resolve_signer send) (enumerate 0 (cp_signers p)) ([], v) = Inr (ids, v1)"
      and guards: "cp_signers p \<noteq> []" "length (cp_signers p) \<le> SIGNERS_MAX"
      "cp_num_approvals_threshold p \<le> length (cp_signers p)" "1 \<le> cp_num_approvals_threshold p"
      "0 \<le> cp_unlock_duration p"
      and v': "signers (vm_state v') = map ID ids" "pending_txs (vm_state v') = map2_empty"
      "num_approvals_threshold (vm_state v') = cp_num_approvals_threshold p"
      "next_tx_id (vm_state v') = 0"
      "initial_balance (vm_state v') = 0 \<or> initial_balance (vm_state v') = value_received c"
      "unlock_duration (vm_state v') = cp_unlock_duration p"
    by (auto simp: msig_constructor_def res_inv Let_def set_locked_def split: if_splits)
  from resolve_signers_distinct [OF this(1)] have "distinct ids" "length ids = length (cp_signers p)"
    by simp_all
  with guards v' assms(2) show ?thesis
    by (auto simp: msig_inv_def distinct_map inj_on_def)
qed

theorem msig_constructor_inv_witness:
  "\<exists>v'. msig_constructor ex_send (ex_ctx INIT_ACTOR_ADDR)
       \<lparr>cp_signers = [ID 100, ID 101], cp_num_approvals_threshold = 2, cp_unlock_duration = 10,
        cp_start_epoch = 0\<rparr>
       \<lparr>vm_state = (), vm_balance = 0, vm_world = ex_world, vm_sends = []\<rparr> = Inr v'
     \<and> msig_inv (vm_state v') \<and> length (signers (vm_state v')) = 2"
proof -
  let ?p = "\<lparr>cp_signers = [ID 100, ID 101], cp_num_approvals_threshold = 2,
             cp_unlock_duration = 10, cp_start_epoch = 0\<rparr>"
  let ?v = "\<lparr>vm_state = (), vm_balance = 0, vm_world = ex_world, vm_sends = []\<rparr>"
  have "\<exists>v'. msig_constructor ex_send (ex_ctx INIT_ACTOR_ADDR) ?p ?v = Inr v'"
    by (simp add: msig_constructor_def validate_immediate_caller_is_def ex_ctx_def SIGNERS_MAX_def
        resolve_signer_def resolve_to_actor_id_def resolve_address_def ex_world_def
        get_actor_code_cid_def Let_def)
  then obtain v' where v': "msig_constructor ex_send (ex_ctx INIT_ACTOR_ADDR) ?p ?v = Inr v'" ..
  have "0 \<le> value_received (ex_ctx INIT_ACTOR_ADDR)" by (simp add: ex_ctx_def)
  from v' msig_constructor_inv [OF v' this] show ?thesis by auto
qed

text \<open>
  C10: a transaction is executed at most once. Once an identifier has been allocated and is no
  longer pending, no sequence of calls, re-entrant ones included, makes it pending again, and
  every later approval of it is refused.
\<close>

theorem msig_executed_at_most_once:
  assumes "spent_id (ti_id p) (vm_state v)" and "map2_ok (pending_txs (vm_state v))"
  shows "spent_id (ti_id p) (vm_state (run_calls (msig_dispatch P) cs v))
    \<and> approve P send c p (run_calls (msig_dispatch P) cs v) \<in> {Inl forbidden, Inl not_found}"
proof -
  from assms have "spent_in (ti_id p) (run_calls (msig_dispatch P) cs v)"
    by (intro msp.run_calls_keeps) simp
  then show ?thesis
    by (simp add: approve_def transaction_def get_transaction_def spent_id_def)
qed

theorem msig_executed_at_most_once_witness:
  "approve ex_prims ex_send (ex_ctx (ID 100)) \<lparr>ti_id = 0, ti_proposal_hash = []\<rparr>
     (run_calls (msig_dispatch ex_prims)
        [Call (ex_ctx (ID 101)) (Approve \<lparr>ti_id = 0, ti_proposal_hash = []\<rparr>) []]
        (ex_wallet\<lparr>vm_state := (vm_state ex_wallet)\<lparr>pending_txs := []\<rparr>\<rparr>))
   \<in> {Inl forbidden, Inl not_found}"
proof -
  let ?v = "ex_wallet\<lparr>vm_state := (vm_state ex_wallet)\<lparr>pending_txs := []\<rparr>\<rparr>"
  have "spent_id (ti_id \<lparr>ti_id = 0, ti_proposal_hash = []\<rparr>) (vm_state ?v)"
    "map2_ok (pending_txs (vm_state ?v))"
    by (simp_all add: spent_id_def ex_wallet_def map2_get_def map2_ok_def)
  from msig_executed_at_most_once [OF this] show ?thesis by blast
qed



text \<open>
  C20: the locked amount is between zero and the initial balance, never grows with the elapsed
  time, is everything before the start and nothing once the unlock duration has elapsed, and is
  never below the linear schedule.
\<close>

theorem amount_locked_schedule:
  assumes "0 \<le> initial_balance st" and "e \<le> e'"
  shows "0 \<le> amount_locked st e' \<and> amount_locked st e' \<le> amount_locked st e
    \<and> amount_locked st e \<le> initial_balance st
    \<and> (unlock_duration st \<le> e' \<longrightarrow> amount_locked st e' = 0)
    \<and> (e \<le> 0 \<and> e < unlock_duration st \<longrightarrow> amount_locked st e = initial_balance st)
    \<and> (0 < e \<and> e < unlock_duration st \<longrightarrow>
         initial_balance st * (unlock_duration st - e) \<le> amount_locked st e * unlock_duration st)"
proof -
  have "initial_balance st * (unlock_duration st - e) \<le> amount_locked st e * unlock_duration st"
    if "0 < e" "e < unlock_duration st"
    using that div_ceil_upper [of "unlock_duration st" "initial_balance st * (unlock_duration st - e)"]
    by (simp add: amount_locked_def Let_def)
  with amount_locked_bounds [OF assms(1)] amount_locked_antimono [OF assms] show ?thesis
    by (auto simp: amount_locked_def)
qed

theorem amount_locked_schedule_witness:
  "amount_locked (vm_state ex_wallet) 7 \<le> amount_locked (vm_state ex_wallet) 3"
  using amount_locked_schedule [of "vm_state ex_wallet" 3 7] by (simp add: ex_wallet_def)

text \<open>
  C21: the two-pass purge of a removed signer's approvals is the pointwise specification: a
  transaction without an approval of the signer is untouched, one that only the signer approved
  is deleted, and any other keeps the remaining approvals in their order.
\<close>

theorem purge_approvals_refines_spec:
  assumes "map2_ok (pending_txs st)"
  shows "map2_get (pending_txs (purge_approvals a st)) i =
    Option.bind (map2_get (pending_txs st) i) (purge_spec a)"
  using assms by (rule map2_get_purge_approvals)

theorem purge_approvals_refines_spec_witness:
  "map2_get (pending_txs (purge_approvals (ID 100) (vm_state ex_wallet))) 0 = None"
proof -
  have "map2_ok (pending_txs (vm_state ex_wallet))"
    by (simp add: ex_wallet_def map2_ok_def)
  from purge_approvals_refines_spec [OF this, of "ID 100" 0] show ?thesis
    by (simp add: ex_wallet_def ex_txn_def map2_get_def purge_spec_def)
qed

end
