(* ===== verification/Paych.thy ===== *)
theory Paych
  imports Runtime
begin

text \<open>
  The payment channel: \<open>actors/paych/src/state.rs\<close>, \<open>types.rs\<close> and \<open>lib.rs\<close>. The lane array is
  the sparse array of \<open>Map2\<close>. Parameters stand for the CBOR encoding of a voucher
  (\<open>pc_signing_bytes\<close>), the decoding of the authentication result (\<open>pc_decode_bool\<close>), the BLAKE2b
  hash (\<open>pc_blake2b\<close>) and the FRC-42 number of the authentication method (\<open>pc_auth_method\<close>). The
  state of the machine is \<open>None\<close> once the channel is collected and its actor deleted.
\<close>

section \<open>Data\<close>

definition MAX_LANE :: nat where "MAX_LANE = 2 ^ 63 - 1"
definition SETTLE_DELAY :: int where "SETTLE_DELAY = EPOCHS_IN_HOUR * 12"
definition MAX_SECRET_SIZE :: nat where "MAX_SECRET_SIZE = 256"

definition ERR_CHANNEL_STATE_UPDATE_AFTER_SETTLED :: exit_code where
  "ERR_CHANNEL_STATE_UPDATE_AFTER_SETTLED = USR_OTHER 32"

record lane_state =
  redeemed :: int
  lane_nonce :: nat

record merge =
  merge_lane :: nat
  merge_nonce :: nat

record mod_verify_params =
  mv_actor :: address
  mv_method :: method_num
  mv_data :: bytes

record signed_voucher =
  sv_channel_addr :: address
  sv_time_lock_min :: int
  sv_time_lock_max :: int
  sv_secret_pre_image :: bytes
  sv_extra :: "mod_verify_params option"
  sv_lane :: nat
  sv_nonce :: nat
  sv_amount :: int
  sv_min_settle_height :: int
  sv_merges :: "merge list"
  sv_signature :: "bytes option"

record paych_state =
  pc_from :: address
  pc_to :: address
  to_send :: int
  settling_at :: int
  min_settle_height :: int
  lane_states :: "lane_state amt"

datatype paych_params = AuthenticateMessageParams bytes bytes | RawParams bytes

record paych_prims =
  pc_signing_bytes :: "signed_voucher \<Rightarrow> bytes option"
  pc_decode_bool :: "bytes option \<Rightarrow> bool result"
  pc_blake2b :: "bytes \<Rightarrow> bytes"
  pc_auth_method :: method_num

type_synonym paych_vm = "(paych_state option, paych_params) vm"
type_synonym paych_send = "(paych_state option, paych_params) sender"

definition paych_state_new :: "address \<Rightarrow> address \<Rightarrow> paych_state" where
  "paych_state_new from to =
     \<lparr>pc_from = from, pc_to = to, to_send = 0, settling_at = 0, min_settle_height = 0,
      lane_states = amt_empty\<rparr>"

definition lane_state_default :: lane_state where
  "lane_state_default = \<lparr>redeemed = 0, lane_nonce = 0\<rparr>"

text \<open>Reading the state of an actor that has been deleted fails.\<close>

definition pc_read :: "paych_vm \<Rightarrow> paych_state result" where
  "pc_read v = (case vm_state v of None \<Rightarrow> Inl illegal_state | Some st \<Rightarrow> Inr st)"

definition pc_transaction ::
  "paych_vm \<Rightarrow> (paych_state \<Rightarrow> paych_state result) \<Rightarrow> (unit \<times> paych_vm) result" where
  "pc_transaction v f =
     r_bind (pc_read v) (\<lambda>st. r_bind (f st) (\<lambda>st'. Inr ((), v\<lparr>vm_state := Some st'\<rparr>)))"

section \<open>Redeeming a voucher\<close>

definition find_lane :: "lane_state amt \<Rightarrow> nat \<Rightarrow> lane_state option result" where
  "find_lane ls i = (if MAX_LANE < i then Inl illegal_argument else Inr (amt_get ls i))"

text \<open>One round of the loop over the merged lanes: the redeemed sum so far and the lanes.\<close>

definition merge_one ::
  "nat \<Rightarrow> merge \<Rightarrow> int \<times> lane_state amt \<Rightarrow> (int \<times> lane_state amt) result" where
  "merge_one own m acc =
     (if merge_lane m = own then Inl illegal_argument
      else
        r_bind (find_lane (snd acc) (merge_lane m)) (\<lambda>found.
        case found of
          None \<Rightarrow> Inl illegal_argument
        | Some other \<Rightarrow>
            (if merge_nonce m \<le> lane_nonce other then Inl illegal_argument
             else Inr (fst acc + redeemed other,
                       amt_set (merge_lane m) (other\<lparr>lane_nonce := merge_nonce m\<rparr>) (snd acc)))))"

text \<open>The transaction of \<open>update_channel_state\<close>, on a channel that holds \<open>balance\<close>.\<close>

definition apply_voucher ::
  "signed_voucher \<Rightarrow> int \<Rightarrow> paych_state \<Rightarrow> paych_state result" where
  "apply_voucher sv balance st =
     r_bind (find_lane (lane_states st) (sv_lane sv)) (\<lambda>found.
     r_bind (case found of
               Some ls \<Rightarrow> (if sv_nonce sv \<le> lane_nonce ls then Inl illegal_argument else Inr ls)
             | None \<Rightarrow> Inr lane_state_default) (\<lambda>lane.
     r_bind (r_fold (merge_one (sv_lane sv)) (sv_merges sv) (0, lane_states st))
       (\<lambda>(redeemed_from_others, l_states).
     let balance_delta = sv_amount sv - (redeemed_from_others + redeemed lane);
         lane' = lane\<lparr>lane_nonce := sv_nonce sv, redeemed := sv_amount sv\<rparr>;
         new_send_balance = balance_delta + to_send st
     in if new_send_balance < 0 then Inl illegal_argument
        else if balance < new_send_balance then Inl illegal_argument
        else
          let st1 = st\<lparr>to_send := new_send_balance\<rparr>;
              st2 = (if sv_min_settle_height sv \<noteq> 0 then
                       st1\<lparr>settling_at :=
                             (if settling_at st1 \<noteq> 0 \<and> settling_at st1 < sv_min_settle_height sv
                              then sv_min_settle_height sv else settling_at st1),
                           min_settle_height :=
                             (if min_settle_height st1 < sv_min_settle_height sv
                              then sv_min_settle_height sv else min_settle_height st1)\<rparr>
                     else st1)
          in Inr (st2\<lparr>lane_states := amt_set (sv_lane sv) lane' l_states\<rparr>))))"

section \<open>Methods\<close>

definition paych_constructor ::
  "(unit, paych_params) sender \<Rightarrow> ctx \<Rightarrow> address \<Rightarrow> address \<Rightarrow> (unit, paych_params) vm \<Rightarrow>
   paych_vm result" where
  "paych_constructor send c from to v =
     r_bind (validate_immediate_caller_type c v [Init]) (\<lambda>_.
     r_bind (resolve_to_actor_id (send 0) to True v) (\<lambda>(to_id, v1).
     r_bind (resolve_to_actor_id (send 1) from True v1) (\<lambda>(from_id, v2).
     Inr \<lparr>vm_state = Some (paych_state_new (ID from_id) (ID to_id)), vm_balance = vm_balance v2,
          vm_world = vm_world v2, vm_sends = vm_sends v2\<rparr>)))"

definition authenticate_voucher ::
  "paych_prims \<Rightarrow> paych_send \<Rightarrow> address \<Rightarrow> bytes \<Rightarrow> bytes \<Rightarrow> paych_vm \<Rightarrow> paych_vm result" where
  "authenticate_voucher P send signer sig sv_bz v =
     r_bind (send_or_fail (send 0)
        \<lparr>req_to = signer, req_method = pc_auth_method P,
         req_params = Some (AuthenticateMessageParams sig sv_bz), req_value = 0,
         req_read_only = True\<rparr> v) (\<lambda>(d, v1).
     r_bind (pc_decode_bool P d) (\<lambda>ok. ensure ok illegal_argument (Inr v1)))"

definition check_voucher ::
  "paych_prims \<Rightarrow> ctx \<Rightarrow> signed_voucher \<Rightarrow> bytes \<Rightarrow> paych_vm \<Rightarrow> unit result" where
  "check_voucher P c sv secret v =
     (case resolve_address v (sv_channel_addr sv) of
        None \<Rightarrow> Inl illegal_argument
      | Some svpch_id \<Rightarrow>
          (if receiver c \<noteq> ID svpch_id then Inl illegal_argument
           else if curr_epoch c < sv_time_lock_min sv then Inl illegal_argument
           else if sv_time_lock_max sv \<noteq> 0 \<and> sv_time_lock_max sv < curr_epoch c
           then Inl illegal_argument
           else if sv_amount sv < 0 then Inl illegal_argument
           else if sv_secret_pre_image sv \<noteq> [] \<and> pc_blake2b P secret \<noteq> sv_secret_pre_image sv
           then Inl illegal_argument
           else Inr ()))"

definition verify_extra :: "paych_send \<Rightarrow> signed_voucher \<Rightarrow> paych_vm \<Rightarrow> paych_vm result" where
  "verify_extra send sv v =
     (case sv_extra sv of
        None \<Rightarrow> Inr v
      | Some extra \<Rightarrow>
          r_bind (send_or_fail (send 1)
             (send_simple (mv_actor extra) (mv_method extra) (Some (RawParams (mv_data extra))) 0) v)
            (\<lambda>(d, v1). Inr v1))"

definition update_channel_state ::
  "paych_prims \<Rightarrow> paych_send \<Rightarrow> ctx \<Rightarrow> signed_voucher \<Rightarrow> bytes \<Rightarrow> paych_vm \<Rightarrow>
   (unit \<times> paych_vm) result" where
  "update_channel_state P send c sv secret v =
     r_bind (pc_read v) (\<lambda>st.
     r_bind (validate_immediate_caller_is c [pc_from st, pc_to st]) (\<lambda>_.
     let signer = (if caller c = pc_from st then pc_to st else pc_from st) in
     case sv_signature sv of
       None \<Rightarrow> Inl illegal_argument
     | Some sig \<Rightarrow>
         (if settling_at st \<noteq> 0 \<and> settling_at st \<le> curr_epoch c
          then Inl (ActorError ERR_CHANNEL_STATE_UPDATE_AFTER_SETTLED None)
          else if MAX_SECRET_SIZE < length secret then Inl illegal_argument
          else
            case pc_signing_bytes P sv of
              None \<Rightarrow> Inl (ActorError USR_SERIALIZATION None)
            | Some sv_bz \<Rightarrow>
                r_bind (authenticate_voucher P send signer sig sv_bz v) (\<lambda>v1.
                r_bind (check_voucher P c sv secret v1) (\<lambda>_.
                r_bind (verify_extra send sv v1) (\<lambda>v2.
                pc_transaction v2 (apply_voucher sv (vm_balance v2))))))))"

definition settle :: "ctx \<Rightarrow> paych_vm \<Rightarrow> (unit \<times> paych_vm) result" where
  "settle c v =
     pc_transaction v (\<lambda>st.
       r_bind (validate_immediate_caller_is c [pc_from st, pc_to st]) (\<lambda>_.
       if settling_at st \<noteq> 0 then Inl illegal_state
       else
         let st1 = st\<lparr>settling_at := curr_epoch c + SETTLE_DELAY\<rparr>
         in Inr (if settling_at st1 < min_settle_height st1
                 then st1\<lparr>settling_at := min_settle_height st1\<rparr> else st1)))"

text \<open>\<open>Runtime::delete_actor\<close> refuses to delete an actor that still has funds.\<close>

definition delete_actor :: "paych_vm \<Rightarrow> (unit \<times> paych_vm) result" where
  "delete_actor v =
     (if vm_balance v \<noteq> 0 then Inl illegal_argument else Inr ((), v\<lparr>vm_state := None\<rparr>))"

definition collect :: "paych_send \<Rightarrow> ctx \<Rightarrow> paych_vm \<Rightarrow> (unit \<times> paych_vm) result" where
  "collect send c v =
     r_bind (pc_read v) (\<lambda>st.
     r_bind (validate_immediate_caller_is c [pc_from st, pc_to st]) (\<lambda>_.
     if settling_at st = 0 \<or> curr_epoch c < settling_at st then Inl forbidden
     else
       r_bind (send_or_fail (send 0) (send_simple (pc_to st) METHOD_SEND None (to_send st)) v)
         (\<lambda>(_, v1).
       r_bind (send_or_fail (send 1) (send_simple (pc_from st) METHOD_SEND None (vm_balance v1)) v1)
         (\<lambda>(_, v2). delete_actor v2))))"

section \<open>Dispatch\<close>

datatype paych_msg =
    UpdateChannelState signed_voucher bytes
  | Settle
  | Collect

fun paych_method :: "paych_msg \<Rightarrow> method_num" where
  "paych_method (UpdateChannelState sv secret) = 2"
| "paych_method Settle = 3"
| "paych_method Collect = 4"

definition paych_dispatch ::
  "paych_prims \<Rightarrow> (paych_state option, paych_params, paych_msg, unit) dispatch" where
  "paych_dispatch P send c m v =
     r_bind (restrict_internal_api c v (paych_method m)) (\<lambda>_.
     case m of
       UpdateChannelState sv secret \<Rightarrow> update_channel_state P send c sv secret v
     | Settle \<Rightarrow> settle c v
     | Collect \<Rightarrow> collect send c v)"

section \<open>Lanes\<close>

lemma find_lane_Inr [res_inv]: "find_lane ls i = Inr x \<longleftrightarrow> i \<le> MAX_LANE \<and> x = amt_get ls i"
  by (auto simp: find_lane_def)

lemma merge_one_Inr [res_inv]:
  "merge_one own m (s, ls) = Inr (s', ls') \<longleftrightarrow>
     merge_lane m \<noteq> own \<and> merge_lane m \<le> MAX_LANE \<and>
     (\<exists>other. amt_get ls (merge_lane m) = Some other \<and> lane_nonce other < merge_nonce m \<and>
        s' = s + redeemed other \<and>
        ls' = amt_set (merge_lane m) (other\<lparr>lane_nonce := merge_nonce m\<rparr>) ls)"
  by (auto simp: merge_one_def res_inv split: option.splits if_splits)

text \<open>What a loop over merges keeps: the array, its redeemed amounts, the voucher's own lane.\<close>

definition lanes_ok :: "lane_state amt \<Rightarrow> bool" where
  "lanes_ok ls \<longleftrightarrow> amt_ok ls \<and> (\<forall>i l. amt_get ls i = Some l \<longrightarrow> 0 \<le> redeemed l)"

abbreviation lanes_total :: "lane_state amt \<Rightarrow> int" where
  "lanes_total ls \<equiv> map_total redeemed (amt_get ls)"

text \<open>No lane disappears and no nonce decreases.\<close>

definition lanes_advance :: "lane_state amt \<Rightarrow> lane_state amt \<Rightarrow> bool" where
  "lanes_advance ls ls' \<longleftrightarrow>
     (\<forall>i l. amt_get ls i = Some l \<longrightarrow>
        (\<exists>l'. amt_get ls' i = Some l' \<and> lane_nonce l \<le> lane_nonce l'))"

lemma lanes_advance_refl [simp]: "lanes_advance ls ls"
  by (simp add: lanes_advance_def)

lemma lanes_advance_trans: "lanes_advance a b \<Longrightarrow> lanes_advance b c \<Longrightarrow> lanes_advance a c"
  unfolding lanes_advance_def by (meson order_trans)

lemma lanes_advance_set:
  assumes "\<And>l'. amt_get ls i = Some l' \<Longrightarrow> lane_nonce l' \<le> lane_nonce l"
  shows "lanes_advance ls (amt_set i l ls)"
  using assms by (auto simp: lanes_advance_def)

lemma lanes_ok_set: "lanes_ok ls \<Longrightarrow> 0 \<le> redeemed l \<Longrightarrow> lanes_ok (amt_set i l ls)"
  by (auto simp: lanes_ok_def)

lemma merges_keep:
  assumes "r_fold (merge_one own) ms (s, ls) = Inr (s', ls')" and "lanes_ok ls"
  shows "lanes_ok ls' \<and> s \<le> s' \<and> lanes_total ls' = lanes_total ls \<and>
    amt_get ls' own = amt_get ls own \<and> lanes_advance ls ls'"
proof -
  let ?P = "\<lambda>(t, l). lanes_ok l \<and> s \<le> t \<and> lanes_total l = lanes_total ls \<and>
    amt_get l own = amt_get ls own \<and> lanes_advance ls l"
  have "?P (s', ls')"
  proof (rule r_fold_inv [OF assms(1), of ?P])
    show "?P (s, ls)" using assms(2) by simp
  next
    fix m a b
    assume IH: "?P a" and step: "merge_one own m a = Inr b"
    obtain t l where a: "a = (t, l)" by (cases a)
    obtain t' l' where b: "b = (t', l')" by (cases b)
    from step obtain o' where o': "merge_lane m \<noteq> own" "amt_get l (merge_lane m) = Some o'"
      "lane_nonce o' < merge_nonce m" "t' = t + redeemed o'"
      "l' = amt_set (merge_lane m) (o'\<lparr>lane_nonce := merge_nonce m\<rparr>) l"
      by (auto simp: a b merge_one_Inr)
    have "lanes_total l' = lanes_total l"
      using IH o' am.total_put [of l redeemed "merge_lane m" "o'\<lparr>lane_nonce := merge_nonce m\<rparr>"]
      by (simp add: a lanes_ok_def)
    moreover have "lanes_ok l'" and "0 \<le> redeemed o'"
      using IH o' by (auto simp: a lanes_ok_def)
    moreover have "lanes_advance l l'"
      unfolding o'(5) by (rule lanes_advance_set) (use o' in simp)
    ultimately show "?P b" using IH o' by (auto simp: a b intro: lanes_advance_trans)
  qed
  then show ?thesis by simp
qed

lemma lane_overwrite [simp]:
  "(l::lane_state)\<lparr>lane_nonce := n, redeemed := r\<rparr> = \<lparr>redeemed = r, lane_nonce = n\<rparr>"
  by (cases l) simp

text \<open>The transaction in one lemma: what a voucher that is accepted does to the channel.\<close>

lemma apply_voucher_Inr:
  assumes "apply_voucher sv b st = Inr st'" and "lanes_ok (lane_states st)" and "0 \<le> sv_amount sv"
  obtains others where "0 \<le> others" "sv_lane sv \<le> MAX_LANE"
    "to_send st' = to_send st + (lanes_total (lane_states st') - lanes_total (lane_states st)) - others"
    "0 \<le> to_send st'" "to_send st' \<le> b" "lanes_ok (lane_states st')"
    "lanes_advance (lane_states st) (lane_states st')"
    "\<And>l. amt_get (lane_states st) (sv_lane sv) = Some l \<Longrightarrow> lane_nonce l < sv_nonce sv"
    "amt_get (lane_states st') (sv_lane sv) = Some \<lparr>redeemed = sv_amount sv, lane_nonce = sv_nonce sv\<rparr>"
    "pc_from st' = pc_from st" "pc_to st' = pc_to st"
    "settling_at st' = (if settling_at st = 0 \<or> sv_min_settle_height sv = 0 then settling_at st
                        else max (settling_at st) (sv_min_settle_height sv))"
    "min_settle_height st' = (if sv_min_settle_height sv = 0 then min_settle_height st
                              else max (min_settle_height st) (sv_min_settle_height sv))"
proof -
  let ?old = "amt_get (lane_states st) (sv_lane sv)"
  let ?new = "\<lparr>redeemed = sv_amount sv, lane_nonce = sv_nonce sv\<rparr>"
  define prev where "prev = (case ?old of Some l \<Rightarrow> redeemed l | None \<Rightarrow> 0)"
  from assms(1) obtain s ls where fold: "r_fold (merge_one (sv_lane sv)) (sv_merges sv) (0, lane_states st) = Inr (s, ls)"
    and lane: "sv_lane sv \<le> MAX_LANE" "\<And>l. ?old = Some l \<Longrightarrow> lane_nonce l < sv_nonce sv"
    and st': "to_send st' = sv_amount sv - (s + prev) + to_send st" "0 \<le> to_send st'" "to_send st' \<le> b"
      "lane_states st' = amt_set (sv_lane sv) ?new ls" "pc_from st' = pc_from st" "pc_to st' = pc_to st"
      "settling_at st' = (if settling_at st = 0 \<or> sv_min_settle_height sv = 0 then settling_at st
                          else max (settling_at st) (sv_min_settle_height sv))"
      "min_settle_height st' = (if sv_min_settle_height sv = 0 then min_settle_height st
                                else max (min_settle_height st) (sv_min_settle_height sv))"
    by (auto simp: apply_voucher_def res_inv Let_def prev_def lane_state_default_def max_def
        split: option.splits if_splits)
  from merges_keep [OF fold assms(2)] have m: "lanes_ok ls" "0 \<le> s"
    "lanes_total ls = lanes_total (lane_states st)" "amt_get ls (sv_lane sv) = ?old"
    "lanes_advance (lane_states st) ls" by auto
  have "lanes_total (lane_states st') = lanes_total ls - prev + sv_amount sv"
    using m am.total_put [of ls redeemed "sv_lane sv" ?new]
    by (auto simp: st' lanes_ok_def prev_def map_at_def split: option.splits)
  moreover have "lanes_advance ls (lane_states st')"
    unfolding st' by (rule lanes_advance_set) (use m lane in \<open>auto dest: less_imp_le\<close>)
  moreover have "lanes_ok (lane_states st')"
    unfolding st' using m assms(3) by (intro lanes_ok_set) auto
  ultimately show thesis
    using m lane st' by (intro that [of s]) (auto intro: lanes_advance_trans)
qed

section \<open>What every call keeps\<close>

text \<open>
  A property of the channel that its transaction and its settling keep, and that more balance
  does not spoil, is kept by every tree of calls: the code sends nothing with a value but the two
  final payments, which are bare transfers and end with the actor deleted.
\<close>

definition on_channel :: "(int \<Rightarrow> paych_state \<Rightarrow> bool) \<Rightarrow> paych_vm \<Rightarrow> bool" where
  "on_channel J v \<longleftrightarrow> (case vm_state v of None \<Rightarrow> True | Some st \<Rightarrow> J (vm_balance v) st)"

lemma on_channel_debit_zero [simp]:
  "on_channel J (debit (send_simple a m p 0) v) = on_channel J v"
  by (simp add: on_channel_def debit_def send_simple_def split: option.split)

lemma pc_transaction_Inr [res_inv]:
  "pc_transaction v f = Inr (u, v') \<longleftrightarrow>
     (\<exists>st st'. vm_state v = Some st \<and> f st = Inr st' \<and> v' = v\<lparr>vm_state := Some st'\<rparr>)"
  by (auto simp: pc_transaction_def pc_read_def res_inv split: option.splits)

lemma pc_read_Inr [res_inv]: "pc_read v = Inr st \<longleftrightarrow> vm_state v = Some st"
  by (auto simp: pc_read_def split: option.splits)

lemma collect_Inr:
  "collect send c v = Inr (u, v') \<Longrightarrow>
     (\<exists>st d1 v1 d2 v2. vm_state v = Some st \<and> caller c \<in> {pc_from st, pc_to st} \<and>
        settling_at st \<noteq> 0 \<and> settling_at st \<le> curr_epoch c \<and>
        send 0 (send_simple (pc_to st) METHOD_SEND None (to_send st)) v = (Response OK d1, v1) \<and>
        send 1 (send_simple (pc_from st) METHOD_SEND None (vm_balance v1)) v1 = (Response OK d2, v2) \<and>
        vm_balance v2 = 0 \<and> v' = v2\<lparr>vm_state := None\<rparr>)"
  by (auto simp: collect_def res_inv delete_actor_def not_less split: if_split_asm)

lemma update_channel_state_Inr:
  assumes "update_channel_state P send c sv secret v = Inr (u, v')" and "sender_ok I send"
  obtains st v2 st2 st' where "vm_state v = Some st" "caller c \<in> {pc_from st, pc_to st}"
    "settling_at st = 0 \<or> curr_epoch c < settling_at st"
    "v2 = v \<or> (\<exists>ex d. sv_extra sv = Some ex \<and>
       send 1 (send_simple (mv_actor ex) (mv_method ex) (Some (RawParams (mv_data ex))) 0) v
         = (Response OK d, v2))"
    "check_voucher P c sv secret v = Inr ()" "vm_state v2 = Some st2"
    "apply_voucher sv (vm_balance v2) st2 = Inr st'" "v' = v2\<lparr>vm_state := Some st'\<rparr>"
proof -
  have auth: "v1 = v" if "authenticate_voucher P send signer sig bz v = Inr v1" for signer sig bz v1
    using that sender_okD(3) [OF assms(2)] by (auto simp: authenticate_voucher_def res_inv)
  have extra: "v2 = v \<or> (\<exists>ex d. sv_extra sv = Some ex \<and>
       send 1 (send_simple (mv_actor ex) (mv_method ex) (Some (RawParams (mv_data ex))) 0) v
         = (Response OK d, v2))" if "verify_extra send sv v = Inr v2" for v2
    using that by (auto simp: verify_extra_def res_inv split: option.splits)
  from assms(1) obtain st where st: "vm_state v = Some st" "caller c \<in> {pc_from st, pc_to st}"
    by (auto simp: update_channel_state_def r_bind_eq_Inr pc_read_Inr validate_immediate_caller_is_Inr)
  obtain sig where sig: "sv_signature sv = Some sig"
    using assms(1) st by (cases "sv_signature sv")
      (auto simp: update_channel_state_def r_bind_eq_Inr pc_read_Inr Let_def)
  obtain bz where bz: "pc_signing_bytes P sv = Some bz"
    using assms(1) st sig by (cases "pc_signing_bytes P sv")
      (auto simp: update_channel_state_def r_bind_eq_Inr pc_read_Inr Let_def split: if_split_asm)
  let ?signer = "if caller c = pc_from st then pc_to st else pc_from st"
  from assms(1) st(1) have pre: "settling_at st = 0 \<or> curr_epoch c < settling_at st"
    by (auto simp: update_channel_state_def r_bind_eq_Inr pc_read_Inr Let_def sig split: if_split_asm)
  from assms(1) st pre obtain v1 v2 where v1: "authenticate_voucher P send ?signer sig bz v = Inr v1"
    and rest: "check_voucher P c sv secret v1 = Inr ()" "verify_extra send sv v1 = Inr v2"
      "pc_transaction v2 (apply_voucher sv (vm_balance v2)) = Inr (u, v')"
    by (auto simp: update_channel_state_def r_bind_eq_Inr pc_read_Inr Let_def sig bz split: if_split_asm)
  from auth [OF v1] have v1_eq: "v1 = v" .
  from rest(3) obtain st2 st' where tr: "vm_state v2 = Some st2"
    "apply_voucher sv (vm_balance v2) st2 = Inr st'" "v' = v2\<lparr>vm_state := Some st'\<rparr>"
    unfolding pc_transaction_Inr by blast
  show thesis
    by (rule that [OF st pre extra [OF rest(2) [unfolded v1_eq]] rest(1) [unfolded v1_eq] tr])
qed

lemma check_voucher_amount: "check_voucher P c sv secret v = Inr u \<Longrightarrow> 0 \<le> sv_amount sv"
  by (auto simp: check_voucher_def split: option.splits if_splits)

definition settle_st :: "int \<Rightarrow> paych_state \<Rightarrow> paych_state" where
  "settle_st e st = st\<lparr>settling_at := max (e + SETTLE_DELAY) (min_settle_height st)\<rparr>"

lemma settle_Inr:
  "settle c v = Inr (u, v') \<Longrightarrow>
     (\<exists>st. vm_state v = Some st \<and> caller c \<in> {pc_from st, pc_to st} \<and> settling_at st = 0 \<and>
        v' = v\<lparr>vm_state := Some (settle_st (curr_epoch c) st)\<rparr>)"
  by (simp add: settle_def pc_transaction_Inr r_bind_eq_Inr validate_immediate_caller_is_Inr Let_def
      settle_st_def max_def split: if_split_asm) force+

locale channel_invariant =
  fixes J :: "int \<Rightarrow> paych_state \<Rightarrow> bool"
  assumes more_balance: "J b st \<Longrightarrow> b \<le> b' \<Longrightarrow> J b' st"
    and voucher_keeps: "J b st \<Longrightarrow> 0 \<le> sv_amount sv \<Longrightarrow> apply_voucher sv b st = Inr st' \<Longrightarrow> J b st'"
    and settle_keeps: "J b st \<Longrightarrow> settling_at st = 0 \<Longrightarrow> J b (settle_st e st)"
begin

lemma update_keeps:
  assumes "sender_ok (on_channel J) send" and "on_channel J v"
    and "update_channel_state P send c sv secret v = Inr (u, v')"
  shows "on_channel J v'"
  using assms(3,1)
proof (cases rule: update_channel_state_Inr)
  case (1 st v2 st2 st')
  have "on_channel J v2"
    using 1(4) sender_okD(5) [OF assms(1)] assms(2) by (metis on_channel_debit_zero)
  with 1 show ?thesis
    by (auto simp: on_channel_def dest: voucher_keeps [OF _ check_voucher_amount])
qed

lemma dispatch_keeps_channel:
  assumes "sender_ok (on_channel J) send" and "on_channel J v"
    and "paych_dispatch P send c m v = Inr (u, v')"
  shows "on_channel J v'"
proof (cases m)
  case (UpdateChannelState sv secret)
  with assms(3) show ?thesis
    by (auto simp: paych_dispatch_def r_bind_eq_Inr intro: update_keeps [OF assms(1,2)])
next
  case Settle
  with assms(3) have "settle c v = Inr (u, v')" by (auto simp: paych_dispatch_def r_bind_eq_Inr)
  with settle_Inr [OF this] assms(2) show ?thesis by (auto simp: on_channel_def settle_keeps)
next
  case Collect
  with assms(3) have "collect send c v = Inr (u, v')" by (auto simp: paych_dispatch_def r_bind_eq_Inr)
  from collect_Inr [OF this] show ?thesis by (auto simp: on_channel_def)
qed

end

sublocale channel_invariant \<subseteq> pch: reentrant_actor "paych_dispatch P" "on_channel J" for P
proof (unfold_locales, goal_cases)
  case (1 send v c m r v')
  then show ?case by (rule dispatch_keeps_channel)
qed (auto simp: on_channel_def split: option.splits intro: more_balance)

section \<open>Three properties of a channel\<close>

text \<open>The channel can pay what it owes, and owes no more than was redeemed on its lanes.\<close>

definition pc_funded :: "int \<Rightarrow> paych_state \<Rightarrow> bool" where
  "pc_funded b st \<longleftrightarrow> lanes_ok (lane_states st) \<and> 0 \<le> to_send st \<and> to_send st \<le> b \<and>
     to_send st \<le> lanes_total (lane_states st)"

interpretation pf: channel_invariant pc_funded
proof
  fix b st sv st'
  assume J: "pc_funded b st" and amount: "0 \<le> sv_amount sv" and ap: "apply_voucher sv b st = Inr st'"
  from J have ok: "lanes_ok (lane_states st)" by (simp add: pc_funded_def)
  from ap ok amount show "pc_funded b st'"
    by (rule apply_voucher_Inr) (use J in \<open>auto simp: pc_funded_def\<close>)
qed (auto simp: pc_funded_def settle_st_def)

text \<open>A lane has reached a nonce.\<close>

definition lane_spent :: "nat \<Rightarrow> nat \<Rightarrow> int \<Rightarrow> paych_state \<Rightarrow> bool" where
  "lane_spent i n b st \<longleftrightarrow> lanes_ok (lane_states st) \<and>
     (\<exists>l. amt_get (lane_states st) i = Some l \<and> n \<le> lane_nonce l)"

interpretation ps: channel_invariant "lane_spent i n" for i n
proof
  fix b st sv st'
  assume J: "lane_spent i n b st" and amount: "0 \<le> sv_amount sv" and ap: "apply_voucher sv b st = Inr st'"
  from J have ok: "lanes_ok (lane_states st)" by (simp add: lane_spent_def)
  from ap ok amount show "lane_spent i n b st'"
    by (rule apply_voucher_Inr) (use J in \<open>fastforce simp: lane_spent_def lanes_advance_def\<close>)
qed (auto simp: lane_spent_def settle_st_def)

text \<open>Settling has begun, and not before \<open>k\<close>.\<close>

definition settling_from :: "int \<Rightarrow> int \<Rightarrow> paych_state \<Rightarrow> bool" where
  "settling_from k b st \<longleftrightarrow> lanes_ok (lane_states st) \<and> settling_at st \<noteq> 0 \<and> 0 \<le> k \<and> k \<le> settling_at st"

interpretation pt: channel_invariant "settling_from k" for k
proof
  fix b st sv st'
  assume J: "settling_from k b st" and amount: "0 \<le> sv_amount sv" and ap: "apply_voucher sv b st = Inr st'"
  from J have ok: "lanes_ok (lane_states st)" by (simp add: settling_from_def)
  from ap ok amount show "settling_from k b st'"
    by (rule apply_voucher_Inr) (use J in \<open>auto simp: settling_from_def\<close>)
qed (auto simp: settling_from_def)

section \<open>Properties\<close>

text \<open>A channel with one lane, for the witnesses.\<close>

definition ex_lane :: lane_state where
  "ex_lane = \<lparr>redeemed = 30, lane_nonce = 4\<rparr>"

definition ex_chan :: paych_state where
  "ex_chan = \<lparr>pc_from = ID 100, pc_to = ID 101, to_send = 30, settling_at = 3,
     min_settle_height = 2, lane_states = [(7, ex_lane)]\<rparr>"

definition ex_chan_vm :: paych_vm where
  "ex_chan_vm = \<lparr>vm_state = Some ex_chan, vm_balance = 50, vm_world = ex_world, vm_sends = []\<rparr>"

text \<open>The example channel at rest, settled at epoch 5 and collected a day later.\<close>

definition ex_rest_vm :: paych_vm where
  "ex_rest_vm = ex_chan_vm\<lparr>vm_state := Some (ex_chan\<lparr>settling_at := 0\<rparr>)\<rparr>"

definition ex_voucher :: signed_voucher where
  "ex_voucher = \<lparr>sv_channel_addr = ID 99, sv_time_lock_min = 0, sv_time_lock_max = 0,
     sv_secret_pre_image = [], sv_extra = None, sv_lane = 7, sv_nonce = 4, sv_amount = 40,
     sv_min_settle_height = 0, sv_merges = [], sv_signature = Some []\<rparr>"

definition ex_pc_prims :: paych_prims where
  "ex_pc_prims = \<lparr>pc_signing_bytes = (\<lambda>sv. Some []), pc_decode_bool = (\<lambda>d. Inr True),
     pc_blake2b = (\<lambda>b. b), pc_auth_method = 2643134072\<rparr>"

lemma ex_lanes_ok: "lanes_ok (lane_states ex_chan)"
  by (auto simp: lanes_ok_def ex_chan_def amt_ok_def amt_get_def ex_lane_def split: if_splits)

lemma ex_chan_total: "lanes_total (lane_states ex_chan) = 30"
proof -
  have "amt_get (lane_states ex_chan) = [7 \<mapsto> ex_lane]"
    by (auto simp: ex_chan_def amt_get_def)
  then show ?thesis by (simp add: map_total_def ex_lane_def)
qed

text \<open>
  C6: a payment channel stays solvent. Whatever vouchers, settlements, collections and re-entrant
  calls reach it, what it owes the recipient is never negative, never more than it holds, and
  never more than the sum redeemed over its lanes, and no lane has a negative redeemed amount.
\<close>

theorem paych_solvent:
  assumes "vm_state v = Some st" and "pc_funded (vm_balance v) st"
    and "vm_state (run_calls (paych_dispatch P) cs v) = Some st'"
  shows "0 \<le> to_send st' \<and> to_send st' \<le> vm_balance (run_calls (paych_dispatch P) cs v)
    \<and> to_send st' \<le> lanes_total (lane_states st') \<and> lanes_ok (lane_states st')"
proof -
  from assms(1,2) have "on_channel pc_funded v" by (simp add: on_channel_def)
  from pf.pch.run_calls_keeps [OF this, of P cs] assms(3) show ?thesis
    by (simp add: on_channel_def pc_funded_def)
qed

theorem paych_solvent_witness:
  "\<exists>st'. vm_state (run_calls (paych_dispatch ex_pc_prims) [Deposit 5] ex_chan_vm) = Some st' \<and>
     0 \<le> to_send st' \<and>
     to_send st' \<le> vm_balance (run_calls (paych_dispatch ex_pc_prims) [Deposit 5] ex_chan_vm)"
proof -
  have st: "vm_state ex_chan_vm = Some ex_chan"
    and run: "vm_state (run_calls (paych_dispatch ex_pc_prims) [Deposit 5] ex_chan_vm) = Some ex_chan"
    by (simp_all add: ex_chan_vm_def run_calls_def invoke.simps)
  have "pc_funded (vm_balance ex_chan_vm) ex_chan"
    using ex_lanes_ok ex_chan_total by (simp add: pc_funded_def ex_chan_vm_def) (simp add: ex_chan_def)
  from paych_solvent [OF st this run] run show ?thesis by simp
qed

text \<open>
  C11: a voucher is redeemed at most once. Once a lane has reached the nonce of a voucher, no
  sequence of calls takes it back, and the transaction refuses every voucher of that lane with
  that nonce or a lower one.
\<close>

theorem paych_voucher_once:
  assumes "vm_state v = Some st" and "lane_spent (sv_lane sv) (sv_nonce sv) (vm_balance v) st"
    and "sv_lane sv \<le> MAX_LANE"
    and "vm_state (run_calls (paych_dispatch P) cs v) = Some st'"
  shows "apply_voucher sv b st' = Inl illegal_argument"
proof -
  from assms(1,2) have "on_channel (lane_spent (sv_lane sv) (sv_nonce sv)) v"
    by (simp add: on_channel_def)
  from ps.pch.run_calls_keeps [OF this, of P cs] assms(3,4) show ?thesis
    by (auto simp: on_channel_def lane_spent_def apply_voucher_def find_lane_def)
qed

theorem paych_voucher_once_witness:
  "apply_voucher ex_voucher 50 ex_chan = Inl illegal_argument"
proof (rule paych_voucher_once [where v = ex_chan_vm and st = ex_chan and cs = "[Deposit 5]" and P = ex_pc_prims])
  show "lane_spent (sv_lane ex_voucher) (sv_nonce ex_voucher) (vm_balance ex_chan_vm) ex_chan"
    using ex_lanes_ok by (simp add: lane_spent_def ex_voucher_def ex_chan_def amt_get_def ex_lane_def)
qed (simp_all add: ex_chan_vm_def ex_voucher_def MAX_LANE_def run_calls_def invoke.simps)

text \<open>
  C22: collecting pays out exactly. A collection that succeeds was asked for by one of the two
  parties at or after the settling epoch; it makes two bare transfers, first what the channel
  owes to the recipient, then all that is left to the payer; and it leaves no balance and no actor.
\<close>

theorem paych_collect_pays:
  assumes "collect send c v = Inr (u, v')" and "sender_ok I send" and "vm_state v = Some st"
  shows "caller c \<in> {pc_from st, pc_to st} \<and> settling_at st \<noteq> 0 \<and> settling_at st \<le> curr_epoch c
    \<and> vm_state v' = None \<and> vm_balance v' = 0
    \<and> (\<exists>r. vm_balance v - to_send st \<le> r
        \<and> (vm_sends v' = send_simple (pc_from st) METHOD_SEND None r
              # send_simple (pc_to st) METHOD_SEND None (to_send st) # vm_sends v))"
proof -
  from collect_Inr [OF assms(1)] assms(3) obtain d1 v1 d2 v2
    where c: "caller c \<in> {pc_from st, pc_to st}" "settling_at st \<noteq> 0" "settling_at st \<le> curr_epoch c"
      and s1: "send 0 (send_simple (pc_to st) METHOD_SEND None (to_send st)) v = (Response OK d1, v1)"
      and s2: "send 1 (send_simple (pc_from st) METHOD_SEND None (vm_balance v1)) v1 = (Response OK d2, v2)"
      and v': "vm_balance v2 = 0" "v' = v2\<lparr>vm_state := None\<rparr>"
    by auto
  from sender_okD(4) [OF assms(2) s1] sender_okD(4) [OF assms(2) s2] c v'
  show ?thesis by (auto simp: bare_transfer_def send_simple_def)
qed

theorem paych_collect_pays_witness:
  "\<exists>v' r. collect (\<lambda>i. run_resp (paych_dispatch ex_pc_prims) (Resp [] (Response OK None) ex_world))
       (ex_ctx (ID 100)) ex_chan_vm = Inr ((), v') \<and> vm_balance v' = 0 \<and>
     vm_sends v' = [send_simple (ID 100) METHOD_SEND None r, send_simple (ID 101) METHOD_SEND None 30]"
proof -
  let ?send = "\<lambda>i::nat. run_resp (paych_dispatch ex_pc_prims) (Resp [] (Response OK None) ex_world)"
  have "\<exists>v'. collect ?send (ex_ctx (ID 100)) ex_chan_vm = Inr ((), v')"
    by (simp add: collect_def pc_read_def ex_chan_vm_def ex_chan_def ex_ctx_def
        validate_immediate_caller_is_def send_or_fail_def send_simple_def run_resp.simps
        deposits_def debit_def delete_actor_def Let_def)
  then obtain v' where v': "collect ?send (ex_ctx (ID 100)) ex_chan_vm = Inr ((), v')" ..
  have "vm_state ex_chan_vm = Some ex_chan" by (simp add: ex_chan_vm_def)
  from v' paych_collect_pays [OF v' pf.pch.resp_sender_ok this] show ?thesis
    by (auto simp: ex_chan_vm_def ex_chan_def)
qed

text \<open>
  C23: the payer cannot rush the recipient. After a settlement is requested, no sequence of calls
  lets a collection succeed before twelve hours of epochs have passed, nor before the minimum
  settlement height that the redeemed vouchers ask for.
\<close>

theorem paych_settle_delay:
  assumes "vm_state v = Some st" and "lanes_ok (lane_states st)" and "0 \<le> curr_epoch c"
    and "settle c v = Inr (u, v1)"
    and "collect send c' (run_calls (paych_dispatch P) cs v1) = Inr (u', v2)"
  shows "curr_epoch c + SETTLE_DELAY \<le> curr_epoch c' \<and> min_settle_height st \<le> curr_epoch c'"
proof -
  let ?k = "max (curr_epoch c + SETTLE_DELAY) (min_settle_height st)"
  have "0 < ?k" using assms(3) by (simp add: SETTLE_DELAY_def EPOCHS_IN_HOUR_def max_def)
  with settle_Inr [OF assms(4)] assms(1,2) have "on_channel (settling_from ?k) v1"
    by (auto simp: on_channel_def settling_from_def settle_st_def)
  from pt.pch.run_calls_keeps [OF this, of P cs] collect_Inr [OF assms(5)] show ?thesis
    by (auto simp: on_channel_def settling_from_def)
qed

theorem paych_settle_delay_witness:
  "\<exists>v1 v2. settle (ex_ctx (ID 100)) ex_rest_vm = Inr ((), v1) \<and>
     collect ex_send ((ex_ctx (ID 101))\<lparr>curr_epoch := 3000\<rparr>)
       (run_calls (paych_dispatch ex_pc_prims) [] v1) = Inr ((), v2) \<and>
     5 + SETTLE_DELAY \<le> (3000::int)"
proof -
  let ?st = "ex_chan\<lparr>settling_at := 0\<rparr>" and ?c' = "(ex_ctx (ID 101))\<lparr>curr_epoch := 3000\<rparr>"
  let ?v1 = "ex_rest_vm\<lparr>vm_state := Some (settle_st 5 ?st)\<rparr>"
  have v1: "settle (ex_ctx (ID 100)) ex_rest_vm = Inr ((), ?v1)"
    by (simp add: settle_def pc_transaction_def pc_read_def ex_rest_vm_def ex_chan_vm_def ex_chan_def
        ex_ctx_def validate_immediate_caller_is_def settle_st_def SETTLE_DELAY_def EPOCHS_IN_HOUR_def)
  have "\<exists>v2. collect ex_send ?c' (run_calls (paych_dispatch ex_pc_prims) [] ?v1) = Inr ((), v2)"
    by (simp add: run_calls_def collect_def pc_read_def ex_rest_vm_def ex_chan_vm_def ex_chan_def
        ex_ctx_def validate_immediate_caller_is_def settle_st_def SETTLE_DELAY_def EPOCHS_IN_HOUR_def
        send_or_fail_def ex_send_def debit_def send_simple_def delete_actor_def)
  then obtain v2 where v2: "collect ex_send ?c' (run_calls (paych_dispatch ex_pc_prims) [] ?v1) = Inr ((), v2)" ..
  have pre: "vm_state ex_rest_vm = Some ?st" "lanes_ok (lane_states ?st)" "0 \<le> curr_epoch (ex_ctx (ID 100))"
    using ex_lanes_ok by (simp_all add: ex_rest_vm_def ex_ctx_def)
  from paych_settle_delay [OF pre v1 v2] v1 v2 show ?thesis by (auto simp: ex_ctx_def)
qed

end
