(* ===== verification/InitActor.thy ===== *)
theory InitActor
  imports Runtime
begin

text \<open>
  The init actor, which allocates actor identifiers: \<open>actors/init/src/state.rs\<close>, \<open>types.rs\<close> and
  \<open>lib.rs\<close>. The address map is the map of \<open>Map2\<close>. The system calls are parameters: the next
  re-org-stable address, the creation of an actor, the code of a built-in type; so are the
  constructor of delegated addresses and the conversion of raw parameters to a block.
\<close>

section \<open>Data\<close>

record init_state =
  address_map :: "(address, actor_id) map2"
  next_id :: actor_id
  network_name :: string

record exec_params =
  ep_code_cid :: cid
  ep_constructor_params :: bytes

record exec4_params =
  e4_code_cid :: cid
  e4_constructor_params :: bytes
  e4_subaddress :: bytes

record exec_return =
  er_id_address :: address
  er_robust_address :: address

type_synonym init_vm = "(init_state, bytes) vm"

record init_prims =
  in_new_actor_address :: "ctx \<Rightarrow> init_vm \<Rightarrow> address"
  in_create_actor :: "cid \<Rightarrow> actor_id \<Rightarrow> address option \<Rightarrow> world \<Rightarrow> error_number + world"
  in_code_for_type :: "actor_type \<Rightarrow> cid"
  in_new_delegated :: "actor_id \<Rightarrow> bytes \<Rightarrow> address option"
  in_raw_to_block :: "bytes \<Rightarrow> bytes option"

definition init_state_new :: "string \<Rightarrow> init_state" where
  "init_state_new name =
     \<lparr>address_map = map2_empty, next_id = FIRST_NON_SINGLETON_ADDR, network_name = name\<rparr>"

section \<open>Allocating identifiers\<close>

text \<open>The 64-bit counter; overflow is checked and panics.\<close>

definition bump_next_id :: "init_state \<Rightarrow> (actor_id \<times> init_state) result" where
  "bump_next_id st =
     (if 2 ^ 64 \<le> next_id st + 1 then Inl Panic
      else Inr (next_id st, st\<lparr>next_id := next_id st + 1\<rparr>))"

definition map_addresses_to_id ::
  "address \<Rightarrow> address option \<Rightarrow> init_state \<Rightarrow> ((actor_id \<times> bool) \<times> init_state) result" where
  "map_addresses_to_id robust_addr delegated_addr st =
     r_bind
       (case delegated_addr of
          Some d \<Rightarrow>
            (case map2_get (address_map st) d of
               Some existing_id \<Rightarrow> Inr ((existing_id, True), st)
             | None \<Rightarrow>
                 r_bind (bump_next_id st) (\<lambda>(new_id, st1).
                   Inr ((new_id, False), st1\<lparr>address_map := map2_put d new_id (address_map st1)\<rparr>)))
        | None \<Rightarrow> r_bind (bump_next_id st) (\<lambda>(new_id, st1). Inr ((new_id, False), st1)))
       (\<lambda>((id, existing), st1).
          case map2_set_if_absent robust_addr id (address_map st1) of
            (is_new, m) \<Rightarrow>
              (if \<not> is_new then Inl forbidden
               else Inr ((id, existing), st1\<lparr>address_map := m\<rparr>)))"

fun init_resolve_address :: "init_state \<Rightarrow> address \<Rightarrow> address option" where
  "init_resolve_address st (ID i) = Some (ID i)"
| "init_resolve_address st a = map_option ID (map2_get (address_map st) a)"

section \<open>Methods\<close>

definition init_constructor :: "ctx \<Rightarrow> string \<Rightarrow> init_state result" where
  "init_constructor c name =
     r_bind (validate_immediate_caller_is c [SYSTEM_ACTOR_ADDR]) (\<lambda>_. Inr (init_state_new name))"

definition can_exec :: "init_vm \<Rightarrow> cid \<Rightarrow> cid \<Rightarrow> bool" where
  "can_exec v caller_code exec_code =
     (case resolve_builtin_actor_type v exec_code of
        Some Multisig \<Rightarrow> True
      | Some PaymentChannel \<Rightarrow> True
      | Some Miner \<Rightarrow> resolve_builtin_actor_type v caller_code = Some Power
      | _ \<Rightarrow> False)"

fun create_actor_error :: "error_number \<Rightarrow> actor_error" where
  "create_actor_error IllegalArgument = illegal_argument"
| "create_actor_error Forbidden = forbidden"
| "create_actor_error e = ActorError USR_ASSERTION_FAILED None"

definition create_actor ::
  "init_prims \<Rightarrow> cid \<Rightarrow> actor_id \<Rightarrow> address option \<Rightarrow> init_vm \<Rightarrow> init_vm result" where
  "create_actor P code aid pred v =
     (case in_create_actor P code aid pred (vm_world v) of
        Inl e \<Rightarrow> Inl (create_actor_error e)
      | Inr w \<Rightarrow> Inr (v\<lparr>vm_world := w\<rparr>))"

text \<open>The caller's identifier; the runtime only delivers calls from identifier addresses.\<close>

fun id_of :: "address \<Rightarrow> actor_id result" where
  "id_of (ID i) = Inr i"
| "id_of a = Inl Panic"

definition exec ::
  "init_prims \<Rightarrow> (init_state, bytes) sender \<Rightarrow> ctx \<Rightarrow> exec_params \<Rightarrow> init_vm \<Rightarrow>
   (exec_return \<times> init_vm) result" where
  "exec P send c p v =
     r_bind (id_of (caller c)) (\<lambda>caller_id.
     case get_actor_code_cid v caller_id of
       None \<Rightarrow> Inl illegal_state
     | Some caller_code \<Rightarrow>
         (if \<not> can_exec v caller_code (ep_code_cid p) then Inl forbidden
          else
            let robust_address = in_new_actor_address P c v in
            r_bind (transaction v (map_addresses_to_id robust_address None))
              (\<lambda>((id_address, existing), v1).
            if existing then Inl forbidden
            else
              r_bind (create_actor P (ep_code_cid p) id_address None v1) (\<lambda>v2.
              r_bind (send_or_fail (send 0)
                 (send_simple (ID id_address) METHOD_CONSTRUCTOR
                    (in_raw_to_block P (ep_constructor_params p)) (value_received c)) v2)
                (\<lambda>(_, v3). Inr (\<lparr>er_id_address = ID id_address,
                                 er_robust_address = robust_address\<rparr>, v3))))))"

definition exec4 ::
  "init_prims \<Rightarrow> (init_state, bytes) sender \<Rightarrow> ctx \<Rightarrow> exec4_params \<Rightarrow> init_vm \<Rightarrow>
   (exec_return \<times> init_vm) result" where
  "exec4 P send c p v =
     r_bind (validate_immediate_caller_is c [EAM_ACTOR_ADDR]) (\<lambda>_.
     r_bind (id_of (caller c)) (\<lambda>caller_id.
     case in_new_delegated P caller_id (e4_subaddress p) of
       None \<Rightarrow> Inl illegal_argument
     | Some delegated_address \<Rightarrow>
         let robust_address = in_new_actor_address P c v in
         r_bind (transaction v (map_addresses_to_id robust_address (Some delegated_address)))
           (\<lambda>((id_address, existing), v1).
         r_bind
           (if existing then
              (case get_actor_code_cid v1 id_address of
                 None \<Rightarrow> Inl forbidden
               | Some code_cid \<Rightarrow>
                   (if code_cid \<noteq> in_code_for_type P Placeholder then Inl forbidden else Inr ()))
            else Inr ()) (\<lambda>_.
         r_bind (create_actor P (e4_code_cid p) id_address (Some delegated_address) v1) (\<lambda>v2.
         r_bind (send_or_fail (send 0)
            (send_simple (ID id_address) METHOD_CONSTRUCTOR
               (in_raw_to_block P (e4_constructor_params p)) (value_received c)) v2)
           (\<lambda>(_, v3). Inr (\<lparr>er_id_address = ID id_address,
                            er_robust_address = robust_address\<rparr>, v3)))))))"

datatype init_msg = Exec exec_params | Exec4 exec4_params

fun init_method :: "init_msg \<Rightarrow> method_num" where
  "init_method (Exec p) = 2"
| "init_method (Exec4 p) = 3"

definition init_dispatch :: "init_prims \<Rightarrow> (init_state, bytes, init_msg, exec_return) dispatch" where
  "init_dispatch P send c m v =
     r_bind (restrict_internal_api c v (init_method m)) (\<lambda>_.
     case m of
       Exec p \<Rightarrow> exec P send c p v
     | Exec4 p \<Rightarrow> exec4 P send c p v)"

section \<open>What an allocation does\<close>

lemma bump_next_id_Inr [res_inv]:
  "bump_next_id st = Inr (i, st') \<longleftrightarrow>
     i = next_id st \<and> next_id st + 1 < 2 ^ 64 \<and> st' = st\<lparr>next_id := next_id st + 1\<rparr>"
  by (auto simp: bump_next_id_def)

text \<open>Every mapped identifier was allocated: at least the first free one, below the counter.\<close>

definition init_inv :: "init_state \<Rightarrow> bool" where
  "init_inv st \<longleftrightarrow> map2_ok (address_map st) \<and> FIRST_NON_SINGLETON_ADDR \<le> next_id st \<and>
     next_id st < 2 ^ 64 \<and>
     (\<forall>a i. map2_get (address_map st) a = Some i \<longrightarrow> FIRST_NON_SINGLETON_ADDR \<le> i \<and> i < next_id st)"

text \<open>The three ways an allocation succeeds.\<close>

lemma map_addresses_to_id_cases:
  assumes "map_addresses_to_id r d st = Inr ((i, existing), st')"
  obtains (fresh) "d = None" "\<not> existing" "i = next_id st" "next_id st + 1 < 2 ^ 64"
      "map2_get (address_map st) r = None"
      "st' = st\<lparr>next_id := next_id st + 1, address_map := map2_put r i (address_map st)\<rparr>"
  | (fresh_delegated) a where "d = Some a" "\<not> existing" "i = next_id st" "next_id st + 1 < 2 ^ 64"
      "map2_get (address_map st) r = None" "map2_get (address_map st) a = None" "r \<noteq> a"
      "st' = st\<lparr>next_id := next_id st + 1,
               address_map := map2_put r i (map2_put a i (address_map st))\<rparr>"
  | (recalled) a where "d = Some a" "existing" "map2_get (address_map st) a = Some i"
      "map2_get (address_map st) r = None" "st' = st\<lparr>address_map := map2_put r i (address_map st)\<rparr>"
proof (cases d)
  case None
  with assms show thesis
    by (intro fresh) (auto simp: map_addresses_to_id_def res_inv map2_set_if_absent_def
        map2_contains_key_def split: if_split_asm)
next
  case (Some a)
  show thesis
  proof (cases "map2_get (address_map st) a")
    case None
    with assms Some show thesis
      by (intro fresh_delegated) (auto simp: map_addresses_to_id_def res_inv map2_set_if_absent_def
          map2_contains_key_def split: if_split_asm)
  next
    case (Some j)
    with assms \<open>d = Some a\<close> show thesis
      by (intro recalled) (auto simp: map_addresses_to_id_def res_inv map2_set_if_absent_def
          map2_contains_key_def split: if_split_asm)
  qed
qed

lemma map_addresses_to_id_inv:
  assumes "map_addresses_to_id r d st = Inr ((i, existing), st')" and "init_inv st"
  shows "init_inv st'"
  using assms(1)
  by (cases rule: map_addresses_to_id_cases)
    (use assms(2) in \<open>auto simp: init_inv_def less_Suc_eq\<close>)

lemma map_addresses_to_id_extends:
  assumes "map_addresses_to_id r d st = Inr ((i, existing), st')"
    and "map2_get (address_map st) a = Some j"
  shows "map2_get (address_map st') a = Some j"
  using assms(1) by (cases rule: map_addresses_to_id_cases) (use assms(2) in auto)

lemma id_of_Inr [res_inv]: "id_of a = Inr i \<longleftrightarrow> a = ID i"
  by (cases a) auto

lemma exec_Inr:
  assumes "exec P send c p v = Inr (r, v')"
  obtains i code k v1 v2 d where "caller c = ID i" "get_actor_code_cid v i = Some code"
    "can_exec v code (ep_code_cid p)"
    "transaction v (map_addresses_to_id (in_new_actor_address P c v) None) = Inr ((k, False), v1)"
    "create_actor P (ep_code_cid p) k None v1 = Inr v2"
    "send 0 (send_simple (ID k) METHOD_CONSTRUCTOR
       (in_raw_to_block P (ep_constructor_params p)) (value_received c)) v2 = (Response OK d, v')"
    "r = \<lparr>er_id_address = ID k, er_robust_address = in_new_actor_address P c v\<rparr>"
proof -
  from assms obtain i where i: "caller c = ID i"
    by (auto simp: exec_def r_bind_eq_Inr id_of_Inr)
  with assms obtain code where code: "get_actor_code_cid v i = Some code"
    by (cases "get_actor_code_cid v i") (auto simp: exec_def)
  from assms i code show thesis
    by (auto simp: exec_def r_bind_eq_Inr send_or_fail_Inr Let_def split: if_split_asm
        intro: that [OF i code])
qed

lemma exec4_Inr:
  assumes "exec4 P send c p v = Inr (r, v')"
  obtains i da k ex v1 v2 d where "caller c = ID i" "caller c = EAM_ACTOR_ADDR"
    "in_new_delegated P i (e4_subaddress p) = Some da"
    "transaction v (map_addresses_to_id (in_new_actor_address P c v) (Some da)) = Inr ((k, ex), v1)"
    "ex \<Longrightarrow> get_actor_code_cid v1 k = Some (in_code_for_type P Placeholder)"
    "create_actor P (e4_code_cid p) k (Some da) v1 = Inr v2"
    "send 0 (send_simple (ID k) METHOD_CONSTRUCTOR
       (in_raw_to_block P (e4_constructor_params p)) (value_received c)) v2 = (Response OK d, v')"
    "r = \<lparr>er_id_address = ID k, er_robust_address = in_new_actor_address P c v\<rparr>"
proof -
  have eam: "EAM_ACTOR_ADDR = ID 10" by (simp add: EAM_ACTOR_ADDR_def)
  from assms obtain i where i: "caller c = ID i" "caller c = EAM_ACTOR_ADDR"
    by (simp add: exec4_def r_bind_eq_Inr id_of_Inr validate_immediate_caller_is_Inr eam)
  with assms obtain da where da: "in_new_delegated P i (e4_subaddress p) = Some da"
    by (cases "in_new_delegated P i (e4_subaddress p)") (auto simp: exec4_def r_bind_eq_Inr)
  from assms i da show thesis
    by (auto simp: exec4_def r_bind_eq_Inr send_or_fail_Inr Let_def split: if_split_asm option.split_asm
        intro: that [OF i da])
qed

text \<open>
  Every property of the state that allocation keeps is kept by every tree of calls: the methods
  change the state by one allocation each and send one message, the constructor call.
\<close>

locale allocation_invariant =
  fixes J :: "init_state \<Rightarrow> bool"
  assumes alloc_keeps: "J st \<Longrightarrow> map_addresses_to_id r d st = Inr ((i, existing), st') \<Longrightarrow> J st'"
begin

lemma create_actor_state: "create_actor P code i d v = Inr v' \<Longrightarrow> vm_state v' = vm_state v"
  by (auto simp: create_actor_def split: sum.splits)

lemma deploy_keeps:
  assumes "sender_ok (\<lambda>v. J (vm_state v)) send" and "J (vm_state v)"
    and "transaction v (map_addresses_to_id r d) = Inr (((i, existing), v1))"
    and "create_actor P code i d' v1 = Inr v2" and "send 0 req v2 = (resp, v3)"
  shows "J (vm_state v3)"
proof -
  from assms(2,3) have "J (vm_state v1)" by (auto simp: transaction_Inr dest: alloc_keeps)
  with create_actor_state [OF assms(4)] have "J (vm_state v2)" by simp
  with sender_okD(5) [OF assms(1,5)] show ?thesis by (simp add: debit_def)
qed

lemma dispatch_keeps_state:
  assumes "sender_ok (\<lambda>v. J (vm_state v)) send" and "J (vm_state v)"
    and "init_dispatch P send c m v = Inr (r, v')"
  shows "J (vm_state v')"
proof (cases m)
  case (Exec p)
  with assms(3) have "exec P send c p v = Inr (r, v')" by (auto simp: init_dispatch_def r_bind_eq_Inr)
  then show ?thesis by (rule exec_Inr) (rule deploy_keeps [OF assms(1,2)])
next
  case (Exec4 p)
  with assms(3) have "exec4 P send c p v = Inr (r, v')" by (auto simp: init_dispatch_def r_bind_eq_Inr)
  then show ?thesis by (rule exec4_Inr) (rule deploy_keeps [OF assms(1,2)])
qed

end

sublocale allocation_invariant \<subseteq> ina: reentrant_actor "init_dispatch P" "\<lambda>v. J (vm_state v)" for P
proof (unfold_locales, goal_cases)
  case (1 send v c m r v')
  then show ?case by (rule dispatch_keeps_state)
qed auto

interpretation iinv: allocation_invariant init_inv
  by unfold_locales (rule map_addresses_to_id_inv)

interpretation imap: allocation_invariant "\<lambda>st. map2_get (address_map st) a = Some i" for a i
  by unfold_locales (rule map_addresses_to_id_extends)

interpretation inext: allocation_invariant "\<lambda>st. n \<le> next_id st" for n
proof
  fix st r d i existing st'
  assume "n \<le> next_id st" and "map_addresses_to_id r d st = Inr ((i, existing), st')"
  from this(2,1) show "n \<le> next_id st'" by (cases rule: map_addresses_to_id_cases) auto
qed

section \<open>Properties\<close>

definition ex_init_prims :: init_prims where
  "ex_init_prims =
     \<lparr>in_new_actor_address = (\<lambda>c v. Actor [of_nat (next_id (vm_state v))]),
      in_create_actor = (\<lambda>code i d w. Inr w),
      in_code_for_type = (\<lambda>t. 0), in_new_delegated = (\<lambda>i b. Some (Delegated i b)),
      in_raw_to_block = Some\<rparr>"

definition ex_init_vm :: init_vm where
  "ex_init_vm = \<lparr>vm_state = \<lparr>address_map = [(Delegated 10 [1], 100)], next_id = 101,
       network_name = ''main''\<rparr>, vm_balance = 0,
     vm_world = ex_world\<lparr>type_table := (\<lambda>c. Some Multisig)\<rparr>, vm_sends = []\<rparr>"

definition ex_exec :: exec_params where
  "ex_exec = \<lparr>ep_code_cid = 0, ep_constructor_params = []\<rparr>"

text \<open>
  C14: the assignment of an identifier to an address is permanent and identifiers are never
  handed out twice. Under every sequence of calls, re-entrant ones included, the map keeps its
  invariant, an address that is mapped stays mapped to the same identifier, and the counter never
  falls, so every mapped identifier stays below the identifiers allocated later.
\<close>

theorem init_assignment_permanent:
  assumes "init_inv (vm_state v)" and "map2_get (address_map (vm_state v)) a = Some i"
  shows "map2_get (address_map (vm_state (run_calls (init_dispatch P) cs v))) a = Some i
    \<and> init_inv (vm_state (run_calls (init_dispatch P) cs v))
    \<and> i < next_id (vm_state v) \<and> next_id (vm_state v) \<le> next_id (vm_state (run_calls (init_dispatch P) cs v))"
  using imap.ina.run_calls_keeps [OF assms(2)] iinv.ina.run_calls_keeps [OF assms(1)]
    inext.ina.run_calls_keeps [OF order_refl] assms
  by (simp add: init_inv_def)

theorem init_assignment_permanent_witness:
  "map2_get (address_map (vm_state (run_calls (init_dispatch ex_init_prims)
     [Call (ex_ctx (ID 500)) (Exec ex_exec) []] ex_init_vm))) (Delegated 10 [1]) = Some 100"
proof -
  have "init_inv (vm_state ex_init_vm)"
    by (auto simp: init_inv_def ex_init_vm_def map2_ok_def FIRST_NON_SINGLETON_ADDR_def map2_get_def
        split: if_splits)
  moreover have "map2_get (address_map (vm_state ex_init_vm)) (Delegated 10 [1]) = Some 100"
    by (simp add: ex_init_vm_def map2_get_def)
  ultimately show ?thesis by (rule init_assignment_permanent [THEN conjunct1])
qed

text \<open>
  An allocation returns a fresh identifier or recalls the one of the delegated address. A
  new identifier is the counter, no address mapped to it before; a recalled one was mapped by the
  delegated address; in both cases the robust address was free, and afterwards it and the
  delegated address resolve to the identifier, every other address resolving as before.
\<close>

theorem map_addresses_to_id_spec:
  assumes "init_inv st" and "map_addresses_to_id r d st = Inr ((i, existing), st')"
    and "\<And>j. r \<noteq> ID j" and "\<And>j. d \<noteq> Some (ID j)"
  shows "(if existing
          then \<exists>a. d = Some a \<and> init_resolve_address st a = Some (ID i) \<and> next_id st' = next_id st
          else i = next_id st \<and> next_id st' = next_id st + 1
               \<and> (\<forall>a. map2_get (address_map st) a \<noteq> Some i))
    \<and> init_resolve_address st r = None \<and> init_resolve_address st' r = Some (ID i)
    \<and> (\<forall>a. d = Some a \<longrightarrow> init_resolve_address st' a = Some (ID i))
    \<and> (\<forall>a. a \<noteq> r \<and> d \<noteq> Some a \<longrightarrow> init_resolve_address st' a = init_resolve_address st a)"
proof -
  have res: "init_resolve_address s a = map_option ID (map2_get (address_map s) a)"
    if "\<And>j. a \<noteq> ID j" for s a using that by (cases a) auto
  have same: "init_resolve_address s a = init_resolve_address s' a"
    if "map2_get (address_map s) a = map2_get (address_map s') a" for s s' a
    using that by (cases a) auto
  have "\<forall>a. map2_get (address_map st) a \<noteq> Some (next_id st)"
    using assms(1) by (auto simp: init_inv_def)
  with assms(2) show ?thesis
    by (cases rule: map_addresses_to_id_cases)
      (use assms(3,4) in \<open>auto simp: res intro!: same\<close>)
qed

theorem map_addresses_to_id_spec_witness:
  "\<exists>st'. map_addresses_to_id (Actor [7]) (Some (Delegated 10 [2])) (vm_state ex_init_vm)
      = Inr ((101, False), st') \<and> init_resolve_address st' (Actor [7]) = Some (ID 101)
     \<and> init_resolve_address st' (Delegated 10 [2]) = Some (ID 101)"
proof -
  have inv: "init_inv (vm_state ex_init_vm)"
    by (auto simp: init_inv_def ex_init_vm_def map2_ok_def FIRST_NON_SINGLETON_ADDR_def map2_get_def
        split: if_splits)
  have "\<exists>st'. map_addresses_to_id (Actor [7]) (Some (Delegated 10 [2])) (vm_state ex_init_vm)
      = Inr ((101, False), st')"
    by (simp add: map_addresses_to_id_def ex_init_vm_def map2_get_def bump_next_id_def
        map2_set_if_absent_def map2_contains_key_def map2_put_def)
  then obtain st' where st': "map_addresses_to_id (Actor [7]) (Some (Delegated 10 [2]))
      (vm_state ex_init_vm) = Inr ((101, False), st')" ..
  from st' map_addresses_to_id_spec [OF inv st'] show ?thesis by auto
qed



end
