(* ===== verification/BasicActors.thy ===== *)
theory BasicActors
  imports Runtime
begin

text \<open>
  Three small actors: the account (\<open>actors/account/src\<close>), the Ethereum account
  (\<open>actors/ethaccount/src/lib.rs\<close>) and cron (\<open>actors/cron/src\<close>). Signature verification and the
  lookup of delegated addresses are system calls and parameters here.
\<close>

section \<open>Account\<close>

record account_state =
  acc_address :: address

datatype signature_type = SigSecp256k1 | SigBLS

datatype account_ret = PubkeyAddressReturn address | AuthenticateMessageReturn bool | NoReturn

text \<open>A failed verification may carry an error of the runtime, else the default is used.\<close>

type_synonym verifier = "signature_type \<Rightarrow> bytes \<Rightarrow> address \<Rightarrow> bytes \<Rightarrow> actor_error option + unit"

definition account_constructor :: "ctx \<Rightarrow> address \<Rightarrow> account_state result" where
  "account_constructor c a =
     r_bind (validate_immediate_caller_is c [SYSTEM_ACTOR_ADDR]) (\<lambda>_.
     case a of
       Secp256k1 b \<Rightarrow> Inr \<lparr>acc_address = a\<rparr>
     | BLS b \<Rightarrow> Inr \<lparr>acc_address = a\<rparr>
     | _ \<Rightarrow> Inl illegal_argument)"

definition pubkey_address :: "account_state \<Rightarrow> address" where
  "pubkey_address st = acc_address st"

definition authenticate_message ::
  "verifier \<Rightarrow> account_state \<Rightarrow> bytes \<Rightarrow> bytes \<Rightarrow> bool result" where
  "authenticate_message verify st sig msg =
     r_bind
       (case acc_address st of
          Secp256k1 b \<Rightarrow> Inr SigSecp256k1
        | BLS b \<Rightarrow> Inr SigBLS
        | _ \<Rightarrow> Inl illegal_state)
       (\<lambda>sig_type.
          case verify sig_type sig (acc_address st) msg of
            Inl (Some e) \<Rightarrow> Inl e
          | Inl None \<Rightarrow> Inl illegal_argument
          | Inr _ \<Rightarrow> Inr True)"

definition account_fallback :: "method_num \<Rightarrow> unit result" where
  "account_fallback method =
     (if FIRST_EXPORTED_METHOD_NUMBER \<le> method then Inr () else Inl unhandled_message)"

datatype account_msg =
    PubkeyAddress
  | AuthenticateMessageExported bytes bytes
  | OtherMethod method_num

fun account_method :: "method_num \<Rightarrow> account_msg \<Rightarrow> method_num" where
  "account_method auth PubkeyAddress = 2"
| "account_method auth (AuthenticateMessageExported sig msg) = auth"
| "account_method auth (OtherMethod n) = n"

definition account_dispatch ::
  "verifier \<Rightarrow> method_num \<Rightarrow> ctx \<Rightarrow> account_msg \<Rightarrow> (account_state, 'p) vm \<Rightarrow> account_ret result" where
  "account_dispatch verify auth c m v =
     r_bind (restrict_internal_api c v (account_method auth m)) (\<lambda>_.
     case m of
       PubkeyAddress \<Rightarrow> Inr (PubkeyAddressReturn (pubkey_address (vm_state v)))
     | AuthenticateMessageExported sig msg \<Rightarrow>
         r_bind (authenticate_message verify (vm_state v) sig msg)
           (\<lambda>b. Inr (AuthenticateMessageReturn b))
     | OtherMethod n \<Rightarrow> r_bind (account_fallback n) (\<lambda>_. Inr NoReturn))"

section \<open>Ethereum account\<close>

definition EAM_ACTOR_ID :: actor_id where "EAM_ACTOR_ID = 10"

text \<open>The delegated address of the receiver, as the system call finds it, decides.\<close>

definition ethaccount_constructor :: "(actor_id \<Rightarrow> address option) \<Rightarrow> ctx \<Rightarrow> unit result" where
  "ethaccount_constructor lookup_delegated c =
     r_bind (validate_immediate_caller_is c [SYSTEM_ACTOR_ADDR]) (\<lambda>_.
     case receiver c of
       ID i \<Rightarrow>
         (case lookup_delegated i of
            Some (Delegated namespace sub) \<Rightarrow>
              (if namespace = EAM_ACTOR_ID then Inr () else Inl illegal_argument)
          | Some _ \<Rightarrow> Inl illegal_argument
          | None \<Rightarrow> Inl illegal_argument)
     | _ \<Rightarrow> Inl Panic)"

definition ethaccount_fallback :: "method_num \<Rightarrow> unit result" where
  "ethaccount_fallback method =
     (if FIRST_EXPORTED_METHOD_NUMBER \<le> method then Inr () else Inl unhandled_message)"

section \<open>Cron\<close>

record cron_entry =
  entry_receiver :: address
  entry_method_num :: method_num

record cron_state =
  entries :: "cron_entry list"

type_synonym 'p cron_vm = "(cron_state, 'p) vm"

definition cron_constructor :: "ctx \<Rightarrow> cron_entry list \<Rightarrow> cron_state result" where
  "cron_constructor c es =
     r_bind (validate_immediate_caller_is c [SYSTEM_ACTOR_ADDR]) (\<lambda>_. Inr \<lparr>entries = es\<rparr>)"

definition cron_req :: "cron_entry \<Rightarrow> 'p send_req" where
  "cron_req e = send_simple (entry_receiver e) (entry_method_num e) None 0"

text \<open>One round of the loop: the result of the send is dropped.\<close>

definition tick_entry :: "(cron_state, 'p) sender \<Rightarrow> nat \<times> cron_entry \<Rightarrow> 'p cron_vm \<Rightarrow> 'p cron_vm" where
  "tick_entry send ie v = snd (send (fst ie) (cron_req (snd ie)) v)"

definition epoch_tick :: "(cron_state, 'p) sender \<Rightarrow> ctx \<Rightarrow> 'p cron_vm \<Rightarrow> (unit \<times> 'p cron_vm) result" where
  "epoch_tick send c v =
     r_bind (validate_immediate_caller_is c [SYSTEM_ACTOR_ADDR]) (\<lambda>_.
     Inr ((), fold (tick_entry send) (enumerate 0 (entries (vm_state v))) v))"

section \<open>Properties\<close>

text \<open>
  An account authenticates exactly the messages whose signature the verifier accepts for the
  account's own address and key type. On an account that its constructor made, the outcome is
  never the inconsistent-state error, and a rejection is the verifier's error or
  illegal-argument.
\<close>

theorem account_authenticates:
  assumes "account_constructor c a = Inr st"
  shows "\<exists>t. (authenticate_message verify st sig msg = Inr True \<longleftrightarrow> verify t sig a msg = Inr ())
    \<and> authenticate_message verify st sig msg \<noteq> Inr False
    \<and> (verify t sig a msg = Inl None \<longrightarrow> authenticate_message verify st sig msg = Inl illegal_argument)
    \<and> (\<forall>e. verify t sig a msg = Inl (Some e) \<longrightarrow> authenticate_message verify st sig msg = Inl e)
    \<and> (t = SigSecp256k1 \<longleftrightarrow> (\<exists>b. a = Secp256k1 b)) \<and> (t = SigBLS \<longleftrightarrow> (\<exists>b. a = BLS b))"
proof -
  from assms consider b where "a = Secp256k1 b" "acc_address st = a" | b where "a = BLS b" "acc_address st = a"
    by (auto simp: account_constructor_def r_bind_eq_Inr split: address.split_asm)
  then show ?thesis
  proof cases
    case 1
    then show ?thesis
      by (intro exI [of _ SigSecp256k1])
        (auto simp: authenticate_message_def split: sum.split option.split)
  next
    case 2
    then show ?thesis
      by (intro exI [of _ SigBLS])
        (auto simp: authenticate_message_def split: sum.split option.split)
  qed
qed

theorem account_authenticates_witness:
  "\<exists>t. (authenticate_message (\<lambda>t s a m. if s = m then Inr () else Inl None)
          \<lparr>acc_address = BLS [3]\<rparr> [1] [1] = Inr True) \<and> t = SigBLS"
proof -
  have "account_constructor (ex_ctx SYSTEM_ACTOR_ADDR) (BLS [3]) = Inr \<lparr>acc_address = BLS [3]\<rparr>"
    by (simp add: account_constructor_def validate_immediate_caller_is_def ex_ctx_def)
  from account_authenticates [OF this, of "\<lambda>t s a m. if s = m then Inr () else Inl None" "[1]" "[1]"]
  show ?thesis by auto
qed

text \<open>The sender in which the entries chosen by \<open>good\<close> succeed and the others fail.\<close>

definition picky_send :: "(nat \<Rightarrow> bool) \<Rightarrow> ('st, 'p) sender" where
  "picky_send good i req v =
     (if good i then (Response OK None, debit req v) else (SendError NotFound, v))"

lemma fold_tick_picky:
  "vm_sends (fold (tick_entry (picky_send good)) ies v) =
     rev (map (cron_req \<circ> snd) (filter (good \<circ> fst) ies)) @ vm_sends v
   \<and> vm_state (fold (tick_entry (picky_send good)) ies v) = vm_state v"
  by (induction ies arbitrary: v) (auto simp: tick_entry_def picky_send_def debit_def)

text \<open>
  An epoch tick calls every entry, in order, whichever of them fail. For every choice of
  failing entries the tick succeeds, exactly the others take effect, in the order of the table,
  and the table is unchanged.
\<close>

theorem epoch_tick_delivers:
  assumes "caller c = SYSTEM_ACTOR_ADDR"
  shows "\<exists>v'. epoch_tick (picky_send good) c v = Inr ((), v')
    \<and> vm_sends v' = rev (map (cron_req \<circ> snd)
          (filter (good \<circ> fst) (enumerate 0 (entries (vm_state v))))) @ vm_sends v
    \<and> vm_state v' = vm_state v"
  using assms fold_tick_picky by (auto simp: epoch_tick_def validate_immediate_caller_is_def)

theorem epoch_tick_delivers_witness:
  "\<exists>v'. epoch_tick (picky_send (\<lambda>i. i \<noteq> 0)) (ex_ctx SYSTEM_ACTOR_ADDR)
      \<lparr>vm_state = \<lparr>entries = [\<lparr>entry_receiver = ID 4, entry_method_num = 5\<rparr>,
                              \<lparr>entry_receiver = ID 5, entry_method_num = 9\<rparr>]\<rparr>,
       vm_balance = 0, vm_world = ex_world, vm_sends = []\<rparr> = Inr ((), v')
     \<and> vm_sends v' = [send_simple (ID 5) 9 None 0]"
proof -
  have "caller (ex_ctx SYSTEM_ACTOR_ADDR) = SYSTEM_ACTOR_ADDR" by (simp add: ex_ctx_def)
  from epoch_tick_delivers [OF this, of "\<lambda>i. i \<noteq> 0"
      "\<lparr>vm_state = \<lparr>entries = [\<lparr>entry_receiver = ID 4, entry_method_num = 5\<rparr>,
                              \<lparr>entry_receiver = ID 5, entry_method_num = 9\<rparr>]\<rparr>,
        vm_balance = 0, vm_world = ex_world, vm_sends = []\<rparr>"]
  show ?thesis by (auto simp: cron_req_def)
qed

end
