(* ===== verification/Epochs.thy ===== *)
theory Epochs
  imports Runtime
begin

text \<open>
  The epoch arithmetic of the miner actor: quantization (\<open>actors/miner/src/quantize.rs\<close>), deadline
  windows (\<open>deadline_info.rs\<close>, \<open>deadlines.rs\<close>) and the policy parameters they use
  (\<open>runtime/src/runtime/policy.rs\<close>). Epochs are integers; Rust's division and remainder truncate,
  as \<open>sdiv\<close> and \<open>smod\<close> do. A division by a zero unit, which would panic, is excluded by the
  hypotheses on the unit and the policy, all constants of the code being positive.
\<close>

section \<open>Policy\<close>

definition EPOCH_DURATION_SECONDS :: int where "EPOCH_DURATION_SECONDS = 30"
definition WPOST_PROVING_PERIOD :: int where "WPOST_PROVING_PERIOD = EPOCHS_IN_DAY"
definition WPOST_CHALLENGE_WINDOW :: int where
  "WPOST_CHALLENGE_WINDOW = 30 * 60 div EPOCH_DURATION_SECONDS"
definition WPOST_PERIOD_DEADLINES :: nat where "WPOST_PERIOD_DEADLINES = 48"
definition CHAIN_FINALITY :: int where "CHAIN_FINALITY = 900"
definition WPOST_DISPUTE_WINDOW :: int where "WPOST_DISPUTE_WINDOW = 2 * CHAIN_FINALITY"
definition WPOST_CHALLENGE_LOOKBACK :: int where "WPOST_CHALLENGE_LOOKBACK = 20"
definition FAULT_DECLARATION_CUTOFF :: int where
  "FAULT_DECLARATION_CUTOFF = WPOST_CHALLENGE_LOOKBACK + 50"

record policy =
  wpost_proving_period :: int
  wpost_challenge_window :: int
  wpost_period_deadlines :: nat
  wpost_dispute_window :: int
  wpost_challenge_lookback :: int
  fault_declaration_cutoff :: int

definition default_policy :: policy where
  "default_policy =
     \<lparr>wpost_proving_period = WPOST_PROVING_PERIOD,
      wpost_challenge_window = WPOST_CHALLENGE_WINDOW,
      wpost_period_deadlines = WPOST_PERIOD_DEADLINES,
      wpost_dispute_window = WPOST_DISPUTE_WINDOW,
      wpost_challenge_lookback = WPOST_CHALLENGE_LOOKBACK,
      fault_declaration_cutoff = FAULT_DECLARATION_CUTOFF\<rparr>"

section \<open>Quantization\<close>

record quant_spec =
  quant_unit :: int
  quant_offset :: int

definition NO_QUANTIZATION :: quant_spec where
  "NO_QUANTIZATION = \<lparr>quant_unit = 1, quant_offset = 0\<rparr>"

definition quantize_up :: "quant_spec \<Rightarrow> int \<Rightarrow> int" where
  "quantize_up q epoch =
     (let offset = quant_offset q smod quant_unit q;
          remainder = (epoch - offset) smod quant_unit q;
          quotient = (epoch - offset) sdiv quant_unit q
      in if remainder = 0 \<or> epoch - offset < 0 then quant_unit q * quotient + offset
         else quant_unit q * (quotient + 1) + offset)"

definition quantize_down :: "quant_spec \<Rightarrow> int \<Rightarrow> int" where
  "quantize_down q epoch =
     (let next = quantize_up q epoch in if epoch = next then next else next - quant_unit q)"

section \<open>Deadlines\<close>

record deadline_info =
  di_current_epoch :: int
  di_period_start :: int
  di_index :: nat
  di_open :: int
  di_close :: int
  di_challenge :: int
  di_fault_cutoff :: int
  di_period_deadlines :: nat
  di_proving_period :: int
  di_challenge_window :: int
  di_challenge_lookback :: int
  di_fault_declaration_cutoff :: int

definition deadline_info_new ::
  "int \<Rightarrow> nat \<Rightarrow> int \<Rightarrow> nat \<Rightarrow> int \<Rightarrow> int \<Rightarrow> int \<Rightarrow> int \<Rightarrow> deadline_info" where
  "deadline_info_new period_start deadline_idx current_epoch deadlines proving_period
     challenge_window challenge_lookback cutoff =
     (if deadline_idx < deadlines then
        let deadline_open = period_start + int deadline_idx * challenge_window in
        \<lparr>di_current_epoch = current_epoch, di_period_start = period_start, di_index = deadline_idx,
         di_open = deadline_open, di_close = deadline_open + challenge_window,
         di_challenge = deadline_open - challenge_lookback,
         di_fault_cutoff = deadline_open - cutoff,
         di_period_deadlines = deadlines, di_proving_period = proving_period,
         di_challenge_window = challenge_window, di_challenge_lookback = challenge_lookback,
         di_fault_declaration_cutoff = cutoff\<rparr>
      else
        let after_last_deadline = period_start + proving_period in
        \<lparr>di_current_epoch = current_epoch, di_period_start = period_start, di_index = deadline_idx,
         di_open = after_last_deadline, di_close = after_last_deadline,
         di_challenge = after_last_deadline, di_fault_cutoff = 0,
         di_period_deadlines = deadlines, di_proving_period = proving_period,
         di_challenge_window = challenge_window, di_challenge_lookback = challenge_lookback,
         di_fault_declaration_cutoff = cutoff\<rparr>)"

definition next_period_start :: "deadline_info \<Rightarrow> int" where
  "next_period_start di = di_period_start di + di_proving_period di"

definition period_started :: "deadline_info \<Rightarrow> bool" where
  "period_started di \<longleftrightarrow> di_period_start di \<le> di_current_epoch di"

definition period_elapsed :: "deadline_info \<Rightarrow> bool" where
  "period_elapsed di \<longleftrightarrow> next_period_start di \<le> di_current_epoch di"

definition period_end :: "deadline_info \<Rightarrow> int" where
  "period_end di = di_period_start di + di_proving_period di - 1"

definition is_open :: "deadline_info \<Rightarrow> bool" where
  "is_open di \<longleftrightarrow> di_open di \<le> di_current_epoch di \<and> di_current_epoch di < di_close di"

definition has_elapsed :: "deadline_info \<Rightarrow> bool" where
  "has_elapsed di \<longleftrightarrow> di_close di \<le> di_current_epoch di"

definition di_last :: "deadline_info \<Rightarrow> int" where
  "di_last di = di_close di - 1"

definition next_open :: "deadline_info \<Rightarrow> int" where
  "next_open di = di_close di"

definition fault_cutoff_passed :: "deadline_info \<Rightarrow> bool" where
  "fault_cutoff_passed di \<longleftrightarrow> di_fault_cutoff di \<le> di_current_epoch di"

definition next_not_elapsed :: "deadline_info \<Rightarrow> deadline_info" where
  "next_not_elapsed di =
     (if \<not> has_elapsed di then di
      else
        let gap = di_current_epoch di - di_close di;
            delta_periods = 1 + gap sdiv di_proving_period di
        in deadline_info_new (di_period_start di + di_proving_period di * delta_periods) (di_index di)
             (di_current_epoch di) (di_period_deadlines di) (di_proving_period di)
             (di_challenge_window di) (di_challenge_lookback di) (di_fault_declaration_cutoff di))"

definition di_quant_spec :: "deadline_info \<Rightarrow> quant_spec" where
  "di_quant_spec di = \<lparr>quant_unit = di_proving_period di, quant_offset = di_last di\<rparr>"

definition new_deadline_info :: "policy \<Rightarrow> int \<Rightarrow> nat \<Rightarrow> int \<Rightarrow> deadline_info" where
  "new_deadline_info p proving_period_start deadline_idx current_epoch =
     deadline_info_new proving_period_start deadline_idx current_epoch (wpost_period_deadlines p)
       (wpost_proving_period p) (wpost_challenge_window p) (wpost_challenge_lookback p)
       (fault_declaration_cutoff p)"

definition deadline_is_mutable :: "policy \<Rightarrow> int \<Rightarrow> nat \<Rightarrow> int \<Rightarrow> bool" where
  "deadline_is_mutable p proving_period_start deadline_idx current_epoch =
     (let di = next_not_elapsed (new_deadline_info p proving_period_start deadline_idx current_epoch)
      in current_epoch < di_open di - wpost_challenge_window p)"

definition quant_spec_for_deadline :: "policy \<Rightarrow> deadline_info \<Rightarrow> quant_spec" where
  "quant_spec_for_deadline p di = \<lparr>quant_unit = wpost_proving_period p, quant_offset = di_last di\<rparr>"

definition deadline_available_for_optimistic_post_dispute ::
  "policy \<Rightarrow> int \<Rightarrow> nat \<Rightarrow> int \<Rightarrow> bool" where
  "deadline_available_for_optimistic_post_dispute p proving_period_start deadline_idx current_epoch =
     (if current_epoch < proving_period_start then False
      else
        let di = next_not_elapsed (new_deadline_info p proving_period_start deadline_idx current_epoch)
        in \<not> is_open di \<and>
           current_epoch < (di_close di - wpost_proving_period p) + wpost_dispute_window p)"

definition deadline_available_for_compaction :: "policy \<Rightarrow> int \<Rightarrow> nat \<Rightarrow> int \<Rightarrow> bool" where
  "deadline_available_for_compaction p proving_period_start deadline_idx current_epoch \<longleftrightarrow>
     deadline_is_mutable p proving_period_start deadline_idx current_epoch \<and>
     \<not> deadline_available_for_optimistic_post_dispute p proving_period_start deadline_idx
         current_epoch"

definition new_deadline_info_from_offset_and_epoch :: "policy \<Rightarrow> int \<Rightarrow> int \<Rightarrow> deadline_info" where
  "new_deadline_info_from_offset_and_epoch p period_start_seed current_epoch =
     (let q = \<lparr>quant_unit = wpost_proving_period p, quant_offset = period_start_seed\<rparr>;
          current_period_start = quantize_down q current_epoch;
          current_deadline_idx =
            nat ((current_epoch - current_period_start) sdiv wpost_challenge_window p)
      in new_deadline_info p current_period_start current_deadline_idx current_epoch)"

section \<open>The quantizer\<close>

text \<open>
  An epoch is aligned when it differs from the offset by a multiple of the unit. The interface
  that the queues rely on: rounding up gives the least aligned epoch not before the argument.
\<close>

definition aligned :: "quant_spec \<Rightarrow> int \<Rightarrow> bool" where
  "aligned q x \<longleftrightarrow> quant_unit q dvd (x - quant_offset q)"

lemma sdiv_pos: "0 < b \<Longrightarrow> a sdiv b = (if 0 \<le> a then a div b else - ((- a) div b))" for a b :: int
  by (auto simp: signed_divide_int_def sgn_if)

lemma smod_pos: "0 < b \<Longrightarrow> a smod b = (if 0 \<le> a then a mod b else - ((- a) mod b))" for a b :: int
  by (auto simp: signed_modulo_int_def sgn_if)

lemma smod_eq: "0 < b \<Longrightarrow> a smod b = a - b * (a sdiv b)" for a b :: int
  using minus_mult_div_eq_mod [of a b] minus_mult_div_eq_mod [of "- a" b]
  by (auto simp: smod_pos sdiv_pos)

lemma sdiv_ceil:
  "0 < b \<Longrightarrow> (if d smod b = 0 \<or> d < 0 then d sdiv b else d sdiv b + 1) = div_ceil d b"
  for b d :: int
  by (auto simp: sdiv_pos smod_pos div_ceil_def zdiv_zminus1_eq_if)

locale quantizer =
  fixes u :: int and al :: "int \<Rightarrow> bool" and up :: "int \<Rightarrow> int"
  assumes up_aligned: "0 < u \<Longrightarrow> al (up e)"
    and up_ge: "0 < u \<Longrightarrow> e \<le> up e"
    and up_least: "0 < u \<Longrightarrow> al x \<Longrightarrow> e \<le> x \<Longrightarrow> up e \<le> x"
    and up_near: "0 < u \<Longrightarrow> up e < e + u"
begin

lemma up_mono: "0 < u \<Longrightarrow> e \<le> e' \<Longrightarrow> up e \<le> up e'"
  using up_least [OF _ up_aligned] up_ge order_trans by blast

lemma up_fixed: "0 < u \<Longrightarrow> al e \<Longrightarrow> up e = e"
  using up_least [of e e] up_ge [of e] by simp

lemma up_idem: "0 < u \<Longrightarrow> up (up e) = up e"
  using up_fixed up_aligned by blast

lemma up_le_iff: "0 < u \<Longrightarrow> al x \<Longrightarrow> up e \<le> x \<longleftrightarrow> e \<le> x"
  using up_least up_ge order_trans by blast

end

text \<open>The documented formula: \<open>unit * ceil ((epoch - o) / unit) + o\<close>, with \<open>o = offset % unit\<close>.\<close>

lemma quantize_up_ceil:
  assumes "0 < quant_unit q"
  shows "quantize_up q e =
    quant_unit q * div_ceil (e - quant_offset q smod quant_unit q) (quant_unit q)
      + quant_offset q smod quant_unit q"
proof -
  let ?u = "quant_unit q" and ?o = "quant_offset q smod quant_unit q"
  let ?d = "e - ?o"
  show ?thesis
    using sdiv_ceil [OF assms, of ?d] by (auto simp: quantize_up_def Let_def split: if_splits)
qed


lemma dvd_smod_diff: "0 < b \<Longrightarrow> b dvd (a smod b - a)" for a b :: int
  by (simp add: smod_eq)

interpretation qz: quantizer "quant_unit q" "aligned q" "quantize_up q" for q
proof
  fix e x
  let ?u = "quant_unit q" and ?o = "quant_offset q smod quant_unit q"
  let ?c = "div_ceil (e - ?o) ?u"
  assume u: "0 < ?u"
  note up = quantize_up_ceil [OF u, of e]
  have off: "?u dvd ?o - quant_offset q" using u by (rule dvd_smod_diff)
  have "quantize_up q e - quant_offset q = ?u * ?c + (?o - quant_offset q)" using up by simp
  with off show "aligned q (quantize_up q e)" unfolding aligned_def by (metis dvd_add dvd_triv_left)
  show "e \<le> quantize_up q e"
    using div_ceil_upper [OF u, of "e - ?o"] up by (simp add: mult.commute)
  show "quantize_up q e < e + ?u"
    using div_ceil_lower [OF u, of "e - ?o"] up by (simp add: mult.commute)
  assume "aligned q x" and "e \<le> x"
  from this(1) off have "?u dvd x - ?o"
    unfolding aligned_def using dvd_diff [of ?u "x - quant_offset q" "?o - quant_offset q"] by simp
  then obtain k where "x - ?o = ?u * k" by (rule dvdE)
  then have k: "x - ?o = k * ?u" by (simp add: mult.commute)
  have "div_ceil (e - ?o) ?u \<le> div_ceil (x - ?o) ?u"
    using u \<open>e \<le> x\<close> by (intro div_ceil_mono) auto
  then have "?c \<le> k" using u by (simp add: k)
  then have "?u * ?c \<le> ?u * k" using u by simp
  with up k show "quantize_up q e \<le> x" by (simp add: mult.commute)
qed

lemma aligned_add: "aligned q x \<Longrightarrow> aligned q (x + quant_unit q * k)"
  unfolding aligned_def by (metis add.commute add_diff_eq dvd_add dvd_triv_left)

lemma aligned_minus: "aligned q x \<Longrightarrow> aligned q (x - quant_unit q)"
  using aligned_add [of q x "- 1"] by simp

text \<open>Rounding down, from rounding up.\<close>

lemma quantize_down_bounds:
  assumes "0 < quant_unit q"
  shows "aligned q (quantize_down q e)" and "quantize_down q e \<le> e"
    and "e < quantize_down q e + quant_unit q"
  using qz.up_aligned [OF assms, of e] qz.up_ge [OF assms, of e] qz.up_near [OF assms, of e] assms
  by (auto simp: quantize_down_def Let_def intro: aligned_minus)

lemma aligned_unique:
  assumes "0 < quant_unit q" "aligned q x" "aligned q y" "x \<le> e" "e < x + quant_unit q"
    "y \<le> e" "e < y + quant_unit q"
  shows "x = y"
proof -
  have "quant_unit q dvd x - y"
    using assms(2,3) unfolding aligned_def by (metis diff_diff_eq2 diff_add_cancel dvd_diff)
  then show ?thesis
    using assms zdvd_not_zless [of "x - y" "quant_unit q"] zdvd_not_zless [of "y - x" "quant_unit q"]
    by (cases x y rule: linorder_cases) (auto simp: dvd_diff_commute)
qed

section \<open>Deadline windows\<close>

definition policy_ok :: "policy \<Rightarrow> bool" where
  "policy_ok p \<longleftrightarrow> 0 < wpost_challenge_window p \<and> 0 < wpost_period_deadlines p \<and>
     wpost_proving_period p = int (wpost_period_deadlines p) * wpost_challenge_window p"

lemmas policy_consts = default_policy_def WPOST_PROVING_PERIOD_def WPOST_CHALLENGE_WINDOW_def
  WPOST_PERIOD_DEADLINES_def WPOST_DISPUTE_WINDOW_def WPOST_CHALLENGE_LOOKBACK_def
  FAULT_DECLARATION_CUTOFF_def CHAIN_FINALITY_def EPOCHS_IN_DAY_def EPOCH_DURATION_SECONDS_def

lemma default_policy_ok: "policy_ok default_policy"
  by (simp add: policy_ok_def policy_consts)

lemma policy_okD:
  assumes "policy_ok p"
  shows "0 < wpost_challenge_window p" and "0 < wpost_proving_period p"
  using assms by (auto simp: policy_ok_def)

text \<open>The opening epoch of the \<open>k\<close>-th instance of a deadline after a proving period start.\<close>

definition opens_at :: "policy \<Rightarrow> int \<Rightarrow> nat \<Rightarrow> nat \<Rightarrow> int" where
  "opens_at p start idx k = start + int idx * wpost_challenge_window p + wpost_proving_period p * int k"

lemma next_not_elapsed_instance:
  assumes "0 < wpost_proving_period p" and "idx < wpost_period_deadlines p"
  obtains k where "di_open (next_not_elapsed (new_deadline_info p s idx e)) = opens_at p s idx k"
    and "di_close (next_not_elapsed (new_deadline_info p s idx e)) = opens_at p s idx k + wpost_challenge_window p"
    and "di_current_epoch (next_not_elapsed (new_deadline_info p s idx e)) = e"
    and "di_index (next_not_elapsed (new_deadline_info p s idx e)) = idx"
    and "e < opens_at p s idx k + wpost_challenge_window p"
    and "0 < k \<Longrightarrow> opens_at p s idx k + wpost_challenge_window p - wpost_proving_period p \<le> e"
proof (cases "e < opens_at p s idx 0 + wpost_challenge_window p")
  case True
  with assms show thesis
    by (intro that [of 0])
      (auto simp: next_not_elapsed_def has_elapsed_def new_deadline_info_def deadline_info_new_def
        opens_at_def Let_def)
next
  case False
  let ?P = "wpost_proving_period p"
  let ?gap = "e - (opens_at p s idx 0 + wpost_challenge_window p)"
  let ?n = "?gap div ?P"
  have gap: "0 \<le> ?gap" using False by simp
  have n: "0 \<le> ?n" using gap assms(1) by (simp add: pos_imp_zdiv_nonneg_iff)
  have "?P * ?n \<le> ?gap" "?gap < ?P * ?n + ?P"
    using assms(1) mult_div_mod_eq [of ?P ?gap] pos_mod_sign [of ?P ?gap] pos_mod_bound [of ?P ?gap]
    by linarith+
  with False assms gap n show thesis
    by (intro that [of "nat (1 + ?n)"])
      (auto simp: next_not_elapsed_def has_elapsed_def new_deadline_info_def deadline_info_new_def
        opens_at_def Let_def sdiv_pos distrib_left algebra_simps)
qed

section \<open>Properties\<close>

text \<open>
  Rounding up gives the least aligned epoch that is not before the argument, and equals the
  documented formula over the rationals; rounding down gives the greatest aligned epoch that is
  not after it. This holds for negative epochs and offsets as well, where the code relies on
  truncation.
\<close>

theorem quantize_spec:
  assumes "0 < quant_unit q"
  shows "quantize_up q e =
      quant_unit q * div_ceil (e - quant_offset q smod quant_unit q) (quant_unit q)
        + quant_offset q smod quant_unit q
    \<and> aligned q (quantize_up q e) \<and> e \<le> quantize_up q e
    \<and> (\<forall>x. aligned q x \<longrightarrow> e \<le> x \<longrightarrow> quantize_up q e \<le> x)
    \<and> aligned q (quantize_down q e) \<and> quantize_down q e \<le> e
    \<and> (\<forall>x. aligned q x \<longrightarrow> x \<le> e \<longrightarrow> x \<le> quantize_down q e)"
proof -
  have "x \<le> quantize_down q e" if "aligned q x" "x \<le> e" for x
  proof (rule ccontr)
    assume "\<not> x \<le> quantize_down q e"
    moreover from that quantize_down_bounds(1) [OF assms, of e]
    have "quant_unit q dvd x - quantize_down q e"
      unfolding aligned_def by (metis diff_diff_eq2 diff_add_cancel dvd_diff)
    ultimately have "quant_unit q \<le> x - quantize_down q e" by (intro zdvd_imp_le) auto
    with quantize_down_bounds(3) [OF assms, of e] that(2) show False by simp
  qed
  with quantize_up_ceil [OF assms] qz.up_aligned [OF assms] qz.up_ge [OF assms] qz.up_least [OF assms]
    quantize_down_bounds [OF assms] show ?thesis by blast
qed

theorem quantize_spec_witness:
  "quantize_up \<lparr>quant_unit = 10, quant_offset = - 7\<rparr> (- 12) = - 7 \<and>
   aligned \<lparr>quant_unit = 10, quant_offset = - 7\<rparr> (- 7)"
  using quantize_spec [of "\<lparr>quant_unit = 10, quant_offset = - 7\<rparr>" "- 12"]
  by (simp add: quantize_up_def Let_def sdiv_pos smod_pos)

text \<open>
  C25: the deadline computed from the proving-period offset and the epoch alone is the one that
  is open. For every epoch, before or after the offset, it has a valid index, its window contains
  the epoch, and its period starts at the offset up to whole periods.
\<close>

theorem deadline_from_epoch_open:
  assumes "policy_ok p"
  shows "let di = new_deadline_info_from_offset_and_epoch p seed e in
    di_index di < wpost_period_deadlines p \<and> is_open di \<and> \<not> has_elapsed di
    \<and> period_started di \<and> \<not> period_elapsed di
    \<and> wpost_proving_period p dvd (di_period_start di - seed)"
proof -
  let ?q = "\<lparr>quant_unit = wpost_proving_period p, quant_offset = seed\<rparr>"
  let ?W = "wpost_challenge_window p" and ?N = "wpost_period_deadlines p"
  let ?d = "e - quantize_down ?q e"
  have u: "0 < quant_unit ?q" using policy_okD [OF assms] by simp
  note b = quantize_down_bounds [OF u, of e]
  have W: "0 < ?W" using policy_okD [OF assms] by simp
  have P: "wpost_proving_period p = int ?N * ?W" using assms by (simp add: policy_ok_def)
  have "0 \<le> ?d" "?d < int ?N * ?W" using b P by simp_all
  note d = this
  have div: "?d div ?W * ?W \<le> ?d" "?d < ?d div ?W * ?W + ?W"
    using W div_mult_mod_eq [of ?d ?W] pos_mod_sign [of ?W ?d] pos_mod_bound [of ?W ?d] by linarith+
  with d have "?d div ?W * ?W < int ?N * ?W" by linarith
  with W d have idx: "0 \<le> ?d div ?W" "?d div ?W < int ?N"
    by (simp_all add: pos_imp_zdiv_nonneg_iff mult_less_cancel_right)
  show ?thesis
    using idx div b W \<open>0 \<le> ?d\<close>
    by (auto simp: new_deadline_info_from_offset_and_epoch_def new_deadline_info_def
        deadline_info_new_def Let_def sdiv_pos is_open_def has_elapsed_def period_started_def
        period_elapsed_def next_period_start_def aligned_def nat_less_iff)
qed

theorem deadline_from_epoch_open_witness:
  "is_open (new_deadline_info_from_offset_and_epoch default_policy 100 5000)"
  using deadline_from_epoch_open [OF default_policy_ok, of 100 5000] by (simp add: Let_def)

text \<open>
  A deadline can be mutated exactly when the epoch is not in, nor within one challenge
  window before, any instance of it from the given period start on; what is open for compaction
  is mutable, is not being challenged and cannot be disputed.
\<close>

theorem deadline_mutable_iff:
  assumes "policy_ok p" and "idx < wpost_period_deadlines p"
  shows "(deadline_is_mutable p s idx e \<longleftrightarrow>
      (\<forall>k. \<not> (opens_at p s idx k - wpost_challenge_window p \<le> e
              \<and> e < opens_at p s idx k + wpost_challenge_window p)))
    \<and> (deadline_available_for_compaction p s idx e \<longrightarrow>
        deadline_is_mutable p s idx e \<and>
        \<not> deadline_available_for_optimistic_post_dispute p s idx e \<and>
        \<not> is_open (next_not_elapsed (new_deadline_info p s idx e)))"
proof -
  let ?W = "wpost_challenge_window p" and ?P = "wpost_proving_period p"
  note pos = policy_okD [OF assms(1)]
  obtain k where k: "di_open (next_not_elapsed (new_deadline_info p s idx e)) = opens_at p s idx k"
    "di_current_epoch (next_not_elapsed (new_deadline_info p s idx e)) = e"
    "e < opens_at p s idx k + ?W" "0 < k \<Longrightarrow> opens_at p s idx k + ?W - ?P \<le> e"
    by (rule next_not_elapsed_instance [OF pos(2) assms(2), of s e]) blast
  have mut: "deadline_is_mutable p s idx e \<longleftrightarrow> e < opens_at p s idx k - ?W"
    by (simp add: deadline_is_mutable_def Let_def k)
  have "\<not> (opens_at p s idx j - ?W \<le> e \<and> e < opens_at p s idx j + ?W)"
    if "e < opens_at p s idx k - ?W" for j
  proof (cases "j < k")
    case True
    then have "?P * int j \<le> ?P * (int k - 1)" using pos by (intro mult_left_mono) auto
    with k(4) True show ?thesis by (simp add: opens_at_def right_diff_distrib)
  next
    case False
    then have "?P * int k \<le> ?P * int j" using pos by simp
    with that show ?thesis by (simp add: opens_at_def)
  qed
  with k mut pos show ?thesis
    by (auto simp: deadline_available_for_compaction_def is_open_def)
qed

theorem deadline_mutable_iff_witness:
  "\<not> deadline_is_mutable default_policy 0 3 150"
proof -
  have "3 < wpost_period_deadlines default_policy" by (simp add: policy_consts)
  moreover have "opens_at default_policy 0 3 0 - wpost_challenge_window default_policy \<le> 150
    \<and> 150 < opens_at default_policy 0 3 0 + wpost_challenge_window default_policy"
    by (simp add: opens_at_def policy_consts)
  ultimately show ?thesis using deadline_mutable_iff [OF default_policy_ok, of 3 0 150] by blast
qed

end
