(* ===== verification/Vesting.thy ===== *)
theory Vesting
  imports Epochs
begin

text \<open>
  The vesting table of a miner (\<open>actors/miner/src/vesting_state.rs\<close>) and the funds of the miner
  state that are drawn from it (\<open>actors/miner/src/state.rs\<close>, from \<open>add_pre_commit_deposit\<close> to
  \<open>check_balance_invariants\<close>). The tail of the table, stored behind a Cid, is its content. The
  generator of the vesting schedule is a loop whose end depends on the specification; it is a
  partial function, \<open>None\<close> standing for not ending, and it is proved to end.
\<close>

section \<open>The table\<close>

record vest_spec =
  initial_delay :: int
  vest_period :: int
  step_duration :: int
  quantization :: int

definition REWARD_VESTING_SPEC :: vest_spec where
  "REWARD_VESTING_SPEC =
     \<lparr>initial_delay = 0, vest_period = 180 * EPOCHS_IN_DAY, step_duration = EPOCHS_IN_DAY,
      quantization = 12 * EPOCHS_IN_HOUR\<rparr>"

record vesting_fund =
  vf_epoch :: int
  vf_amount :: int

record vesting_inner =
  vf_head :: vesting_fund
  vf_tail :: "vesting_fund list"

type_synonym vesting_funds = "vesting_inner option"

text \<open>The funds taken, and what the iterator has left.\<close>

definition take_vested :: "vesting_fund list \<Rightarrow> int \<Rightarrow> int \<times> vesting_fund list" where
  "take_vested funds current_epoch =
     (sum_list (map vf_amount (takeWhile (\<lambda>f. vf_epoch f < current_epoch) funds)),
      dropWhile (\<lambda>f. vf_epoch f < current_epoch) funds)"

definition vf_new :: vesting_funds where
  "vf_new = None"

fun vf_load :: "vesting_funds \<Rightarrow> vesting_fund list" where
  "vf_load None = []"
| "vf_load (Some this) =
     (if 0 < vf_amount (vf_head this) then vf_head this # vf_tail this else vf_tail this)"

fun vf_save :: "vesting_fund list \<Rightarrow> vesting_funds" where
  "vf_save [] = None"
| "vf_save (h # t) = Some \<lparr>vf_head = h, vf_tail = t\<rparr>"

definition can_vest :: "vesting_funds \<Rightarrow> int \<Rightarrow> bool" where
  "can_vest v current_epoch =
     (case v of None \<Rightarrow> False | Some this \<Rightarrow> vf_epoch (vf_head this) < current_epoch)"

definition vf_unlock_vested_funds :: "vesting_funds \<Rightarrow> int \<Rightarrow> int \<times> vesting_funds" where
  "vf_unlock_vested_funds v current_epoch =
     (if \<not> can_vest v current_epoch then (0, v)
      else
        let (unlocked, rest) = take_vested (vf_load v) current_epoch
        in (unlocked, vf_save rest))"

text \<open>How much of a sum is vested once an amount of time has elapsed.\<close>

definition vest_target :: "vest_spec \<Rightarrow> int \<Rightarrow> int \<Rightarrow> int" where
  "vest_target spec vesting_sum elapsed =
     (if elapsed < vest_period spec then div_floor (vesting_sum * elapsed) (vest_period spec)
      else vesting_sum)"

partial_function (option) new_funds ::
  "vest_spec \<Rightarrow> quant_spec \<Rightarrow> int \<Rightarrow> int \<Rightarrow> int \<Rightarrow> int \<Rightarrow> vesting_fund list option" where
  "new_funds spec quant vest_begin vesting_sum vested_so_far epoch =
     (if vesting_sum \<le> vested_so_far then Some []
      else
        let epoch' = epoch + step_duration spec;
            vest_epoch = quantize_up quant epoch';
            target_vest = vest_target spec vesting_sum (vest_epoch - vest_begin);
            vest_this_time = target_vest - vested_so_far
        in Option.bind (new_funds spec quant vest_begin vesting_sum target_vest epoch')
             (\<lambda>rest. Some (\<lparr>vf_epoch = vest_epoch, vf_amount = vest_this_time\<rparr> # rest)))"

text \<open>\<open>merge_join_by\<close> on the epochs, with the amounts of entries that meet added up.\<close>

fun merge_join :: "vesting_fund list \<Rightarrow> vesting_fund list \<Rightarrow> vesting_fund list" where
  "merge_join [] bs = bs"
| "merge_join (a # as) [] = a # as"
| "merge_join (a # as) (b # bs) =
     (if vf_epoch a < vf_epoch b then a # merge_join as (b # bs)
      else if vf_epoch b < vf_epoch a then b # merge_join (a # as) bs
      else \<lparr>vf_epoch = vf_epoch a, vf_amount = vf_amount a + vf_amount b\<rparr> # merge_join as bs)"

definition vf_add_locked_funds ::
  "vesting_funds \<Rightarrow> int \<Rightarrow> int \<Rightarrow> int \<Rightarrow> vest_spec \<Rightarrow> (int \<times> vesting_funds) option" where
  "vf_add_locked_funds v current_epoch vesting_sum proving_period_start spec =
     (let vest_begin = current_epoch + initial_delay spec;
          quant = \<lparr>quant_unit = quantization spec, quant_offset = proving_period_start\<rparr>
      in Option.bind (new_funds spec quant vest_begin vesting_sum 0 vest_begin) (\<lambda>fresh.
         let combined_funds = merge_join (vf_load v) fresh;
             (unlocked, rest) = take_vested combined_funds current_epoch
         in Some (unlocked, vf_save rest)))"

text \<open>The loop of the slow path: vested and unvested amounts taken, and what is left.\<close>

fun unlock_loop :: "int \<Rightarrow> vesting_fund list \<Rightarrow> int \<Rightarrow> int \<Rightarrow> int \<Rightarrow> int \<times> int \<times> vesting_fund list" where
  "unlock_loop current_epoch [] target vested unvested = (vested, unvested, [])"
| "unlock_loop current_epoch (vf # funds) target vested unvested =
     (if vf_epoch vf < current_epoch
      then unlock_loop current_epoch funds target (vested + vf_amount vf) unvested
      else if vf_amount vf < target
      then unlock_loop current_epoch funds (target - vf_amount vf) vested (unvested + vf_amount vf)
      else (vested, unvested + target, vf\<lparr>vf_amount := vf_amount vf - target\<rparr> # funds))"

definition vf_unlock_vested_and_unvested_funds ::
  "vesting_funds \<Rightarrow> int \<Rightarrow> int \<Rightarrow> (int \<times> int) \<times> vesting_funds" where
  "vf_unlock_vested_and_unvested_funds v current_epoch target =
     (case v of
        None \<Rightarrow> ((0, 0), None)
      | Some this \<Rightarrow>
          (if current_epoch \<le> vf_epoch (vf_head this) \<and> target \<le> vf_amount (vf_head this) then
             ((0, target),
              Some (this\<lparr>vf_head := (vf_head this)\<lparr>vf_amount := vf_amount (vf_head this) - target\<rparr>\<rparr>))
           else
             let (vested, unvested, rest) = unlock_loop current_epoch (vf_load v) target 0 0
             in ((vested, unvested), vf_save rest)))"

section \<open>The funds of the miner state\<close>

record miner_funds =
  pre_commit_deposits :: int
  locked_funds :: int
  vesting_funds :: vesting_funds
  fee_debt :: int
  initial_pledge :: int
  proving_period_start :: int

definition miner_funds_new :: "int \<Rightarrow> miner_funds" where
  "miner_funds_new period_start =
     \<lparr>pre_commit_deposits = 0, locked_funds = 0, vesting_funds = vf_new, fee_debt = 0,
      initial_pledge = 0, proving_period_start = period_start\<rparr>"

definition continue_deadline_cron :: "miner_funds \<Rightarrow> bool" where
  "continue_deadline_cron st \<longleftrightarrow>
     pre_commit_deposits st \<noteq> 0 \<or> initial_pledge st \<noteq> 0 \<or> locked_funds st \<noteq> 0"

definition add_pre_commit_deposit :: "int \<Rightarrow> miner_funds \<Rightarrow> miner_funds anyhow" where
  "add_pre_commit_deposit amount st =
     (let new_total = pre_commit_deposits st + amount in
      if new_total < 0 then Inl None else Inr (st\<lparr>pre_commit_deposits := new_total\<rparr>))"

definition add_initial_pledge :: "int \<Rightarrow> miner_funds \<Rightarrow> miner_funds anyhow" where
  "add_initial_pledge amount st =
     (let new_total = initial_pledge st + amount in
      if new_total < 0 then Inl None else Inr (st\<lparr>initial_pledge := new_total\<rparr>))"

definition apply_penalty :: "int \<Rightarrow> miner_funds \<Rightarrow> miner_funds anyhow" where
  "apply_penalty penalty st =
     (if penalty < 0 then Inl None else Inr (st\<lparr>fee_debt := fee_debt st + penalty\<rparr>))"

definition add_locked_funds ::
  "int \<Rightarrow> int \<Rightarrow> vest_spec \<Rightarrow> miner_funds \<Rightarrow> (int \<times> miner_funds) anyhow option" where
  "add_locked_funds current_epoch vesting_sum spec st =
     (if vesting_sum < 0 then Some (Inl None)
      else
        Option.bind
          (vf_add_locked_funds (vesting_funds st) current_epoch vesting_sum (proving_period_start st) spec)
          (\<lambda>(amount_unlocked, vf).
             let locked = locked_funds st - amount_unlocked in
             if locked < 0 then Some (Inl None)
             else Some (Inr (amount_unlocked,
                    st\<lparr>vesting_funds := vf, locked_funds := locked + vesting_sum\<rparr>))))"

definition unlock_vested_and_unvested_funds ::
  "int \<Rightarrow> int \<Rightarrow> miner_funds \<Rightarrow> ((int \<times> int) \<times> miner_funds) anyhow" where
  "unlock_vested_and_unvested_funds current_epoch target st =
     (if target = 0 \<or> locked_funds st = 0 then Inr ((0, 0), st)
      else
        let ((unlocked_vested, unlocked_unvested), vf) =
              vf_unlock_vested_and_unvested_funds (vesting_funds st) current_epoch target;
            total_unlocked = unlocked_vested + unlocked_unvested;
            locked = locked_funds st - total_unlocked
        in if locked < 0 then Inl None
           else Inr ((unlocked_unvested, total_unlocked),
                     st\<lparr>vesting_funds := vf, locked_funds := locked\<rparr>))"

definition unlock_vested_funds :: "int \<Rightarrow> miner_funds \<Rightarrow> (int \<times> miner_funds) anyhow" where
  "unlock_vested_funds current_epoch st =
     (if locked_funds st = 0 then Inr (0, st)
      else
        let (amount_unlocked, vf) = vf_unlock_vested_funds (vesting_funds st) current_epoch;
            locked = locked_funds st - amount_unlocked
        in if locked < 0 then Inl None
           else Inr (amount_unlocked, st\<lparr>vesting_funds := vf, locked_funds := locked\<rparr>))"

definition get_unlocked_balance :: "int \<Rightarrow> miner_funds \<Rightarrow> int anyhow" where
  "get_unlocked_balance actor_balance st =
     (let unlocked_balance =
            actor_balance - locked_funds st - pre_commit_deposits st - initial_pledge st
      in if unlocked_balance < 0 then Inl None else Inr unlocked_balance)"

definition get_available_balance :: "int \<Rightarrow> miner_funds \<Rightarrow> int anyhow" where
  "get_available_balance actor_balance st =
     r_bind (get_unlocked_balance actor_balance st) (\<lambda>u. Inr (u - fee_debt st))"

definition repay_partial_debt_in_priority_order ::
  "int \<Rightarrow> int \<Rightarrow> miner_funds \<Rightarrow> ((int \<times> int) \<times> miner_funds) anyhow" where
  "repay_partial_debt_in_priority_order current_epoch curr_balance st =
     r_bind (unlock_vested_and_unvested_funds current_epoch (fee_debt st) st)
       (\<lambda>((from_vesting, total_unlocked), st1).
     if fee_debt st1 < from_vesting then Inl None
     else
       r_bind (get_unlocked_balance curr_balance st1) (\<lambda>unlocked_balance.
       let to_burn = min unlocked_balance (fee_debt st1)
       in Inr ((to_burn, total_unlocked), st1\<lparr>fee_debt := fee_debt st1 - to_burn\<rparr>)))"

definition repay_debts :: "int \<Rightarrow> miner_funds \<Rightarrow> (int \<times> miner_funds) anyhow" where
  "repay_debts curr_balance st =
     r_bind (get_unlocked_balance curr_balance st) (\<lambda>unlocked_balance.
     if unlocked_balance < fee_debt st then Inl (Some insufficient_funds)
     else Inr (fee_debt st, st\<lparr>fee_debt := 0\<rparr>))"

definition check_balance_invariants :: "int \<Rightarrow> miner_funds \<Rightarrow> unit anyhow" where
  "check_balance_invariants balance st =
     (if pre_commit_deposits st < 0 then Inl None
      else if locked_funds st < 0 then Inl None
      else if initial_pledge st < 0 then Inl None
      else if fee_debt st < 0 then Inl None
      else
        let min_balance = pre_commit_deposits st + locked_funds st + initial_pledge st
        in if balance < min_balance then Inl None else Inr ())"

section \<open>Totals and order of the table\<close>

abbreviation total :: "vesting_fund list \<Rightarrow> int" where
  "total fs \<equiv> sum_list (map vf_amount fs)"

text \<open>What has vested before an epoch, and what has not.\<close>

definition vested_by :: "int \<Rightarrow> vesting_fund list \<Rightarrow> int" where
  "vested_by e fs = total (filter (\<lambda>f. vf_epoch f < e) fs)"

definition unvested_by :: "int \<Rightarrow> vesting_fund list \<Rightarrow> int" where
  "unvested_by e fs = total (filter (\<lambda>f. e \<le> vf_epoch f) fs)"

definition funds_ok :: "vesting_fund list \<Rightarrow> bool" where
  "funds_ok fs \<longleftrightarrow> sorted (map vf_epoch fs) \<and> (\<forall>f \<in> set fs. 0 \<le> vf_amount f)"

definition table_ok :: "vesting_funds \<Rightarrow> bool" where
  "table_ok v \<longleftrightarrow> (case v of None \<Rightarrow> True | Some t \<Rightarrow> funds_ok (vf_head t # vf_tail t))"

lemma vested_plus_unvested: "vested_by e fs + unvested_by e fs = total fs"
  by (induction fs) (auto simp: vested_by_def unvested_by_def)

lemma total_nonneg: "funds_ok fs \<Longrightarrow> 0 \<le> total fs"
  by (auto simp: funds_ok_def intro!: sum_list_nonneg)

lemma vested_by_nonneg: "funds_ok fs \<Longrightarrow> 0 \<le> vested_by e fs"
  by (auto simp: vested_by_def funds_ok_def intro!: sum_list_nonneg)

lemma unvested_by_nonneg: "funds_ok fs \<Longrightarrow> 0 \<le> unvested_by e fs"
  by (auto simp: unvested_by_def funds_ok_def intro!: sum_list_nonneg)

lemma funds_ok_Cons [simp]:
  "funds_ok (f # fs) \<longleftrightarrow> 0 \<le> vf_amount f \<and> (\<forall>g \<in> set fs. vf_epoch f \<le> vf_epoch g) \<and> funds_ok fs"
  by (auto simp: funds_ok_def)

lemma funds_ok_Nil [simp]: "funds_ok []"
  by (simp add: funds_ok_def)

lemma funds_ok_load: "table_ok v \<Longrightarrow> funds_ok (vf_load v)"
  by (cases v) (auto simp: table_ok_def)

lemma table_ok_save: "funds_ok fs \<Longrightarrow> table_ok (vf_save fs)"
  by (cases fs) (auto simp: table_ok_def)

lemma total_load_save: "funds_ok fs \<Longrightarrow> total (vf_load (vf_save fs)) = total fs"
  by (cases fs) auto

lemma all_unvested: "\<forall>f \<in> set fs. e \<le> vf_epoch f \<Longrightarrow> vested_by e fs = 0 \<and> unvested_by e fs = total fs"
  by (induction fs) (auto simp: vested_by_def unvested_by_def)

lemma take_vested_spec:
  assumes "funds_ok fs" and "take_vested fs e = (u, rest)"
  shows "u = vested_by e fs \<and> total rest = unvested_by e fs \<and> funds_ok rest \<and>
    (\<forall>f \<in> set rest. e \<le> vf_epoch f)"
  using assms
proof (induction fs arbitrary: u rest)
  case (Cons f fs)
  show ?case
  proof (cases "vf_epoch f < e")
    case True
    with Cons.IH [of "u - vf_amount f" rest] Cons.prems show ?thesis
      by (auto simp: take_vested_def vested_by_def unvested_by_def)
  next
    case False
    with Cons.prems have all: "\<forall>g \<in> set (f # fs). e \<le> vf_epoch g" by auto
    from False Cons.prems(2) have "u = 0" "rest = f # fs" by (auto simp: take_vested_def)
    with all_unvested [OF all] all Cons.prems(1) show ?thesis by auto
  qed
qed (simp add: take_vested_def vested_by_def unvested_by_def)

lemma merge_join_epochs: "vf_epoch ` set (merge_join as bs) = vf_epoch ` set as \<union> vf_epoch ` set bs"
  by (induction as bs rule: merge_join.induct) auto

lemma merge_join_vested: "vested_by e (merge_join as bs) = vested_by e as + vested_by e bs"
  by (induction as bs rule: merge_join.induct) (auto simp: vested_by_def)

lemma merge_join_total: "total (merge_join as bs) = total as + total bs"
  by (induction as bs rule: merge_join.induct) auto

lemma merge_join_above:
  "\<forall>g \<in> set xs. x \<le> vf_epoch g \<Longrightarrow> \<forall>g \<in> set ys. x \<le> vf_epoch g \<Longrightarrow>
   \<forall>g \<in> set (merge_join xs ys). x \<le> vf_epoch g"
  by (induction xs ys rule: merge_join.induct) auto

lemma merge_join_ok: "funds_ok as \<Longrightarrow> funds_ok bs \<Longrightarrow> funds_ok (merge_join as bs)"
proof (induction as bs rule: merge_join.induct)
  case (3 a as b bs)
  consider "vf_epoch a < vf_epoch b" | "vf_epoch b < vf_epoch a" | "vf_epoch a = vf_epoch b" by linarith
  then show ?case
  proof cases
    case 1
    have "\<forall>g \<in> set (merge_join as (b # bs)). vf_epoch a \<le> vf_epoch g"
      by (rule merge_join_above) (use "3.prems" 1 in auto)
    moreover have "funds_ok (merge_join as (b # bs))" by (rule "3.IH"(1)) (use "3.prems" 1 in auto)
    ultimately show ?thesis using 1 "3.prems" by simp
  next
    case 2
    have "\<forall>g \<in> set (merge_join (a # as) bs). vf_epoch b \<le> vf_epoch g"
      by (rule merge_join_above) (use "3.prems" 2 in auto)
    moreover have "funds_ok (merge_join (a # as) bs)" by (rule "3.IH"(2)) (use "3.prems" 2 in auto)
    ultimately show ?thesis using 2 "3.prems" by simp
  next
    case 3
    have "\<forall>g \<in> set (merge_join as bs). vf_epoch a \<le> vf_epoch g"
      by (rule merge_join_above) (use "3.prems" 3 in auto)
    moreover have "funds_ok (merge_join as bs)" by (rule "3.IH"(3)) (use "3.prems" 3 in auto)
    ultimately show ?thesis using 3 "3.prems" by simp
  qed
qed auto

section \<open>The schedule ends, in order, with the whole sum\<close>

definition spec_ok :: "vest_spec \<Rightarrow> bool" where
  "spec_ok s \<longleftrightarrow> 0 \<le> initial_delay s \<and> 0 \<le> vest_period s \<and> 0 < step_duration s \<and> 0 < quantization s"

lemma vest_target_mono:
  assumes "0 \<le> s" and "0 \<le> x" and "x \<le> y"
  shows "vest_target spec s x \<le> vest_target spec s y" and "vest_target spec s x \<le> s"
    and "0 \<le> vest_target spec s x"
proof -
  have less: "s * z div P \<le> s" if "0 \<le> z" "z < P" for z P :: int
  proof -
    from that assms(1) have "s * z \<le> s * P" by (intro mult_left_mono) auto
    with that zdiv_mono1 [of "s * z" "s * P" P] show ?thesis by simp
  qed
  show "vest_target spec s x \<le> vest_target spec s y"
    using assms less [of x "vest_period spec"]
    by (auto simp: vest_target_def div_floor_def intro!: zdiv_mono1 mult_left_mono)
  show "vest_target spec s x \<le> s" using less assms by (auto simp: vest_target_def div_floor_def)
  show "0 \<le> vest_target spec s x"
    using assms by (auto simp: vest_target_def div_floor_def pos_imp_zdiv_nonneg_iff)
qed

lemma new_funds_done: "vesting_sum \<le> vested \<Longrightarrow> new_funds spec q b vesting_sum vested e = Some []"
  by (subst new_funds.simps) simp

lemma new_funds_step:
  assumes "vested < vesting_sum" and "ve = quantize_up q (e + step_duration spec)"
    and "t = vest_target spec vesting_sum (ve - b)"
    and "new_funds spec q b vesting_sum t (e + step_duration spec) = Some fs"
  shows "new_funds spec q b vesting_sum vested e = Some (\<lparr>vf_epoch = ve, vf_amount = t - vested\<rparr> # fs)"
  using assms by (subst new_funds.simps) (simp add: Let_def)

lemma new_funds_spec:
  assumes "spec_ok spec" and "quant_unit q = quantization spec" and "0 \<le> vesting_sum"
    and "b \<le> epoch" and "0 \<le> vested" and "vested \<le> vesting_sum"
    and "vested \<le> vest_target spec vesting_sum (quantize_up q (epoch + step_duration spec) - b)"
  shows "\<exists>fs. new_funds spec q b vesting_sum vested epoch = Some fs \<and> total fs = vesting_sum - vested
    \<and> funds_ok fs \<and> (\<forall>f \<in> set fs. quantize_up q (epoch + step_duration spec) \<le> vf_epoch f)"
  using assms(4-7)
proof (induction "nat (b + vest_period spec - epoch)" arbitrary: epoch vested rule: less_induct)
  case less
  let ?e' = "epoch + step_duration spec" and ?T = "vest_target spec vesting_sum"
  let ?ve = "quantize_up q ?e'"
  let ?ve' = "quantize_up q (?e' + step_duration spec)"
  have u: "0 < quant_unit q" and step: "0 < step_duration spec"
    using assms(1,2) by (auto simp: spec_ok_def)
  have ve: "?e' \<le> ?ve" "?ve \<le> ?ve'"
    using qz.up_ge [OF u] qz.up_mono [OF u, of ?e' "?e' + step_duration spec"] step by auto
  have T: "0 \<le> ?T (?ve - b)" "?T (?ve - b) \<le> vesting_sum" "?T (?ve - b) \<le> ?T (?ve' - b)"
    using vest_target_mono [OF assms(3), of "?ve - b" "?ve' - b"] ve step less.prems(1) by auto
  show ?case
  proof (cases "vested < vesting_sum")
    case False
    with less.prems(3) show ?thesis by (simp add: new_funds_done)
  next
    case True
    have "\<exists>fs. new_funds spec q b vesting_sum (?T (?ve - b)) ?e' = Some fs
      \<and> total fs = vesting_sum - ?T (?ve - b) \<and> funds_ok fs \<and> (\<forall>f \<in> set fs. ?ve' \<le> vf_epoch f)"
    proof (cases "?ve - b < vest_period spec")
      case True
      then have "nat (b + vest_period spec - ?e') < nat (b + vest_period spec - epoch)"
        using ve step by auto
      then show ?thesis
        using less.hyps [of ?e' "?T (?ve - b)"] less.prems(1) step T by auto
    next
      case False
      then have "?T (?ve - b) = vesting_sum" by (simp add: vest_target_def)
      then show ?thesis by (simp add: new_funds_done)
    qed
    then obtain fs where fs: "new_funds spec q b vesting_sum (?T (?ve - b)) ?e' = Some fs"
      "total fs = vesting_sum - ?T (?ve - b)" "funds_ok fs" "\<forall>f \<in> set fs. ?ve' \<le> vf_epoch f" by blast
    from new_funds_step [OF True refl refl fs(1)] fs(2-4) less.prems(4) ve(2) show ?thesis by auto
  qed
qed

text \<open>What adding funds does to the table.\<close>

lemma vf_add_locked_spec:
  assumes "table_ok v" and "spec_ok spec" and "0 \<le> s"
  shows "\<exists>u v'. vf_add_locked_funds v e s start spec = Some (u, v') \<and> table_ok v'
    \<and> u = vested_by e (vf_load v) \<and> total (vf_load v') = unvested_by e (vf_load v) + s"
proof -
  let ?q = "\<lparr>quant_unit = quantization spec, quant_offset = start\<rparr>"
  let ?b = "e + initial_delay spec"
  let ?ve = "quantize_up ?q (?b + step_duration spec)"
  have u: "0 < quant_unit ?q" and step: "0 < step_duration spec" "0 \<le> initial_delay spec"
    using assms(2) by (auto simp: spec_ok_def)
  have ve: "?b + step_duration spec \<le> ?ve" using qz.up_ge [OF u] by auto
  have "0 \<le> vest_target spec s (?ve - ?b)"
    using vest_target_mono(3) [OF assms(3), of "?ve - ?b" "?ve - ?b"] ve step by auto
  with new_funds_spec [OF assms(2), of ?q s ?b ?b 0] assms(3)
  obtain fs where fs: "new_funds spec ?q ?b s 0 ?b = Some fs" "total fs = s" "funds_ok fs"
    "\<forall>f \<in> set fs. ?ve \<le> vf_epoch f" by auto
  let ?m = "merge_join (vf_load v) fs"
  obtain un rest where tv: "take_vested ?m e = (un, rest)" by (cases "take_vested ?m e")
  have ok: "funds_ok (vf_load v)" using assms(1) by (rule funds_ok_load)
  note t = take_vested_spec [OF merge_join_ok [OF ok fs(3)] tv]
  have "vested_by e fs = 0" using fs(4) ve step all_unvested [of fs e] by fastforce
  then have "un = vested_by e (vf_load v)" and "total rest = unvested_by e (vf_load v) + s"
    using t merge_join_vested [of e "vf_load v" fs] merge_join_total [of "vf_load v" fs] fs(2)
      vested_plus_unvested [of e ?m] vested_plus_unvested [of e "vf_load v"] by simp_all
  with t fs(1) tv show ?thesis
    by (simp add: vf_add_locked_funds_def Let_def table_ok_save total_load_save)
qed

lemma vf_unlock_vested_spec:
  assumes "table_ok v" and "vf_unlock_vested_funds v e = (u, v')"
  shows "table_ok v' \<and> u = vested_by e (vf_load v) \<and> total (vf_load v') = unvested_by e (vf_load v)"
proof (cases "can_vest v e")
  case True
  obtain un rest where tv: "take_vested (vf_load v) e = (un, rest)" by (cases "take_vested (vf_load v) e")
  from take_vested_spec [OF funds_ok_load [OF assms(1)] tv] assms(2) True tv show ?thesis
    by (auto simp: vf_unlock_vested_funds_def table_ok_save total_load_save)
next
  case False
  then have "\<forall>f \<in> set (vf_load v). e \<le> vf_epoch f"
    using assms(1) by (cases v) (auto simp: can_vest_def table_ok_def)
  from all_unvested [OF this] False assms show ?thesis by (auto simp: vf_unlock_vested_funds_def)
qed

lemma unlock_loop_spec:
  assumes "funds_ok fs" and "0 \<le> target" and "unlock_loop e fs target a b = (vested, unvested, rest)"
  shows "funds_ok rest \<and> set (map vf_epoch rest) \<subseteq> set (map vf_epoch fs) \<and> vested = a + vested_by e fs
    \<and> unvested = b + min target (unvested_by e fs)
    \<and> total rest = unvested_by e fs - min target (unvested_by e fs)"
  using assms
proof (induction e fs target a b rule: unlock_loop.induct)
  case (2 e f fs target a b)
  consider "vf_epoch f < e" | "e \<le> vf_epoch f" "vf_amount f < target" | "e \<le> vf_epoch f" "target \<le> vf_amount f"
    by linarith
  then show ?case
  proof cases
    case 1
    with 2 show ?thesis by (auto simp: vested_by_def unvested_by_def)
  next
    case 2
    with "2.IH"(2) "2.prems" show ?thesis by (auto simp: vested_by_def unvested_by_def)
  next
    case 3
    with "2.prems" have all: "\<forall>g \<in> set fs. e \<le> vf_epoch g" by auto
    from all_unvested [OF all] total_nonneg [of fs] 3 "2.prems" show ?thesis
      by (auto simp: vested_by_def unvested_by_def)
  qed
qed (auto simp: vested_by_def unvested_by_def)

lemma vf_unlock_unvested_spec:
  assumes "table_ok v" and "0 \<le> target"
    and "vf_unlock_vested_and_unvested_funds v e target = ((vested, unvested), v')"
  shows "table_ok v' \<and> vested = vested_by e (vf_load v) \<and> unvested = min target (unvested_by e (vf_load v))
    \<and> total (vf_load v') = unvested_by e (vf_load v) - min target (unvested_by e (vf_load v))"
proof (cases v)
  case None
  with assms show ?thesis
    by (auto simp: vf_unlock_vested_and_unvested_funds_def vested_by_def unvested_by_def)
next
  case (Some t)
  show ?thesis
  proof (cases "e \<le> vf_epoch (vf_head t) \<and> target \<le> vf_amount (vf_head t)")
    case True
    have "\<forall>f \<in> set (vf_load v). e \<le> vf_epoch f"
      using True assms(1) Some by (auto simp: table_ok_def)
    note all = all_unvested [OF this]
    have "0 \<le> total (vf_tail t)" using assms(1) Some by (auto simp: table_ok_def intro: total_nonneg)
    with all True assms Some show ?thesis
      by (auto simp: vf_unlock_vested_and_unvested_funds_def table_ok_def)
  next
    case False
    obtain x y rest where lp: "unlock_loop e (vf_load v) target 0 0 = (x, y, rest)"
      by (cases "unlock_loop e (vf_load v) target 0 0")
    from unlock_loop_spec [OF funds_ok_load [OF assms(1)] assms(2) lp] assms(3) False Some lp
    show ?thesis
      by (auto simp: vf_unlock_vested_and_unvested_funds_def table_ok_save total_load_save)
  qed
qed

section \<open>The funds invariant\<close>

definition funds_inv :: "miner_funds \<Rightarrow> bool" where
  "funds_inv st \<longleftrightarrow> table_ok (vesting_funds st) \<and> locked_funds st = total (vf_load (vesting_funds st)) \<and>
     0 \<le> pre_commit_deposits st \<and> 0 \<le> fee_debt st \<and> 0 \<le> initial_pledge st"

lemma funds_inv_new: "funds_inv (miner_funds_new s)"
  by (simp add: funds_inv_def miner_funds_new_def vf_new_def table_ok_def)

lemma funds_inv_locked: "funds_inv st \<Longrightarrow> 0 \<le> locked_funds st"
  by (auto simp: funds_inv_def intro: total_nonneg funds_ok_load)

lemma unlock_both_spec:
  assumes "funds_inv st" and "0 \<le> target"
  obtains u st' where
    "unlock_vested_and_unvested_funds e target st = Inr ((u, locked_funds st - locked_funds st'), st')"
    "funds_inv st'" "u \<le> target" "0 \<le> u" "locked_funds st' \<le> locked_funds st"
    "u < target \<Longrightarrow> locked_funds st' = 0"
    "u \<le> locked_funds st - locked_funds st'"
    "st' = st\<lparr>vesting_funds := vesting_funds st', locked_funds := locked_funds st'\<rparr>"
proof (cases "target = 0 \<or> locked_funds st = 0")
  case True
  with assms show thesis
    by (intro that [of 0 st]) (auto simp: unlock_vested_and_unvested_funds_def)
next
  case False
  obtain x y v' where un: "vf_unlock_vested_and_unvested_funds (vesting_funds st) e target = ((x, y), v')"
    by (metis surj_pair)
  let ?fs = "vf_load (vesting_funds st)"
  have tok: "table_ok (vesting_funds st)" and lk: "locked_funds st = total ?fs"
    using assms(1) by (auto simp: funds_inv_def)
  note s = vf_unlock_unvested_spec [OF tok assms(2) un]
  have nn: "0 \<le> vested_by e ?fs" "0 \<le> unvested_by e ?fs"
    using funds_ok_load [OF tok] by (auto intro: vested_by_nonneg unvested_by_nonneg)
  let ?st' = "st\<lparr>vesting_funds := v', locked_funds := locked_funds st - (x + y)\<rparr>"
  have eq: "unlock_vested_and_unvested_funds e target st = Inr ((y, x + y), ?st')"
    using False un s nn lk vested_plus_unvested [of e ?fs]
    by (auto simp: unlock_vested_and_unvested_funds_def Let_def)
  have "funds_inv ?st'"
    using assms(1) s lk vested_plus_unvested [of e ?fs] by (auto simp: funds_inv_def)
  with eq s nn assms(2) lk vested_plus_unvested [of e ?fs] show thesis
    by (intro that [of y ?st']) auto
qed

section \<open>Properties\<close>

definition ex_table :: vesting_funds where
  "ex_table = Some \<lparr>vf_head = \<lparr>vf_epoch = 10, vf_amount = 30\<rparr>, vf_tail = [\<lparr>vf_epoch = 20, vf_amount = 50\<rparr>]\<rparr>"

definition ex_funds :: miner_funds where
  "ex_funds = \<lparr>pre_commit_deposits = 5, locked_funds = 80, vesting_funds = ex_table, fee_debt = 60,
     initial_pledge = 7, proving_period_start = 0\<rparr>"

lemma ex_funds_inv: "funds_inv ex_funds"
  by (simp add: funds_inv_def ex_funds_def ex_table_def table_ok_def)

lemma reward_spec_ok: "spec_ok REWARD_VESTING_SPEC"
  by (simp add: spec_ok_def REWARD_VESTING_SPEC_def EPOCHS_IN_DAY_def EPOCHS_IN_HOUR_def)

text \<open>
  C15: locking a reward always ends and conserves value. For every non-negative sum and every
  schedule with positive step and quantization, the generator of the schedule terminates, no
  error path is taken, exactly the old funds whose epoch has passed are unlocked, none of the new
  ones is, and the locked total again equals the sum of the (sorted, non-negative) table.
\<close>

theorem add_locked_funds_conserves:
  assumes "funds_inv st" and "spec_ok spec" and "0 \<le> vesting_sum"
  shows "\<exists>u st'. add_locked_funds e vesting_sum spec st = Some (Inr (u, st')) \<and> funds_inv st'
    \<and> u = vested_by e (vf_load (vesting_funds st))
    \<and> locked_funds st' = locked_funds st - u + vesting_sum"
proof -
  let ?fs = "vf_load (vesting_funds st)"
  have tok: "table_ok (vesting_funds st)" using assms(1) by (simp add: funds_inv_def)
  from vf_add_locked_spec [OF tok assms(2,3), of e "proving_period_start st"] obtain u v'
    where v': "vf_add_locked_funds (vesting_funds st) e vesting_sum (proving_period_start st) spec = Some (u, v')"
      "table_ok v'" "u = vested_by e ?fs" "total (vf_load v') = unvested_by e ?fs + vesting_sum" by blast
  have "0 \<le> unvested_by e ?fs" using tok by (intro unvested_by_nonneg funds_ok_load)
  with v' assms vested_plus_unvested [of e ?fs] show ?thesis
    by (auto simp: add_locked_funds_def Let_def funds_inv_def)
qed

theorem add_locked_funds_conserves_witness:
  "\<exists>st'. add_locked_funds 15 1000 REWARD_VESTING_SPEC ex_funds = Some (Inr (30, st')) \<and> funds_inv st'
    \<and> locked_funds st' = 1050"
  using add_locked_funds_conserves [OF ex_funds_inv reward_spec_ok, of 1000 15]
  by (auto simp: ex_funds_def ex_table_def vested_by_def)

text \<open>
  C26: a miner repays its debt as far as it can. From a state that meets the funds invariant and
  the balance requirement, the partial repayment succeeds, what is burnt and the remaining debt
  add up to the old debt, the balance after the burn still covers deposits, locked funds and
  pledge, and debt remains only if no locked funds and no unlocked balance are left.
\<close>

theorem repay_partial_debt_exhaustive:
  assumes "funds_inv st" and "check_balance_invariants balance st = Inr ()"
  shows "\<exists>burn unlocked st'. repay_partial_debt_in_priority_order e balance st = Inr ((burn, unlocked), st')
    \<and> funds_inv st' \<and> 0 \<le> burn \<and> burn + fee_debt st' = fee_debt st
    \<and> unlocked = locked_funds st - locked_funds st'
    \<and> check_balance_invariants (balance - burn) st' = Inr ()
    \<and> (0 < fee_debt st' \<longrightarrow> locked_funds st' = 0 \<and> get_unlocked_balance (balance - burn) st' = Inr 0)"
proof -
  have debt: "0 \<le> fee_debt st" using assms(1) by (simp add: funds_inv_def)
  have bal: "pre_commit_deposits st + locked_funds st + initial_pledge st \<le> balance"
    using assms(2) by (auto simp: check_balance_invariants_def Let_def split: if_splits)
  obtain u st1 where st1:
    "unlock_vested_and_unvested_funds e (fee_debt st) st = Inr ((u, locked_funds st - locked_funds st1), st1)"
    "funds_inv st1" "u \<le> fee_debt st" "locked_funds st1 \<le> locked_funds st"
    "u < fee_debt st \<Longrightarrow> locked_funds st1 = 0" "u \<le> locked_funds st - locked_funds st1"
    "st1 = st\<lparr>vesting_funds := vesting_funds st1, locked_funds := locked_funds st1\<rparr>"
    by (rule unlock_both_spec [OF assms(1) debt, of e]) blast
  have same: "pre_commit_deposits st1 = pre_commit_deposits st" "initial_pledge st1 = initial_pledge st"
    "fee_debt st1 = fee_debt st" by (subst st1(7), simp)+
  let ?ub = "balance - locked_funds st1 - pre_commit_deposits st - initial_pledge st"
  let ?burn = "min ?ub (fee_debt st)"
  have "repay_partial_debt_in_priority_order e balance st =
      Inr ((?burn, locked_funds st - locked_funds st1), st1\<lparr>fee_debt := fee_debt st - ?burn\<rparr>)"
    using st1(1,3,4) bal same
    by (simp add: repay_partial_debt_in_priority_order_def get_unlocked_balance_def Let_def)
  with st1(2-6) same bal debt funds_inv_locked [OF st1(2)] show ?thesis
    by (auto simp: funds_inv_def check_balance_invariants_def get_unlocked_balance_def Let_def min_def)
qed

theorem repay_partial_debt_exhaustive_witness:
  "\<exists>burn unlocked st'. repay_partial_debt_in_priority_order 15 95 ex_funds = Inr ((burn, unlocked), st')
    \<and> burn + fee_debt st' = 60"
proof -
  have "check_balance_invariants 95 ex_funds = Inr ()"
    by (simp add: check_balance_invariants_def ex_funds_def)
  from repay_partial_debt_exhaustive [OF ex_funds_inv this, of 15] show ?thesis
    by (auto simp: ex_funds_def)
qed



end
