(* ===== verification/Assignment.thy ===== *)
theory Assignment
  imports Runtime "HOL-Library.Product_Lexorder" "HOL-Library.Multiset" "HOL-Library.Sublist"
begin

text \<open>
  The assignment of new sectors to deadlines: \<open>actors/miner/src/deadline_assignment.rs\<close>. The
  binary heap of the standard library is the list of its entries, of which \<open>peek_mut\<close> gives the
  greatest in the reversed order; ties cannot occur since the indices differ. Counts are natural
  numbers, and a partition size of zero, which would panic, is excluded by hypothesis.
\<close>

section \<open>Orderings\<close>

datatype ordering = Less | Equal | Greater

definition compare :: "'a::linorder \<Rightarrow> 'a \<Rightarrow> ordering" where
  "compare x y = (if x < y then Less else if x = y then Equal else Greater)"

fun ord_reverse :: "ordering \<Rightarrow> ordering" where
  "ord_reverse Less = Greater"
| "ord_reverse Equal = Equal"
| "ord_reverse Greater = Less"

fun then_with :: "ordering \<Rightarrow> ordering \<Rightarrow> ordering" where
  "then_with Equal o2 = o2"
| "then_with o1 o2 = o1"

section \<open>Assignment\<close>

definition div_rounding_up :: "nat \<Rightarrow> nat \<Rightarrow> nat" where
  "div_rounding_up dividend divisor =
     dividend div divisor + (if 0 < dividend mod divisor then 1 else 0)"

record assignment_info =
  ai_index :: nat
  ai_live_sectors :: nat
  ai_total_sectors :: nat

definition partitions_after_assignment :: "assignment_info \<Rightarrow> nat \<Rightarrow> nat" where
  "partitions_after_assignment a partition_size = div_rounding_up (ai_total_sectors a + 1) partition_size"

definition compact_partitions_after_assignment :: "assignment_info \<Rightarrow> nat \<Rightarrow> nat" where
  "compact_partitions_after_assignment a partition_size =
     div_rounding_up (ai_live_sectors a + 1) partition_size"

definition is_full_now :: "assignment_info \<Rightarrow> nat \<Rightarrow> bool" where
  "is_full_now a partition_size \<longleftrightarrow> ai_total_sectors a mod partition_size = 0"

definition max_partitions_reached :: "assignment_info \<Rightarrow> nat \<Rightarrow> nat \<Rightarrow> bool" where
  "max_partitions_reached a partition_size max_partitions \<longleftrightarrow>
     partition_size * max_partitions \<le> ai_total_sectors a"

definition cmp :: "assignment_info \<Rightarrow> assignment_info \<Rightarrow> nat \<Rightarrow> ordering" where
  "cmp a b ps =
     then_with (compare (compact_partitions_after_assignment a ps) (compact_partitions_after_assignment b ps))
       (then_with (compare (partitions_after_assignment a ps) (partitions_after_assignment b ps))
         (then_with (compare (is_full_now a ps) (is_full_now b ps))
           (then_with
              (if \<not> is_full_now a ps \<and> \<not> is_full_now b ps
               then ord_reverse (compare (ai_total_sectors a) (ai_total_sectors b)) else Equal)
             (then_with (compare (ai_live_sectors a) (ai_live_sectors b))
               (compare (ai_index a) (ai_index b))))))"

text \<open>The entry of the heap that the reversed order puts first.\<close>

fun heap_peek :: "nat \<Rightarrow> assignment_info list \<Rightarrow> assignment_info option" where
  "heap_peek ps [] = None"
| "heap_peek ps (a # as) =
     (case heap_peek ps as of
        None \<Rightarrow> Some a
      | Some b \<Rightarrow> Some (if cmp b a ps = Less then b else a))"

definition heap_update :: "assignment_info \<Rightarrow> assignment_info list \<Rightarrow> assignment_info list" where
  "heap_update info heap = map (\<lambda>a. if ai_index a = ai_index info then info else a) heap"

text \<open>One round of the loop; the panic is the index of a deadline beyond the table.\<close>

definition assign_one ::
  "nat \<Rightarrow> nat \<Rightarrow> 's \<Rightarrow> assignment_info list \<times> 's list list \<Rightarrow>
   (assignment_info list \<times> 's list list) anyhow" where
  "assign_one max_partitions ps sector acc =
     (case heap_peek ps (fst acc) of
        None \<Rightarrow> Inl (Some Panic)
      | Some info \<Rightarrow>
          (if max_partitions_reached info ps max_partitions then Inl None
           else if length (snd acc) \<le> ai_index info then Inl (Some Panic)
           else Inr (heap_update
                       (info\<lparr>ai_live_sectors := ai_live_sectors info + 1,
                             ai_total_sectors := ai_total_sectors info + 1\<rparr>) (fst acc),
                     (snd acc)[ai_index info := snd acc ! ai_index info @ [sector]])))"

text \<open>A deadline is given by its live and total sectors, a deadline that may not change by \<open>None\<close>.\<close>

fun initial_heap_from :: "nat \<Rightarrow> (nat \<times> nat) option list \<Rightarrow> assignment_info list" where
  "initial_heap_from i [] = []"
| "initial_heap_from i (None # ds) = initial_heap_from (Suc i) ds"
| "initial_heap_from i (Some d # ds) =
     \<lparr>ai_index = i, ai_live_sectors = fst d, ai_total_sectors = snd d\<rparr> # initial_heap_from (Suc i) ds"

definition initial_heap :: "(nat \<times> nat) option list \<Rightarrow> assignment_info list" where
  "initial_heap deadlines = initial_heap_from 0 deadlines"

definition assign_deadlines ::
  "nat \<Rightarrow> nat \<Rightarrow> nat \<Rightarrow> (nat \<times> nat) option list \<Rightarrow> 's list \<Rightarrow> 's list list anyhow" where
  "assign_deadlines wpost_period_deadlines max_partitions ps deadlines sectors =
     (let heap = initial_heap deadlines in
      if heap = [] then Inl (Some Panic)
      else
        r_bind (r_fold (assign_one max_partitions ps) sectors
                  (heap, replicate wpost_period_deadlines []))
          (\<lambda>(heap', changes). Inr changes))"

section \<open>The order of deadlines\<close>

text \<open>The comparison is the lexicographic order of six keys.\<close>

definition assign_key :: "nat \<Rightarrow> assignment_info \<Rightarrow> nat \<times> nat \<times> bool \<times> int \<times> nat \<times> nat" where
  "assign_key ps a =
     (compact_partitions_after_assignment a ps, partitions_after_assignment a ps, is_full_now a ps,
      if is_full_now a ps then 0 else - int (ai_total_sectors a), ai_live_sectors a, ai_index a)"

lemma then_with_compare: "then_with (compare a b) (compare c d) = compare (a, c) (b, d)"
  by (auto simp: compare_def less_prod_def')

lemma reverse_compare:
  "ord_reverse (compare (x::nat) y) = compare (- int x) (- int y)"
  by (auto simp: compare_def)

lemma cmp_key: "cmp a b ps = compare (assign_key ps a) (assign_key ps b)"
proof (cases "is_full_now a ps = is_full_now b ps")
  case True
  then have "(if \<not> is_full_now a ps \<and> \<not> is_full_now b ps
      then ord_reverse (compare (ai_total_sectors a) (ai_total_sectors b)) else Equal)
    = compare (if is_full_now a ps then 0 else - int (ai_total_sectors a))
        (if is_full_now b ps then 0 else - int (ai_total_sectors b))"
    by (simp add: reverse_compare) (simp add: compare_def)
  then show ?thesis unfolding cmp_def assign_key_def then_with_compare [symmetric] by simp
next
  case False
  then have "compare (is_full_now a ps) (is_full_now b ps) \<noteq> Equal" by (simp add: compare_def)
  then have "then_with (compare (is_full_now a ps) (is_full_now b ps)) x
    = then_with (compare (is_full_now a ps) (is_full_now b ps)) y" for x y
    by (cases "compare (is_full_now a ps) (is_full_now b ps)") auto
  then show ?thesis unfolding cmp_def assign_key_def then_with_compare [symmetric] by metis
qed

lemma heap_peek_Some:
  "heap_peek ps as = Some a \<Longrightarrow> a \<in> set as \<and> (\<forall>b \<in> set as. assign_key ps a \<le> assign_key ps b)"
proof (induction as arbitrary: a)
  case (Cons x xs)
  show ?case
  proof (cases "heap_peek ps xs")
    case None
    then have "xs = []" by (cases xs) (auto split: option.splits)
    with Cons.prems show ?thesis by simp
  next
    case (Some b)
    with Cons.IH [OF Some] Cons.prems show ?thesis
      by (auto simp: cmp_key compare_def split: if_splits intro: order_trans)
  qed
qed simp

lemma heap_peek_None: "heap_peek ps as = None \<longleftrightarrow> as = []"
  by (cases as) (auto split: option.splits)

section \<open>What the loop keeps\<close>

lemma initial_heap_from_ge: "a \<in> set (initial_heap_from n ds) \<Longrightarrow> n \<le> ai_index a"
  by (induction n ds rule: initial_heap_from.induct) (auto dest: Suc_leD)

lemma initial_heap_distinct: "distinct (map ai_index (initial_heap deadlines))"
proof -
  have "distinct (map ai_index (initial_heap_from n ds))" for n ds
  proof (induction n ds rule: initial_heap_from.induct)
    case (3 i d ds)
    then show ?case using initial_heap_from_ge [of _ "Suc i" ds] by fastforce
  qed auto
  then show ?thesis by (simp add: initial_heap_def)
qed

lemma initial_heap_mem:
  "a \<in> set (initial_heap deadlines) \<longleftrightarrow>
     ai_index a < length deadlines \<and>
     deadlines ! ai_index a = Some (ai_live_sectors a, ai_total_sectors a)"
proof -
  have "a \<in> set (initial_heap_from n ds) \<longleftrightarrow> n \<le> ai_index a \<and> ai_index a < n + length ds \<and>
      ds ! (ai_index a - n) = Some (ai_live_sectors a, ai_total_sectors a)" for n ds
  proof (induction n ds rule: initial_heap_from.induct)
    case (2 i ds)
    then show ?case by (cases "ai_index a = i") (auto simp: nth_Cons')
  next
    case (3 i d ds)
    have "a = \<lparr>ai_index = i, ai_live_sectors = fst d, ai_total_sectors = snd d\<rparr> \<longleftrightarrow>
        ai_index a = i \<and> d = (ai_live_sectors a, ai_total_sectors a)"
      by (cases a; cases d) auto
    with 3 show ?case by (cases "ai_index a = i") (auto simp: nth_Cons' dest: initial_heap_from_ge)
  qed auto
  from this [of 0 deadlines] show ?thesis by (simp add: initial_heap_def)
qed

definition changes_at :: "'s list list \<Rightarrow> nat \<Rightarrow> 's list" where
  "changes_at changes i = (if i < length changes then changes ! i else [])"

text \<open>An entry after the sectors recorded for it were assigned.\<close>

definition grown :: "'s list list \<Rightarrow> assignment_info \<Rightarrow> assignment_info" where
  "grown changes a =
     a\<lparr>ai_live_sectors := ai_live_sectors a + length (changes_at changes (ai_index a)),
       ai_total_sectors := ai_total_sectors a + length (changes_at changes (ai_index a))\<rparr>"

definition assigned ::
  "nat \<Rightarrow> nat \<Rightarrow> assignment_info list \<Rightarrow> 's list \<Rightarrow> assignment_info list \<times> 's list list \<Rightarrow> bool" where
  "assigned max_partitions ps heap0 sectors acc \<longleftrightarrow>
     fst acc = map (grown (snd acc)) heap0 \<and> mset (concat (snd acc)) = mset sectors \<and>
     (\<forall>i < length (snd acc). subseq (snd acc ! i) sectors \<and>
        (snd acc ! i \<noteq> [] \<longrightarrow> (\<exists>a \<in> set heap0. ai_index a = i \<and>
           ai_total_sectors a + length (snd acc ! i) \<le> ps * max_partitions)))"

lemma ai_index_grown [simp]: "ai_index (grown ch a) = ai_index a"
  by (simp add: grown_def)

lemma concat_push:
  "i < length xs \<Longrightarrow> mset (concat (xs[i := xs ! i @ [s]])) = add_mset s (mset (concat xs))"
proof (induction xs arbitrary: i)
  case (Cons x xs)
  then show ?case by (cases i) auto
qed simp

lemma assign_one_keeps:
  assumes "distinct (map ai_index heap0)" and "assigned mp ps heap0 done acc"
    and "assign_one mp ps s acc = Inr acc'"
  shows "assigned mp ps heap0 (done @ [s]) acc' \<and> length (snd acc') = length (snd acc)"
proof -
  let ?ch = "snd acc"
  from assms(3) obtain info where info: "heap_peek ps (fst acc) = Some info"
    "\<not> max_partitions_reached info ps mp" "ai_index info < length ?ch"
    and acc': "acc' = (heap_update (info\<lparr>ai_live_sectors := ai_live_sectors info + 1,
          ai_total_sectors := ai_total_sectors info + 1\<rparr>) (fst acc),
        ?ch[ai_index info := ?ch ! ai_index info @ [s]])"
    by (auto simp: assign_one_def split: option.split_asm if_split_asm)
  let ?i = "ai_index info" and ?ch' = "?ch[ai_index info := ?ch ! ai_index info @ [s]]"
  have heap: "fst acc = map (grown ?ch) heap0" using assms(2) by (simp add: assigned_def)
  from heap_peek_Some [OF info(1)] heap obtain a where a: "a \<in> set heap0" "info = grown ?ch a" by auto
  have same: "b = a" if "b \<in> set heap0" "ai_index b = ?i" for b
    using that a assms(1) by (auto simp: distinct_map inj_on_def)
  have "heap_update (info\<lparr>ai_live_sectors := ai_live_sectors info + 1,
          ai_total_sectors := ai_total_sectors info + 1\<rparr>) (fst acc) = map (grown ?ch') heap0"
    unfolding heap heap_update_def using info(3)
    by (auto simp: a(2) dest!: same) (auto simp: grown_def changes_at_def nth_list_update a(2) dest: same)
  moreover have "mset (concat ?ch') = mset (done @ [s])"
    using assms(2) concat_push [OF info(3)] by (simp add: assigned_def)
  moreover have "subseq (?ch' ! j) (done @ [s])" if "j < length ?ch" for j
    using assms(2) that by (cases "j = ?i") (auto simp: assigned_def list_emb_append_mono intro: list_emb_prefix)
  moreover have "\<exists>b \<in> set heap0. ai_index b = j \<and> ai_total_sectors b + length (?ch' ! j) \<le> ps * mp"
    if "j < length ?ch" "?ch' ! j \<noteq> []" for j
  proof (cases "j = ?i")
    case True
    have "ai_total_sectors a + length (?ch ! ?i) < ps * mp"
      using info(2,3) a(2) by (auto simp: max_partitions_reached_def grown_def changes_at_def)
    with True a info(3) show ?thesis by (intro bexI [of _ a]) auto
  next
    case False
    with that assms(2) show ?thesis by (auto simp: assigned_def)
  qed
  ultimately show ?thesis by (simp add: assigned_def acc')
qed

lemma assign_all:
  assumes "distinct (map ai_index heap0)"
    and "r_fold (assign_one mp ps) sectors (heap0, replicate n []) = Inr acc"
  shows "assigned mp ps heap0 sectors acc \<and> length (snd acc) = n"
  using assms(2)
proof (induction sectors arbitrary: acc rule: rev_induct)
  case Nil
  then show ?case
    by (auto simp: assigned_def grown_def changes_at_def intro!: map_idI [symmetric])
next
  case (snoc s sectors)
  then obtain acc1 where "r_fold (assign_one mp ps) sectors (heap0, replicate n []) = Inr acc1"
    "assign_one mp ps s acc1 = Inr acc"
    by (auto simp: r_fold_append r_bind_eq_Inr)
  with snoc.IH assign_one_keeps [OF assms(1)] show ?case by metis
qed

section \<open>Properties\<close>

text \<open>
  C31: the assignment loses no sector, keeps their order and respects the limit. When it
  succeeds, the sectors given to the deadlines are together exactly the sectors to assign; each
  deadline gets a subsequence of them; a deadline that may not change gets none; and a deadline
  that gets any has at most the maximum number of partitions afterwards.
\<close>

theorem assign_deadlines_sound:
  assumes "assign_deadlines n max_partitions ps deadlines sectors = Inr changes"
  shows "length changes = n \<and> mset (concat changes) = mset sectors
    \<and> (\<forall>i < n. subseq (changes ! i) sectors
        \<and> (changes ! i \<noteq> [] \<longrightarrow> (\<exists>live tot. i < length deadlines \<and> deadlines ! i = Some (live, tot)
              \<and> tot + length (changes ! i) \<le> ps * max_partitions)))"
proof -
  from assms obtain h where
    "r_fold (assign_one max_partitions ps) sectors (initial_heap deadlines, replicate n []) = Inr (h, changes)"
    by (auto simp: assign_deadlines_def r_bind_eq_Inr Let_def split: if_splits)
  from assign_all [OF initial_heap_distinct this] have a: "assigned max_partitions ps (initial_heap deadlines) sectors (h, changes)"
    and n: "length changes = n" by simp_all
  have "\<exists>live tot. i < length deadlines \<and> deadlines ! i = Some (live, tot) \<and> tot + k \<le> m"
    if "\<exists>a \<in> set (initial_heap deadlines). ai_index a = i \<and> ai_total_sectors a + k \<le> m" for i k m
    using that by (auto simp: initial_heap_mem)
  with a n show ?thesis by (simp add: assigned_def) metis
qed

theorem assign_deadlines_sound_witness:
  "\<exists>changes. assign_deadlines 4 100 4 [Some (0, 0), None, None, Some (1, 1)] ''abcde'' = Inr changes
     \<and> mset (concat changes) = mset ''abcde''"
proof -
  have "assign_deadlines 4 100 4 [Some (0, 0), None, None, Some (1, 1)] ''abcde''
      = Inr [''de'', [], [], ''abc'']"
    by code_simp
  from assign_deadlines_sound [OF this] this show ?thesis by auto
qed

text \<open>
  Every sector goes to a deadline that the documented priorities put first: no deadline has
  a smaller key of partitions after compaction, partitions before it, whether the last partition
  is full, the most sectors in an open partition, live sectors and index, in that order.
\<close>

theorem assign_one_greedy:
  assumes "assign_one max_partitions ps sector (heap, changes) = Inr (heap', changes')"
  shows "\<exists>info \<in> set heap. (\<forall>other \<in> set heap. assign_key ps info \<le> assign_key ps other
        \<and> cmp info other ps \<noteq> Greater)
    \<and> changes' = changes[ai_index info := changes ! ai_index info @ [sector]]
    \<and> \<not> max_partitions_reached info ps max_partitions"
proof -
  from assms obtain info where "heap_peek ps heap = Some info"
    "\<not> max_partitions_reached info ps max_partitions"
    "changes' = changes[ai_index info := changes ! ai_index info @ [sector]]"
    by (auto simp: assign_one_def split: option.split_asm if_split_asm)
  with heap_peek_Some [OF this(1)] show ?thesis
    by (intro bexI [of _ info]) (auto simp: cmp_key compare_def)
qed

theorem assign_one_greedy_witness:
  "\<exists>heap' changes'. assign_one 100 4 (7::nat) (initial_heap [Some (8, 8), Some (7, 12)], [[], []])
     = Inr (heap', changes') \<and> changes' = [[], [7]]"
proof -
  have h: "assign_one 100 4 (7::nat) (initial_heap [Some (8, 8), Some (7, 12)], [[], []])
     = Inr ([\<lparr>ai_index = 0, ai_live_sectors = 8, ai_total_sectors = 8\<rparr>,
             \<lparr>ai_index = 1, ai_live_sectors = 8, ai_total_sectors = 13\<rparr>], [[], [7]])" by code_simp
  from assign_one_greedy [OF h] h show ?thesis by blast
qed

text \<open>
  C32: the limit is tested on the preferred deadline only. The assignment is refused although the
  error speaks of all deadlines: here the first deadline has four terminated sectors and no room,
  is preferred for having no live sector, and a second deadline with room for one more sector is
  not considered.
\<close>

theorem assign_refuses_with_room:
  "assign_deadlines 2 2 2 [Some (0, 4), Some (3, 3)] [sector] = Inl None
   \<and> (\<exists>info \<in> set (initial_heap [Some (0, 4), Some (3, 3)]). \<not> max_partitions_reached info 2 2)
   \<and> assign_deadlines 2 2 2 [None, Some (3, 3)] [sector] = Inr [[], [sector]]"
proof -
  have "assign_deadlines 2 2 2 [Some (0, 4), Some (3, 3)] [sector] = Inl None"
    by (simp add: assign_deadlines_def initial_heap_def assign_one_def cmp_key compare_def assign_key_def
        compact_partitions_after_assignment_def div_rounding_up_def max_partitions_reached_def)
  moreover have "assign_deadlines 2 2 2 [None, Some (3, 3)] [sector] = Inr [[], [sector]]"
    by (simp add: assign_deadlines_def initial_heap_def assign_one_def max_partitions_reached_def
        numeral_2_eq_2)
  ultimately show ?thesis by (simp add: initial_heap_def max_partitions_reached_def)
qed

end
