(* ===== verification/BitfieldQueue.thy ===== *)
theory BitfieldQueue
  imports Epochs "HOL-Library.Product_Lexorder"
begin

text \<open>
  The queue of bitfields by epoch: \<open>actors/miner/src/bitfield_queue.rs\<close>. A bitfield is the set of
  its bits. The conversion of a list of values to a bitfield, which may refuse a value, and the
  operation that cuts bits out of a bitfield belong to the bitfield library and are parameters.

  A queue is specified by the set of its scheduled items, pairs of a key and a bit; every
  operation is shown to act on that set as its documentation says.
\<close>

section \<open>Operations\<close>

type_synonym bitfield = "nat set"

record bitfield_queue =
  bq_amt :: "bitfield amt"
  bq_quant :: quant_spec

text \<open>An epoch is converted to an index, which fails when it is negative.\<close>

definition epoch_key :: "int \<Rightarrow> nat anyhow" where
  "epoch_key e = (if e < 0 then Inl None else Inr (nat e))"

definition add_to_queue :: "int \<Rightarrow> bitfield \<Rightarrow> bitfield_queue \<Rightarrow> bitfield_queue anyhow" where
  "add_to_queue raw_epoch values q =
     (if values = {} then Inr q
      else
        r_bind (epoch_key (quantize_up (bq_quant q) raw_epoch)) (\<lambda>epoch.
        let bf = (case amt_get (bq_amt q) epoch of None \<Rightarrow> {} | Some b \<Rightarrow> b)
        in Inr (q\<lparr>bq_amt := amt_set epoch (bf \<union> values) (bq_amt q)\<rparr>)))"

definition add_to_queue_values ::
  "(nat list \<Rightarrow> bitfield anyhow) \<Rightarrow> int \<Rightarrow> nat list \<Rightarrow> bitfield_queue \<Rightarrow> bitfield_queue anyhow" where
  "add_to_queue_values try_from_bits epoch values q =
     r_bind (try_from_bits values) (\<lambda>bf. add_to_queue epoch bf q)"

text \<open>The cut entries, in the order of the array, and the epochs that became empty.\<close>

definition cut_entries ::
  "(bitfield \<Rightarrow> bitfield \<Rightarrow> bitfield) \<Rightarrow> bitfield \<Rightarrow> bitfield amt \<Rightarrow> bitfield amt \<times> nat list" where
  "cut_entries bf_cut to_cut a =
     (map (\<lambda>(e, b). let bf = bf_cut b to_cut in (e, if bf = {} then b else bf)) a,
      map fst (filter (\<lambda>(e, b). bf_cut b to_cut = {}) a))"

definition cut :: "(bitfield \<Rightarrow> bitfield \<Rightarrow> bitfield) \<Rightarrow> bitfield \<Rightarrow> bitfield_queue \<Rightarrow> bitfield_queue" where
  "cut bf_cut to_cut q =
     (let (a, epochs_to_remove) = cut_entries bf_cut to_cut (bq_amt q)
      in q\<lparr>bq_amt := amt_batch_delete epochs_to_remove a\<rparr>)"

text \<open>The loop over the sorted values: one entry per run of equal epochs.\<close>

function add_runs ::
  "(nat list \<Rightarrow> bitfield anyhow) \<Rightarrow> (int \<times> nat) list \<Rightarrow> bitfield_queue \<Rightarrow> bitfield_queue anyhow" where
  "add_runs try_from_bits [] q = Inr q"
| "add_runs try_from_bits ((epoch, v) # vs) q =
     r_bind (add_to_queue_values try_from_bits epoch
               (map snd (takeWhile (\<lambda>(e, v). e = epoch) ((epoch, v) # vs))) q)
       (\<lambda>q'. add_runs try_from_bits (dropWhile (\<lambda>(e, v). e = epoch) vs) q')"
  by pat_completeness auto
termination
  by (relation "measure (\<lambda>(f, xs, q). length xs)") (auto simp: length_dropWhile_le le_imp_less_Suc)

definition add_many_to_queue_values ::
  "(nat list \<Rightarrow> bitfield anyhow) \<Rightarrow> (int \<times> nat) list \<Rightarrow> bitfield_queue \<Rightarrow> bitfield_queue anyhow" where
  "add_many_to_queue_values try_from_bits values q =
     (let quantized_values = map (\<lambda>(raw_epoch, v). (quantize_up (bq_quant q) raw_epoch, v)) values;
          sorted_values = remdups_adj (sort quantized_values)
      in add_runs try_from_bits sorted_values q)"

definition pop_until :: "int \<Rightarrow> bitfield_queue \<Rightarrow> (bitfield \<times> bool) \<times> bitfield_queue" where
  "pop_until until q =
     (let popped = takeWhile (\<lambda>(epoch, bf). \<not> until < int epoch) (bq_amt q);
          popped_keys = map fst popped;
          popped_values = fold (\<lambda>(epoch, bf) acc. acc \<union> bf) popped {}
      in if popped_keys = [] then (({}, False), q)
         else ((popped_values, True), q\<lparr>bq_amt := amt_batch_delete popped_keys (bq_amt q)\<rparr>))"

section \<open>The items of a queue\<close>

definition items :: "bitfield_queue \<Rightarrow> (int \<times> nat) set" where
  "items q = {(int k, b) | k b bf. amt_get (bq_amt q) k = Some bf \<and> b \<in> bf}"

text \<open>Keys are aligned, entries are not empty.\<close>

definition queue_ok :: "bitfield_queue \<Rightarrow> bool" where
  "queue_ok q \<longleftrightarrow> amt_ok (bq_amt q) \<and> 0 < quant_unit (bq_quant q) \<and>
     (\<forall>k bf. amt_get (bq_amt q) k = Some bf \<longrightarrow> aligned (bq_quant q) (int k) \<and> bf \<noteq> {})"

lemma items_iff:
  "(x, b) \<in> items q \<longleftrightarrow> 0 \<le> x \<and> (\<exists>bf. amt_get (bq_amt q) (nat x) = Some bf \<and> b \<in> bf)"
proof
  assume "(x, b) \<in> items q"
  then show "0 \<le> x \<and> (\<exists>bf. amt_get (bq_amt q) (nat x) = Some bf \<and> b \<in> bf)"
    by (auto simp: items_def)
next
  assume "0 \<le> x \<and> (\<exists>bf. amt_get (bq_amt q) (nat x) = Some bf \<and> b \<in> bf)"
  then obtain bf where "x = int (nat x)" "amt_get (bq_amt q) (nat x) = Some bf" "b \<in> bf" by auto
  then show "(x, b) \<in> items q" unfolding items_def by blast
qed

lemma epoch_key_Inr [res_inv]: "epoch_key e = Inr k \<longleftrightarrow> 0 \<le> e \<and> k = nat e"
  by (auto simp: epoch_key_def)

lemma add_to_queue_spec:
  assumes "queue_ok q" and "add_to_queue e values q = Inr q'"
  shows "queue_ok q' \<and> bq_quant q' = bq_quant q
    \<and> items q' = items q \<union> {quantize_up (bq_quant q) e} \<times> values"
proof (cases "values = {}")
  case True
  with assms show ?thesis by (simp add: add_to_queue_def)
next
  case False
  let ?k = "nat (quantize_up (bq_quant q) e)"
  let ?bf = "case amt_get (bq_amt q) ?k of None \<Rightarrow> {} | Some b \<Rightarrow> b"
  from assms(2) False have nn: "0 \<le> quantize_up (bq_quant q) e"
    and q': "q' = q\<lparr>bq_amt := amt_set ?k (?bf \<union> values) (bq_amt q)\<rparr>"
    by (auto simp: add_to_queue_def res_inv Let_def)
  have u: "0 < quant_unit (bq_quant q)" using assms(1) by (simp add: queue_ok_def)
  have al: "aligned (bq_quant q) (int ?k)" using qz.up_aligned [OF u] nn by simp
  have "queue_ok q'" using assms(1) al False by (auto simp: queue_ok_def q')
  moreover have "(x, b) \<in> items q' \<longleftrightarrow>
      (x, b) \<in> items q \<or> x = quantize_up (bq_quant q) e \<and> b \<in> values" for x b
    using nn unfolding items_iff q'
    by (cases "x = quantize_up (bq_quant q) e") (auto simp: nat_eq_iff2 split: option.splits)
  then have "items q' = items q \<union> {quantize_up (bq_quant q) e} \<times> values" by auto
  ultimately show ?thesis by (simp add: q')
qed

text \<open>What is assumed of the library: a conversion that succeeds yields the listed bits.\<close>

definition converts :: "(nat list \<Rightarrow> bitfield anyhow) \<Rightarrow> bool" where
  "converts f \<longleftrightarrow> (\<forall>vs bf. f vs = Inr bf \<longrightarrow> bf = set vs)"

lemma same_fst: "\<forall>x \<in> set xs. fst x = e \<Longrightarrow> set xs = {e} \<times> set (map snd xs)"
  by (induction xs) auto

lemma run_split:
  "set ((epoch, v) # vs) =
     {epoch} \<times> set (map snd (takeWhile (\<lambda>(e, v). e = epoch) ((epoch, v) # vs)))
       \<union> set (dropWhile (\<lambda>(e, v). e = epoch) vs)"
proof -
  let ?P = "\<lambda>(e, v). e = epoch"
  have "set (takeWhile ?P ((epoch, v) # vs)) =
      {epoch} \<times> set (map snd (takeWhile ?P ((epoch, v) # vs)))"
    by (rule same_fst) (auto dest!: set_takeWhileD)
  moreover have "set vs = set (takeWhile ?P vs) \<union> set (dropWhile ?P vs)"
    by (metis set_append takeWhile_dropWhile_id)
  then have "set ((epoch, v) # vs) = set (takeWhile ?P ((epoch, v) # vs)) \<union> set (dropWhile ?P vs)" by auto
  ultimately show ?thesis by argo
qed

lemma add_runs_spec:
  assumes "converts f" and "queue_ok q" and "\<forall>(e, v) \<in> set xs. aligned (bq_quant q) e"
    and "add_runs f xs q = Inr q'"
  shows "queue_ok q' \<and> bq_quant q' = bq_quant q \<and> items q' = items q \<union> set xs"
  using assms
proof (induction f xs q rule: add_runs.induct)
  case (2 f epoch v vs q)
  let ?run = "map snd (takeWhile (\<lambda>(e, v). e = epoch) ((epoch, v) # vs))"
  let ?rest = "dropWhile (\<lambda>(e, v). e = epoch) vs"
  from "2.prems"(4) obtain q1 where q1: "add_to_queue_values f epoch ?run q = Inr q1"
    and rest: "add_runs f ?rest q1 = Inr q'"
    by (auto simp: r_bind_eq_Inr simp del: takeWhile.simps)
  from q1 obtain bf where bf: "f ?run = Inr bf" "add_to_queue epoch bf q = Inr q1"
    by (auto simp: r_bind_eq_Inr add_to_queue_values_def simp del: takeWhile.simps)
  have run: "bf = set ?run" using "2.prems"(1) bf(1) unfolding converts_def by blast
  have u: "0 < quant_unit (bq_quant q)" using "2.prems"(2) by (simp add: queue_ok_def)
  have "quantize_up (bq_quant q) epoch = epoch" using "2.prems"(3) u by (intro qz.up_fixed) auto
  with add_to_queue_spec [OF "2.prems"(2) bf(2)] have s: "queue_ok q1" "bq_quant q1 = bq_quant q"
    "items q1 = items q \<union> {epoch} \<times> bf" by auto
  have "\<forall>(e, v) \<in> set ?rest. aligned (bq_quant q1) e"
    using "2.prems"(3) s(2) by (auto dest: set_dropWhileD)
  from "2.IH" [OF q1 "2.prems"(1) s(1) this rest] s run_split [of epoch v vs] run show ?case
    by (simp only:) blast
qed simp

lemma takeWhile_amt:
  "amt_ok a \<Longrightarrow> takeWhile (\<lambda>(k, v). \<not> u < int k) a = filter (\<lambda>(k, v). int k \<le> u) a"
proof (induction a)
  case (Cons x a)
  obtain k v where x: "x = (k, v)" by (cases x)
  from Cons.prems x have "\<forall>(j, w) \<in> set a. k < j" and "amt_ok a" by (auto simp: amt_ok_def)
  moreover from this(1) have "filter (\<lambda>(k, v). int k \<le> u) a = []" if "u < int k"
    using that by (auto simp: filter_empty_conv)
  ultimately show ?case using Cons.IH x by auto
qed simp

lemma fold_union: "fold (\<lambda>(k, bf) acc. acc \<union> bf) xs s = s \<union> \<Union> (snd ` set xs)"
  by (induction xs arbitrary: s) auto

lemma pop_until_spec:
  assumes "queue_ok q" and "pop_until u q = ((popped, changed), q')"
  shows "popped = {b. \<exists>k \<le> u. (k, b) \<in> items q} \<and> items q' = {(k, b) \<in> items q. u < k}
    \<and> changed = (\<exists>k \<le> u. \<exists>b. (k, b) \<in> items q) \<and> queue_ok q' \<and> bq_quant q' = bq_quant q"
proof -
  let ?p = "filter (\<lambda>(k, v). int k \<le> u) (bq_amt q)"
  have ok: "amt_ok (bq_amt q)" using assms(1) by (simp add: queue_ok_def)
  have mem: "(k, v) \<in> set (bq_amt q) \<longleftrightarrow> amt_get (bq_amt q) k = Some v" for k v
    using amt_get_Some_mem [OF ok] by simp
  have due: "(\<exists>k \<le> u. (k, b) \<in> items q) \<longleftrightarrow> (\<exists>k bf. (k, bf) \<in> set ?p \<and> b \<in> bf)" for b
  proof
    assume "\<exists>k \<le> u. (k, b) \<in> items q"
    then obtain k where "k \<le> u" "(k, b) \<in> items q" by blast
    then show "\<exists>k bf. (k, bf) \<in> set ?p \<and> b \<in> bf" by (force simp: items_iff mem)
  next
    assume "\<exists>k bf. (k, bf) \<in> set ?p \<and> b \<in> bf"
    then obtain k bf where "int k \<le> u" "amt_get (bq_amt q) k = Some bf" "b \<in> bf" by (auto simp: mem)
    then show "\<exists>k \<le> u. (k, b) \<in> items q" by (intro exI [of _ "int k"]) (simp add: items_iff)
  qed
  have nonempty: "bf \<noteq> {}" if "(k, bf) \<in> set ?p" for k bf
    using that assms(1) by (auto simp: queue_ok_def mem)
  show ?thesis
  proof (cases "?p = []")
    case True
    then have "popped = {}" "\<not> changed" "q' = q"
      using assms(2) by (auto simp: pop_until_def Let_def takeWhile_amt [OF ok])
    moreover have "u < k" if "(k, b) \<in> items q" for k b
      using due [of b] that True by (metis empty_iff list.set(1) not_le)
    ultimately show ?thesis using due True assms(1) by auto
  next
    case False
    then have r: "popped = \<Union> (snd ` set ?p)" "changed" "q' = q\<lparr>bq_amt := amt_batch_delete (map fst ?p) (bq_amt q)\<rparr>"
      using assms(2) by (auto simp: pop_until_def Let_def takeWhile_amt [OF ok] fold_union)
    obtain k0 bf0 where "(k0, bf0) \<in> set ?p" using False by (cases ?p) auto
    then have "\<exists>b. \<exists>k \<le> u. (k, b) \<in> items q" using due nonempty by blast
    moreover have "popped = {b. \<exists>k \<le> u. (k, b) \<in> items q}" unfolding r(1) due by force
    moreover have "k \<in> set (map fst ?p) \<longleftrightarrow> amt_get (bq_amt q) k \<noteq> None \<and> int k \<le> u" for k
      by (force simp: mem)
    then have "items q' = {(k, b) \<in> items q. u < k}" and "queue_ok q'"
      using assms(1) by (auto simp: r(3) items_iff queue_ok_def split: if_splits)
    ultimately show ?thesis using r by auto
  qed
qed

section \<open>Properties\<close>

text \<open>A queue quantized to tens with two entries, and the conversion that accepts everything.\<close>

definition ex_queue :: bitfield_queue where
  "ex_queue = \<lparr>bq_amt = [(10, {1}), (20, {2, 3})], bq_quant = \<lparr>quant_unit = 10, quant_offset = 0\<rparr>\<rparr>"

definition ex_bits :: "nat list \<Rightarrow> bitfield anyhow" where
  "ex_bits vs = Inr (set vs)"

lemma ex_queue_ok: "queue_ok ex_queue"
  by (auto simp: queue_ok_def ex_queue_def amt_ok_def aligned_def split: if_splits)

text \<open>
  C30: what is scheduled is popped when it is due, and only then. Adding values, sorted and
  deduplicated in runs, adds exactly the items at their rounded-up epochs to the queue, keeping
  its keys aligned and its entries non-empty; popping up to an epoch returns exactly the bits of
  the items due by then, leaves exactly the others, and reports a change exactly when there were
  any.
\<close>

theorem queue_add_pop:
  assumes "queue_ok q" and "converts try_from_bits"
    and "add_many_to_queue_values try_from_bits values q = Inr q1"
    and "pop_until until q1 = ((popped, changed), q2)"
  shows "queue_ok q1 \<and> queue_ok q2
    \<and> items q1 = items q \<union> {(quantize_up (bq_quant q) e, v) | e v. (e, v) \<in> set values}
    \<and> popped = {b. \<exists>k \<le> until. (k, b) \<in> items q1}
    \<and> items q2 = {(k, b) \<in> items q1. until < k}
    \<and> changed = (\<exists>k \<le> until. \<exists>b. (k, b) \<in> items q1)"
proof -
  let ?xs = "remdups_adj (sort (map (\<lambda>(e, v). (quantize_up (bq_quant q) e, v)) values))"
  have u: "0 < quant_unit (bq_quant q)" using assms(1) by (simp add: queue_ok_def)
  have set: "set ?xs = {(quantize_up (bq_quant q) e, v) | e v. (e, v) \<in> set values}"
    by (force simp: remdups_adj_set)
  have al: "\<forall>(e, v) \<in> set ?xs. aligned (bq_quant q) e"
    unfolding set using qz.up_aligned [OF u] by auto
  have "add_runs try_from_bits ?xs q = Inr q1"
    using assms(3) by (simp add: add_many_to_queue_values_def Let_def)
  from add_runs_spec [OF assms(2,1) al this] set
  have "queue_ok q1" "items q1 = items q \<union> {(quantize_up (bq_quant q) e, v) | e v. (e, v) \<in> set values}"
    by auto
  with pop_until_spec [OF \<open>queue_ok q1\<close> assms(4)] show ?thesis by blast
qed

theorem queue_add_pop_witness:
  "\<exists>q1 q2 changed. add_many_to_queue_values ex_bits [(13, 7)] ex_queue = Inr q1
     \<and> pop_until 20 q1 = ((({1, 2, 3, 7}, changed)), q2)"
proof -
  have conv: "converts ex_bits" by (auto simp: converts_def ex_bits_def)
  let ?q1 = "ex_queue\<lparr>bq_amt := [(10, {1}), (20, {2, 3, 7})]\<rparr>"
  have q1: "add_many_to_queue_values ex_bits [(13, 7)] ex_queue = Inr ?q1"
    by (simp add: add_many_to_queue_values_def ex_queue_def quantize_up_def sdiv_pos smod_pos
        add_to_queue_values_def ex_bits_def add_to_queue_def epoch_key_def) auto
  have p: "pop_until 20 ?q1 = (({1, 2, 3, 7}, True), ex_queue\<lparr>bq_amt := []\<rparr>)"
    by (simp add: pop_until_def ex_queue_def amt_batch_delete_def amt_delete_def) auto
  from queue_add_pop [OF ex_queue_ok conv q1 p] q1 p show ?thesis by blast
qed

end
