(* ===== verification/SectorPower.thy ===== *)
theory SectorPower
  imports Runtime
begin

text \<open>
  Sectors, their power and the fees that depend on it: \<open>PowerPair\<close> of
  \<open>actors/miner/src/partition_state.rs\<close>, \<open>SectorOnChainInfo\<close> of \<open>types.rs\<close> (the fields that the
  modelled code reads), the quality and fee functions of \<open>policy.rs\<close>, the termination and
  consensus-fault penalties of \<open>monies.rs\<close>, and \<open>power_for_sector\<close> of \<open>lib.rs\<close>. The sz of a
  sector is its number of bytes. Dividing by an empty lifetime, which would panic, is excluded by
  hypotheses.
\<close>

section \<open>Power pairs\<close>

datatype power_pair = PowerPair (pp_raw: int) (pp_qa: int)

text \<open>Power pairs are added and subtracted componentwise: they form a commutative group.\<close>

instantiation power_pair :: ab_group_add
begin

definition zero_power_pair :: power_pair where
  "0 = PowerPair 0 0"

definition plus_power_pair :: "power_pair \<Rightarrow> power_pair \<Rightarrow> power_pair" where
  "a + b = PowerPair (pp_raw a + pp_raw b) (pp_qa a + pp_qa b)"

definition minus_power_pair :: "power_pair \<Rightarrow> power_pair \<Rightarrow> power_pair" where
  "a - b = PowerPair (pp_raw a - pp_raw b) (pp_qa a - pp_qa b)"

definition uminus_power_pair :: "power_pair \<Rightarrow> power_pair" where
  "- a = PowerPair (- pp_raw a) (- pp_qa a)"

instance
  by standard
    (simp_all add: zero_power_pair_def plus_power_pair_def minus_power_pair_def uminus_power_pair_def
      power_pair.expand)

end

lemma pp_simps [simp]:
  "pp_raw 0 = 0" "pp_qa 0 = 0"
  "pp_raw (a + b) = pp_raw a + pp_raw b" "pp_qa (a + b) = pp_qa a + pp_qa b"
  "pp_raw (a - b) = pp_raw a - pp_raw b" "pp_qa (a - b) = pp_qa a - pp_qa b"
  "pp_raw (- a) = - pp_raw a" "pp_qa (- a) = - pp_qa a"
  by (simp_all add: zero_power_pair_def plus_power_pair_def minus_power_pair_def uminus_power_pair_def)

definition pp_nonneg :: "power_pair \<Rightarrow> bool" where
  "pp_nonneg p \<longleftrightarrow> 0 \<le> pp_raw p \<and> 0 \<le> pp_qa p"

lemma pp_nonneg_zero [simp]: "pp_nonneg 0"
  by (simp add: pp_nonneg_def)

lemma pp_nonneg_add [simp]: "pp_nonneg a \<Longrightarrow> pp_nonneg b \<Longrightarrow> pp_nonneg (a + b)"
  by (simp add: pp_nonneg_def)

section \<open>Sectors and their quality\<close>

record sector_info =
  sector_number :: nat
  si_activation :: int
  si_expiration :: int
  si_deal_weight :: int
  si_verified_deal_weight :: int
  si_initial_pledge :: int
  si_power_base_epoch :: int
  si_daily_fee :: int

definition SECTOR_QUALITY_PRECISION :: nat where "SECTOR_QUALITY_PRECISION = 20"
definition QUALITY_BASE_MULTIPLIER :: int where "QUALITY_BASE_MULTIPLIER = 10"
definition VERIFIED_DEAL_WEIGHT_MULTIPLIER :: int where "VERIFIED_DEAL_WEIGHT_MULTIPLIER = 100"

definition quality_for_weight :: "int \<Rightarrow> int \<Rightarrow> int \<Rightarrow> int" where
  "quality_for_weight sz duration verified_weight =
     (let sector_space_time = sz * duration;
          weighted_base_space_time = (sector_space_time - verified_weight) * QUALITY_BASE_MULTIPLIER;
          weighted_verified_space_time = verified_weight * VERIFIED_DEAL_WEIGHT_MULTIPLIER;
          weighted_sum_space_time = weighted_base_space_time + weighted_verified_space_time;
          scaled_up_weighted_sum_space_time = weighted_sum_space_time * 2 ^ SECTOR_QUALITY_PRECISION
      in div_floor (div_floor scaled_up_weighted_sum_space_time sector_space_time)
           QUALITY_BASE_MULTIPLIER)"

definition qa_power_max :: "int \<Rightarrow> int" where
  "qa_power_max sz = div_floor (sz * VERIFIED_DEAL_WEIGHT_MULTIPLIER) QUALITY_BASE_MULTIPLIER"

definition qa_power_for_weight :: "int \<Rightarrow> int \<Rightarrow> int \<Rightarrow> int" where
  "qa_power_for_weight sz duration verified_weight =
     (sz * quality_for_weight sz duration verified_weight) div 2 ^ SECTOR_QUALITY_PRECISION"

definition qa_power_for_sector :: "int \<Rightarrow> sector_info \<Rightarrow> int" where
  "qa_power_for_sector sz sector =
     qa_power_for_weight sz (si_expiration sector - si_power_base_epoch sector)
       (si_verified_deal_weight sector)"

definition raw_power_for_sector :: "int \<Rightarrow> int" where
  "raw_power_for_sector sz = sz"

definition power_for_sector :: "int \<Rightarrow> sector_info \<Rightarrow> power_pair" where
  "power_for_sector sector_size sector = PowerPair sector_size (qa_power_for_sector sector_size sector)"

definition power_for_sectors :: "int \<Rightarrow> sector_info list \<Rightarrow> power_pair" where
  "power_for_sectors sector_size sectors =
     PowerPair (sector_size * int (length sectors))
       (sum_list (map (qa_power_for_sector sector_size) sectors))"

definition daily_fee_for_sectors :: "sector_info list \<Rightarrow> int" where
  "daily_fee_for_sectors sectors = sum_list (map si_daily_fee sectors)"

section \<open>Fees and penalties\<close>

text \<open>The multiplier of the policy is a fraction of two integers, the cap's denominator a third.\<close>

definition daily_proof_fee :: "int \<Rightarrow> int \<Rightarrow> int \<Rightarrow> int \<Rightarrow> int" where
  "daily_proof_fee multiplier_num multiplier_denom circulating_supply qa_power =
     div_floor (multiplier_num * circulating_supply * qa_power) multiplier_denom"

definition daily_proof_fee_adjust :: "int \<Rightarrow> int \<Rightarrow> int \<Rightarrow> int" where
  "daily_proof_fee_adjust daily_fee old_qa_power new_qa_power =
     (if old_qa_power = new_qa_power then daily_fee
      else div_floor (daily_fee * new_qa_power) old_qa_power)"

definition daily_proof_fee_payable :: "int \<Rightarrow> int \<Rightarrow> int \<Rightarrow> int" where
  "daily_proof_fee_payable cap_denom daily_fee estimated_day_reward =
     (let cap = div_floor estimated_day_reward cap_denom in min cap daily_fee)"

definition TERM_FEE_PLEDGE_MULTIPLE_NUM :: int where "TERM_FEE_PLEDGE_MULTIPLE_NUM = 85"
definition TERM_FEE_PLEDGE_MULTIPLE_DENOM :: int where "TERM_FEE_PLEDGE_MULTIPLE_DENOM = 1000"
definition TERM_FEE_MIN_PLEDGE_MULTIPLE_NUM :: int where "TERM_FEE_MIN_PLEDGE_MULTIPLE_NUM = 2"
definition TERM_FEE_MIN_PLEDGE_MULTIPLE_DENOM :: int where "TERM_FEE_MIN_PLEDGE_MULTIPLE_DENOM = 100"
definition TERM_FEE_MAX_FAULT_FEE_MULTIPLE_NUM :: int where
  "TERM_FEE_MAX_FAULT_FEE_MULTIPLE_NUM = 105"
definition TERM_FEE_MAX_FAULT_FEE_MULTIPLE_DENOM :: int where
  "TERM_FEE_MAX_FAULT_FEE_MULTIPLE_DENOM = 100"
definition TERMINATION_LIFETIME_CAP :: int where "TERMINATION_LIFETIME_CAP = 140"

definition pledge_penalty_for_termination :: "int \<Rightarrow> int \<Rightarrow> int \<Rightarrow> int" where
  "pledge_penalty_for_termination initial_pledge sector_age fault_fee =
     (let simple_termination_fee =
            div_floor (initial_pledge * TERM_FEE_PLEDGE_MULTIPLE_NUM) TERM_FEE_PLEDGE_MULTIPLE_DENOM;
          duration_termination_fee =
            div_floor (sector_age * simple_termination_fee) (TERMINATION_LIFETIME_CAP * EPOCHS_IN_DAY);
          base_termination_fee = min simple_termination_fee duration_termination_fee;
          minimum_fee_abs =
            div_floor (initial_pledge * TERM_FEE_MIN_PLEDGE_MULTIPLE_NUM)
              TERM_FEE_MIN_PLEDGE_MULTIPLE_DENOM;
          minimum_fee_ff =
            div_floor (fault_fee * TERM_FEE_MAX_FAULT_FEE_MULTIPLE_NUM)
              TERM_FEE_MAX_FAULT_FEE_MULTIPLE_DENOM;
          minimum_fee = max minimum_fee_abs minimum_fee_ff
      in max base_termination_fee minimum_fee)"

definition CONSENSUS_FAULT_FACTOR :: int where "CONSENSUS_FAULT_FACTOR = 5"
definition LOCKED_REWARD_FACTOR_NUM :: int where "LOCKED_REWARD_FACTOR_NUM = 3"
definition LOCKED_REWARD_FACTOR_DENOM :: int where "LOCKED_REWARD_FACTOR_DENOM = 4"
definition CONSENSUS_FAULT_REPORTER_DEFAULT_SHARE :: int where
  "CONSENSUS_FAULT_REPORTER_DEFAULT_SHARE = 4"

definition consensus_fault_penalty :: "int \<Rightarrow> int" where
  "consensus_fault_penalty this_epoch_reward =
     div_floor (this_epoch_reward * CONSENSUS_FAULT_FACTOR) EXPECTED_LEADERS_PER_EPOCH"

definition reward_for_consensus_slash_report :: "int \<Rightarrow> int" where
  "reward_for_consensus_slash_report epoch_reward =
     div_floor epoch_reward (EXPECTED_LEADERS_PER_EPOCH * CONSENSUS_FAULT_REPORTER_DEFAULT_SHARE)"

text \<open>The amount to lock; the schedule beside it is the reward schedule of \<open>Vesting\<close>.\<close>

definition locked_reward_from_reward :: "int \<Rightarrow> int" where
  "locked_reward_from_reward reward = div_floor (reward * LOCKED_REWARD_FACTOR_NUM) LOCKED_REWARD_FACTOR_DENOM"

section \<open>Bounds\<close>

lemmas quality_consts = SECTOR_QUALITY_PRECISION_def QUALITY_BASE_MULTIPLIER_def
  VERIFIED_DEAL_WEIGHT_MULTIPLIER_def

lemma quality_eq:
  "quality_for_weight sz d w = ((sz * d * 10 + w * 90) * 2 ^ 20 div (sz * d)) div 10"
  by (simp add: quality_for_weight_def quality_consts div_floor_def Let_def algebra_simps)

lemma quality_mono:
  assumes "0 < sz * d" and "w \<le> w'"
  shows "quality_for_weight sz d w \<le> quality_for_weight sz d w'"
  unfolding quality_eq using assms by (intro zdiv_mono1) auto

lemma quality_none:
  assumes "0 < sz * d"
  shows "quality_for_weight sz d 0 = 2 ^ 20"
proof -
  have "(S * 10 + 0 * 90) * 2 ^ 20 div S div 10 = (2 ^ 20 :: int)" if "0 < S" for S :: int
    using that by simp
  from this [OF assms] show ?thesis unfolding quality_eq .
qed

lemma quality_full:
  assumes "0 < sz * d"
  shows "quality_for_weight sz d (sz * d) = 10 * 2 ^ 20"
proof -
  have "(S * 10 + S * 90) * 2 ^ 20 div S div 10 = (10 * 2 ^ 20 :: int)" if "0 < S" for S :: int
    using that by simp
  from this [OF assms] show ?thesis unfolding quality_eq .
qed

lemma qa_power_mono:
  assumes "0 < sz" and "0 < d" and "w \<le> w'"
  shows "qa_power_for_weight sz d w \<le> qa_power_for_weight sz d w'"
  unfolding qa_power_for_weight_def
  using assms quality_mono [of sz d w w'] by (intro zdiv_mono1 mult_left_mono) auto

section \<open>Properties\<close>



lemma termination_fee_eq:
  "pledge_penalty_for_termination pledge age fault_fee =
     max (min (pledge * 85 div 1000) (age * (pledge * 85 div 1000) div (140 * EPOCHS_IN_DAY)))
       (max (pledge * 2 div 100) (fault_fee * 105 div 100))"
  by (simp add: pledge_penalty_for_termination_def Let_def div_floor_def
      TERM_FEE_PLEDGE_MULTIPLE_NUM_def TERM_FEE_PLEDGE_MULTIPLE_DENOM_def
      TERM_FEE_MIN_PLEDGE_MULTIPLE_NUM_def TERM_FEE_MIN_PLEDGE_MULTIPLE_DENOM_def
      TERM_FEE_MAX_FAULT_FEE_MULTIPLE_NUM_def TERM_FEE_MAX_FAULT_FEE_MULTIPLE_DENOM_def
      TERMINATION_LIFETIME_CAP_def)

text \<open>
  C29: the termination fee of a sector grows with its age, is at least 2\% of its pledge and
  105\% of its fault fee, and from 140 days on it is the larger of 8.5\% of the pledge and the
  latter, all rounded down.
\<close>

theorem termination_fee_schedule:
  assumes "0 \<le> pledge" and "0 \<le> age" and "age \<le> age'"
  shows "pledge_penalty_for_termination pledge age fault_fee
      \<le> pledge_penalty_for_termination pledge age' fault_fee
    \<and> pledge * 2 div 100 \<le> pledge_penalty_for_termination pledge age fault_fee
    \<and> fault_fee * 105 div 100 \<le> pledge_penalty_for_termination pledge age fault_fee
    \<and> (140 * EPOCHS_IN_DAY \<le> age \<longrightarrow>
        pledge_penalty_for_termination pledge age fault_fee
          = max (pledge * 85 div 1000) (fault_fee * 105 div 100))"
proof -
  let ?simple = "pledge * 85 div 1000" and ?cap = "140 * EPOCHS_IN_DAY"
  have cap: "?cap = 403200" by (simp add: EPOCHS_IN_DAY_def)
  have simple: "0 \<le> ?simple" using assms(1) by simp
  have mono: "age * ?simple div ?cap \<le> age' * ?simple div ?cap"
    unfolding cap using assms(3) simple by (intro zdiv_mono1 mult_right_mono) auto
  have "?simple \<le> age * ?simple div ?cap" if "?cap \<le> age"
  proof -
    have "?cap * ?simple \<le> age * ?simple" using that simple by (intro mult_right_mono)
    then show ?thesis unfolding cap using zdiv_mono1 [of "403200 * ?simple" "age * ?simple" 403200] by simp
  qed
  then have old: "min ?simple (age * ?simple div ?cap) = ?simple" if "?cap \<le> age" using that by simp
  have small: "pledge * 2 div 100 \<le> ?simple" using assms(1) by linarith
  have "max ?simple (max (pledge * 2 div 100) x) = max ?simple x" for x using small by simp
  with mono old show ?thesis
    unfolding termination_fee_eq by (metis max.cobounded1 max.cobounded2 max.coboundedI2 max.mono min.mono order_refl)
qed

theorem termination_fee_schedule_witness:
  "pledge_penalty_for_termination 1000000 (200 * EPOCHS_IN_DAY) 100 = 85000"
  using termination_fee_schedule [of 1000000 "200 * EPOCHS_IN_DAY" "200 * EPOCHS_IN_DAY" 100]
  by (simp add: EPOCHS_IN_DAY_def)

end
