(* ===== verification/Expiration.thy ===== *)
theory Expiration
  imports BitfieldQueue SectorPower
begin

text \<open>
  The expiration queue of a partition: \<open>actors/miner/src/expiration_queue.rs\<close>. Bitfields are sets
  of sector numbers, iterated in increasing order; the conversion of a list of numbers to a
  bitfield is the parameter \<open>bits\<close>, as in \<open>BitfieldQueue\<close>. Ordered maps and sets of the standard
  library are association lists and sets, walked in the order of their keys. Mutating closures
  over the array are functions that return the new entry and the captured variables.
\<close>

section \<open>Expiration sets\<close>

definition ENTRY_SECTORS_MAX :: nat where "ENTRY_SECTORS_MAX = 10000"

record expiration_set =
  on_time_sectors :: bitfield
  early_sectors :: bitfield
  on_time_pledge :: int
  active_power :: power_pair
  faulty_power :: power_pair
  fee_deduction :: int

definition es_empty :: expiration_set where
  "es_empty = \<lparr>on_time_sectors = {}, early_sectors = {}, on_time_pledge = 0, active_power = 0,
               faulty_power = 0, fee_deduction = 0\<rparr>"

definition validate_state :: "expiration_set \<Rightarrow> unit anyhow" where
  "validate_state es =
     (if on_time_pledge es < 0 then Inl None
      else if pp_raw (active_power es) < 0 then Inl None
      else if pp_qa (active_power es) < 0 then Inl None
      else if pp_raw (faulty_power es) < 0 then Inl None
      else if pp_qa (faulty_power es) < 0 then Inl None
      else if fee_deduction es < 0 then Inl None
      else Inr ())"

definition es_add ::
  "bitfield \<Rightarrow> bitfield \<Rightarrow> int \<Rightarrow> power_pair \<Rightarrow> power_pair \<Rightarrow> int \<Rightarrow> expiration_set \<Rightarrow>
   expiration_set anyhow" where
  "es_add on_time early pledge active faulty fee es =
     (let es' = \<lparr>on_time_sectors = on_time_sectors es \<union> on_time,
                 early_sectors = early_sectors es \<union> early,
                 on_time_pledge = on_time_pledge es + pledge,
                 active_power = active_power es + active,
                 faulty_power = faulty_power es + faulty,
                 fee_deduction = fee_deduction es + fee\<rparr>
      in r_bind (validate_state es') (\<lambda>_. Inr es'))"

definition es_remove ::
  "bitfield \<Rightarrow> bitfield \<Rightarrow> int \<Rightarrow> power_pair \<Rightarrow> power_pair \<Rightarrow> int \<Rightarrow> expiration_set \<Rightarrow>
   expiration_set anyhow" where
  "es_remove on_time early pledge active faulty fee es =
     (if \<not> on_time \<subseteq> on_time_sectors es then Inl None
      else if \<not> early \<subseteq> early_sectors es then Inl None
      else
        let es' = \<lparr>on_time_sectors = on_time_sectors es - on_time,
                   early_sectors = early_sectors es - early,
                   on_time_pledge = on_time_pledge es - pledge,
                   active_power = active_power es - active,
                   faulty_power = faulty_power es - faulty,
                   fee_deduction = fee_deduction es - fee\<rparr>
        in if on_time_pledge es' < 0 then Inl None
           else if pp_qa (active_power es') < 0 \<or> pp_qa (faulty_power es') < 0 then Inl None
           else if fee_deduction es' < 0 then Inl None
           else r_bind (validate_state es') (\<lambda>_. Inr es'))"

definition es_is_empty :: "expiration_set \<Rightarrow> bool" where
  "es_is_empty es \<longleftrightarrow> on_time_sectors es = {} \<and> early_sectors es = {}"

definition es_len :: "expiration_set \<Rightarrow> nat" where
  "es_len es = card (on_time_sectors es) + card (early_sectors es)"

section \<open>The queue\<close>

record expiration_queue =
  eq_amt :: "expiration_set amt"
  eq_quant :: quant_spec

definition may_get :: "int \<Rightarrow> expiration_queue \<Rightarrow> expiration_set anyhow" where
  "may_get key q =
     r_bind (epoch_key key) (\<lambda>k.
       Inr (case amt_get (eq_amt q) k of None \<Rightarrow> es_empty | Some es \<Rightarrow> es))"

definition must_update :: "int \<Rightarrow> expiration_set \<Rightarrow> expiration_queue \<Rightarrow> expiration_queue anyhow" where
  "must_update epoch es q =
     r_bind (epoch_key epoch) (\<lambda>k. Inr (q\<lparr>eq_amt := amt_set k es (eq_amt q)\<rparr>))"

definition must_update_or_delete ::
  "int \<Rightarrow> expiration_set \<Rightarrow> expiration_queue \<Rightarrow> expiration_queue anyhow" where
  "must_update_or_delete epoch es q =
     r_bind (epoch_key epoch) (\<lambda>k.
       if es_is_empty es then Inr (q\<lparr>eq_amt := amt_delete k (eq_amt q)\<rparr>)
       else Inr (q\<lparr>eq_amt := amt_set k es (eq_amt q)\<rparr>))"

definition eq_add ::
  "int \<Rightarrow> bitfield \<Rightarrow> bitfield \<Rightarrow> power_pair \<Rightarrow> power_pair \<Rightarrow> int \<Rightarrow> int \<Rightarrow> expiration_queue \<Rightarrow>
   expiration_queue anyhow" where
  "eq_add raw_epoch on_time early active faulty pledge daily_fee q =
     (let epoch = quantize_up (eq_quant q) raw_epoch in
      r_bind (may_get epoch q) (\<lambda>es.
      r_bind (es_add on_time early pledge active faulty daily_fee es) (\<lambda>es'.
      must_update epoch es' q)))"

definition eq_remove ::
  "int \<Rightarrow> bitfield \<Rightarrow> bitfield \<Rightarrow> power_pair \<Rightarrow> power_pair \<Rightarrow> int \<Rightarrow> int \<Rightarrow> expiration_queue \<Rightarrow>
   expiration_queue anyhow" where
  "eq_remove raw_epoch on_time early active faulty pledge fee q =
     (let epoch = quantize_up (eq_quant q) raw_epoch in
      r_bind (epoch_key epoch) (\<lambda>k.
      case amt_get (eq_amt q) k of
        None \<Rightarrow> Inl None
      | Some es \<Rightarrow>
          r_bind (es_remove on_time early pledge active faulty fee es) (\<lambda>es'.
          must_update_or_delete epoch es' q)))"

text \<open>Walking the array with a closure that may change entries and may stop.\<close>

fun iter_entries ::
  "(int \<Rightarrow> expiration_set \<Rightarrow> 's \<Rightarrow> ((bool \<times> expiration_set) \<times> 's) anyhow) \<Rightarrow> expiration_set amt \<Rightarrow> 's \<Rightarrow>
   ((expiration_set amt \<times> nat list) \<times> 's) anyhow" where
  "iter_entries f [] s = Inr (([], []), s)"
| "iter_entries f ((e, es) # a) s =
     r_bind (f (int e) es s) (\<lambda>((keep_going, es'), s').
       let emptied = (if es_is_empty es' then [e] else []) in
       if keep_going then
         r_bind (iter_entries f a s') (\<lambda>((a', more), s'').
           Inr (((e, es') # a', emptied @ more), s''))
       else Inr (((e, es') # a, emptied), s'))"

definition iter_while_mut ::
  "(int \<Rightarrow> expiration_set \<Rightarrow> 's \<Rightarrow> ((bool \<times> expiration_set) \<times> 's) anyhow) \<Rightarrow> 's \<Rightarrow> expiration_queue \<Rightarrow>
   ('s \<times> expiration_queue) anyhow" where
  "iter_while_mut f s q =
     r_bind (iter_entries f (eq_amt q) s) (\<lambda>((a, epochs_emptied), s').
       Inr (s', q\<lparr>eq_amt := amt_batch_delete epochs_emptied a\<rparr>))"

section \<open>Grouping sectors\<close>

record sector_epoch_set =
  ses_epoch :: int
  ses_sectors :: "nat list"
  ses_power :: power_pair
  ses_pledge :: int
  ses_daily_fee :: int

record sector_expiration_set =
  sector_epoch_set :: sector_epoch_set
  ses_expiration_set :: expiration_set

definition epoch_set_of :: "int \<Rightarrow> int \<Rightarrow> sector_info list \<Rightarrow> sector_epoch_set" where
  "epoch_set_of sz epoch sectors =
     \<lparr>ses_epoch = epoch, ses_sectors = map sector_number sectors,
      ses_power = sum_list (map (power_for_sector sz) sectors),
      ses_pledge = sum_list (map si_initial_pledge sectors),
      ses_daily_fee = sum_list (map si_daily_fee sectors)\<rparr>"

definition group_new_sectors_by_declared_expiration ::
  "int \<Rightarrow> sector_info list \<Rightarrow> quant_spec \<Rightarrow> sector_epoch_set list" where
  "group_new_sectors_by_declared_expiration sz sectors quant =
     map (\<lambda>e. epoch_set_of sz e (filter (\<lambda>s. quantize_up quant (si_expiration s) = e) sectors))
       (sort (remdups (map (\<lambda>s. quantize_up quant (si_expiration s)) sectors)))"

text \<open>
  The numbers of the set that are still to be found, removed from them; the panic is a number
  without a sector.
\<close>

definition group_expiration_set ::
  "int \<Rightarrow> (nat, sector_info) map2 \<Rightarrow> nat set \<Rightarrow> expiration_set \<Rightarrow> int \<Rightarrow>
   (sector_expiration_set \<times> nat set) anyhow" where
  "group_expiration_set sz sectors include_set es expiration =
     (let us = filter (\<lambda>u. u \<in> include_set) (sorted_list_of_set (on_time_sectors es)) in
      case those (map (map2_get sectors) us) of
        None \<Rightarrow> Inl (Some Panic)
      | Some ss \<Rightarrow>
          Inr (\<lparr>sector_epoch_set = (epoch_set_of sz expiration ss)\<lparr>ses_sectors := us\<rparr>,
                ses_expiration_set = es\<rparr>, include_set - set us))"

definition check_no_early_sectors :: "nat set \<Rightarrow> expiration_set \<Rightarrow> unit anyhow" where
  "check_no_early_sectors s es = (if early_sectors es \<inter> s \<noteq> {} then Inl None else Inr ())"

definition push_group ::
  "sector_expiration_set \<Rightarrow> sector_expiration_set list \<Rightarrow> sector_expiration_set list" where
  "push_group g groups = (if ses_sectors (sector_epoch_set g) = [] then groups else groups @ [g])"

definition find_declared ::
  "int \<Rightarrow> (nat, sector_info) map2 \<Rightarrow> expiration_queue \<Rightarrow> int \<Rightarrow> nat set \<times> sector_expiration_set list \<Rightarrow>
   (nat set \<times> sector_expiration_set list) anyhow" where
  "find_declared sz by_number q expiration acc =
     r_bind (may_get expiration q) (\<lambda>es.
     r_bind (group_expiration_set sz by_number (fst acc) es expiration) (\<lambda>(g, remaining).
     Inr (remaining, push_group g (snd acc))))"

fun find_remaining ::
  "int \<Rightarrow> (nat, sector_info) map2 \<Rightarrow> int list \<Rightarrow> expiration_set amt \<Rightarrow>
   nat set \<times> sector_expiration_set list \<Rightarrow> (nat set \<times> sector_expiration_set list) anyhow" where
  "find_remaining sz by_number declared [] acc = Inr acc"
| "find_remaining sz by_number declared ((epoch, es) # a) acc =
     (if int epoch \<in> set declared then find_remaining sz by_number declared a acc
      else
        r_bind (check_no_early_sectors (fst acc) es) (\<lambda>_.
        r_bind (group_expiration_set sz by_number (fst acc) es (int epoch)) (\<lambda>(g, remaining).
        let acc' = (remaining, push_group g (snd acc)) in
        if remaining \<noteq> {} then find_remaining sz by_number declared a acc' else Inr acc')))"

definition find_sectors_by_expiration ::
  "int \<Rightarrow> sector_info list \<Rightarrow> expiration_queue \<Rightarrow> sector_expiration_set list anyhow" where
  "find_sectors_by_expiration sz sectors q =
     (let declared = sort (remdups (map (\<lambda>s. quantize_up (eq_quant q) (si_expiration s)) sectors));
          by_number = fold (\<lambda>s m. map2_put (sector_number s) s m) sectors map2_empty
      in r_bind (r_fold (find_declared sz by_number q) declared (set (map sector_number sectors), []))
           (\<lambda>acc.
         r_bind (if fst acc \<noteq> {} then find_remaining sz by_number declared (eq_amt q) acc else Inr acc)
           (\<lambda>(remaining, groups).
         if remaining \<noteq> {} then Inl None
         else Inr (sort_key (\<lambda>g. ses_epoch (sector_epoch_set g)) groups))))"

section \<open>Operations\<close>

type_synonym totals = "bitfield \<times> power_pair \<times> int \<times> int"
type_synonym to_bits = "nat list \<Rightarrow> bitfield anyhow"

definition add_group ::
  "to_bits \<Rightarrow> sector_epoch_set \<Rightarrow> totals \<times> expiration_queue \<Rightarrow> (totals \<times> expiration_queue) anyhow" where
  "add_group bits g acc =
     (case acc of ((nums, pwr, pledge, fee), q) \<Rightarrow>
        r_bind (bits (ses_sectors g)) (\<lambda>bf.
        r_bind (eq_add (ses_epoch g) bf {} (ses_power g) 0 (ses_pledge g) (ses_daily_fee g) q) (\<lambda>q'.
        Inr ((nums \<union> bf, pwr + ses_power g, pledge + ses_pledge g, fee + ses_daily_fee g), q'))))"

definition add_active_sectors ::
  "to_bits \<Rightarrow> sector_info list \<Rightarrow> int \<Rightarrow> expiration_queue \<Rightarrow> (totals \<times> expiration_queue) anyhow" where
  "add_active_sectors bits sectors sz q =
     r_fold (add_group bits) (group_new_sectors_by_declared_expiration sz sectors (eq_quant q))
       (({}, 0, 0, 0), q)"

definition remove_group ::
  "to_bits \<Rightarrow> sector_expiration_set \<Rightarrow> (nat list \<times> power_pair \<times> int \<times> int) \<times> expiration_queue \<Rightarrow>
   ((nat list \<times> power_pair \<times> int \<times> int) \<times> expiration_queue) anyhow" where
  "remove_group bits ge acc =
     (case acc of ((nums, pwr, pledge, fee), q) \<Rightarrow>
        let g = sector_epoch_set ge in
        r_bind (bits (ses_sectors g)) (\<lambda>bf.
        r_bind (eq_remove (ses_epoch g) bf {} (ses_power g) 0 (ses_pledge g) (ses_daily_fee g) q) (\<lambda>q'.
        Inr ((nums @ ses_sectors g, pwr + ses_power g, pledge + ses_pledge g,
              fee + ses_daily_fee g), q'))))"

definition remove_active_sectors ::
  "to_bits \<Rightarrow> sector_info list \<Rightarrow> int \<Rightarrow> expiration_queue \<Rightarrow> (totals \<times> expiration_queue) anyhow" where
  "remove_active_sectors bits sectors sz q =
     r_bind (find_sectors_by_expiration sz sectors q) (\<lambda>groups.
     r_bind (r_fold (remove_group bits) groups (([], 0, 0, 0), q)) (\<lambda>((nums, pwr, pledge, fee), q').
     r_bind (bits nums) (\<lambda>bf. Inr ((bf, pwr, pledge, fee), q'))))"

definition reschedule_expirations ::
  "to_bits \<Rightarrow> int \<Rightarrow> sector_info list \<Rightarrow> int \<Rightarrow> expiration_queue \<Rightarrow> expiration_queue anyhow" where
  "reschedule_expirations bits new_expiration sectors sz q =
     (if sectors = [] then Inr q
      else
        r_bind (remove_active_sectors bits sectors sz q) (\<lambda>((nums, pwr, pledge, fee), q1).
        eq_add new_expiration nums {} pwr 0 pledge fee q1))"

text \<open>Sectors to add, expiring power, rescheduled power and fee, and the queue.\<close>

type_synonym fault_acc = "(nat list \<times> power_pair \<times> power_pair \<times> int) \<times> expiration_queue"

definition fault_group ::
  "to_bits \<Rightarrow> int \<Rightarrow> sector_expiration_set \<Rightarrow> fault_acc \<Rightarrow> fault_acc anyhow" where
  "fault_group bits new_quantized ge acc =
     (case acc of ((nums, expiring, resch, fee), q) \<Rightarrow>
        let g = sector_epoch_set ge; es = ses_expiration_set ge in
        r_bind
          (if ses_epoch g \<le> new_quantized then
             Inr (es\<lparr>active_power := active_power es - ses_power g,
                     faulty_power := faulty_power es + ses_power g\<rparr>,
                  (nums, expiring + ses_power g, resch, fee))
           else
             r_bind (bits (ses_sectors g)) (\<lambda>bf.
             Inr (es\<lparr>on_time_sectors := on_time_sectors es - bf,
                     on_time_pledge := on_time_pledge es - ses_pledge g,
                     active_power := active_power es - ses_power g,
                     fee_deduction := fee_deduction es - ses_daily_fee g\<rparr>,
                  (nums @ ses_sectors g, expiring, resch + ses_power g, fee + ses_daily_fee g))))
          (\<lambda>(es', totals).
        r_bind (must_update_or_delete (ses_epoch g) es' q) (\<lambda>q'.
        r_bind (validate_state es') (\<lambda>_. Inr (totals, q')))))"

definition reschedule_as_faults ::
  "to_bits \<Rightarrow> int \<Rightarrow> sector_info list \<Rightarrow> int \<Rightarrow> expiration_queue \<Rightarrow>
   (power_pair \<times> expiration_queue) anyhow" where
  "reschedule_as_faults bits new_expiration sectors sz q =
     r_bind (find_sectors_by_expiration sz sectors q) (\<lambda>groups.
     r_bind (r_fold (fault_group bits (quantize_up (eq_quant q) new_expiration)) groups
               (([], 0, 0, 0), q)) (\<lambda>((nums, expiring, resch, fee), q1).
     r_bind
       (if nums \<noteq> [] then
          r_bind (bits nums) (\<lambda>early. eq_add new_expiration {} early 0 resch 0 fee q1)
        else Inr q1) (\<lambda>q2.
     Inr (resch + expiring, q2))))"

text \<open>The first pass over the array: epochs, sectors, power and fee to move, entries to rewrite.\<close>

type_synonym all_faults_acc =
  "nat list \<times> bitfield \<times> power_pair \<times> int \<times> (int \<times> expiration_set) list"

definition all_faults_entry ::
  "int \<Rightarrow> nat \<times> expiration_set \<Rightarrow> all_faults_acc \<Rightarrow> all_faults_acc anyhow" where
  "all_faults_entry quantized entry acc =
     (case (entry, acc) of ((e, es), (epochs, nums, pwr, fee, mutated)) \<Rightarrow>
        if int e \<le> quantized then
          Inr (epochs, nums, pwr, fee,
               mutated @ [(int e, es\<lparr>faulty_power := faulty_power es + active_power es,
                                     active_power := 0\<rparr>)])
        else if early_sectors es \<noteq> {} then Inl None
        else Inr (epochs @ [e], nums \<union> on_time_sectors es, pwr + active_power es + faulty_power es,
                  fee + fee_deduction es, mutated))"

definition update_mutated :: "int \<times> expiration_set \<Rightarrow> expiration_queue \<Rightarrow> expiration_queue anyhow" where
  "update_mutated ees q =
     r_bind (must_update (fst ees) (snd ees) q) (\<lambda>q'.
     r_bind (validate_state (snd ees)) (\<lambda>_. Inr q'))"

definition reschedule_all_as_faults :: "int \<Rightarrow> expiration_queue \<Rightarrow> expiration_queue anyhow" where
  "reschedule_all_as_faults fault_expiration q =
     r_bind (r_fold (all_faults_entry (quantize_up (eq_quant q) fault_expiration)) (eq_amt q)
               ([], {}, 0, 0, [])) (\<lambda>(epochs, nums, pwr, fee, mutated).
     r_bind (r_fold update_mutated mutated q) (\<lambda>q1.
     if epochs = [] then Inr q1
     else
       r_bind (eq_add fault_expiration {} nums 0 pwr 0 fee q1) (\<lambda>q2.
       Inr (q2\<lparr>eq_amt := amt_batch_delete epochs (eq_amt q2)\<rparr>))))"

text \<open>The sectors still to recover, those to reschedule and the recovered power.\<close>

type_synonym recover_acc = "(nat, sector_info) map2 \<times> sector_info list \<times> power_pair"

definition recover_entry ::
  "to_bits \<Rightarrow> int \<Rightarrow> int \<Rightarrow> expiration_set \<Rightarrow> recover_acc \<Rightarrow>
   ((bool \<times> expiration_set) \<times> recover_acc) anyhow" where
  "recover_entry bits sz epoch es acc =
     (case acc of (remaining, rescheduled, recovered) \<Rightarrow>
        let on_time = List.map_filter (map2_get remaining) (sorted_list_of_set (on_time_sectors es));
            remaining1 = fold map2_remove (map sector_number on_time) remaining;
            early = List.map_filter (map2_get remaining1) (sorted_list_of_set (early_sectors es));
            early_unset = map sector_number early;
            remaining2 = fold map2_remove early_unset remaining1;
            on_time_power = sum_list (map (power_for_sector sz) on_time);
            early_power = sum_list (map (power_for_sector sz) early);
            faulty_power_delta = - (on_time_power + early_power);
            active_power_delta = on_time_power;
            daily_fee_delta = - sum_list (map si_daily_fee early)
        in r_bind
             (if early_unset \<noteq> [] \<or> faulty_power_delta \<noteq> 0 \<or> active_power_delta \<noteq> 0 then
                r_bind (bits early_unset) (\<lambda>bf.
                Inr (es\<lparr>active_power := active_power es + active_power_delta,
                        faulty_power := faulty_power es + faulty_power_delta,
                        fee_deduction := fee_deduction es + daily_fee_delta,
                        early_sectors := early_sectors es - bf\<rparr>))
              else Inr es) (\<lambda>es'.
           r_bind (validate_state es') (\<lambda>_.
           Inr ((\<not> map2_is_empty remaining2, es'),
                (remaining2, rescheduled @ early, recovered + on_time_power + early_power)))))"

definition reschedule_recovered ::
  "to_bits \<Rightarrow> sector_info list \<Rightarrow> int \<Rightarrow> expiration_queue \<Rightarrow> (power_pair \<times> expiration_queue) anyhow" where
  "reschedule_recovered bits sectors sz q =
     (let remaining = fold (\<lambda>s m. map2_put (sector_number s) s m) sectors map2_empty in
      r_bind (iter_while_mut (recover_entry bits sz) (remaining, [], 0) q)
        (\<lambda>((remaining', rescheduled, recovered), q1).
      if \<not> map2_is_empty remaining' then Inl None
      else
        r_bind (add_active_sectors bits rescheduled sz q1) (\<lambda>(_, q2).
        Inr (recovered, q2))))"

definition replace_sectors ::
  "to_bits \<Rightarrow> sector_info list \<Rightarrow> sector_info list \<Rightarrow> int \<Rightarrow> expiration_queue \<Rightarrow>
   ((bitfield \<times> bitfield \<times> power_pair \<times> int \<times> int) \<times> expiration_queue) anyhow" where
  "replace_sectors bits old_sectors new_sectors sz q =
     r_bind (remove_active_sectors bits old_sectors sz q) (\<lambda>((onums, opower, opledge, ofee), q1).
     r_bind (add_active_sectors bits new_sectors sz q1) (\<lambda>((nnums, npower, npledge, nfee), q2).
     Inr ((onums, nnums, npower - opower, npledge - opledge, nfee - ofee), q2)))"

text \<open>The entry, the removed set, the recovering power and the sectors still to find.\<close>

type_synonym remove_acc = "expiration_set \<times> expiration_set \<times> power_pair \<times> nat set"

definition remove_faulty ::
  "nat set \<Rightarrow> nat set \<Rightarrow> bitfield \<Rightarrow> bitfield \<Rightarrow> int \<Rightarrow> sector_info \<Rightarrow> remove_acc \<Rightarrow> remove_acc" where
  "remove_faulty faults_map recovering_map on_time early sz sector acc =
     (case acc of (es, removed, recovering, remaining) \<Rightarrow>
        let n = sector_number sector;
            (found, es1, removed1) =
              (if n \<in> on_time then
                 (True,
                  es\<lparr>on_time_sectors := on_time_sectors es - {n},
                     on_time_pledge := on_time_pledge es - si_initial_pledge sector\<rparr>,
                  removed\<lparr>on_time_sectors := insert n (on_time_sectors removed),
                          on_time_pledge := on_time_pledge removed + si_initial_pledge sector\<rparr>)
               else if n \<in> early then
                 (True, es\<lparr>early_sectors := early_sectors es - {n}\<rparr>,
                  removed\<lparr>early_sectors := insert n (early_sectors removed)\<rparr>)
               else (False, es, removed))
        in if \<not> found then (es, removed, recovering, remaining)
           else
             let pwr = power_for_sector sz sector;
                 (es2, removed2) =
                   (if n \<in> faults_map then
                      (es1\<lparr>faulty_power := faulty_power es1 - pwr\<rparr>,
                       removed1\<lparr>faulty_power := faulty_power removed1 + pwr\<rparr>)
                    else
                      (es1\<lparr>active_power := active_power es1 - pwr\<rparr>,
                       removed1\<lparr>active_power := active_power removed1 + pwr\<rparr>))
             in (es2\<lparr>fee_deduction := fee_deduction es2 - si_daily_fee sector\<rparr>,
                 removed2\<lparr>fee_deduction := fee_deduction removed2 + si_daily_fee sector\<rparr>,
                 (if n \<in> recovering_map then recovering + pwr else recovering),
                 remaining - {n}))"

definition remove_entry ::
  "nat set \<Rightarrow> nat set \<Rightarrow> sector_info list \<Rightarrow> int \<Rightarrow> int \<Rightarrow> expiration_set \<Rightarrow>
   expiration_set \<times> power_pair \<times> nat set \<Rightarrow>
   ((bool \<times> expiration_set) \<times> expiration_set \<times> power_pair \<times> nat set) anyhow" where
  "remove_entry faults_map recovering_map faulty_sectors sz epoch es acc =
     (if ENTRY_SECTORS_MAX < card (on_time_sectors es) then Inl None
      else if ENTRY_SECTORS_MAX < card (early_sectors es) then Inl None
      else
        let (es', acc') =
              fold (remove_faulty faults_map recovering_map (on_time_sectors es) (early_sectors es) sz)
                faulty_sectors (es, acc)
        in r_bind (validate_state es') (\<lambda>_. Inr ((snd (snd acc') \<noteq> {}, es'), acc')))"

definition remove_sectors ::
  "to_bits \<Rightarrow> nat \<Rightarrow> sector_info list \<Rightarrow> bitfield \<Rightarrow> bitfield \<Rightarrow> int \<Rightarrow> expiration_queue \<Rightarrow>
   ((expiration_set \<times> power_pair) \<times> expiration_queue) anyhow" where
  "remove_sectors bits addressed_sectors_max sectors faults recovering sz q =
     (if addressed_sectors_max < card faults then Inl None
      else if addressed_sectors_max < card recovering then Inl None
      else
        let faulty_sectors = filter (\<lambda>s. sector_number s \<in> faults) sectors;
            non_faulty_sectors = filter (\<lambda>s. sector_number s \<notin> faults) sectors;
            remaining = set (map sector_number sectors) - set (map sector_number non_faulty_sectors)
        in r_bind (remove_active_sectors bits non_faulty_sectors sz q) (\<lambda>((nums, pwr, pledge, fee), q1).
           let removed = es_empty\<lparr>on_time_sectors := nums, active_power := pwr,
                                  on_time_pledge := pledge, fee_deduction := fee\<rparr>
           in r_bind (iter_while_mut (remove_entry faults recovering faulty_sectors sz)
                        (removed, 0, remaining) q1) (\<lambda>((removed', recovering_power, remaining'), q2).
              if remaining' \<noteq> {} then Inl None
              else Inr ((removed', recovering_power), q2))))"

text \<open>Adding up an entry, and popping all entries up to an epoch.\<close>

definition es_join :: "expiration_set \<Rightarrow> expiration_set \<Rightarrow> expiration_set" where
  "es_join a b =
     \<lparr>on_time_sectors = on_time_sectors a \<union> on_time_sectors b,
      early_sectors = early_sectors a \<union> early_sectors b,
      on_time_pledge = on_time_pledge a + on_time_pledge b,
      active_power = active_power a + active_power b,
      faulty_power = faulty_power a + faulty_power b,
      fee_deduction = fee_deduction a + fee_deduction b\<rparr>"

definition eq_pop_until :: "int \<Rightarrow> expiration_queue \<Rightarrow> expiration_set \<times> expiration_queue" where
  "eq_pop_until until q =
     (let popped = takeWhile (\<lambda>(i, es). \<not> until < int i) (eq_amt q) in
      (fold (\<lambda>(i, es) acc. es_join acc es) popped es_empty,
       q\<lparr>eq_amt := amt_batch_delete (map fst popped) (eq_amt q)\<rparr>))"

section \<open>Well-formed queues\<close>

definition es_ok :: "expiration_set \<Rightarrow> bool" where
  "es_ok es \<longleftrightarrow> finite (on_time_sectors es) \<and> finite (early_sectors es) \<and> validate_state es = Inr ()"

definition eq_ok :: "expiration_queue \<Rightarrow> bool" where
  "eq_ok q \<longleftrightarrow> amt_ok (eq_amt q) \<and> 0 < quant_unit (eq_quant q) \<and>
     (\<forall>k es. amt_get (eq_amt q) k = Some es \<longrightarrow> aligned (eq_quant q) (int k) \<and> es_ok es)"

text \<open>A step that succeeds: the queue stays well-formed with the same quantization.\<close>

abbreviation kept :: "expiration_queue \<Rightarrow> expiration_queue \<Rightarrow> bool" where
  "kept q q' \<equiv> eq_ok q' \<and> eq_quant q' = eq_quant q"

lemma validate_state_Inr [res_inv]:
  "validate_state es = Inr u \<longleftrightarrow> 0 \<le> on_time_pledge es \<and> pp_nonneg (active_power es) \<and>
     pp_nonneg (faulty_power es) \<and> 0 \<le> fee_deduction es"
  by (auto simp: validate_state_def pp_nonneg_def)

lemma es_ok_empty [simp]: "es_ok es_empty"
  by (simp add: es_ok_def es_empty_def validate_state_Inr)

lemma es_add_ok:
  "es_ok es \<Longrightarrow> finite on \<Longrightarrow> finite early \<Longrightarrow> es_add on early p a f d es = Inr es' \<Longrightarrow> es_ok es'"
  by (auto simp: es_add_def es_ok_def r_bind_eq_Inr Let_def)

lemma es_remove_ok: "es_ok es \<Longrightarrow> es_remove on early p a f d es = Inr es' \<Longrightarrow> es_ok es'"
  by (auto simp: es_remove_def es_ok_def r_bind_eq_Inr Let_def split: if_splits)

lemma eq_ok_get: "eq_ok q \<Longrightarrow> amt_get (eq_amt q) k = Some es \<Longrightarrow> es_ok es"
  by (simp add: eq_ok_def)

lemma may_get_ok: "eq_ok q \<Longrightarrow> may_get e q = Inr es \<Longrightarrow> es_ok es"
  by (auto simp: may_get_def res_inv split: option.splits dest: eq_ok_get)

lemma must_update_ok:
  "eq_ok q \<Longrightarrow> es_ok es \<Longrightarrow> aligned (eq_quant q) e \<Longrightarrow> must_update e es q = Inr q' \<Longrightarrow> kept q q'"
  by (auto simp: must_update_def res_inv eq_ok_def split: if_splits)

lemma must_update_or_delete_ok:
  "eq_ok q \<Longrightarrow> es_ok es \<Longrightarrow> aligned (eq_quant q) e \<Longrightarrow> must_update_or_delete e es q = Inr q' \<Longrightarrow> kept q q'"
  by (auto simp: must_update_or_delete_def res_inv eq_ok_def amt_ok_delete split: if_splits)

lemma quant_aligned [simp]: "eq_ok q \<Longrightarrow> aligned (eq_quant q) (quantize_up (eq_quant q) e)"
  by (rule qz.up_aligned) (simp add: eq_ok_def)

lemma eq_add_ok:
  assumes "eq_ok q" and "finite on" and "finite early" and "eq_add e on early a f p d q = Inr q'"
  shows "kept q q'"
proof -
  from assms(4) obtain es es' where "may_get (quantize_up (eq_quant q) e) q = Inr es"
    "es_add on early p a f d es = Inr es'" "must_update (quantize_up (eq_quant q) e) es' q = Inr q'"
    by (auto simp: eq_add_def r_bind_eq_Inr Let_def)
  with assms(1-3) show ?thesis
    by (intro must_update_ok [of q es']) (auto intro: es_add_ok may_get_ok)
qed

lemma eq_remove_ok:
  assumes "eq_ok q" and "eq_remove e on early a f p d q = Inr q'"
  shows "kept q q'"
proof -
  from assms(2) obtain k es es' where "amt_get (eq_amt q) k = Some es"
    "es_remove on early p a f d es = Inr es'"
    "must_update_or_delete (quantize_up (eq_quant q) e) es' q = Inr q'"
    by (auto simp: eq_remove_def r_bind_eq_Inr Let_def split: option.splits)
  with assms(1) show ?thesis
    by (intro must_update_or_delete_ok [of q es']) (auto intro: es_remove_ok eq_ok_get)
qed

lemma converts_finite: "converts bits \<Longrightarrow> bits xs = Inr bf \<Longrightarrow> finite bf"
  unfolding converts_def by (metis List.finite_set)

section \<open>Every operation keeps the queue well-formed\<close>

lemma add_active_sectors_ok:
  assumes "converts bits" and "eq_ok q" and "add_active_sectors bits sectors sz q = Inr (t, q')"
  shows "kept q q'"
proof -
  have "kept q (snd (t, q'))"
    using assms(3) unfolding add_active_sectors_def
  proof (rule r_fold_inv [where P = "\<lambda>acc. kept q (snd acc)"])
    show "kept q (snd (({}, 0, 0, 0), q))" using assms(2) by simp
  next
    fix g a b
    assume "kept q (snd a)" and "add_group bits g a = Inr b"
    then obtain bf q1 where "kept q q1" "bits (ses_sectors g) = Inr bf"
      and add: "eq_add (ses_epoch g) bf {} (ses_power g) 0 (ses_pledge g) (ses_daily_fee g) q1 = Inr (snd b)"
      by (cases a) (auto simp: add_group_def r_bind_eq_Inr)
    from this(1) eq_add_ok [OF _ converts_finite [OF assms(1) this(2)] _ add] show "kept q (snd b)" by simp
  qed
  then show ?thesis by simp
qed

lemma remove_active_sectors_ok:
  assumes "converts bits" and "eq_ok q" and "remove_active_sectors bits sectors sz q = Inr ((nums, rest), q')"
  shows "kept q q' \<and> finite nums"
proof -
  from assms(3) obtain groups u ns where
    fold: "r_fold (remove_group bits) groups (([], 0, 0, 0), q) = Inr (u, q')" and "bits ns = Inr nums"
    by (auto simp: remove_active_sectors_def r_bind_eq_Inr)
  have "kept q (snd (u, q'))"
    using fold
  proof (rule r_fold_inv [where P = "\<lambda>acc. kept q (snd acc)"])
    show "kept q (snd (([], 0, 0, 0), q))" using assms(2) by simp
  next
    fix g a b
    assume "kept q (snd a)" and "remove_group bits g a = Inr b"
    then obtain bf q1 where "kept q q1"
      and rem: "eq_remove (ses_epoch (sector_epoch_set g)) bf {} (ses_power (sector_epoch_set g)) 0
        (ses_pledge (sector_epoch_set g)) (ses_daily_fee (sector_epoch_set g)) q1 = Inr (snd b)"
      by (cases a) (auto simp: remove_group_def r_bind_eq_Inr Let_def)
    from this(1) eq_remove_ok [OF _ rem] show "kept q (snd b)" by simp
  qed
  with converts_finite [OF assms(1) \<open>bits ns = Inr nums\<close>] show ?thesis by simp
qed

lemma reschedule_expirations_ok:
  assumes "converts bits" and "eq_ok q" and "reschedule_expirations bits e sectors sz q = Inr q'"
  shows "kept q q'"
proof (cases "sectors = []")
  case True
  with assms show ?thesis by (simp add: reschedule_expirations_def)
next
  case False
  with assms(3) obtain nums pwr pledge fee q1 where
    rm: "remove_active_sectors bits sectors sz q = Inr ((nums, pwr, pledge, fee), q1)"
    and add: "eq_add e nums {} pwr 0 pledge fee q1 = Inr q'"
    by (auto simp: reschedule_expirations_def r_bind_eq_Inr)
  from remove_active_sectors_ok [OF assms(1,2) rm] eq_add_ok [OF _ _ _ add] show ?thesis by simp
qed

text \<open>A group holds an entry of the queue at an aligned epoch.\<close>

definition group_ok :: "quant_spec \<Rightarrow> sector_expiration_set \<Rightarrow> bool" where
  "group_ok quant g \<longleftrightarrow> aligned quant (ses_epoch (sector_epoch_set g)) \<and> es_ok (ses_expiration_set g)"

lemma group_expiration_set_ok:
  assumes "group_expiration_set sz m s es e = Inr (g, s')" and "es_ok es" and "aligned quant e"
  shows "group_ok quant g"
  using assms by (auto simp: group_expiration_set_def group_ok_def epoch_set_of_def Let_def split: option.splits)

lemma push_group_ok:
  "group_ok quant g \<Longrightarrow> \<forall>x \<in> set gs. group_ok quant x \<Longrightarrow> \<forall>x \<in> set (push_group g gs). group_ok quant x"
  by (auto simp: push_group_def)

lemma find_remaining_ok:
  assumes "find_remaining sz m declared a acc = Inr acc'"
    and "\<forall>x \<in> set (snd acc). group_ok quant x" and "\<forall>(k, es) \<in> set a. aligned quant (int k) \<and> es_ok es"
  shows "\<forall>x \<in> set (snd acc'). group_ok quant x"
  using assms
proof (induction sz m declared a acc rule: find_remaining.induct)
  case (2 sz m declared epoch es a acc)
  show ?case
  proof (cases "int epoch \<in> set declared")
    case True
    with 2 show ?thesis by simp
  next
    case False
    with "2.prems"(1) obtain g rem where g: "check_no_early_sectors (fst acc) es = Inr ()"
      "group_expiration_set sz m (fst acc) es (int epoch) = Inr (g, rem)"
      and cont: "rem \<noteq> {} \<and> find_remaining sz m declared a (rem, push_group g (snd acc)) = Inr acc'
                 \<or> rem = {} \<and> acc' = (rem, push_group g (snd acc))"
      by (auto simp: r_bind_eq_Inr Let_def split: if_split_asm)
    have gs: "\<forall>x \<in> set (push_group g (snd acc)). group_ok quant x"
      using group_expiration_set_ok [OF g(2)] "2.prems"(2,3) by (intro push_group_ok) auto
    show ?thesis
    proof (cases "rem = {}")
      case True
      with cont gs show ?thesis by simp
    next
      case False
      with cont have "find_remaining sz m declared a (rem, push_group g (snd acc)) = Inr acc'" by simp
      from "2.IH"(2) [OF \<open>int epoch \<notin> set declared\<close> g(1,2) refl refl False this] gs "2.prems"(3)
      show ?thesis by auto
    qed
  qed
qed simp

lemma find_sectors_ok:
  assumes "eq_ok q" and "find_sectors_by_expiration sz sectors q = Inr groups"
  shows "\<forall>g \<in> set groups. group_ok (eq_quant q) g"
proof -
  let ?P = "\<lambda>acc. \<forall>x \<in> set (snd acc). group_ok (eq_quant q) x"
  let ?declared = "sort (remdups (map (\<lambda>s. quantize_up (eq_quant q) (si_expiration s)) sectors))"
  let ?m = "fold (\<lambda>s m. map2_put (sector_number s) s m) sectors map2_empty"
  from assms(2) obtain acc rem gs where
    first: "r_fold (find_declared sz ?m q) ?declared (set (map sector_number sectors), []) = Inr acc"
    and second: "acc = (rem, gs) \<or> find_remaining sz ?m ?declared (eq_amt q) acc = Inr (rem, gs)"
    and groups: "groups = sort_key (\<lambda>g. ses_epoch (sector_epoch_set g)) gs"
    by (auto simp: find_sectors_by_expiration_def r_bind_eq_Inr Let_def simp del: sort_key_simps split: if_split_asm)
  have "?P acc"
  proof (rule r_fold_inv [OF first, of ?P])
    fix e a b
    assume e: "e \<in> set ?declared" and a: "?P a" and b: "find_declared sz ?m q e a = Inr b"
    from b obtain es g rem' where g: "may_get e q = Inr es"
      "group_expiration_set sz ?m (fst a) es e = Inr (g, rem')" "snd b = push_group g (snd a)"
      unfolding find_declared_def r_bind_eq_Inr by auto
    have "aligned (eq_quant q) e" using e assms(1) by auto
    with group_expiration_set_ok [OF g(2) may_get_ok [OF assms(1) g(1)]] push_group_ok [OF _ a]
    show "?P b" unfolding g(3) by blast
  qed simp
  moreover have "\<forall>(k, es) \<in> set (eq_amt q). aligned (eq_quant q) (int k) \<and> es_ok es"
    using assms(1) amt_get_Some_mem [of "eq_amt q"] by (auto simp: eq_ok_def)
  ultimately have "?P (rem, gs)"
    using second find_remaining_ok [of sz ?m ?declared "eq_amt q" acc "(rem, gs)" "eq_quant q"] by blast
  then show ?thesis by (simp add: groups)
qed

lemma fault_group_ok:
  assumes "group_ok (eq_quant q) g" and "eq_ok q" and "fault_group bits n g (t, q) = Inr (t', q')"
  shows "kept q q'"
proof -
  from assms(3) obtain es' where val: "validate_state es' = Inr ()"
    and fin: "on_time_sectors es' \<subseteq> on_time_sectors (ses_expiration_set g)"
      "early_sectors es' = early_sectors (ses_expiration_set g)"
    and upd: "must_update_or_delete (ses_epoch (sector_epoch_set g)) es' q = Inr q'"
    by (cases t) (auto simp: fault_group_def r_bind_eq_Inr Let_def split: if_split_asm)
  have "es_ok es'" using val fin assms(1) finite_subset by (auto simp: es_ok_def group_ok_def)
  from must_update_or_delete_ok [OF assms(2) this _ upd] assms(1) show ?thesis by (simp add: group_ok_def)
qed

lemma reschedule_as_faults_ok:
  assumes "converts bits" and "eq_ok q" and "reschedule_as_faults bits e sectors sz q = Inr (p, q')"
  shows "kept q q'"
proof -
  let ?n = "quantize_up (eq_quant q) e"
  from assms(3) obtain groups nums x y z q1 where
    gs: "find_sectors_by_expiration sz sectors q = Inr groups"
    and fold: "r_fold (fault_group bits ?n) groups (([], 0, 0, 0), q) = Inr ((nums, x, y, z), q1)"
    and rest: "q' = q1 \<or> (\<exists>early. bits nums = Inr early \<and> eq_add e {} early 0 y 0 z q1 = Inr q')"
    by (auto simp: reschedule_as_faults_def r_bind_eq_Inr split: if_split_asm)
  have "kept q (snd ((nums, x, y, z), q1))"
    using fold
  proof (rule r_fold_inv [where P = "\<lambda>acc. kept q (snd acc)"])
    show "kept q (snd (([], 0, 0, 0), q))" using assms(2) by simp
  next
    fix g a b
    assume "g \<in> set groups" "kept q (snd a)" "fault_group bits ?n g a = Inr b"
    with find_sectors_ok [OF assms(2) gs] fault_group_ok [of "snd a" g bits ?n "fst a" "fst b" "snd b"]
    show "kept q (snd b)" by simp
  qed
  then have q1: "kept q q1" by simp
  from rest show ?thesis
  proof
    assume "\<exists>early. bits nums = Inr early \<and> eq_add e {} early 0 y 0 z q1 = Inr q'"
    then obtain early where "bits nums = Inr early" and add: "eq_add e {} early 0 y 0 z q1 = Inr q'" by blast
    from eq_add_ok [OF _ _ converts_finite [OF assms(1) this(1)] add] q1 show ?thesis by simp
  qed (use q1 in simp)
qed

text \<open>The first pass of \<open>reschedule_all_as_faults\<close> in closed form.\<close>

definition faulted :: "expiration_set \<Rightarrow> expiration_set" where
  "faulted es = es\<lparr>faulty_power := faulty_power es + active_power es, active_power := 0\<rparr>"

abbreviation late :: "int \<Rightarrow> expiration_set amt \<Rightarrow> expiration_set amt" where
  "late n a \<equiv> filter (\<lambda>(k, es). n < int k) a"

abbreviation soon :: "int \<Rightarrow> expiration_set amt \<Rightarrow> expiration_set amt" where
  "soon n a \<equiv> filter (\<lambda>(k, es). \<not> n < int k) a"

lemma all_faults_entry_eq:
  "all_faults_entry n (k, es) (ep, nu, pw, fe, mu) =
     (if n < int k then
        (if early_sectors es = {} then
           Inr (ep @ [k], nu \<union> on_time_sectors es, pw + active_power es + faulty_power es,
                fe + fee_deduction es, mu)
         else Inl None)
      else Inr (ep, nu, pw, fe, mu @ [(int k, faulted es)]))"
  by (simp add: all_faults_entry_def faulted_def)

lemma all_faults_pass:
  assumes "r_fold (all_faults_entry n) a (ep, nu, pw, fe, mu) = Inr (ep', nu', pw', fe', mu')"
  shows "(\<forall>(k, es) \<in> set (late n a). early_sectors es = {}) \<and> ep' = ep @ map fst (late n a)
    \<and> nu' = nu \<union> \<Union> (on_time_sectors ` snd ` set (late n a))
    \<and> pw' = pw + amt_sum (\<lambda>es. active_power es + faulty_power es) (late n a)
    \<and> fe' = fe + amt_sum fee_deduction (late n a)
    \<and> mu' = mu @ map (\<lambda>(k, es). (int k, faulted es)) (soon n a)"
  using assms
proof (induction a arbitrary: ep nu pw fe mu)
  case (Cons x a)
  obtain k es where x: "x = (k, es)" by (cases x)
  show ?case
  proof (cases "n < int k")
    case True
    with Cons.prems x have "early_sectors es = {}"
      and rest: "r_fold (all_faults_entry n) a (ep @ [k], nu \<union> on_time_sectors es,
        pw + active_power es + faulty_power es, fe + fee_deduction es, mu) = Inr (ep', nu', pw', fe', mu')"
      by (auto simp: r_bind_eq_Inr all_faults_entry_eq split: if_split_asm)
    with Cons.IH [OF rest] True x show ?thesis by (auto simp: amt_sum_def algebra_simps)
  next
    case False
    with Cons.prems x have rest: "r_fold (all_faults_entry n) a (ep, nu, pw, fe,
        mu @ [(int k, faulted es)]) = Inr (ep', nu', pw', fe', mu')"
      by (auto simp: r_bind_eq_Inr all_faults_entry_eq split: if_split_asm)
    with Cons.IH [OF rest] False x show ?thesis by (auto simp: amt_sum_def)
  qed
qed (simp add: amt_sum_def)

lemma update_mutated_Inr:
  "update_mutated (int k, es) q = Inr q' \<longleftrightarrow>
     q' = q\<lparr>eq_amt := amt_set k es (eq_amt q)\<rparr> \<and> validate_state es = Inr ()"
  by (auto simp: update_mutated_def must_update_def res_inv)

text \<open>The second pass rewrites exactly the entries that stay.\<close>

lemma update_mutated_all:
  assumes "r_fold update_mutated (map (\<lambda>(k, es). (int k, faulted es)) xs) q = Inr q'"
    and "distinct (map fst xs)" and "amt_ok (eq_amt q)"
    and "\<And>k es. (k, es) \<in> set xs \<Longrightarrow> amt_get (eq_amt q) k = Some es"
    and "\<And>es. f (faulted es) = f es"
  shows "amt_get (eq_amt q') k = (case map_of xs k of None \<Rightarrow> amt_get (eq_amt q) k | Some es \<Rightarrow> Some (faulted es))
    \<and> amt_ok (eq_amt q') \<and> eq_quant q' = eq_quant q \<and> amt_sum f (eq_amt q') = amt_sum f (eq_amt q)
    \<and> (\<forall>(k, es) \<in> set xs. validate_state (faulted es) = Inr ())"
  using assms(1-4)
proof (induction xs arbitrary: q)
  case (Cons x xs)
  obtain j es where x: "x = (j, es)" by (cases x)
  let ?q = "q\<lparr>eq_amt := amt_set j (faulted es) (eq_amt q)\<rparr>"
  from Cons.prems(1) x have v: "validate_state (faulted es) = Inr ()"
    and rest: "r_fold update_mutated (map (\<lambda>(k, es). (int k, faulted es)) xs) ?q = Inr q'"
    by (auto simp: r_bind_eq_Inr update_mutated_Inr)
  have get: "amt_get (eq_amt q) j = Some es" using Cons.prems(4) x by simp
  have "amt_sum f (amt_set j (faulted es) (eq_amt q)) = amt_sum f (eq_amt q)"
    using amt_sum_set [OF Cons.prems(3), of f j] get assms(5) by simp
  moreover have "amt_get (eq_amt ?q) i = Some e" if "(i, e) \<in> set xs" for i e
    using that Cons.prems(2,4) x by force
  moreover have "map_of xs j = None" using Cons.prems(2) x by (simp add: map_of_eq_None_iff)
  ultimately show ?case
    using Cons.IH [OF rest] Cons.prems(2,3) x v by (auto split: option.splits)
qed simp

text \<open>The two passes together; \<open>f\<close> is any total that does not tell active from faulty power.\<close>

lemma eq_add_Inr:
  assumes "eq_add e on early act flt pledge fee q = Inr q'"
  obtains es where "0 \<le> quantize_up (eq_quant q) e"
    "es = (case amt_get (eq_amt q) (nat (quantize_up (eq_quant q) e)) of None \<Rightarrow> es_empty | Some x \<Rightarrow> x)"
    "es_add on early pledge act flt fee es = Inr (es_join es
       \<lparr>on_time_sectors = on, early_sectors = early, on_time_pledge = pledge, active_power = act,
        faulty_power = flt, fee_deduction = fee\<rparr>)"
    "q' = q\<lparr>eq_amt := amt_set (nat (quantize_up (eq_quant q) e)) (es_join es
       \<lparr>on_time_sectors = on, early_sectors = early, on_time_pledge = pledge, active_power = act,
        faulty_power = flt, fee_deduction = fee\<rparr>) (eq_amt q)\<rparr>"
  using assms
  by (auto simp: eq_add_def may_get_def must_update_def es_add_def es_join_def r_bind_eq_Inr epoch_key_Inr Let_def)

lemma reschedule_first_pass:
  assumes "eq_ok q" and "reschedule_all_as_faults e q = Inr q'" and "n = quantize_up (eq_quant q) e"
    and "\<And>es. f (faulted es) = f es"
  obtains q1 where "\<And>k. amt_get (eq_amt q1) k =
      (if n < int k then amt_get (eq_amt q) k else map_option faulted (amt_get (eq_amt q) k))"
    "eq_ok q1" "eq_quant q1 = eq_quant q" "amt_sum f (eq_amt q1) = amt_sum f (eq_amt q)"
    "\<And>k es. (k, es) \<in> set (late n (eq_amt q)) \<Longrightarrow> early_sectors es = {}"
    "late n (eq_amt q) = [] \<and> q' = q1 \<or> late n (eq_amt q) \<noteq> [] \<and>
      (\<exists>q2. eq_add e {} (\<Union> (on_time_sectors ` snd ` set (late n (eq_amt q)))) 0
          (amt_sum (\<lambda>es. active_power es + faulty_power es) (late n (eq_amt q))) 0
          (amt_sum fee_deduction (late n (eq_amt q))) q1 = Inr q2
        \<and> q' = q2\<lparr>eq_amt := amt_batch_delete (map fst (late n (eq_amt q))) (eq_amt q2)\<rparr>)"
proof -
  let ?a = "eq_amt q"
  from assms(2,3) obtain ep nu pw fe mu q1 where
    p1: "r_fold (all_faults_entry n) ?a ([], {}, 0, 0, []) = Inr (ep, nu, pw, fe, mu)"
    and p2: "r_fold update_mutated mu q = Inr q1"
    and p3: "ep = [] \<and> q' = q1 \<or> ep \<noteq> [] \<and> (\<exists>q2. eq_add e {} nu 0 pw 0 fe q1 = Inr q2 \<and>
        q' = q2\<lparr>eq_amt := amt_batch_delete ep (eq_amt q2)\<rparr>)"
    by (auto simp: reschedule_all_as_faults_def r_bind_eq_Inr split: if_split_asm)
  note c = all_faults_pass [OF p1, simplified]
  have ok: "amt_ok ?a" using assms(1) by (simp add: eq_ok_def)
  have dist: "distinct (map fst (soon n ?a))"
    using amt_ok_filter [OF ok] by (auto simp: amt_ok_def strict_sorted_iff)
  have mem: "amt_get ?a k = Some es" if "(k, es) \<in> set (soon n ?a)" for k es
    using that amt_get_Some_mem [OF ok] by auto
  from p2 c have p2': "r_fold update_mutated (map (\<lambda>(k, es). (int k, faulted es)) (soon n ?a)) q = Inr q1"
    by simp
  note u = update_mutated_all [where f = f, OF p2' dist ok mem assms(4)]
  have "map_of (soon n ?a) k = (if n < int k then None else amt_get ?a k)" for k
    using amt_get_filter [of "\<lambda>k. \<not> n < int k" ?a k] by (simp add: amt_get_def)
  with u have get: "amt_get (eq_amt q1) k =
      (if n < int k then amt_get ?a k else map_option faulted (amt_get ?a k))" for k
    by (auto split: option.splits)
  have "es_ok (faulted es)" if "amt_get ?a k = Some es" "\<not> n < int k" for k es
  proof -
    from that amt_get_Some_mem [OF ok] have "(k, es) \<in> set (soon n ?a)" by auto
    with u have "validate_state (faulted es) = Inr ()" by auto
    with eq_ok_get [OF assms(1) that(1)] show ?thesis by (auto simp: es_ok_def faulted_def)
  qed
  note faulted_ok = this
  have u': "amt_ok (eq_amt q1)" "eq_quant q1 = eq_quant q" "amt_sum f (eq_amt q1) = amt_sum f ?a"
    using u by auto
  have "eq_ok q1" using assms(1) faulted_ok u'(1,2) by (auto simp: eq_ok_def get split: if_split_asm)
  with get u' c p3 show thesis by (intro that [of q1]) auto
qed

abbreviation total_power :: "expiration_set \<Rightarrow> power_pair" where
  "total_power es \<equiv> active_power es + faulty_power es"

text \<open>What the entry at the fault epoch receives.\<close>

definition moved :: "int \<Rightarrow> expiration_queue \<Rightarrow> expiration_set" where
  "moved n q =
     \<lparr>on_time_sectors = {}, early_sectors = \<Union> (on_time_sectors ` snd ` set (late n (eq_amt q))),
      on_time_pledge = 0, active_power = 0, faulty_power = amt_sum total_power (late n (eq_amt q)),
      fee_deduction = amt_sum fee_deduction (late n (eq_amt q))\<rparr>"

definition eq_sectors :: "expiration_queue \<Rightarrow> nat set" where
  "eq_sectors q = {s. \<exists>k es. amt_get (eq_amt q) k = Some es \<and> (s \<in> on_time_sectors es \<or> s \<in> early_sectors es)}"

lemma filter_late_eq:
  assumes "amt_ok a" and "amt_ok b" and "\<And>k. n < int k \<Longrightarrow> amt_get b k = amt_get a k"
  shows "late n b = late n a"
  using assms by (intro amt_ext amt_ok_filter) (auto simp: amt_get_filter)

lemma eq_sectors_moved:
  assumes ok: "amt_ok (eq_amt q)" and nn: "0 \<le> n"
    and early: "\<And>k es. (k, es) \<in> set (late n (eq_amt q)) \<Longrightarrow> early_sectors es = {}"
    and old: "old = (case amt_get (eq_amt q) (nat n) of None \<Rightarrow> es_empty | Some x \<Rightarrow> faulted x)"
    and get': "\<And>k. amt_get (eq_amt q') k =
      (if n < int k then None else if k = nat n then Some (es_join old (moved n q))
       else map_option faulted (amt_get (eq_amt q) k))"
  shows "eq_sectors q' = eq_sectors q"
proof (rule set_eqI)
  fix s
  let ?in = "\<lambda>es. s \<in> on_time_sectors es \<or> s \<in> early_sectors es"
  have late: "(k, x) \<in> set (late n (eq_amt q)) \<longleftrightarrow> n < int k \<and> amt_get (eq_amt q) k = Some x" for k x
    using amt_get_Some_mem [OF ok] by auto
  have flt: "?in (faulted x) = ?in x" for x by (simp add: faulted_def)
  have "?in (moved n q) \<longleftrightarrow> (\<exists>x \<in> set (late n (eq_amt q)). s \<in> on_time_sectors (snd x))"
    by (simp add: moved_def)
  then have mv: "?in (moved n q) \<longleftrightarrow> (\<exists>k x. n < int k \<and> amt_get (eq_amt q) k = Some x \<and> ?in x)"
    using early late by (metis (no_types, lifting) empty_iff prod.collapse snd_conv)
  have "?in (es_join old (moved n q)) \<longleftrightarrow> ?in old \<or> ?in (moved n q)" by (auto simp: es_join_def)
  moreover have "?in old \<longleftrightarrow> (\<exists>x. amt_get (eq_amt q) (nat n) = Some x \<and> ?in x)"
    by (auto simp: old es_empty_def faulted_def split: option.splits)
  ultimately have K: "?in (es_join old (moved n q)) \<longleftrightarrow>
      (\<exists>k x. (k = nat n \<or> n < int k) \<and> amt_get (eq_amt q) k = Some x \<and> ?in x)"
    using mv by blast
  have "s \<in> eq_sectors q' \<longleftrightarrow> (\<exists>k es. amt_get (eq_amt q') k = Some es \<and> ?in es)"
    by (simp add: eq_sectors_def)
  also have "\<dots> \<longleftrightarrow> ?in (es_join old (moved n q)) \<or>
      (\<exists>k x. \<not> n < int k \<and> k \<noteq> nat n \<and> amt_get (eq_amt q) k = Some x \<and> ?in x)" (is "?L \<longleftrightarrow> ?R")
  proof
    assume ?L
    then obtain k es where "amt_get (eq_amt q') k = Some es" "?in es" by blast
    then show ?R unfolding get' by (auto simp: faulted_def split: if_split_asm)
  next
    assume ?R
    then show ?L
    proof
      assume "?in (es_join old (moved n q))"
      with get' [of "nat n"] nn show ?L by auto
    next
      assume "\<exists>k x. \<not> n < int k \<and> k \<noteq> nat n \<and> amt_get (eq_amt q) k = Some x \<and> ?in x"
      then obtain k x where "\<not> n < int k" "k \<noteq> nat n" "amt_get (eq_amt q) k = Some x" "?in x" by blast
      with get' [of k] flt [of x] show ?L by auto
    qed
  qed
  finally have "s \<in> eq_sectors q' \<longleftrightarrow> ?in (es_join old (moved n q)) \<or>
      (\<exists>k x. \<not> n < int k \<and> k \<noteq> nat n \<and> amt_get (eq_amt q) k = Some x \<and> ?in x)" .
  then show "s \<in> eq_sectors q' \<longleftrightarrow> s \<in> eq_sectors q"
    unfolding K eq_sectors_def mem_Collect_eq by blast
qed

lemma reschedule_all_spec:
  assumes "eq_ok q" and "reschedule_all_as_faults e q = Inr q'" and "n = quantize_up (eq_quant q) e"
    and f: "\<And>es. f (faulted es) = f es" "\<And>x y. f (es_join x y) = f x + f y" "f es_empty = 0"
      "f (moved n q) = amt_sum f (late n (eq_amt q))"
  shows "amt_sum f (eq_amt q') = amt_sum f (eq_amt q)"
    and "amt_get (eq_amt q') k = Some es \<Longrightarrow> int k \<le> n \<and> active_power es = 0"
    and "kept q q'" and "eq_sectors q' = eq_sectors q"
proof -
  let ?a = "eq_amt q" and ?K = "nat n"
  obtain q1 where get: "\<And>k. amt_get (eq_amt q1) k =
      (if n < int k then amt_get ?a k else map_option faulted (amt_get ?a k))"
    and q1: "eq_ok q1" "eq_quant q1 = eq_quant q" "amt_sum f (eq_amt q1) = amt_sum f ?a"
    and early: "\<And>k es. (k, es) \<in> set (late n ?a) \<Longrightarrow> early_sectors es = {}"
    and cases: "late n ?a = [] \<and> q' = q1 \<or> late n ?a \<noteq> [] \<and>
      (\<exists>q2. eq_add e {} (\<Union> (on_time_sectors ` snd ` set (late n ?a))) 0
          (amt_sum total_power (late n ?a)) 0 (amt_sum fee_deduction (late n ?a)) q1 = Inr q2
        \<and> q' = q2\<lparr>eq_amt := amt_batch_delete (map fst (late n ?a)) (eq_amt q2)\<rparr>)"
    using reschedule_first_pass [OF assms(1-3), where f = f] f(1) by blast
  have ok: "amt_ok ?a" using assms(1) by (simp add: eq_ok_def)
  have late_iff: "k \<in> set (map fst (late n ?a)) \<longleftrightarrow> n < int k \<and> amt_get ?a k \<noteq> None" for k
    using amt_get_Some_mem [OF ok] by force
  have sec1: "eq_sectors q1 = eq_sectors q"
    unfolding eq_sectors_def get by (force simp: faulted_def)
  consider "late n ?a = []" "q' = q1"
    | q2 where "late n ?a \<noteq> []" "eq_add e {} (early_sectors (moved n q)) 0
          (faulty_power (moved n q)) 0 (fee_deduction (moved n q)) q1 = Inr q2"
        "q' = q2\<lparr>eq_amt := amt_batch_delete (map fst (late n ?a)) (eq_amt q2)\<rparr>"
    using cases by (auto simp: moved_def)
  then have "amt_sum f (eq_amt q') = amt_sum f ?a
    \<and> (amt_get (eq_amt q') k = Some es \<longrightarrow> int k \<le> n \<and> active_power es = 0)
    \<and> kept q q' \<and> eq_sectors q' = eq_sectors q"
  proof cases
    case 1
    then have "\<not> (n < int k \<and> amt_get ?a k \<noteq> None)" using late_iff by auto
    with 1 q1 sec1 show ?thesis by (auto simp: get faulted_def split: if_split_asm)
  next
    case 2
    let ?old = "case amt_get (eq_amt q1) ?K of None \<Rightarrow> es_empty | Some x \<Rightarrow> x"
    let ?new = "es_join ?old (moved n q)"
    have nn: "0 \<le> n" and q2: "q2 = q1\<lparr>eq_amt := amt_set ?K ?new (eq_amt q1)\<rparr>"
      using 2(2) by (auto elim!: eq_add_Inr simp: q1(2) assms(3) moved_def)
    have fin: "finite (early_sectors (moved n q))"
      using eq_ok_get [OF assms(1)] amt_get_Some_mem [OF ok] by (auto simp: moved_def es_ok_def)
    have kq2: "kept q q2" using eq_add_ok [OF q1(1) _ fin 2(2)] q1(2) by simp
    have get': "amt_get (eq_amt q') k = (if n < int k then None else if k = ?K then Some ?new
        else map_option faulted (amt_get ?a k))" for k
      using late_iff [of k] nn by (auto simp: 2(3) q2 get)
    have "late n (eq_amt q2) = late n ?a"
      using kq2 ok nn by (intro filter_late_eq) (auto simp: eq_ok_def q2 get)
    moreover have "eq_amt q' = soon n (eq_amt q2)"
    proof (rule amt_ext)
      show "amt_ok (eq_amt q')" "amt_ok (soon n (eq_amt q2))"
        using kq2 by (auto simp: 2(3) eq_ok_def intro: amt_ok_filter)
      show "amt_get (eq_amt q') k = amt_get (soon n (eq_amt q2)) k" for k
        unfolding get' using nn by (auto simp: amt_get_filter q2 get)
    qed
    ultimately have "amt_sum f (eq_amt q') + amt_sum f (late n ?a) = amt_sum f (eq_amt q2)"
      using amt_sum_split [of f "eq_amt q2" "\<lambda>k. n < int k"] by simp
    moreover have "amt_sum f (eq_amt q2) = amt_sum f ?a + f (moved n q)"
      using amt_sum_set [of "eq_amt q1" f ?K ?new] q1 f(2,3) by (auto simp: q2 eq_ok_def split: option.splits)
    ultimately have "amt_sum f (eq_amt q') = amt_sum f ?a" using f(4) by simp
    moreover have "kept q q'" using kq2 by (auto simp: 2(3) eq_ok_def)
    moreover have "active_power ?new = 0"
      using nn by (auto simp: es_join_def moved_def get es_empty_def faulted_def split: option.splits)
    moreover have "eq_sectors q' = eq_sectors q"
      by (rule eq_sectors_moved [OF ok nn early _ get']) (use nn in \<open>auto simp: get split: option.splits\<close>)
    ultimately show ?thesis by (auto simp: get' faulted_def split: if_split_asm)
  qed
  then show "amt_sum f (eq_amt q') = amt_sum f (eq_amt q)"
    and "amt_get (eq_amt q') k = Some es \<Longrightarrow> int k \<le> n \<and> active_power es = 0"
    and "kept q q'" and "eq_sectors q' = eq_sectors q" by auto
qed

lemma iter_entries_ok:
  assumes "\<And>e es s keep es' s'. es_ok es \<Longrightarrow> f e es s = Inr ((keep, es'), s') \<Longrightarrow> es_ok es'"
    and "iter_entries f a s = Inr ((a', emptied), s')" and "\<forall>(k, es) \<in> set a. es_ok es"
  shows "map fst a' = map fst a \<and> (\<forall>(k, es) \<in> set a'. es_ok es)"
  using assms(2,3)
proof (induction a arbitrary: s a' emptied s')
  case (Cons x a)
  obtain k es where x: "x = (k, es)" by (cases x)
  from Cons.prems(1) x obtain keep es1 s1 where step: "f (int k) es s = Inr ((keep, es1), s1)"
    and rest: "if keep then \<exists>a1 em1. iter_entries f a s1 = Inr ((a1, em1), s') \<and> a' = (k, es1) # a1
               else a' = (k, es1) # a"
    by (auto simp: r_bind_eq_Inr Let_def split: if_split_asm)
  have "es_ok es1" using assms(1) [OF _ step] Cons.prems(2) x by simp
  with rest Cons.IH Cons.prems(2) x show ?case by (cases keep) fastforce+
qed simp

lemma iter_while_mut_ok:
  assumes "\<And>e es s keep es' s'. es_ok es \<Longrightarrow> f e es s = Inr ((keep, es'), s') \<Longrightarrow> es_ok es'"
    and "eq_ok q" and "iter_while_mut f s q = Inr (s', q')"
  shows "kept q q'"
proof -
  from assms(3) obtain a em where it: "iter_entries f (eq_amt q) s = Inr ((a, em), s')"
    and q': "q' = q\<lparr>eq_amt := amt_batch_delete em a\<rparr>"
    by (auto simp: iter_while_mut_def r_bind_eq_Inr)
  have ok: "amt_ok (eq_amt q)" using assms(2) by (simp add: eq_ok_def)
  have "\<forall>(k, es) \<in> set (eq_amt q). es_ok es" using assms(2) amt_get_Some_mem [OF ok] by (auto simp: eq_ok_def)
  from iter_entries_ok [OF assms(1) it this] have a: "map fst a = map fst (eq_amt q)"
    "\<forall>(k, es) \<in> set a. es_ok es" by auto
  have oka: "amt_ok a" using ok a(1) by (simp add: amt_ok_def)
  have "aligned (eq_quant q) (int k) \<and> es_ok es" if "amt_get a k = Some es" for k es
  proof -
    from that amt_get_Some_mem [OF oka] have mem: "(k, es) \<in> set a" by simp
    then have "k \<in> set (map fst (eq_amt q))" unfolding a(1) [symmetric] by force
    then obtain es0 where "amt_get (eq_amt q) k = Some es0" using amt_get_Some_mem [OF ok] by auto
    with mem a(2) assms(2) show ?thesis by (auto simp: eq_ok_def)
  qed
  with oka assms(2) show ?thesis by (auto simp: q' eq_ok_def split: if_split_asm)
qed

lemma recover_entry_ok:
  assumes "es_ok es" and "recover_entry bits sz e es acc = Inr ((keep, es'), acc')"
  shows "es_ok es'"
proof -
  obtain r x y where acc: "acc = (r, x, y)" by (cases acc)
  from assms(2) have "validate_state es' = Inr ()" "on_time_sectors es' = on_time_sectors es"
    "early_sectors es' \<subseteq> early_sectors es"
    by (auto simp: recover_entry_def acc r_bind_eq_Inr Let_def split: if_split_asm)
  with assms(1) finite_subset show ?thesis by (auto simp: es_ok_def)
qed

lemma reschedule_recovered_ok:
  assumes "converts bits" and "eq_ok q" and "reschedule_recovered bits sectors sz q = Inr (p, q')"
  shows "kept q q'"
proof -
  from assms(3) obtain acc t q1 ss where
    it: "iter_while_mut (recover_entry bits sz) (fold (\<lambda>s m. map2_put (sector_number s) s m) sectors map2_empty, [], 0) q
      = Inr (acc, q1)" and add: "add_active_sectors bits ss sz q1 = Inr (t, q')"
    by (auto simp: reschedule_recovered_def r_bind_eq_Inr Let_def split: if_split_asm)
  have "kept q q1" by (rule iter_while_mut_ok [OF _ assms(2) it]) (rule recover_entry_ok)
  with add_active_sectors_ok [OF assms(1) _ add] show ?thesis by simp
qed

lemma remove_faulty_shrinks:
  assumes "remove_faulty fm rm on early sz s (es, acc) = (es', acc')"
  shows "on_time_sectors es' \<subseteq> on_time_sectors es \<and> early_sectors es' \<subseteq> early_sectors es"
  using assms by (cases acc) (auto simp: remove_faulty_def Let_def split: if_split_asm prod.splits)

lemma fold_remove_faulty_shrinks:
  assumes "fold (remove_faulty fm rm on early sz) ss (es, acc) = (es', acc')"
  shows "on_time_sectors es' \<subseteq> on_time_sectors es \<and> early_sectors es' \<subseteq> early_sectors es"
  using assms
proof (induction ss arbitrary: es acc)
  case (Cons s ss)
  obtain es1 acc1 where one: "remove_faulty fm rm on early sz s (es, acc) = (es1, acc1)"
    by (cases "remove_faulty fm rm on early sz s (es, acc)")
  with Cons remove_faulty_shrinks [OF one] show ?case by (metis fold_simps(2) order_trans)
qed simp

lemma remove_entry_ok:
  assumes "es_ok es" and "remove_entry fm rm fs sz e es acc = Inr ((keep, es'), acc')"
  shows "es_ok es'"
proof -
  obtain es1 acc1 where f: "fold (remove_faulty fm rm (on_time_sectors es) (early_sectors es) sz) fs (es, acc) = (es1, acc1)"
    by (cases "fold (remove_faulty fm rm (on_time_sectors es) (early_sectors es) sz) fs (es, acc)")
  with assms(2) have "es' = es1" "validate_state es1 = Inr ()"
    by (auto simp: remove_entry_def r_bind_eq_Inr split: if_split_asm)
  with assms(1) fold_remove_faulty_shrinks [OF f] finite_subset show ?thesis by (auto simp: es_ok_def)
qed

lemma remove_sectors_ok:
  assumes "converts bits" and "eq_ok q"
    and "remove_sectors bits mx sectors faults recovering sz q = Inr (r, q')"
  shows "kept q q'"
proof -
  let ?fs = "filter (\<lambda>s. sector_number s \<in> faults) sectors"
  from assms(3) obtain nums pw pl fee q1 acc r1 where
    rm: "remove_active_sectors bits (filter (\<lambda>s. sector_number s \<notin> faults) sectors) sz q
      = Inr ((nums, pw, pl, fee), q1)"
    and it: "iter_while_mut (remove_entry faults recovering ?fs sz) acc q1 = Inr (r1, q')"
    by (auto simp: remove_sectors_def r_bind_eq_Inr Let_def split: if_split_asm)
  have "kept q q1" using remove_active_sectors_ok [OF assms(1,2) rm] by simp
  moreover from this have "kept q1 q'"
    by (intro iter_while_mut_ok [OF _ _ it]) (auto intro: remove_entry_ok)
  ultimately show ?thesis by simp
qed

lemma replace_sectors_ok:
  assumes "converts bits" and "eq_ok q" and "replace_sectors bits old new sz q = Inr (r, q')"
  shows "kept q q'"
proof -
  from assms(3) obtain nums pw pl fee q1 t where
    rm: "remove_active_sectors bits old sz q = Inr ((nums, pw, pl, fee), q1)"
    and add: "add_active_sectors bits new sz q1 = Inr (t, q')"
    by (auto simp: replace_sectors_def r_bind_eq_Inr)
  from remove_active_sectors_ok [OF assms(1,2) rm] add_active_sectors_ok [OF assms(1) _ add] show ?thesis by simp
qed

text \<open>Popping splits the queue at the epoch.\<close>

abbreviation due :: "int \<Rightarrow> expiration_set amt \<Rightarrow> expiration_set amt" where
  "due u a \<equiv> filter (\<lambda>(k, es). int k \<le> u) a"

lemma eq_pop_until_split:
  assumes "eq_ok q" and "eq_pop_until u q = (es, q')"
  shows "es = fold (\<lambda>(k, x) acc. es_join acc x) (due u (eq_amt q)) es_empty"
    and "eq_amt q' = late u (eq_amt q)" and "eq_quant q' = eq_quant q"
proof -
  have ok: "amt_ok (eq_amt q)" using assms(1) by (simp add: eq_ok_def)
  have q': "q' = q\<lparr>eq_amt := amt_batch_delete (map fst (due u (eq_amt q))) (eq_amt q)\<rparr>"
    and "es = fold (\<lambda>(k, x) acc. es_join acc x) (due u (eq_amt q)) es_empty"
    using assms(2) by (auto simp: eq_pop_until_def takeWhile_amt [OF ok] Let_def)
  then show "es = fold (\<lambda>(k, x) acc. es_join acc x) (due u (eq_amt q)) es_empty"
    and "eq_quant q' = eq_quant q" by simp_all
  have "amt_batch_delete (map fst (due u (eq_amt q))) (eq_amt q) = late u (eq_amt q)"
  proof (rule amt_ext)
    show "amt_ok (amt_batch_delete (map fst (due u (eq_amt q))) (eq_amt q))" "amt_ok (late u (eq_amt q))"
      using ok by (auto intro: amt_ok_filter)
    show "amt_get (amt_batch_delete (map fst (due u (eq_amt q))) (eq_amt q)) k = amt_get (late u (eq_amt q)) k" for k
    proof -
      have "k \<in> set (map fst (due u (eq_amt q))) \<longleftrightarrow> int k \<le> u \<and> amt_get (eq_amt q) k \<noteq> None"
        using amt_get_Some_mem [OF ok] by force
      then show ?thesis by (auto simp: amt_get_filter)
    qed
  qed
  with q' show "eq_amt q' = late u (eq_amt q)" by simp
qed

lemma fold_join_sum:
  assumes "\<And>x y. f (es_join x y) = f x + f y"
  shows "f (fold (\<lambda>(k, x) acc. es_join acc x) a es) = f es + amt_sum f a"
  by (induction a arbitrary: es) (auto simp: assms amt_sum_def algebra_simps)

lemma fold_join_sets:
  "on_time_sectors (fold (\<lambda>(k, x) acc. es_join acc x) a es) = on_time_sectors es \<union> \<Union> (on_time_sectors ` snd ` set a)"
  "early_sectors (fold (\<lambda>(k, x) acc. es_join acc x) a es) = early_sectors es \<union> \<Union> (early_sectors ` snd ` set a)"
  by (induction a arbitrary: es) (auto simp: es_join_def)

lemma eq_pop_until_ok:
  assumes "eq_ok q" and "eq_pop_until u q = (es, q')"
  shows "kept q q'"
proof -
  have ok: "amt_ok (eq_amt q)" using assms(1) by (simp add: eq_ok_def)
  have "amt_get (eq_amt q') k = Some x \<Longrightarrow> amt_get (eq_amt q) k = Some x" for k x
    unfolding eq_pop_until_split(2) [OF assms] by (simp add: amt_get_filter split: if_split_asm)
  with assms(1) eq_pop_until_split(2,3) [OF assms] show ?thesis
    by (auto simp: eq_ok_def intro: amt_ok_filter)
qed

lemma reschedule_all_ok:
  assumes "eq_ok q" and "reschedule_all_as_faults e q = Inr q'"
  shows "kept q q'" and "eq_sectors q' = eq_sectors q"
  using reschedule_all_spec(3,4) [OF assms refl, where f = "\<lambda>_. (0::int)"] by simp_all

section \<open>Sequences of operations\<close>

inductive eq_step :: "to_bits \<Rightarrow> expiration_queue \<Rightarrow> expiration_queue \<Rightarrow> bool" for bits where
  add_active: "add_active_sectors bits ss sz q = Inr (t, q') \<Longrightarrow> eq_step bits q q'"
| remove_active: "remove_active_sectors bits ss sz q = Inr (t, q') \<Longrightarrow> eq_step bits q q'"
| expirations: "reschedule_expirations bits e ss sz q = Inr q' \<Longrightarrow> eq_step bits q q'"
| as_faults: "reschedule_as_faults bits e ss sz q = Inr (p, q') \<Longrightarrow> eq_step bits q q'"
| all_as_faults: "reschedule_all_as_faults e q = Inr q' \<Longrightarrow> eq_step bits q q'"
| recovered: "reschedule_recovered bits ss sz q = Inr (p, q') \<Longrightarrow> eq_step bits q q'"
| replaced: "replace_sectors bits old new sz q = Inr (r, q') \<Longrightarrow> eq_step bits q q'"
| removed: "remove_sectors bits mx ss faults recovering sz q = Inr (r2, q') \<Longrightarrow> eq_step bits q q'"
| popped: "eq_pop_until u q = (es, q') \<Longrightarrow> eq_step bits q q'"

lemma eq_step_ok: "eq_step bits q q' \<Longrightarrow> converts bits \<Longrightarrow> eq_ok q \<Longrightarrow> kept q q'"
proof (induction rule: eq_step.induct)
  case (remove_active ss sz q t q')
  then show ?case using remove_active_sectors_ok by (cases t) blast
qed (rule add_active_sectors_ok reschedule_expirations_ok reschedule_as_faults_ok
    reschedule_all_ok(1) reschedule_recovered_ok replace_sectors_ok remove_sectors_ok eq_pop_until_ok,
    assumption+)+

lemma eq_steps_ok: "(eq_step bits)\<^sup>*\<^sup>* q q' \<Longrightarrow> converts bits \<Longrightarrow> eq_ok q \<Longrightarrow> kept q q'"
  by (induction rule: rtranclp_induct) (use eq_step_ok in fastforce)+

section \<open>Properties\<close>

text \<open>A queue quantized to tens with one sector expiring on time at 20 and another at 40.\<close>

definition ex_entry :: "nat \<Rightarrow> expiration_set" where
  "ex_entry n = es_empty\<lparr>on_time_sectors := {n}, on_time_pledge := 5, active_power := PowerPair 32 320, fee_deduction := 1\<rparr>"

definition ex_eq :: expiration_queue where
  "ex_eq = \<lparr>eq_amt = [(20, ex_entry 1), (40, ex_entry 2)], eq_quant = \<lparr>quant_unit = 10, quant_offset = 0\<rparr>\<rparr>"

lemma ex_eq_ok: "eq_ok ex_eq"
  by (auto simp: eq_ok_def ex_eq_def ex_entry_def es_empty_def es_ok_def amt_ok_def aligned_def
      validate_state_Inr pp_nonneg_def zero_power_pair_def split: if_splits)

text \<open>
  C8: whatever sequence of operations the partition runs on its expiration queue, the queue
  stays well-formed: the keys are strictly increasing and multiples of the quantum up to its
  offset, every stored set has a non-negative pledge, fee deduction, active and faulty power, and
  the quantization never changes.
\<close>

theorem expiration_queue_invariant:
  assumes "(eq_step bits)\<^sup>*\<^sup>* q q'" and "converts bits" and "eq_ok q"
  shows "eq_quant q' = eq_quant q \<and> amt_ok (eq_amt q')
    \<and> (\<forall>k es. amt_get (eq_amt q') k = Some es \<longrightarrow>
         aligned (eq_quant q) (int k) \<and> 0 \<le> on_time_pledge es \<and> 0 \<le> fee_deduction es
         \<and> pp_nonneg (active_power es) \<and> pp_nonneg (faulty_power es))"
  using eq_steps_ok [OF assms] by (auto simp: eq_ok_def es_ok_def validate_state_Inr)

theorem expiration_queue_invariant_witness:
  "eq_quant (snd (eq_pop_until 30 ex_eq)) = eq_quant ex_eq \<and> amt_ok (eq_amt (snd (eq_pop_until 30 ex_eq)))"
proof -
  have "eq_step ex_bits ex_eq (snd (eq_pop_until 30 ex_eq))" by (rule eq_step.popped) (rule prod.collapse [symmetric])
  then have "(eq_step ex_bits)\<^sup>*\<^sup>* ex_eq (snd (eq_pop_until 30 ex_eq))" by blast
  moreover have "converts ex_bits" by (auto simp: converts_def ex_bits_def)
  ultimately show ?thesis using expiration_queue_invariant ex_eq_ok by blast
qed

text \<open>
  C33: faulting a whole partition loses nothing. When \<open>reschedule_all_as_faults\<close> succeeds,
  the total power, active and faulty, of the queue and its total fee deduction are what they were,
  the same sectors are scheduled, no entry is later than the quantized fault expiration and no
  entry has active power left.
\<close>

theorem reschedule_all_conserves:
  assumes "eq_ok q" and "reschedule_all_as_faults e q = Inr q'"
  shows "amt_sum total_power (eq_amt q') = amt_sum total_power (eq_amt q)
    \<and> amt_sum fee_deduction (eq_amt q') = amt_sum fee_deduction (eq_amt q)
    \<and> eq_sectors q' = eq_sectors q
    \<and> (\<forall>k es. amt_get (eq_amt q') k = Some es \<longrightarrow> int k \<le> quantize_up (eq_quant q) e \<and> active_power es = 0)"
proof -
  note spec = reschedule_all_spec [OF assms refl]
  have "amt_sum total_power (eq_amt q') = amt_sum total_power (eq_amt q)"
    by (rule spec(1)) (simp_all add: faulted_def es_join_def es_empty_def moved_def)
  moreover have "amt_sum fee_deduction (eq_amt q') = amt_sum fee_deduction (eq_amt q)"
    by (rule spec(1)) (simp_all add: faulted_def es_join_def es_empty_def moved_def)
  moreover have "int k \<le> quantize_up (eq_quant q) e \<and> active_power es = 0"
    if "amt_get (eq_amt q') k = Some es" for k es
    by (rule spec(2) [where f = "\<lambda>_. (0::int)", OF _ _ _ _ that]) simp_all
  ultimately show ?thesis using reschedule_all_ok(2) [OF assms] by blast
qed

theorem reschedule_all_conserves_witness:
  "\<exists>q'. reschedule_all_as_faults 21 ex_eq = Inr q' \<and> amt_sum fee_deduction (eq_amt q') = 2"
proof -
  let ?q' = "ex_eq\<lparr>eq_amt := [(20, (ex_entry 1)\<lparr>active_power := 0, faulty_power := PowerPair 32 320\<rparr>),
    (30, es_empty\<lparr>early_sectors := {2}, faulty_power := PowerPair 32 320, fee_deduction := 1\<rparr>)]\<rparr>"
  have r: "reschedule_all_as_faults 21 ex_eq = Inr ?q'"
    by code_simp
  from reschedule_all_conserves [OF ex_eq_ok r] r show ?thesis
    by (simp add: ex_eq_def ex_entry_def amt_sum_def)
qed

text \<open>
  Popping an expiration queue is exact. It returns exactly the on-time and the early
  sectors of the entries due by the epoch, and splits pledge, power and fee: what is popped and
  what remains add up to what there was. The entries that remain are exactly the later ones.
\<close>

theorem expiration_pop_exact:
  assumes "eq_ok q" and "eq_pop_until u q = (es, q')"
  shows "on_time_sectors es = {s. \<exists>k x. int k \<le> u \<and> amt_get (eq_amt q) k = Some x \<and> s \<in> on_time_sectors x}
    \<and> early_sectors es = {s. \<exists>k x. int k \<le> u \<and> amt_get (eq_amt q) k = Some x \<and> s \<in> early_sectors x}
    \<and> on_time_pledge es + amt_sum on_time_pledge (eq_amt q') = amt_sum on_time_pledge (eq_amt q)
    \<and> active_power es + amt_sum active_power (eq_amt q') = amt_sum active_power (eq_amt q)
    \<and> faulty_power es + amt_sum faulty_power (eq_amt q') = amt_sum faulty_power (eq_amt q)
    \<and> fee_deduction es + amt_sum fee_deduction (eq_amt q') = amt_sum fee_deduction (eq_amt q)
    \<and> (\<forall>k. amt_get (eq_amt q') k = (if u < int k then amt_get (eq_amt q) k else None))"
proof -
  have ok: "amt_ok (eq_amt q)" using assms(1) by (simp add: eq_ok_def)
  note s = eq_pop_until_split [OF assms]
  have sum: "f es + amt_sum f (eq_amt q') = amt_sum f (eq_amt q)"
    if "\<And>x y. f (es_join x y) = f x + f y" "f es_empty = 0" for f :: "expiration_set \<Rightarrow> 'b::ab_group_add"
    using amt_sum_split [of f "eq_amt q" "\<lambda>k. int k \<le> u"] that
    by (simp add: s(1,2) fold_join_sum [of f] not_le)
  have "on_time_sectors es = {s. \<exists>k x. int k \<le> u \<and> amt_get (eq_amt q) k = Some x \<and> s \<in> on_time_sectors x}"
    "early_sectors es = {s. \<exists>k x. int k \<le> u \<and> amt_get (eq_amt q) k = Some x \<and> s \<in> early_sectors x}"
    unfolding s(1) fold_join_sets using amt_get_Some_mem [OF ok] by (force simp: es_empty_def)+
  moreover have "amt_get (eq_amt q') k = (if u < int k then amt_get (eq_amt q) k else None)" for k
    unfolding s(2) by (simp add: amt_get_filter)
  moreover note sum [of on_time_pledge] sum [of active_power] sum [of faulty_power] sum [of fee_deduction]
  ultimately show ?thesis by (simp add: es_join_def es_empty_def)
qed

theorem expiration_pop_exact_witness:
  "on_time_sectors (fst (eq_pop_until 30 ex_eq)) = {1} \<and> on_time_pledge (fst (eq_pop_until 30 ex_eq)) = 5"
proof -
  let ?q' = "ex_eq\<lparr>eq_amt := [(40, ex_entry 2)]\<rparr>"
  have r: "eq_pop_until 30 ex_eq = (ex_entry 1, ?q')"
    by code_simp
  from expiration_pop_exact [OF ex_eq_ok r] r show ?thesis
    by (simp add: ex_eq_def ex_entry_def amt_sum_def)
qed

end
