(* ===== verification/QueueAccounts.thy ===== *)
theory QueueAccounts
  imports Expiration "HOL-Library.Multiset"
begin

text \<open>
  What the entries of an expiration queue hold: for a table of sectors and a set of faults, an entry is
  determined by its two sets of sectors. The operations of \<open>expiration_queue.rs\<close> that move active
  sectors keep every entry so, and report the totals of the sectors they move.
\<close>

section \<open>What an expiration set should hold\<close>

abbreviation spower :: "int \<Rightarrow> (nat \<Rightarrow> sector_info) \<Rightarrow> nat \<Rightarrow> power_pair" where
  "spower sz info n \<equiv> power_for_sector sz (info n)"

definition canon :: "int \<Rightarrow> (nat \<Rightarrow> sector_info) \<Rightarrow> nat set \<Rightarrow> nat set \<Rightarrow> nat set \<Rightarrow> expiration_set" where
  "canon sz info F on early =
     \<lparr>on_time_sectors = on, early_sectors = early,
      on_time_pledge = (\<Sum>n\<in>on. si_initial_pledge (info n)),
      active_power = (\<Sum>n\<in>on - F. spower sz info n),
      faulty_power = (\<Sum>n\<in>on \<inter> F \<union> early. spower sz info n),
      fee_deduction = (\<Sum>n\<in>on \<union> early. si_daily_fee (info n))\<rparr>"

abbreviation es_all :: "expiration_set \<Rightarrow> nat set" where
  "es_all es \<equiv> on_time_sectors es \<union> early_sectors es"

definition es_acc :: "int \<Rightarrow> (nat \<Rightarrow> sector_info) \<Rightarrow> nat set \<Rightarrow> expiration_set \<Rightarrow> bool" where
  "es_acc sz info F es \<longleftrightarrow> finite (es_all es) \<and> on_time_sectors es \<inter> early_sectors es = {} \<and> early_sectors es \<subseteq> F
     \<and> es = canon sz info F (on_time_sectors es) (early_sectors es)"

lemma canon_sets [simp]: "on_time_sectors (canon sz info F on early) = on" "early_sectors (canon sz info F on early) = early"
  by (simp_all add: canon_def)

lemma es_acc_canon: "es_acc sz info F (canon sz info F on early) \<longleftrightarrow> finite (on \<union> early) \<and> on \<inter> early = {} \<and> early \<subseteq> F"
  by (simp add: es_acc_def)

lemma es_accE:
  assumes "es_acc sz info F es"
  obtains on early where "es = canon sz info F on early" "finite on" "finite early" "on \<inter> early = {}" "early \<subseteq> F"
  using assms by (auto simp: es_acc_def)

lemma es_empty_canon: "es_empty = canon sz info F {} {}"
  by (simp add: es_empty_def canon_def)

text \<open>Only the faults among the sectors of a set matter.\<close>

lemma canon_cong:
  assumes "(on \<union> early) \<inter> F = (on \<union> early) \<inter> F'"
  shows "canon sz info F on early = canon sz info F' on early"
proof -
  have "on - F = on - F'" "on \<inter> F = on \<inter> F'" using assms by blast+
  then show ?thesis by (simp add: canon_def)
qed

lemma es_acc_cong:
  assumes "es_acc sz info F es" and "es_all es \<inter> F = es_all es \<inter> F'"
  shows "es_acc sz info F' es"
  using assms canon_cong [OF assms(2), of sz info] by (auto simp: es_acc_def)

lemma canon_join:
  assumes "finite on" "finite early" "finite on'" "finite early'" and "on \<inter> early = {}" "on' \<inter> early' = {}"
    and "(on \<union> early) \<inter> (on' \<union> early') = {}"
  shows "es_join (canon sz info F on early) (canon sz info F on' early') = canon sz info F (on \<union> on') (early \<union> early')"
proof -
  have s: "(\<Sum>n\<in>A \<union> B. f n) = (\<Sum>n\<in>A. f n) + (\<Sum>n\<in>B. f n)"
    if "A \<subseteq> on \<union> early" "B \<subseteq> on' \<union> early'" for A B and f :: "nat \<Rightarrow> 'b::ab_group_add"
    using that assms finite_subset by (intro sum.union_disjoint) blast+
  have "(\<Sum>n\<in>on \<union> on' - F. spower sz info n) = (\<Sum>n\<in>(on - F) \<union> (on' - F). spower sz info n)"
    "(\<Sum>n\<in>(on \<union> on') \<inter> F \<union> (early \<union> early'). spower sz info n) = (\<Sum>n\<in>(on \<inter> F \<union> early) \<union> (on' \<inter> F \<union> early'). spower sz info n)"
    "(\<Sum>n\<in>on \<union> on' \<union> (early \<union> early'). si_daily_fee (info n)) = (\<Sum>n\<in>(on \<union> early) \<union> (on' \<union> early'). si_daily_fee (info n))"
    by (auto intro!: arg_cong2 [where f = sum])
  moreover have "(\<Sum>n\<in>(on - F) \<union> (on' - F). spower sz info n) = (\<Sum>n\<in>on - F. spower sz info n) + (\<Sum>n\<in>on' - F. spower sz info n)"
    "(\<Sum>n\<in>(on \<inter> F \<union> early) \<union> (on' \<inter> F \<union> early'). spower sz info n)
      = (\<Sum>n\<in>on \<inter> F \<union> early. spower sz info n) + (\<Sum>n\<in>on' \<inter> F \<union> early'. spower sz info n)"
    "(\<Sum>n\<in>(on \<union> early) \<union> (on' \<union> early'). si_daily_fee (info n))
      = (\<Sum>n\<in>on \<union> early. si_daily_fee (info n)) + (\<Sum>n\<in>on' \<union> early'. si_daily_fee (info n))"
    "(\<Sum>n\<in>on \<union> on'. si_initial_pledge (info n)) = (\<Sum>n\<in>on. si_initial_pledge (info n)) + (\<Sum>n\<in>on'. si_initial_pledge (info n))"
    by (rule s; blast)+
  ultimately show ?thesis by (simp add: es_join_def canon_def)
qed

section \<open>Queues whose entries hold what they should\<close>

definition q_acc :: "int \<Rightarrow> (nat \<Rightarrow> sector_info) \<Rightarrow> nat set \<Rightarrow> expiration_queue \<Rightarrow> bool" where
  "q_acc sz info F q \<longleftrightarrow> eq_ok q
     \<and> (\<forall>k es. amt_get (eq_amt q) k = Some es \<longrightarrow> es_acc sz info F es)
     \<and> (\<forall>j k a b. amt_get (eq_amt q) j = Some a \<longrightarrow> amt_get (eq_amt q) k = Some b \<longrightarrow> j \<noteq> k \<longrightarrow> es_all a \<inter> es_all b = {})"

lemma q_accD:
  assumes "q_acc sz info F q"
  shows "eq_ok q" and "amt_ok (eq_amt q)" and "amt_get (eq_amt q) k = Some es \<Longrightarrow> es_acc sz info F es"
    and "amt_get (eq_amt q) j = Some a \<Longrightarrow> amt_get (eq_amt q) k = Some b \<Longrightarrow> j \<noteq> k \<Longrightarrow> es_all a \<inter> es_all b = {}"
  using assms unfolding q_acc_def eq_ok_def by blast+

lemma eq_sectors_mem: "n \<in> eq_sectors q \<longleftrightarrow> (\<exists>k es. amt_get (eq_amt q) k = Some es \<and> n \<in> es_all es)"
  by (auto simp: eq_sectors_def)

lemma entry_subset: "amt_get (eq_amt q) k = Some es \<Longrightarrow> es_all es \<subseteq> eq_sectors q"
  by (auto simp: eq_sectors_def)

lemma eq_sectors_split:
  "n \<in> eq_sectors q \<longleftrightarrow> (\<exists>j b. j \<noteq> k \<and> amt_get (eq_amt q) j = Some b \<and> n \<in> es_all b)
     \<or> (\<exists>b. amt_get (eq_amt q) k = Some b \<and> n \<in> es_all b)"
  unfolding eq_sectors_mem by metis

text \<open>Replacing one entry, with faults that change only for its sectors or for sectors that are not scheduled.\<close>

lemma q_acc_set:
  assumes "q_acc sz info F q" and ok: "eq_ok (q\<lparr>eq_amt := amt_set k es (eq_amt q)\<rparr>)" and "es_acc sz info F' es"
    and other: "\<And>j b. j \<noteq> k \<Longrightarrow> amt_get (eq_amt q) j = Some b \<Longrightarrow> es_all b \<inter> F = es_all b \<inter> F' \<and> es_all b \<inter> es_all es = {}"
  shows "q_acc sz info F' (q\<lparr>eq_amt := amt_set k es (eq_amt q)\<rparr>)"
    and "eq_sectors (q\<lparr>eq_amt := amt_set k es (eq_amt q)\<rparr>)
      = eq_sectors q - (case amt_get (eq_amt q) k of None \<Rightarrow> {} | Some old \<Rightarrow> es_all old) \<union> es_all es"
proof -
  show "q_acc sz info F' (q\<lparr>eq_amt := amt_set k es (eq_amt q)\<rparr>)"
    unfolding q_acc_def
  proof (intro conjI allI impI)
    fix j b assume "amt_get (eq_amt (q\<lparr>eq_amt := amt_set k es (eq_amt q)\<rparr>)) j = Some b"
    then consider "b = es" | "j \<noteq> k" "amt_get (eq_amt q) j = Some b" by (auto split: if_split_asm)
    then show "es_acc sz info F' b"
      using assms(3) es_acc_cong [OF q_accD(3) [OF assms(1)]] other by cases auto
  next
    fix i j a b
    assume "amt_get (eq_amt (q\<lparr>eq_amt := amt_set k es (eq_amt q)\<rparr>)) i = Some a"
      "amt_get (eq_amt (q\<lparr>eq_amt := amt_set k es (eq_amt q)\<rparr>)) j = Some b" "i \<noteq> j"
    then consider "i \<noteq> k" "j \<noteq> k" "amt_get (eq_amt q) i = Some a" "amt_get (eq_amt q) j = Some b" "i \<noteq> j"
      | "i \<noteq> k" "amt_get (eq_amt q) i = Some a" "b = es" | "j \<noteq> k" "a = es" "amt_get (eq_amt q) j = Some b"
      by (auto split: if_split_asm)
    then show "es_all a \<inter> es_all b = {}"
    proof cases
      case 1 then show ?thesis using q_accD(4) [OF assms(1)] by blast
    next
      case 2 then show ?thesis using other [of i a] by simp
    next
      case 3 then show ?thesis using other [of j b] by (simp add: Int_commute)
    qed
  qed (rule ok)
  show "eq_sectors (q\<lparr>eq_amt := amt_set k es (eq_amt q)\<rparr>)
      = eq_sectors q - (case amt_get (eq_amt q) k of None \<Rightarrow> {} | Some old \<Rightarrow> es_all old) \<union> es_all es"
  proof (rule set_eqI)
    fix n
    let ?q = "q\<lparr>eq_amt := amt_set k es (eq_amt q)\<rparr>"
    define X where "X \<longleftrightarrow> (\<exists>j b. j \<noteq> k \<and> amt_get (eq_amt q) j = Some b \<and> n \<in> es_all b)"
    have 1: "n \<in> eq_sectors ?q \<longleftrightarrow> X \<or> n \<in> es_all es"
      unfolding eq_sectors_split [of n ?q k] X_def by (simp cong: conj_cong)
    have 2: "n \<in> eq_sectors q \<longleftrightarrow> X \<or> (\<exists>b. amt_get (eq_amt q) k = Some b \<and> n \<in> es_all b)"
      unfolding X_def by (rule eq_sectors_split)
    have 3: "X \<Longrightarrow> amt_get (eq_amt q) k = Some old \<Longrightarrow> n \<notin> es_all old" for old
      using q_accD(4) [OF assms(1)] unfolding X_def by blast
    show "n \<in> eq_sectors ?q \<longleftrightarrow>
        n \<in> eq_sectors q - (case amt_get (eq_amt q) k of None \<Rightarrow> {} | Some old \<Rightarrow> es_all old) \<union> es_all es"
      unfolding 1 2 Un_iff Diff_iff using 3 by (cases "amt_get (eq_amt q) k") auto
  qed
qed

lemma q_acc_delete:
  assumes "q_acc sz info F q" and "amt_get (eq_amt q) k = Some old"
    and other: "\<And>j b. j \<noteq> k \<Longrightarrow> amt_get (eq_amt q) j = Some b \<Longrightarrow> es_all b \<inter> F = es_all b \<inter> F'"
  shows "q_acc sz info F' (q\<lparr>eq_amt := amt_delete k (eq_amt q)\<rparr>)"
    and "eq_sectors (q\<lparr>eq_amt := amt_delete k (eq_amt q)\<rparr>) = eq_sectors q - es_all old"
proof -
  have "eq_ok (q\<lparr>eq_amt := amt_delete k (eq_amt q)\<rparr>)"
    using q_accD(1) [OF assms(1)] by (auto simp: eq_ok_def amt_ok_delete)
  moreover have "es_acc sz info F' b" if "j \<noteq> k" "amt_get (eq_amt q) j = Some b" for j b
    by (rule es_acc_cong [OF q_accD(3) [OF assms(1) that(2)] other [OF that]])
  ultimately show "q_acc sz info F' (q\<lparr>eq_amt := amt_delete k (eq_amt q)\<rparr>)"
    using q_accD(4) [OF assms(1)] unfolding q_acc_def by (auto split: if_split_asm)
  show "eq_sectors (q\<lparr>eq_amt := amt_delete k (eq_amt q)\<rparr>) = eq_sectors q - es_all old"
  proof (rule set_eqI)
    fix n
    let ?q = "q\<lparr>eq_amt := amt_delete k (eq_amt q)\<rparr>" and ?O = "\<exists>j b. j \<noteq> k \<and> amt_get (eq_amt q) j = Some b \<and> n \<in> es_all b"
    have 1: "n \<in> eq_sectors ?q \<longleftrightarrow> ?O" unfolding eq_sectors_split [of n ?q k] by (simp cong: conj_cong)
    have 2: "n \<in> eq_sectors q \<longleftrightarrow> ?O \<or> n \<in> es_all old" using eq_sectors_split [of n q k] assms(2) by simp
    have 3: "?O \<Longrightarrow> n \<notin> es_all old" using q_accD(4) [OF assms(1)] assms(2) by blast
    show "n \<in> eq_sectors ?q \<longleftrightarrow> n \<in> eq_sectors q - es_all old"
      unfolding 1 2 Diff_iff using 3 by blast
  qed
qed

lemma must_update_or_delete_acc:
  assumes q: "q_acc sz info F q" and "must_update_or_delete e es q = Inr q'" and "aligned (eq_quant q) e"
    and "es_ok es" "es_acc sz info F' es" and old: "amt_get (eq_amt q) (nat e) = Some old"
    and other: "\<And>j b. j \<noteq> nat e \<Longrightarrow> amt_get (eq_amt q) j = Some b \<Longrightarrow> es_all b \<inter> F = es_all b \<inter> F' \<and> es_all b \<inter> es_all es = {}"
  shows "q_acc sz info F' q'" and "eq_sectors q' = eq_sectors q - es_all old \<union> es_all es"
    and "\<And>j. j \<noteq> nat e \<Longrightarrow> amt_get (eq_amt q') j = amt_get (eq_amt q) j" and "eq_quant q' = eq_quant q" and "0 \<le> e"
proof -
  have kept: "kept q q'" by (rule must_update_or_delete_ok [OF q_accD(1) [OF q] assms(4,3,2)])
  from assms(2) have q': "q' = q\<lparr>eq_amt := if es_is_empty es then amt_delete (nat e) (eq_amt q) else amt_set (nat e) es (eq_amt q)\<rparr>"
    and e: "0 \<le> e" by (auto simp: must_update_or_delete_def res_inv epoch_key_Inr split: if_split_asm)
  from q' show "\<And>j. j \<noteq> nat e \<Longrightarrow> amt_get (eq_amt q') j = amt_get (eq_amt q) j" "eq_quant q' = eq_quant q" by simp_all
  show "0 \<le> e" by (rule e)
  have "q_acc sz info F' q' \<and> eq_sectors q' = eq_sectors q - es_all old \<union> es_all es"
  proof (cases "es_is_empty es")
    case True
    then have "es_all es = {}" by (auto simp: es_is_empty_def)
    with True q_acc_delete [OF q old, of F'] other show ?thesis by (auto simp: q')
  next
    case False
    with kept have "eq_ok (q\<lparr>eq_amt := amt_set (nat e) es (eq_amt q)\<rparr>)" by (simp add: q')
    from q_acc_set [OF q this assms(5) other] False old show ?thesis by (auto simp: q')
  qed
  then show "q_acc sz info F' q'" "eq_sectors q' = eq_sectors q - es_all old \<union> es_all es" by auto
qed

section \<open>Adding and removing sectors that are not faulty\<close>

lemma eq_add_acc:
  assumes q: "q_acc sz info F q" and add: "eq_add e on early act flt pl fee q = Inr q'"
    and x: "\<lparr>on_time_sectors = on, early_sectors = early, on_time_pledge = pl, active_power = act, faulty_power = flt,
             fee_deduction = fee\<rparr> = canon sz info F on early"
    and fin: "finite on" "finite early" and sub: "on \<inter> early = {}" "early \<subseteq> F" and new: "(on \<union> early) \<inter> eq_sectors q = {}"
  shows "q_acc sz info F q'" and "eq_sectors q' = eq_sectors q \<union> on \<union> early" and "eq_quant q' = eq_quant q"
proof -
  let ?k = "nat (quantize_up (eq_quant q) e)"
  let ?old = "case amt_get (eq_amt q) ?k of None \<Rightarrow> es_empty | Some x \<Rightarrow> x"
  have kept: "kept q q'" by (rule eq_add_ok [OF q_accD(1) [OF q] fin add])
  then show "eq_quant q' = eq_quant q" by simp
  from add have q': "q' = q\<lparr>eq_amt := amt_set ?k (es_join ?old (canon sz info F on early)) (eq_amt q)\<rparr>"
    by (rule eq_add_Inr) (simp add: x [symmetric])
  have old: "es_acc sz info F ?old" "es_all ?old \<subseteq> eq_sectors q"
    using q_accD(3) [OF q, of ?k] entry_subset [of q ?k] es_acc_canon [of sz info F "{}" "{}"]
    by (auto simp: es_empty_canon [symmetric] split: option.split) (simp_all add: es_empty_def)
  from old(1) obtain on0 early0 where o: "?old = canon sz info F on0 early0" "finite on0" "finite early0"
    "on0 \<inter> early0 = {}" "early0 \<subseteq> F" by (rule es_accE)
  have d: "(on0 \<union> early0) \<inter> (on \<union> early) = {}" using old(2) new o(1) by (simp del: Un_iff) blast
  have j: "es_join ?old (canon sz info F on early) = canon sz info F (on0 \<union> on) (early0 \<union> early)"
    unfolding o(1) by (rule canon_join) (use o fin sub d in auto)
  have acc: "es_acc sz info F (canon sz info F (on0 \<union> on) (early0 \<union> early))"
    using o fin sub d by (auto simp: es_acc_canon)
  have other: "es_all b \<inter> F = es_all b \<inter> F \<and> es_all b \<inter> es_all (canon sz info F (on0 \<union> on) (early0 \<union> early)) = {}"
    if "i \<noteq> ?k" "amt_get (eq_amt q) i = Some b" for i b
  proof -
    have "es_all b \<inter> es_all ?old = {}"
      using q_accD(4) [OF q that(2) _ that(1)] by (auto simp: es_empty_def split: option.split)
    then have "es_all b \<inter> (on0 \<union> early0) = {}" by (simp add: o(1))
    with entry_subset [OF that(2)] new show ?thesis by auto
  qed
  have ok: "eq_ok (q\<lparr>eq_amt := amt_set ?k (canon sz info F (on0 \<union> on) (early0 \<union> early)) (eq_amt q)\<rparr>)"
    using kept by (simp add: q' j)
  have s: "q_acc sz info F (q\<lparr>eq_amt := amt_set ?k (canon sz info F (on0 \<union> on) (early0 \<union> early)) (eq_amt q)\<rparr>)"
    by (rule q_acc_set(1) [OF q ok acc]) (rule other)
  then show "q_acc sz info F q'" by (simp add: q' j)
  have s2: "eq_sectors (q\<lparr>eq_amt := amt_set ?k (canon sz info F (on0 \<union> on) (early0 \<union> early)) (eq_amt q)\<rparr>)
      = eq_sectors q - (case amt_get (eq_amt q) ?k of None \<Rightarrow> {} | Some old \<Rightarrow> es_all old)
        \<union> es_all (canon sz info F (on0 \<union> on) (early0 \<union> early))"
    by (rule q_acc_set(2) [OF q ok acc]) (rule other)
  have "(case amt_get (eq_amt q) ?k of None \<Rightarrow> {} | Some old \<Rightarrow> es_all old) = on0 \<union> early0"
    using o(1) by (cases "amt_get (eq_amt q) ?k") (auto simp: es_empty_def canon_def)
  moreover have "on0 \<union> early0 \<subseteq> eq_sectors q" using old(2) by (simp add: o(1))
  ultimately show "eq_sectors q' = eq_sectors q \<union> on \<union> early" unfolding q' j s2 by auto
qed

lemma canon_minus:
  assumes "finite on" "finite early" and "A \<subseteq> on" and "A \<inter> F = {}" and "on \<inter> early = {}"
  shows "canon sz info F (on - A) early =
    (canon sz info F on early)\<lparr>on_time_sectors := on - A,
       on_time_pledge := (\<Sum>n\<in>on. si_initial_pledge (info n)) - (\<Sum>n\<in>A. si_initial_pledge (info n)),
       active_power := (\<Sum>n\<in>on - F. spower sz info n) - (\<Sum>n\<in>A. spower sz info n),
       fee_deduction := (\<Sum>n\<in>on \<union> early. si_daily_fee (info n)) - (\<Sum>n\<in>A. si_daily_fee (info n))\<rparr>"
proof -
  have "on - A - F = (on - F) - A" "(on - A) \<inter> F = on \<inter> F" "on - A \<union> early = (on \<union> early) - A" using assms by blast+
  moreover have "A \<subseteq> on - F" "A \<subseteq> on \<union> early" using assms by blast+
  ultimately show ?thesis using assms by (simp add: canon_def sum_diff)
qed

lemma eq_remove_acc:
  assumes q: "q_acc sz info F q"
    and rm: "eq_remove e A {} (\<Sum>n\<in>A. spower sz info n) 0 (\<Sum>n\<in>A. si_initial_pledge (info n)) (\<Sum>n\<in>A. si_daily_fee (info n)) q = Inr q'"
    and F: "A \<inter> F = {}"
  shows "q_acc sz info F q'" and "eq_sectors q' = eq_sectors q - A" and "eq_quant q' = eq_quant q" and "A \<subseteq> eq_sectors q"
proof -
  let ?e = "quantize_up (eq_quant q) e"
  from rm obtain es es' where get: "amt_get (eq_amt q) (nat ?e) = Some es"
    and es': "es_remove A {} (\<Sum>n\<in>A. si_initial_pledge (info n)) (\<Sum>n\<in>A. spower sz info n) 0 (\<Sum>n\<in>A. si_daily_fee (info n)) es = Inr es'"
    and upd: "must_update_or_delete ?e es' q = Inr q'"
    by (auto simp: eq_remove_def Let_def r_bind_eq_Inr epoch_key_Inr split: option.split_asm)
  from q_accD(3) [OF q get] obtain on early where o: "es = canon sz info F on early" "finite on" "finite early"
    "on \<inter> early = {}" "early \<subseteq> F" by (rule es_accE)
  from es' have A: "A \<subseteq> on" and e: "es' = canon sz info F (on - A) early"
    by (auto simp: es_remove_def Let_def o(1) r_bind_eq_Inr split: if_split_asm) (simp_all add: canon_minus [OF o(2,3) _ F o(4)], simp_all add: canon_def)
  have ok: "es_ok es'" by (rule es_remove_ok [OF _ es']) (rule eq_ok_get [OF q_accD(1) [OF q] get])
  have acc: "es_acc sz info F es'" using o by (auto simp: e es_acc_canon)
  have other: "es_all b \<inter> F = es_all b \<inter> F \<and> es_all b \<inter> es_all es' = {}" if "j \<noteq> nat ?e" "amt_get (eq_amt q) j = Some b" for j b
    using q_accD(4) [OF q that(2) get that(1)] by (auto simp: e o(1))
  have al: "aligned (eq_quant q) ?e" by (rule quant_aligned) (rule q_accD(1) [OF q])
  show "q_acc sz info F q'" by (rule must_update_or_delete_acc(1) [OF q upd al ok acc get]) (rule other)
  show "eq_quant q' = eq_quant q" by (rule must_update_or_delete_acc(4) [OF q upd al ok acc get]) (rule other)
  have m: "eq_sectors q' = eq_sectors q - es_all es \<union> es_all es'"
    by (rule must_update_or_delete_acc(2) [OF q upd al ok acc get]) (rule other)
  have sub: "on \<union> early \<subseteq> eq_sectors q" using entry_subset [OF get] by (simp add: o(1))
  with A show "A \<subseteq> eq_sectors q" by blast
  have "A \<inter> early = {}" using A o(4) by blast
  with m sub A show "eq_sectors q' = eq_sectors q - A" by (auto simp: e o(1))
qed

text \<open>Groups of sectors with the totals that belong to them.\<close>

definition group_acc :: "int \<Rightarrow> (nat \<Rightarrow> sector_info) \<Rightarrow> sector_epoch_set \<Rightarrow> bool" where
  "group_acc sz info g \<longleftrightarrow> distinct (ses_sectors g)
     \<and> ses_power g = (\<Sum>n\<in>set (ses_sectors g). spower sz info n)
     \<and> ses_pledge g = (\<Sum>n\<in>set (ses_sectors g). si_initial_pledge (info n))
     \<and> ses_daily_fee g = (\<Sum>n\<in>set (ses_sectors g). si_daily_fee (info n))"

lemma sum_infos:
  assumes "distinct (map sector_number ss)" and "\<And>s. s \<in> set ss \<Longrightarrow> info (sector_number s) = s"
  shows "sum_list (map f ss) = (\<Sum>n\<in>sector_number ` set ss. f (info n))"
proof -
  have "(\<Sum>n\<in>set (map sector_number ss). f (info n)) = sum_list (map (\<lambda>n. f (info n)) (map sector_number ss))"
    using assms(1) by (rule sum_list_distinct_conv_sum_set [symmetric])
  also have "map (\<lambda>n. f (info n)) (map sector_number ss) = map f ss" using assms(2) by simp
  finally show ?thesis by simp
qed

lemma group_acc_of:
  assumes "distinct (map sector_number ss)" and "\<And>s. s \<in> set ss \<Longrightarrow> info (sector_number s) = s"
  shows "group_acc sz info (epoch_set_of sz e ss)"
  using assms(1) by (simp add: group_acc_def epoch_set_of_def sum_infos [where info = info, OF assms])

lemma add_groups_acc:
  assumes "converts bits" and "q_acc sz info F q" and "\<forall>g \<in> set gs. group_acc sz info g"
    and "distinct (concat (map ses_sectors gs))" and "set (concat (map ses_sectors gs)) \<inter> (eq_sectors q \<union> F) = {}"
    and "r_fold (add_group bits) gs ((N, pw, pl, fee), q) = Inr ((N', pw', pl', fee'), q')"
  shows "q_acc sz info F q' \<and> eq_sectors q' = eq_sectors q \<union> set (concat (map ses_sectors gs)) \<and> eq_quant q' = eq_quant q
    \<and> N' = N \<union> set (concat (map ses_sectors gs))
    \<and> pw' = pw + (\<Sum>n\<in>set (concat (map ses_sectors gs)). spower sz info n)
    \<and> pl' = pl + (\<Sum>n\<in>set (concat (map ses_sectors gs)). si_initial_pledge (info n))
    \<and> fee' = fee + (\<Sum>n\<in>set (concat (map ses_sectors gs)). si_daily_fee (info n))"
  using assms(2-6)
proof (induction gs arbitrary: q N pw pl fee)
  case (Cons g gs)
  let ?A = "set (ses_sectors g)" and ?B = "set (concat (map ses_sectors gs))"
  have ga: "group_acc sz info g" using Cons.prems(2) by simp
  from Cons.prems(5) obtain bf q1 where bf: "bits (ses_sectors g) = Inr bf"
    and add: "eq_add (ses_epoch g) bf {} (ses_power g) 0 (ses_pledge g) (ses_daily_fee g) q = Inr q1"
    and rest: "r_fold (add_group bits) gs ((N \<union> bf, pw + ses_power g, pl + ses_pledge g, fee + ses_daily_fee g), q1)
      = Inr ((N', pw', pl', fee'), q')"
  proof -
    from Cons.prems(5) obtain a1 where "add_group bits g ((N, pw, pl, fee), q) = Inr a1"
      "r_fold (add_group bits) gs a1 = Inr ((N', pw', pl', fee'), q')" by (auto simp: r_bind_eq_Inr)
    with that show thesis by (auto simp: add_group_def [of bits g] r_bind_eq_Inr)
  qed
  have bfA: "bf = ?A" using assms(1) bf by (auto simp: converts_def)
  have new: "?A \<inter> (eq_sectors q \<union> F) = {}" using Cons.prems(4) by auto
  then have "?A \<inter> F = {}" "?A - F = ?A" by blast+
  then have x: "\<lparr>on_time_sectors = ?A, early_sectors = {}, on_time_pledge = ses_pledge g, active_power = ses_power g,
      faulty_power = 0, fee_deduction = ses_daily_fee g\<rparr> = canon sz info F ?A {}"
    using ga by (simp add: canon_def group_acc_def)
  note a = eq_add_acc [OF Cons.prems(1) add [unfolded bfA] x]
  have q1: "q_acc sz info F q1" "eq_sectors q1 = eq_sectors q \<union> ?A" "eq_quant q1 = eq_quant q"
    using a new by auto
  have d: "?A \<inter> ?B = {}" "distinct (concat (map ses_sectors gs))" using Cons.prems(3) by auto
  have "?B \<inter> (eq_sectors q1 \<union> F) = {}" using Cons.prems(4) d q1(2) by auto
  note IH = Cons.IH [OF q1(1) _ d(2) this rest]
  have sums: "(\<Sum>n\<in>?A \<union> ?B. f n) = (\<Sum>n\<in>?A. f n) + (\<Sum>n\<in>?B. f n)" for f :: "nat \<Rightarrow> 'b::ab_group_add"
    by (rule sum.union_disjoint) (use d in auto)
  have AB: "set (concat (map ses_sectors (g # gs))) = ?A \<union> ?B" by simp
  from IH Cons.prems(2) q1 bfA ga show ?case
    unfolding AB sums by (simp add: group_acc_def Un_assoc add.assoc)
qed simp

lemma group_new_acc:
  assumes "distinct (map sector_number ss)" and "\<And>s. s \<in> set ss \<Longrightarrow> info (sector_number s) = s"
    and gs_def: "gs = group_new_sectors_by_declared_expiration sz ss quant"
  shows "\<forall>g \<in> set gs. group_acc sz info g" and "distinct (concat (map ses_sectors gs))"
    and "set (concat (map ses_sectors gs)) = set (map sector_number ss)"
proof -
  let ?e = "\<lambda>s. quantize_up quant (si_expiration s)"
  let ?es = "sort (remdups (map ?e ss))"
  show "\<forall>g \<in> set gs. group_acc sz info g"
    using assms(1,2) by (auto simp: gs_def group_new_sectors_by_declared_expiration_def distinct_map_filter intro!: group_acc_of)
  have g: "map ses_sectors gs = map (\<lambda>e. map sector_number (filter (\<lambda>s. ?e s = e) ss)) ?es"
    by (simp add: gs_def group_new_sectors_by_declared_expiration_def epoch_set_of_def o_def)
  show "set (concat (map ses_sectors gs)) = set (map sector_number ss)" unfolding g by force
  have "distinct (concat (map (\<lambda>e. map sector_number (filter (\<lambda>s. ?e s = e) ss)) es))" if "distinct es" for es
    using that
  proof (induction es)
    case (Cons x es)
    have "set (map sector_number (filter (\<lambda>s. ?e s = x) ss)) \<inter>
        set (concat (map (\<lambda>e. map sector_number (filter (\<lambda>s. ?e s = e) ss)) es)) = {}"
      using Cons.prems assms(1) by (auto simp: distinct_map inj_on_def)
    then show ?case using Cons assms(1) by (auto simp: distinct_map_filter)
  qed simp
  then show "distinct (concat (map ses_sectors gs))" unfolding g by simp
qed

lemma add_active_acc:
  assumes "converts bits" and "q_acc sz info F q"
    and "distinct (map sector_number ss)" and "\<And>s. s \<in> set ss \<Longrightarrow> info (sector_number s) = s"
    and "sector_number ` set ss \<inter> (eq_sectors q \<union> F) = {}"
    and "add_active_sectors bits ss sz q = Inr ((N, pw, pl, fee), q')"
  shows "q_acc sz info F q' \<and> eq_sectors q' = eq_sectors q \<union> sector_number ` set ss \<and> eq_quant q' = eq_quant q
    \<and> N = sector_number ` set ss \<and> pw = (\<Sum>n\<in>sector_number ` set ss. spower sz info n)
    \<and> pl = (\<Sum>n\<in>sector_number ` set ss. si_initial_pledge (info n))
    \<and> fee = (\<Sum>n\<in>sector_number ` set ss. si_daily_fee (info n))"
proof -
  note g = group_new_acc [OF assms(3,4) refl, where sz = sz and quant = "eq_quant q"]
  from add_groups_acc [OF assms(1,2) g(1,2) _ assms(6) [unfolded add_active_sectors_def]] g(3) assms(5)
  show ?thesis by simp
qed

section \<open>Finding sectors in the queue\<close>

text \<open>
  The groups found so far: each belongs to an entry of the queue and holds on-time sectors of that entry
  with their totals; the groups and the sectors that remain to be found are the sectors looked for.
\<close>

abbreviation g_nums :: "sector_expiration_set \<Rightarrow> nat set" where
  "g_nums g \<equiv> set (ses_sectors (sector_epoch_set g))"

abbreviation g_epoch :: "sector_expiration_set \<Rightarrow> int" where
  "g_epoch g \<equiv> ses_epoch (sector_epoch_set g)"

definition found_ok :: "int \<Rightarrow> (nat \<Rightarrow> sector_info) \<Rightarrow> expiration_queue \<Rightarrow> sector_expiration_set \<Rightarrow> bool" where
  "found_ok sz info q g \<longleftrightarrow> group_acc sz info (sector_epoch_set g) \<and> 0 \<le> g_epoch g
     \<and> amt_get (eq_amt q) (nat (g_epoch g)) = Some (ses_expiration_set g)
     \<and> g_nums g \<subseteq> on_time_sectors (ses_expiration_set g) \<and> aligned (eq_quant q) (g_epoch g)"

definition found_acc ::
  "int \<Rightarrow> (nat \<Rightarrow> sector_info) \<Rightarrow> expiration_queue \<Rightarrow> nat set \<Rightarrow> nat set \<times> sector_expiration_set list \<Rightarrow> bool" where
  "found_acc sz info q N = (\<lambda>(remaining, gs). (\<forall>g \<in> set gs. found_ok sz info q g)
     \<and> distinct (map g_epoch gs) \<and> distinct (concat (map (\<lambda>g. ses_sectors (sector_epoch_set g)) gs))
     \<and> remaining \<inter> \<Union> (g_nums ` set gs) = {} \<and> remaining \<union> \<Union> (g_nums ` set gs) = N)"

lemma r_bindE: "r_bind m f = Inr y \<Longrightarrow> (\<And>x. m = Inr x \<Longrightarrow> f x = Inr y \<Longrightarrow> P) \<Longrightarrow> P"
  by (auto simp: r_bind_eq_Inr)

lemma mset_concat_map: "mset (concat (map f xs)) = (\<Sum>x \<in># mset xs. mset (f x))"
  by (induction xs) auto

lemma those_map: "those (map f xs) = Some ys \<Longrightarrow> \<forall>x \<in> set xs. f x = Some (g x) \<Longrightarrow> ys = map g xs"
  by (induction xs arbitrary: ys) (auto split: option.split_asm)

text \<open>Grouping one entry of the queue.\<close>

lemma group_expiration_set_acc:
  assumes "group_expiration_set sz m R es e = Inr (g, R')" and "finite (on_time_sectors es)"
    and "\<And>n. n \<in> R \<Longrightarrow> map2_get m n = Some (info n)"
    and "\<And>n. n \<in> R \<Longrightarrow> sector_number (info n) = n"
  shows "group_acc sz info (sector_epoch_set g) \<and> g_nums g = on_time_sectors es \<inter> R \<and> g_epoch g = e
    \<and> ses_expiration_set g = es \<and> R' = R - on_time_sectors es"
proof -
  let ?us = "filter (\<lambda>u. u \<in> R) (sorted_list_of_set (on_time_sectors es))"
  from assms(1) obtain ss where ss: "those (map (map2_get m) ?us) = Some ss"
    and g: "g = \<lparr>sector_epoch_set = (epoch_set_of sz e ss)\<lparr>ses_sectors := ?us\<rparr>, ses_expiration_set = es\<rparr>" "R' = R - set ?us"
    by (auto simp: group_expiration_set_def Let_def split: option.split_asm)
  have us: "set ?us = on_time_sectors es \<inter> R" "distinct ?us" using assms(2) by auto
  have ssi: "ss = map info ?us" by (rule those_map [OF ss]) (use assms(3) in auto)
  have nums: "map sector_number ss = ?us" unfolding ssi map_map using assms(4) by (intro map_idI) auto
  have "group_acc sz info (epoch_set_of sz e ss)"
  proof (rule group_acc_of)
    show "distinct (map sector_number ss)" unfolding nums by (rule us(2))
    show "info (sector_number s) = s" if "s \<in> set ss" for s using that assms(4) by (auto simp: ssi)
  qed
  moreover have "(epoch_set_of sz e ss)\<lparr>ses_sectors := ?us\<rparr> = epoch_set_of sz e ss"
    using nums by (simp add: epoch_set_of_def)
  ultimately have "group_acc sz info (sector_epoch_set g)" unfolding g by simp
  moreover have "g_nums g = on_time_sectors es \<inter> R" unfolding g using us(1) by simp
  moreover have "g_epoch g = e" "ses_expiration_set g = es" unfolding g by (simp_all add: epoch_set_of_def)
  moreover have "R' = R - on_time_sectors es" using g(2) us(1) by blast
  ultimately show ?thesis by simp
qed

lemma found_push:
  assumes "found_acc sz info q N (R, gs)" and "found_ok sz info q g" and "e = g_epoch g" and "e \<notin> g_epoch ` set gs"
    and "g_nums g = A \<inter> R" and "R' = R - A"
  shows "found_acc sz info q N (R', push_group g gs)"
proof (cases "ses_sectors (sector_epoch_set g) = []")
  case True
  then have "A \<inter> R = {}" using assms(5) by auto
  then have "R' = R" using assms(6) by blast
  with True assms(1) show ?thesis by (simp add: push_group_def)
next
  case False
  have "distinct (ses_sectors (sector_epoch_set g))" using assms(2) by (simp add: found_ok_def group_acc_def)
  with False assms show ?thesis by (auto simp: found_acc_def push_group_def)
qed

lemma find_declared_acc:
  assumes q: "q_acc sz info F q" and run: "find_declared sz m q e (R, gs) = Inr acc'" and acc: "found_acc sz info q N (R, gs)"
    and m: "\<And>n. n \<in> N \<Longrightarrow> map2_get m n = Some (info n) \<and> sector_number (info n) = n"
    and e: "aligned (eq_quant q) e" "e \<notin> g_epoch ` set gs"
  shows "found_acc sz info q N acc' \<and> g_epoch ` set (snd acc') \<subseteq> insert e (g_epoch ` set gs)"
proof -
  from run obtain es g R' where es: "may_get e q = Inr es" and gr: "group_expiration_set sz m R es e = Inr (g, R')"
    and acc': "acc' = (R', push_group g gs)" by (auto simp: find_declared_def r_bind_eq_Inr)
  have fin: "finite (on_time_sectors es)" using may_get_ok [OF q_accD(1) [OF q] es] by (simp add: es_ok_def)
  have "R \<subseteq> N" using acc by (auto simp: found_acc_def)
  with m have m': "\<And>n. n \<in> R \<Longrightarrow> map2_get m n = Some (info n)" "\<And>n. n \<in> R \<Longrightarrow> sector_number (info n) = n" by blast+
  note g = group_expiration_set_acc [OF gr fin m']
  from es have e0: "0 \<le> e" by (auto simp: may_get_def r_bind_eq_Inr epoch_key_Inr)
  show ?thesis
  proof (cases "ses_sectors (sector_epoch_set g) = []")
    case True
    with g have "R' = R" by auto
    with True acc show ?thesis by (auto simp: acc' push_group_def)
  next
    case False
    then have "on_time_sectors es \<noteq> {}" using g by auto
    with es have "amt_get (eq_amt q) (nat e) = Some es"
      by (auto simp: may_get_def r_bind_eq_Inr epoch_key_Inr es_empty_def split: option.split_asm)
    with g e0 e(1) have ok: "found_ok sz info q g" by (auto simp: found_ok_def)
    from found_push [OF acc ok] e(2) g show ?thesis by (auto simp: acc' push_group_def)
  qed
qed

lemma find_remaining_acc:
  assumes q: "q_acc sz info F q" and m: "\<And>n. n \<in> N \<Longrightarrow> map2_get m n = Some (info n) \<and> sector_number (info n) = n"
    and "find_remaining sz m declared a (R, gs) = Inr acc'" and "found_acc sz info q N (R, gs)"
    and "\<forall>(k, es) \<in> set a. amt_get (eq_amt q) k = Some es" and "distinct (map fst a)"
    and "\<forall>(k, es) \<in> set a. int k \<in> set declared \<or> int k \<notin> g_epoch ` set gs"
  shows "found_acc sz info q N acc'"
  using assms(3-7)
proof (induction a arbitrary: R gs)
  case (Cons x a)
  obtain k es where x: "x = (k, es)" by fastforce
  show ?case
  proof (cases "int k \<in> set declared")
    case True
    with Cons x show ?thesis by simp
  next
    case False
    have "r_bind (group_expiration_set sz m R es (int k)) (\<lambda>(g, R'). if R' \<noteq> {}
        then find_remaining sz m declared a (R', push_group g gs) else Inr (R', push_group g gs)) = Inr acc'"
      using Cons.prems(1) x False by (auto simp: r_bind_eq_Inr Let_def simp del: ex_in_conv)
    then obtain p where p: "group_expiration_set sz m R es (int k) = Inr p"
      and rest': "(case p of (g, R') \<Rightarrow> if R' \<noteq> {}
        then find_remaining sz m declared a (R', push_group g gs) else Inr (R', push_group g gs)) = Inr acc'"
      by (rule r_bindE)
    obtain g R' where pe: "p = (g, R')" by fastforce
    note gr = p [unfolded pe] and rest = rest' [unfolded pe, simplified]
    have get: "amt_get (eq_amt q) k = Some es" using Cons.prems(3) x by simp
    have ok: "es_ok es" "aligned (eq_quant q) (int k)" using q_accD(1) [OF q] get by (auto simp: eq_ok_def)
    have "R \<subseteq> N" using Cons.prems(2) by (auto simp: found_acc_def)
    with m have m': "\<And>n. n \<in> R \<Longrightarrow> map2_get m n = Some (info n)" "\<And>n. n \<in> R \<Longrightarrow> sector_number (info n) = n" by blast+
    note g = group_expiration_set_acc [OF gr _ m']
    have g': "group_acc sz info (sector_epoch_set g)" "g_nums g = on_time_sectors es \<inter> R" "g_epoch g = int k"
      "ses_expiration_set g = es" "R' = R - on_time_sectors es"
      using g ok(1) by (auto simp: es_ok_def)
    then have fo: "found_ok sz info q g" using get ok(2) by (auto simp: found_ok_def)
    have new: "int k \<notin> g_epoch ` set gs" using Cons.prems(5) x False by auto
    have acc: "found_acc sz info q N (R', push_group g gs)"
      using found_push [OF Cons.prems(2) fo refl _ g'(2,5)] new g'(3) by simp
    show ?thesis
    proof (cases "R' = {}")
      case True
      with rest acc show ?thesis by simp
    next
      case R': False
      have "\<forall>(j, b) \<in> set a. int j \<in> set declared \<or> int j \<notin> g_epoch ` set (push_group g gs)"
      proof -
        have "int j \<in> set declared" if j: "(j, b) \<in> set a" "int j \<in> g_epoch ` set (push_group g gs)" for j b
        proof (rule ccontr)
          assume n: "int j \<notin> set declared"
          have "j \<noteq> k" using j Cons.prems(4) x by force
          with j(2) g'(3) have "int j \<in> g_epoch ` set gs" by (auto simp: push_group_def split: if_split_asm)
          with Cons.prems(5) j(1) n show False by auto
        qed
        then show ?thesis by blast
      qed
      with R' rest Cons.IH [OF _ acc] Cons.prems(3,4) x show ?thesis by simp
    qed
  qed
qed simp

lemma by_number_get:
  assumes "distinct (map sector_number ss)" and "\<And>s. s \<in> set ss \<Longrightarrow> info (sector_number s) = s"
    and "n \<in> sector_number ` set ss"
  shows "map2_get (fold (\<lambda>s m. map2_put (sector_number s) s m) ss map2_empty) n = Some (info n) \<and> sector_number (info n) = n"
proof -
  have "map2_get (fold (\<lambda>s m. map2_put (sector_number s) s m) ss m0) n
      = (if n \<in> sector_number ` set ss then Some (info n) else map2_get m0 n)" if "\<forall>s \<in> set ss. info (sector_number s) = s" for m0
    using that by (induction ss arbitrary: m0) auto
  with assms show ?thesis by auto
qed

lemma find_sectors_acc:
  assumes q: "q_acc sz info F q" and "distinct (map sector_number ss)" and "\<And>s. s \<in> set ss \<Longrightarrow> info (sector_number s) = s"
    and run: "find_sectors_by_expiration sz ss q = Inr gs"
  shows "(\<forall>g \<in> set gs. found_ok sz info q g) \<and> distinct (map g_epoch gs)
    \<and> distinct (concat (map (\<lambda>g. ses_sectors (sector_epoch_set g)) gs)) \<and> \<Union> (g_nums ` set gs) = sector_number ` set ss"
proof -
  let ?N = "sector_number ` set ss" and ?m = "fold (\<lambda>s m. map2_put (sector_number s) s m) ss map2_empty"
  let ?d = "sort (remdups (map (\<lambda>s. quantize_up (eq_quant q) (si_expiration s)) ss))"
  from run obtain acc gs0 where
    first: "r_fold (find_declared sz ?m q) ?d (set (map sector_number ss), []) = Inr acc"
    and second: "acc = ({}, gs0) \<or> find_remaining sz ?m ?d (eq_amt q) acc = Inr ({}, gs0)"
    and gs: "gs = sort_key g_epoch gs0"
    by (auto simp: find_sectors_by_expiration_def r_bind_eq_Inr Let_def simp del: sort_key_simps split: if_split_asm)
  have m: "\<And>n. n \<in> ?N \<Longrightarrow> map2_get ?m n = Some (info n) \<and> sector_number (info n) = n"
    using by_number_get [OF assms(2,3)] by blast
  have decl: "found_acc sz info q ?N a \<Longrightarrow> g_epoch ` set (snd a) \<inter> set es = {} \<Longrightarrow> distinct es \<Longrightarrow>
      \<forall>e \<in> set es. aligned (eq_quant q) e \<Longrightarrow> r_fold (find_declared sz ?m q) es a = Inr b \<Longrightarrow>
      found_acc sz info q ?N b \<and> g_epoch ` set (snd b) \<subseteq> set es \<union> g_epoch ` set (snd a)" for es a b
  proof (induction es arbitrary: a)
    case (Cons e es)
    obtain R g where a: "a = (R, g)" by fastforce
    from Cons.prems(5) a obtain a1 where 1: "find_declared sz ?m q e (R, g) = Inr a1"
      and rest: "r_fold (find_declared sz ?m q) es a1 = Inr b" by (auto simp: r_bind_eq_Inr)
    from find_declared_acc [OF q 1 _ m] Cons.prems(1,2,4) a
    have a1: "found_acc sz info q ?N a1" "g_epoch ` set (snd a1) \<subseteq> insert e (g_epoch ` set g)" by auto
    have "g_epoch ` set (snd a1) \<inter> set es = {}" using a1(2) Cons.prems(2,3) a by auto
    with Cons.IH [OF a1(1) this _ _ rest] Cons.prems(3,4)
    have "found_acc sz info q ?N b" "g_epoch ` set (snd b) \<subseteq> set es \<union> g_epoch ` set (snd a1)" by auto
    with a1(2) show ?case unfolding a by (simp del: image_subset_iff) blast
  qed simp
  have al: "\<forall>e \<in> set ?d. aligned (eq_quant q) e" using q_accD(1) [OF q] by auto
  have init: "found_acc sz info q ?N (set (map sector_number ss), [])" by (simp add: found_acc_def)
  from decl [OF init _ _ al first] have acc: "found_acc sz info q ?N acc" "g_epoch ` set (snd acc) \<subseteq> set ?d" by auto
  have ok: "amt_ok (eq_amt q)" by (rule q_accD(2) [OF q])
  have "found_acc sz info q ?N ({}, gs0)"
    using second
  proof
    assume r: "find_remaining sz ?m ?d (eq_amt q) acc = Inr ({}, gs0)"
    obtain R g where a: "acc = (R, g)" by fastforce
    show ?thesis
    proof (rule find_remaining_acc [OF q m r [unfolded a] acc(1) [unfolded a]])
      show "\<forall>(k, es) \<in> set (eq_amt q). amt_get (eq_amt q) k = Some es" using amt_get_Some_mem [OF ok] by auto
      show "distinct (map fst (eq_amt q))" using ok by (auto simp: amt_ok_def strict_sorted_iff)
      show "\<forall>(k, es) \<in> set (eq_amt q). int k \<in> set ?d \<or> int k \<notin> g_epoch ` set g" using acc(2) a by auto
    qed
  qed (use acc(1) in simp)
  moreover have "distinct (map g_epoch gs) = distinct (map g_epoch gs0)"
    unfolding gs by (metis distinct_map distinct_sort set_sort)
  moreover have "distinct (concat (map f (sort_key k xs))) = distinct (concat (map f xs))" for f :: "sector_expiration_set \<Rightarrow> nat list" and k xs
    by (rule mset_eq_imp_distinct_iff) (simp add: mset_concat_map)
  ultimately show ?thesis by (auto simp: found_acc_def gs)
qed

section \<open>Removing and rescheduling active sectors\<close>

lemma q_acc_cong:
  assumes "q_acc sz info F q" and "eq_sectors q \<inter> F = eq_sectors q \<inter> F'"
  shows "q_acc sz info F' q"
proof -
  have "es_acc sz info F' es" if "amt_get (eq_amt q) k = Some es" for k es
    using es_acc_cong [OF q_accD(3) [OF assms(1) that]] entry_subset [OF that] assms(2) by blast
  with assms(1) show ?thesis unfolding q_acc_def by blast
qed

lemma sum_add_disjoint:
  "finite A \<Longrightarrow> finite B \<Longrightarrow> A \<inter> B = {} \<Longrightarrow> (\<Sum>n\<in>A \<union> B. f n) = (\<Sum>n\<in>A. f n) + (\<Sum>n\<in>B. f n :: 'a::ab_group_add)"
  by (rule sum.union_disjoint)

abbreviation gs_nums :: "sector_expiration_set list \<Rightarrow> nat list" where
  "gs_nums gs \<equiv> concat (map (\<lambda>g. ses_sectors (sector_epoch_set g)) gs)"

lemma remove_groups_acc:
  assumes "converts bits" and "q_acc sz info F q" and "\<forall>g \<in> set gs. group_acc sz info (sector_epoch_set g)"
    and "distinct (gs_nums gs)" and "set (gs_nums gs) \<inter> F = {}"
    and "r_fold (remove_group bits) gs ((N, pw, pl, fee), q) = Inr ((N', pw', pl', fee'), q')"
  shows "q_acc sz info F q' \<and> eq_sectors q' = eq_sectors q - set (gs_nums gs) \<and> eq_quant q' = eq_quant q
    \<and> N' = N @ gs_nums gs \<and> pw' = pw + (\<Sum>n\<in>set (gs_nums gs). spower sz info n)
    \<and> pl' = pl + (\<Sum>n\<in>set (gs_nums gs). si_initial_pledge (info n))
    \<and> fee' = fee + (\<Sum>n\<in>set (gs_nums gs). si_daily_fee (info n)) \<and> set (gs_nums gs) \<subseteq> eq_sectors q"
  using assms(2-6)
proof (induction gs arbitrary: q N pw pl fee)
  case (Cons ge gs)
  let ?g = "sector_epoch_set ge" let ?A = "set (ses_sectors ?g)" and ?B = "set (gs_nums gs)"
  have ga: "group_acc sz info ?g" using Cons.prems(2) by simp
  obtain bf q1 where bf: "bits (ses_sectors ?g) = Inr bf"
    and rm: "eq_remove (ses_epoch ?g) bf {} (ses_power ?g) 0 (ses_pledge ?g) (ses_daily_fee ?g) q = Inr q1"
    and rest: "r_fold (remove_group bits) gs ((N @ ses_sectors ?g, pw + ses_power ?g, pl + ses_pledge ?g, fee + ses_daily_fee ?g), q1)
      = Inr ((N', pw', pl', fee'), q')"
  proof -
    from Cons.prems(5) obtain a1 where "remove_group bits ge ((N, pw, pl, fee), q) = Inr a1"
      "r_fold (remove_group bits) gs a1 = Inr ((N', pw', pl', fee'), q')" by (auto simp: r_bind_eq_Inr)
    with that show thesis by (auto simp: remove_group_def [of bits ge] r_bind_eq_Inr Let_def)
  qed
  have bfA: "bf = ?A" using assms(1) bf by (auto simp: converts_def)
  have F: "?A \<inter> F = {}" "?B \<inter> F = {}" using Cons.prems(4) by auto
  have d: "?A \<inter> ?B = {}" "distinct (gs_nums gs)" using Cons.prems(3) by auto
  note r = eq_remove_acc [OF Cons.prems(1) _ F(1), of "ses_epoch ?g" q1]
  have q1: "q_acc sz info F q1" "eq_sectors q1 = eq_sectors q - ?A" "eq_quant q1 = eq_quant q" "?A \<subseteq> eq_sectors q"
    using r rm ga by (simp_all add: bfA group_acc_def)
  note IH = Cons.IH [OF q1(1) _ d(2) F(2) rest]
  have AB: "set (gs_nums (ge # gs)) = ?A \<union> ?B" by simp
  have sums: "(\<Sum>n\<in>?A \<union> ?B. f n) = (\<Sum>n\<in>?A. f n) + (\<Sum>n\<in>?B. f n)" for f :: "nat \<Rightarrow> 'b::ab_group_add"
    by (rule sum_add_disjoint) (use d in auto)
  have "?A \<union> ?B \<subseteq> eq_sectors q" "eq_sectors q' = eq_sectors q - (?A \<union> ?B)" using IH Cons.prems(2) q1(2,4) by auto
  with IH Cons.prems(2) q1(3) ga show ?case unfolding AB sums by (simp add: group_acc_def add.assoc)
qed simp

lemma remove_active_acc:
  assumes "converts bits" and q: "q_acc sz info F q"
    and ss: "distinct (map sector_number ss)" "\<And>s. s \<in> set ss \<Longrightarrow> info (sector_number s) = s"
    and F: "sector_number ` set ss \<inter> F = {}" and "remove_active_sectors bits ss sz q = Inr ((N, pw, pl, fee), q')"
  shows "q_acc sz info F q' \<and> eq_sectors q' = eq_sectors q - sector_number ` set ss \<and> eq_quant q' = eq_quant q
    \<and> N = sector_number ` set ss \<and> pw = (\<Sum>n\<in>sector_number ` set ss. spower sz info n)
    \<and> pl = (\<Sum>n\<in>sector_number ` set ss. si_initial_pledge (info n))
    \<and> fee = (\<Sum>n\<in>sector_number ` set ss. si_daily_fee (info n)) \<and> sector_number ` set ss \<subseteq> eq_sectors q"
proof -
  from assms(6) obtain gs nums where gs: "find_sectors_by_expiration sz ss q = Inr gs"
    and run: "r_fold (remove_group bits) gs (([], 0, 0, 0), q) = Inr ((nums, pw, pl, fee), q')" and bf: "bits nums = Inr N"
    by (auto simp: remove_active_sectors_def r_bind_eq_Inr)
  note f = find_sectors_acc [OF q ss gs]
  have "set (gs_nums gs) = sector_number ` set ss" using f by auto
  moreover have "N = set nums" using assms(1) bf by (auto simp: converts_def)
  moreover have "\<forall>g \<in> set gs. group_acc sz info (sector_epoch_set g)" using f by (auto simp: found_ok_def)
  ultimately show ?thesis using remove_groups_acc [OF assms(1) q _ _ _ run] f F by simp
qed

lemma canon_on_time:
  "A \<inter> F = {} \<Longrightarrow> \<lparr>on_time_sectors = A, early_sectors = {}, on_time_pledge = (\<Sum>n\<in>A. si_initial_pledge (info n)),
     active_power = (\<Sum>n\<in>A. spower sz info n), faulty_power = 0, fee_deduction = (\<Sum>n\<in>A. si_daily_fee (info n))\<rparr>
   = canon sz info F A {}"
  by (simp add: canon_def Diff_triv)

lemma canon_early:
  "A \<subseteq> F \<Longrightarrow> \<lparr>on_time_sectors = {}, early_sectors = A, on_time_pledge = 0,
     active_power = 0, faulty_power = (\<Sum>n\<in>A. spower sz info n), fee_deduction = (\<Sum>n\<in>A. si_daily_fee (info n))\<rparr>
   = canon sz info F {} A"
  by (simp add: canon_def)

lemma reschedule_expirations_acc:
  assumes "converts bits" and q: "q_acc sz info F q"
    and ss: "distinct (map sector_number ss)" "\<And>s. s \<in> set ss \<Longrightarrow> info (sector_number s) = s"
    and F: "sector_number ` set ss \<inter> F = {}" and run: "reschedule_expirations bits e ss sz q = Inr q'"
  shows "q_acc sz info F q' \<and> eq_sectors q' = eq_sectors q \<and> eq_quant q' = eq_quant q"
proof (cases "ss = []")
  case True
  with run q show ?thesis by (simp add: reschedule_expirations_def)
next
  case False
  with run obtain N pw pl fee q1 where rm: "remove_active_sectors bits ss sz q = Inr ((N, pw, pl, fee), q1)"
    and add: "eq_add e N {} pw 0 pl fee q1 = Inr q'"
    by (auto simp: reschedule_expirations_def r_bind_eq_Inr)
  note r = remove_active_acc [OF assms(1) q ss F rm]
  have a: "eq_add e (sector_number ` set ss) {} (\<Sum>n\<in>sector_number ` set ss. spower sz info n) 0
      (\<Sum>n\<in>sector_number ` set ss. si_initial_pledge (info n)) (\<Sum>n\<in>sector_number ` set ss. si_daily_fee (info n)) q1 = Inr q'"
    using add r by simp
  from r have q1: "q_acc sz info F q1" "eq_sectors q1 = eq_sectors q - sector_number ` set ss" by auto
  from eq_add_acc [OF q1(1) a canon_on_time [OF F]] r show ?thesis by (auto simp: q1(2))
qed

section \<open>Rescheduling sectors that become faulty\<close>

lemma canon_fault:
  assumes "finite on" "finite early" and "A \<subseteq> on" and "A \<inter> F = {}" and "on \<inter> early = {}"
  shows "canon sz info (F \<union> A) on early =
    (canon sz info F on early)\<lparr>active_power := (\<Sum>n\<in>on - F. spower sz info n) - (\<Sum>n\<in>A. spower sz info n),
       faulty_power := (\<Sum>n\<in>on \<inter> F \<union> early. spower sz info n) + (\<Sum>n\<in>A. spower sz info n)\<rparr>"
proof -
  have "on - (F \<union> A) = (on - F) - A" "on \<inter> (F \<union> A) \<union> early = (on \<inter> F \<union> early) \<union> A" using assms by blast+
  moreover have "A \<subseteq> on - F" "(on \<inter> F \<union> early) \<inter> A = {}" "finite A" using assms finite_subset by blast+
  ultimately show ?thesis using assms by (simp add: canon_def sum_diff sum_add_disjoint)
qed

lemma fault_group_acc:
  assumes bits: "converts bits" and q: "q_acc sz info F q" and g: "found_ok sz info q ge"
    and F: "g_nums ge \<inter> F = {}" and run: "fault_group bits nq ge ((nums, ex, rs, fee), q) = Inr ((nums', ex', rs', fee'), q')"
  shows "q_acc sz info (F \<union> g_nums ge) q' \<and> eq_quant q' = eq_quant q \<and> g_nums ge \<subseteq> eq_sectors q
    \<and> (\<forall>j. j \<noteq> nat (g_epoch ge) \<longrightarrow> amt_get (eq_amt q') j = amt_get (eq_amt q) j)
    \<and> (if g_epoch ge \<le> nq then eq_sectors q' = eq_sectors q \<and> nums' = nums \<and> ex' = ex + (\<Sum>n\<in>g_nums ge. spower sz info n) \<and> rs' = rs \<and> fee' = fee
       else eq_sectors q' = eq_sectors q - g_nums ge \<and> nums' = nums @ ses_sectors (sector_epoch_set ge) \<and> ex' = ex
         \<and> rs' = rs + (\<Sum>n\<in>g_nums ge. spower sz info n) \<and> fee' = fee + (\<Sum>n\<in>g_nums ge. si_daily_fee (info n)))"
proof -
  let ?g = "sector_epoch_set ge" and ?es = "ses_expiration_set ge" let ?A = "set (ses_sectors ?g)"
  have ga: "group_acc sz info ?g" "0 \<le> ses_epoch ?g" "amt_get (eq_amt q) (nat (ses_epoch ?g)) = Some ?es"
    "?A \<subseteq> on_time_sectors ?es" "aligned (eq_quant q) (ses_epoch ?g)"
    using g by (auto simp: found_ok_def)
  from q_accD(3) [OF q ga(3)] obtain on early where o: "?es = canon sz info F on early" "finite on" "finite early"
    "on \<inter> early = {}" "early \<subseteq> F" by (rule es_accE)
  have A: "?A \<subseteq> on" using ga(4) by (simp add: o(1))
  have sub: "on \<union> early \<subseteq> eq_sectors q" using entry_subset [OF ga(3)] by (simp add: o(1))
  have other: "es_all b \<inter> F = es_all b \<inter> (F \<union> ?A) \<and> es_all b \<inter> (on \<union> early) = {}"
    if "j \<noteq> nat (ses_epoch ?g)" "amt_get (eq_amt q) j = Some b" for j b
    using q_accD(4) [OF q that(2) ga(3) that(1)] A by (auto simp: o(1))
  define on' where "on' = (if ses_epoch ?g \<le> nq then on else on - ?A)"
  have val: "must_update_or_delete (ses_epoch ?g) (canon sz info (F \<union> ?A) on' early) q = Inr q'
      \<and> validate_state (canon sz info (F \<union> ?A) on' early) = Inr ()
      \<and> (if ses_epoch ?g \<le> nq then nums' = nums \<and> ex' = ex + ses_power ?g \<and> rs' = rs \<and> fee' = fee
         else nums' = nums @ ses_sectors ?g \<and> ex' = ex \<and> rs' = rs + ses_power ?g \<and> fee' = fee + ses_daily_fee ?g)"
  proof (cases "ses_epoch ?g \<le> nq")
    case True
    have "?es\<lparr>active_power := active_power ?es - ses_power ?g, faulty_power := faulty_power ?es + ses_power ?g\<rparr>
        = canon sz info (F \<union> ?A) on' early"
      using ga(1) True by (simp add: on'_def canon_fault [OF o(2,3) A F o(4)] group_acc_def o(1)) (simp add: canon_def)
    with run True show ?thesis by (auto simp: fault_group_def Let_def r_bind_eq_Inr)
  next
    case False
    have "canon sz info (F \<union> ?A) (on - ?A) early = canon sz info F (on - ?A) early"
      using A o(4) by (intro canon_cong) blast
    with False ga(1) have "?es\<lparr>on_time_sectors := on_time_sectors ?es - ?A, on_time_pledge := on_time_pledge ?es - ses_pledge ?g,
        active_power := active_power ?es - ses_power ?g, fee_deduction := fee_deduction ?es - ses_daily_fee ?g\<rparr>
        = canon sz info (F \<union> ?A) on' early"
      by (simp add: on'_def canon_minus [OF o(2,3) A F o(4)] group_acc_def o(1)) (simp add: canon_def)
    with run False bits show ?thesis by (auto simp: fault_group_def Let_def r_bind_eq_Inr converts_def)
  qed
  then have upd: "must_update_or_delete (ses_epoch ?g) (canon sz info (F \<union> ?A) on' early) q = Inr q'" by blast
  have "on' \<subseteq> on" by (auto simp: on'_def)
  then have fin: "finite on'" "on' \<inter> early = {}" using o finite_subset by blast+
  have acc: "es_acc sz info (F \<union> ?A) (canon sz info (F \<union> ?A) on' early)" using o fin by (auto simp: es_acc_canon)
  have ok: "es_ok (canon sz info (F \<union> ?A) on' early)" using val o fin by (simp add: es_ok_def)
  have other': "es_all b \<inter> F = es_all b \<inter> (F \<union> ?A) \<and> es_all b \<inter> es_all (canon sz info (F \<union> ?A) on' early) = {}"
    if "j \<noteq> nat (ses_epoch ?g)" "amt_get (eq_amt q) j = Some b" for j b
    using other [OF that] \<open>on' \<subseteq> on\<close> by auto
  have "q_acc sz info (F \<union> ?A) q'" by (rule must_update_or_delete_acc(1) [OF q upd ga(5) ok acc ga(3)]) (rule other')
  moreover have "eq_quant q' = eq_quant q" by (rule must_update_or_delete_acc(4) [OF q upd ga(5) ok acc ga(3)]) (rule other')
  moreover have "amt_get (eq_amt q') j = amt_get (eq_amt q) j" if "j \<noteq> nat (ses_epoch ?g)" for j
    by (rule must_update_or_delete_acc(3) [OF q upd ga(5) ok acc ga(3) _ that]) (rule other')
  moreover have "eq_sectors q' = eq_sectors q - es_all ?es \<union> es_all (canon sz info (F \<union> ?A) on' early)"
    by (rule must_update_or_delete_acc(2) [OF q upd ga(5) ok acc ga(3)]) (rule other')
  then have "eq_sectors q' = (if ses_epoch ?g \<le> nq then eq_sectors q else eq_sectors q - ?A)"
    using sub A o(4) by (auto simp: o(1) on'_def)
  moreover have "?A \<subseteq> eq_sectors q" using A sub by blast
  ultimately show ?thesis using val ga(1) by (auto simp: group_acc_def split: if_split_asm)
qed

lemma fault_groups_acc:
  assumes "converts bits" and "q_acc sz info F q" and "\<forall>g \<in> set gs. found_ok sz info q g"
    and "distinct (map g_epoch gs)" and "distinct (gs_nums gs)" and "set (gs_nums gs) \<inter> F = {}"
    and "r_fold (fault_group bits nq) gs ((nums, ex, rs, fee), q) = Inr ((nums', ex', rs', fee'), q')"
  shows "\<exists>L. set L \<subseteq> set (gs_nums gs) \<and> nums' = nums @ L \<and> q_acc sz info (F \<union> set (gs_nums gs)) q'
    \<and> eq_quant q' = eq_quant q \<and> set (gs_nums gs) \<subseteq> eq_sectors q \<and> eq_sectors q' = eq_sectors q - set L
    \<and> ex' + rs' = ex + rs + (\<Sum>n\<in>set (gs_nums gs). spower sz info n)
    \<and> rs' = rs + (\<Sum>n\<in>set L. spower sz info n) \<and> fee' = fee + (\<Sum>n\<in>set L. si_daily_fee (info n))"
  using assms(2-7)
proof (induction gs arbitrary: F q nums ex rs fee)
  case (Cons ge gs)
  let ?A = "g_nums ge" and ?B = "set (gs_nums gs)"
  obtain nums1 ex1 rs1 fee1 q1 where step: "fault_group bits nq ge ((nums, ex, rs, fee), q) = Inr ((nums1, ex1, rs1, fee1), q1)"
    and rest: "r_fold (fault_group bits nq) gs ((nums1, ex1, rs1, fee1), q1) = Inr ((nums', ex', rs', fee'), q')"
    using Cons.prems(6) by (auto simp: r_bind_eq_Inr)
  have F: "?A \<inter> F = {}" "?B \<inter> (F \<union> ?A) = {}" and d: "?A \<inter> ?B = {}" "distinct (gs_nums gs)"
    using Cons.prems(4,5) by auto
  note s = fault_group_acc [OF assms(1) Cons.prems(1) _ F(1) step]
  have ok: "found_ok sz info q ge" using Cons.prems(2) by simp
  have s1: "q_acc sz info (F \<union> ?A) q1" "eq_quant q1 = eq_quant q" "?A \<subseteq> eq_sectors q"
    "\<And>j. j \<noteq> nat (g_epoch ge) \<Longrightarrow> amt_get (eq_amt q1) j = amt_get (eq_amt q) j" using s [OF ok] by auto
  have "found_ok sz info q1 g" if "g \<in> set gs" for g
  proof -
    have "g_epoch g \<in> g_epoch ` set gs" using that by (rule imageI)
    moreover have "g_epoch ge \<notin> g_epoch ` set gs" using Cons.prems(3) by simp
    ultimately have ne: "g_epoch g \<noteq> g_epoch ge" by metis
    have fo: "found_ok sz info q g" using that Cons.prems(2) by simp
    from ne fo ok have "nat (g_epoch g) \<noteq> nat (g_epoch ge)" by (auto simp: found_ok_def)
    with fo show ?thesis using s1(2,4) by (auto simp: found_ok_def)
  qed
  then have found: "\<forall>g \<in> set gs. found_ok sz info q1 g" by blast
  obtain L where L: "set L \<subseteq> ?B" "nums' = nums1 @ L" "q_acc sz info (F \<union> ?A \<union> ?B) q'" "eq_quant q' = eq_quant q"
    "?B \<subseteq> eq_sectors q1" "eq_sectors q' = eq_sectors q1 - set L" "ex' + rs' = ex1 + rs1 + (\<Sum>n\<in>?B. spower sz info n)"
    "rs' = rs1 + (\<Sum>n\<in>set L. spower sz info n)" "fee' = fee1 + (\<Sum>n\<in>set L. si_daily_fee (info n))"
    using Cons.IH [OF s1(1) found _ d(2) F(2) rest] Cons.prems(3) s1(2) by auto
  have AB: "set (gs_nums (ge # gs)) = ?A \<union> ?B" by simp
  have sums: "(\<Sum>n\<in>?A \<union> C. f n) = (\<Sum>n\<in>?A. f n) + (\<Sum>n\<in>C. f n)" if "C \<subseteq> ?B" for C and f :: "nat \<Rightarrow> 'b::ab_group_add"
    using that d finite_subset by (intro sum_add_disjoint) blast+
  have FB: "F \<union> ?A \<union> ?B = F \<union> (?A \<union> ?B)" by blast
  show ?case
  proof (cases "g_epoch ge \<le> nq")
    case True
    with s [OF ok] have e: "eq_sectors q1 = eq_sectors q" "nums1 = nums" "ex1 = ex + (\<Sum>n\<in>?A. spower sz info n)" "rs1 = rs" "fee1 = fee" by auto
    from L e s1(3) show ?thesis unfolding AB sums [OF subset_refl] FB by (intro exI [of _ L]) (auto simp: algebra_simps)
  next
    case False
    with s [OF ok] have e: "eq_sectors q1 = eq_sectors q - ?A" "nums1 = nums @ ses_sectors (sector_epoch_set ge)" "ex1 = ex"
      "rs1 = rs + (\<Sum>n\<in>?A. spower sz info n)" "fee1 = fee + (\<Sum>n\<in>?A. si_daily_fee (info n))" by auto
    let ?L = "ses_sectors (sector_epoch_set ge) @ L"
    have "set ?L \<subseteq> ?A \<union> ?B" "set ?L = ?A \<union> set L" "eq_sectors q' = eq_sectors q - (?A \<union> set L)" "?A \<union> ?B \<subseteq> eq_sectors q"
      using L(1,5,6) e(1) s1(3) by auto
    with L e show ?thesis unfolding AB sums [OF subset_refl] FB
      by (intro exI [of _ ?L]) (auto simp: sums algebra_simps)
  qed
qed simp

lemma reschedule_as_faults_acc:
  assumes bits: "converts bits" and q: "q_acc sz info F q"
    and ss: "distinct (map sector_number ss)" "\<And>s. s \<in> set ss \<Longrightarrow> info (sector_number s) = s"
    and F: "sector_number ` set ss \<inter> F = {}" and run: "reschedule_as_faults bits e ss sz q = Inr (pw, q')"
  shows "q_acc sz info (F \<union> sector_number ` set ss) q' \<and> eq_sectors q' = eq_sectors q \<and> eq_quant q' = eq_quant q
    \<and> sector_number ` set ss \<subseteq> eq_sectors q \<and> pw = (\<Sum>n\<in>sector_number ` set ss. spower sz info n)"
proof -
  let ?N = "sector_number ` set ss"
  from run obtain gs nums ex rs fee q1 where gs: "find_sectors_by_expiration sz ss q = Inr gs"
    and fold: "r_fold (fault_group bits (quantize_up (eq_quant q) e)) gs (([], 0, 0, 0), q) = Inr ((nums, ex, rs, fee), q1)"
    and fin: "nums \<noteq> [] \<and> (\<exists>bf. bits nums = Inr bf \<and> eq_add e {} bf 0 rs 0 fee q1 = Inr q') \<or> nums = [] \<and> q' = q1"
    and pw: "pw = rs + ex"
    by (auto simp: reschedule_as_faults_def r_bind_eq_Inr split: if_split_asm)
  note f = find_sectors_acc [OF q ss gs]
  have N: "set (gs_nums gs) = ?N" using f by auto
  obtain L where L: "set L \<subseteq> ?N" "nums = L" "q_acc sz info (F \<union> ?N) q1" "eq_quant q1 = eq_quant q" "?N \<subseteq> eq_sectors q"
    "eq_sectors q1 = eq_sectors q - set L" "ex + rs = (\<Sum>n\<in>?N. spower sz info n)" "rs = (\<Sum>n\<in>set L. spower sz info n)"
    "fee = (\<Sum>n\<in>set L. si_daily_fee (info n))"
    using fault_groups_acc [OF bits q _ _ _ _ fold] f F unfolding N by auto
  from fin show ?thesis
  proof
    assume "nums \<noteq> [] \<and> (\<exists>bf. bits nums = Inr bf \<and> eq_add e {} bf 0 rs 0 fee q1 = Inr q')"
    then have add: "eq_add e {} (set L) 0 (\<Sum>n\<in>set L. spower sz info n) 0 (\<Sum>n\<in>set L. si_daily_fee (info n)) q1 = Inr q'"
      using bits L(2,8,9) by (auto simp: converts_def)
    have sub: "set L \<subseteq> F \<union> ?N" using L(1) by blast
    note a = eq_add_acc [OF L(3) add canon_early [OF sub]]
    have "q_acc sz info (F \<union> ?N) q'" "eq_sectors q' = eq_sectors q1 \<union> {} \<union> set L" "eq_quant q' = eq_quant q1"
      by (rule a; use sub L(6) in auto)+
    moreover have "eq_sectors q1 \<union> {} \<union> set L = eq_sectors q" using L(1,5,6) by blast
    ultimately show ?thesis using L pw by (simp add: add.commute)
  next
    assume "nums = [] \<and> q' = q1"
    with L pw show ?thesis by (simp add: add.commute)
  qed
qed

section \<open>Queues as lists of entries\<close>

definition l_secs :: "expiration_set amt \<Rightarrow> nat set" where
  "l_secs a = \<Union> (es_all ` snd ` set a)"

fun l_acc :: "int \<Rightarrow> (nat \<Rightarrow> sector_info) \<Rightarrow> nat set \<Rightarrow> expiration_set amt \<Rightarrow> bool" where
  "l_acc sz info F [] = True"
| "l_acc sz info F ((k, es) # a) = (es_acc sz info F es \<and> es_all es \<inter> l_secs a = {} \<and> l_acc sz info F a)"

lemma l_secs_simps [simp]: "l_secs [] = {}" "l_secs ((k, es) # a) = es_all es \<union> l_secs a"
  by (auto simp: l_secs_def)

lemma l_secs_mem: "n \<in> l_secs a \<longleftrightarrow> (\<exists>k es. (k, es) \<in> set a \<and> n \<in> es_all es)"
  unfolding l_secs_def by force

lemma l_acc_pairs:
  assumes "distinct (map fst a)"
  shows "l_acc sz info F a \<longleftrightarrow> (\<forall>k es. (k, es) \<in> set a \<longrightarrow> es_acc sz info F es)
    \<and> (\<forall>j k x y. (j, x) \<in> set a \<longrightarrow> (k, y) \<in> set a \<longrightarrow> j \<noteq> k \<longrightarrow> es_all x \<inter> es_all y = {})"
  using assms
proof (induction a)
  case (Cons p a)
  obtain k es where p: "p = (k, es)" by fastforce
  have k: "j \<noteq> k" if "(j, x) \<in> set a" for j x using that Cons.prems p by force
  have 1: "es_all es \<inter> l_secs a = {} \<longleftrightarrow> (\<forall>j x. (j, x) \<in> set a \<longrightarrow> es_all es \<inter> es_all x = {})"
    unfolding disjoint_iff l_secs_mem by blast
  have 2: "(\<forall>j i x y. (j, x) \<in> set (p # a) \<longrightarrow> (i, y) \<in> set (p # a) \<longrightarrow> j \<noteq> i \<longrightarrow> es_all x \<inter> es_all y = {})
    \<longleftrightarrow> (\<forall>j x. (j, x) \<in> set a \<longrightarrow> es_all es \<inter> es_all x = {})
      \<and> (\<forall>j i x y. (j, x) \<in> set a \<longrightarrow> (i, y) \<in> set a \<longrightarrow> j \<noteq> i \<longrightarrow> es_all x \<inter> es_all y = {})" (is "?L \<longleftrightarrow> ?R")
  proof
    assume L: ?L
    have "es_all es \<inter> es_all x = {}" if "(j, x) \<in> set a" for j x
      by (rule L [rule_format, of k _ j]) (use that k [OF that] p in auto)
    moreover have "es_all x \<inter> es_all y = {}" if "(j, x) \<in> set a" "(i, y) \<in> set a" "j \<noteq> i" for i j x y
      by (rule L [rule_format, of j _ i]) (use that in auto)
    ultimately show ?R by blast
  next
    assume R: ?R
    show ?L
    proof (intro allI impI)
      fix j i x y assume m: "(j, x) \<in> set (p # a)" "(i, y) \<in> set (p # a)" "j \<noteq> i"
      from m consider "x = es" "(i, y) \<in> set a" | "y = es" "(j, x) \<in> set a" | "(j, x) \<in> set a" "(i, y) \<in> set a" unfolding p by auto
      then show "es_all x \<inter> es_all y = {}"
        using R m(3) by cases blast+
    qed
  qed
  have 3: "(\<forall>j x. (j, x) \<in> set (p # a) \<longrightarrow> es_acc sz info F x) \<longleftrightarrow> es_acc sz info F es \<and> (\<forall>j x. (j, x) \<in> set a \<longrightarrow> es_acc sz info F x)"
    unfolding p by auto
  show ?case unfolding 2 3 using Cons.IH Cons.prems 1 unfolding p by simp blast
qed simp

lemma q_acc_list: "q_acc sz info F q \<longleftrightarrow> eq_ok q \<and> l_acc sz info F (eq_amt q)"
proof (cases "eq_ok q")
  case True
  then have ok: "amt_ok (eq_amt q)" by (simp add: eq_ok_def)
  then have "distinct (map fst (eq_amt q))" by (auto simp: amt_ok_def strict_sorted_iff)
  from l_acc_pairs [OF this] True show ?thesis
    unfolding q_acc_def amt_get_Some_mem [OF ok] by (simp only:)
qed (simp add: q_acc_def)

lemma eq_sectors_list: "eq_ok q \<Longrightarrow> eq_sectors q = l_secs (eq_amt q)"
  by (rule set_eqI) (simp add: eq_sectors_mem l_secs_mem eq_ok_def amt_get_Some_mem)

lemma l_acc_finite: "l_acc sz info F a \<Longrightarrow> finite (l_secs a)"
  by (induction a) (auto simp: es_acc_def)

lemma l_acc_cong: "l_acc sz info F a \<Longrightarrow> l_secs a \<inter> F = l_secs a \<inter> F' \<Longrightarrow> l_acc sz info F' a"
proof (induction a)
  case (Cons p a)
  obtain k es where p: "p = (k, es)" by fastforce
  have e: "es_acc sz info F es" using Cons.prems(1) p by simp
  have "es_all es \<inter> F = es_all es \<inter> F'" "l_secs a \<inter> F = l_secs a \<inter> F'" using Cons.prems(2) p by auto
  with Cons es_acc_cong [OF e] p show ?case by simp
qed simp

end
