(* ===== verification/QueueMoves.thy ===== *)
theory QueueMoves
  imports QueueAccounts
begin

text \<open>
  The operations of \<open>expiration_queue.rs\<close> that pop entries, move all sectors to their fault expiration,
  recover faulty sectors, and remove or replace sectors: what the entries hold afterwards, and the totals
  the operations report.
\<close>

section \<open>Popping entries and rescheduling all sectors\<close>

lemma l_secs_filter: "l_secs (filter P a) \<subseteq> l_secs a"
  unfolding l_secs_def by auto

lemma l_acc_filter: "l_acc sz info F a \<Longrightarrow> l_acc sz info F (filter P a)"
proof (induction a)
  case (Cons p a)
  obtain k es where p: "p = (k, es)" by fastforce
  with Cons l_secs_filter [of P a] show ?case by auto
qed simp

text \<open>The entries added up are the set of all their sectors.\<close>

lemma fold_join_acc:
  assumes "l_acc sz info F a" and "es_acc sz info F es" and "es_all es \<inter> l_secs a = {}"
  shows "es_acc sz info F (fold (\<lambda>(k, x) acc. es_join acc x) a es)
    \<and> es_all (fold (\<lambda>(k, x) acc. es_join acc x) a es) = es_all es \<union> l_secs a"
  using assms
proof (induction a arbitrary: es)
  case (Cons p a)
  obtain k x where p: "p = (k, x)" by fastforce
  from Cons.prems(2) obtain on early where e: "es = canon sz info F on early" "finite on" "finite early" "on \<inter> early = {}" "early \<subseteq> F"
    by (rule es_accE)
  have "es_acc sz info F x" using Cons.prems(1) p by simp
  then obtain on' early' where x: "x = canon sz info F on' early'" "finite on'" "finite early'" "on' \<inter> early' = {}" "early' \<subseteq> F"
    by (rule es_accE)
  have d: "(on \<union> early) \<inter> (on' \<union> early') = {}" using Cons.prems(3) p e(1) x(1) by auto
  have j: "es_join es x = canon sz info F (on \<union> on') (early \<union> early')"
    unfolding e(1) x(1) by (rule canon_join) (use e x d in auto)
  have acc: "es_acc sz info F (es_join es x)" unfolding j es_acc_canon using e(2-5) x(2-5) d by blast
  have "es_all (es_join es x) = es_all es \<union> es_all x" by (auto simp: es_join_def)
  with Cons.IH [OF _ acc] Cons.prems(1,3) p show ?case by auto
qed simp

lemma l_secs_split: "l_secs a = l_secs (filter P a) \<union> l_secs (filter (\<lambda>x. \<not> P x) a)"
  by (induction a) auto

lemma l_secs_disjoint: "l_acc sz info F a \<Longrightarrow> l_secs (filter P a) \<inter> l_secs (filter (\<lambda>x. \<not> P x) a) = {}"
proof (induction a)
  case (Cons p a)
  obtain k es where p: "p = (k, es)" by fastforce
  with Cons l_secs_filter [of P a] l_secs_filter [of "\<lambda>x. \<not> P x" a] show ?case by auto
qed simp

lemma es_acc_empty [simp]: "es_acc sz info F es_empty"
  by (simp add: es_empty_canon [of sz info F] es_acc_canon)

lemma eq_pop_until_acc:
  assumes q: "q_acc sz info F q" and pop: "eq_pop_until u q = (es, q')"
  shows "q_acc sz info F q' \<and> es_acc sz info F es \<and> es_all es \<subseteq> eq_sectors q \<and> eq_sectors q' = eq_sectors q - es_all es
    \<and> eq_quant q' = eq_quant q"
proof -
  have ok: "eq_ok q" by (rule q_accD(1) [OF q])
  note s = eq_pop_until_split [OF ok pop] and k = eq_pop_until_ok [OF ok pop]
  have l: "l_acc sz info F (eq_amt q)" using q by (simp add: q_acc_list)
  have late: "late u (eq_amt q) = filter (\<lambda>x. \<not> (case x of (k, es) \<Rightarrow> int k \<le> u)) (eq_amt q)"
    by (rule filter_cong) auto
  have f: "es_acc sz info F es \<and> es_all es = l_secs (due u (eq_amt q))"
    using fold_join_acc [OF l_acc_filter [OF l] es_acc_empty] by (simp add: s(1) es_empty_def)
  have "q_acc sz info F q'" using k l by (simp add: q_acc_list s(2) l_acc_filter)
  moreover have "eq_sectors q = l_secs (due u (eq_amt q)) \<union> l_secs (late u (eq_amt q))"
    unfolding eq_sectors_list [OF ok] late by (rule l_secs_split)
  moreover have "l_secs (due u (eq_amt q)) \<inter> l_secs (late u (eq_amt q)) = {}"
    unfolding late by (rule l_secs_disjoint [OF l])
  moreover have "eq_sectors q' = l_secs (late u (eq_amt q))" using eq_sectors_list [of q'] k s(2) by simp
  ultimately show ?thesis using f k by blast
qed

lemma faulted_acc:
  assumes "es_acc sz info F es" and "F \<union> es_all es \<subseteq> F'"
  shows "es_acc sz info F' (faulted es)"
proof -
  from assms(1) obtain on early where e: "es = canon sz info F on early" "finite on" "finite early" "on \<inter> early = {}" "early \<subseteq> F"
    by (rule es_accE)
  have F': "on \<subseteq> F'" "early \<subseteq> F'" using assms(2) by (auto simp: e(1))
  then have "on - F' = {}" "on \<inter> F' = on" by blast+
  then have "(\<Sum>n\<in>on - F'. spower sz info n) = 0" "on \<inter> F' = on" by (simp_all only: sum.empty)
  moreover have "(\<Sum>n\<in>on \<union> early. spower sz info n) = (\<Sum>n\<in>on \<inter> F \<union> early. spower sz info n) + (\<Sum>n\<in>on - F. spower sz info n)"
  proof -
    have "on \<union> early = (on \<inter> F \<union> early) \<union> (on - F)" by blast
    moreover have "(on \<inter> F \<union> early) \<inter> (on - F) = {}" using e(4) by blast
    ultimately show ?thesis using e(2,3) sum_add_disjoint [of "on \<inter> F \<union> early" "on - F" "spower sz info"] by simp
  qed
  ultimately have "faulted es = canon sz info F' on early"
    by (simp add: e(1) faulted_def canon_def)
  with e F' show ?thesis by (simp add: es_acc_canon)
qed

lemma l_acc_faulted:
  "l_acc sz info F a \<Longrightarrow> F \<union> l_secs a \<subseteq> F' \<Longrightarrow> l_acc sz info F' (map (\<lambda>(k, es). (k, faulted es)) a)
     \<and> l_secs (map (\<lambda>(k, es). (k, faulted es)) a) = l_secs a"
proof (induction a)
  case (Cons p a)
  obtain k es where p: "p = (k, es)" by fastforce
  have "es_acc sz info F' (faulted es)" using Cons.prems p by (intro faulted_acc [of sz info F]) auto
  moreover have "es_all (faulted es) = es_all es" by (simp add: faulted_def)
  ultimately show ?case using Cons p by simp
qed simp

text \<open>Adding to one entry commutes with deleting others.\<close>

lemma eq_add_batch_delete:
  assumes "eq_add e on early act flt pl fee q = Inr q'" and "amt_ok (eq_amt q)" and "nat (quantize_up (eq_quant q) e) \<notin> set ks"
  shows "eq_add e on early act flt pl fee (q\<lparr>eq_amt := amt_batch_delete ks (eq_amt q)\<rparr>) = Inr (q'\<lparr>eq_amt := amt_batch_delete ks (eq_amt q')\<rparr>)"
proof -
  let ?k = "nat (quantize_up (eq_quant q) e)"
  from assms(1) obtain es where es: "0 \<le> quantize_up (eq_quant q) e" "es = (case amt_get (eq_amt q) ?k of None \<Rightarrow> es_empty | Some x \<Rightarrow> x)"
    and add: "es_add on early pl act flt fee es = Inr (es_join es \<lparr>on_time_sectors = on, early_sectors = early,
      on_time_pledge = pl, active_power = act, faulty_power = flt, fee_deduction = fee\<rparr>)"
    and q': "q' = q\<lparr>eq_amt := amt_set ?k (es_join es \<lparr>on_time_sectors = on, early_sectors = early,
      on_time_pledge = pl, active_power = act, faulty_power = flt, fee_deduction = fee\<rparr>) (eq_amt q)\<rparr>" by (rule eq_add_Inr)
  have "amt_set ?k v (amt_batch_delete ks (eq_amt q)) = amt_batch_delete ks (amt_set ?k v (eq_amt q))" for v
    using assms(2,3) by (intro amt_ext) auto
  with es add assms(3) show ?thesis
    by (simp add: q' eq_add_def may_get_def must_update_def epoch_key_def Let_def)
qed

lemma reschedule_all_acc:
  assumes q: "q_acc sz info F q" and run: "reschedule_all_as_faults e q = Inr q'"
  shows "q_acc sz info (F \<union> eq_sectors q) q' \<and> eq_sectors q' = eq_sectors q \<and> eq_quant q' = eq_quant q"
proof -
  define n where "n = quantize_up (eq_quant q) e"
  let ?a = "eq_amt q" and ?F = "F \<union> eq_sectors q"
  have ok: "eq_ok q" "amt_ok ?a" by (rule q_accD [OF q])+
  have l: "l_acc sz info F ?a" using q by (simp add: q_acc_list)
  obtain q1 where get: "\<And>k. amt_get (eq_amt q1) k = (if n < int k then amt_get ?a k else map_option faulted (amt_get ?a k))"
    and q1: "eq_ok q1" "eq_quant q1 = eq_quant q"
    and early: "\<And>k es. (k, es) \<in> set (late n ?a) \<Longrightarrow> early_sectors es = {}"
    and last: "late n ?a = [] \<and> q' = q1 \<or> late n ?a \<noteq> [] \<and>
      (\<exists>q2. eq_add e {} (\<Union> (on_time_sectors ` snd ` set (late n ?a))) 0
          (amt_sum total_power (late n ?a)) 0 (amt_sum fee_deduction (late n ?a)) q1 = Inr q2
        \<and> q' = q2\<lparr>eq_amt := amt_batch_delete (map fst (late n ?a)) (eq_amt q2)\<rparr>)"
    using reschedule_first_pass [OF ok(1) run n_def, where f = "\<lambda>_. 0 :: int"] by blast
  define q0 where "q0 = q1\<lparr>eq_amt := amt_batch_delete (map fst (late n ?a)) (eq_amt q1)\<rparr>"
  have late_iff: "k \<in> set (map fst (late n ?a)) \<longleftrightarrow> n < int k \<and> amt_get ?a k \<noteq> None" for k
    using amt_get_Some_mem [OF ok(2)] by force
  have ok1: "amt_ok (eq_amt q1)" using q1(1) by (simp add: eq_ok_def)
  have soon_ok: "amt_ok (soon n ?a)" by (rule amt_ok_filter [OF ok(2)])
  have q0_amt: "eq_amt q0 = map (\<lambda>(k, es). (k, faulted es)) (soon n ?a)"
  proof (rule amt_ext)
    show "amt_ok (eq_amt q0)" using ok1 by (simp add: q0_def)
    show "amt_ok (map (\<lambda>(k, es). (k, faulted es)) (soon n ?a))"
      using soon_ok by (simp add: amt_ok_def case_prod_unfold o_def)
    have "amt_get (map (\<lambda>(k, es). (k, faulted es)) b) k = map_option faulted (amt_get b k)" for k and b :: "expiration_set amt"
      by (simp add: amt_get_def map_of_map)
    then show "amt_get (eq_amt q0) k = amt_get (map (\<lambda>(k, es). (k, faulted es)) (soon n ?a)) k" for k
      using late_iff [of k] get [of k] amt_get_filter [of "\<lambda>k. \<not> n < int k" ?a k] by (auto simp: q0_def)
  qed
  have okq0: "eq_ok q0" using q1(1) by (auto simp: q0_def eq_ok_def split: if_split_asm)
  have "F \<union> l_secs (soon n ?a) \<subseteq> ?F" by (auto simp: eq_sectors_list [OF ok(1)] l_secs_mem)
  from l_acc_faulted [OF l_acc_filter [OF l] this]
  have q0: "q_acc sz info ?F q0" "eq_sectors q0 = l_secs (soon n ?a)" "eq_quant q0 = eq_quant q"
    using okq0 by (simp_all add: q_acc_list q0_amt eq_sectors_list q1(2)) (simp add: q0_def q1(2))
  have parts: "eq_sectors q = l_secs (late n ?a) \<union> l_secs (soon n ?a)" "l_secs (late n ?a) \<inter> l_secs (soon n ?a) = {}"
    using l_secs_split [of ?a "\<lambda>(k, es). n < int k"] l_secs_disjoint [OF l, of "\<lambda>(k, es). n < int k"]
    by (simp_all add: eq_sectors_list [OF ok(1)] case_prod_unfold)
  define J where "J = fold (\<lambda>(k, x) acc. es_join acc x) (late n ?a) es_empty"
  have J: "es_acc sz info F J" "es_all J = l_secs (late n ?a)" "early_sectors J = {}"
    using fold_join_acc [OF l_acc_filter [OF l] es_acc_empty] early
    by (auto simp: J_def es_empty_def fold_join_sets)
  have on: "on_time_sectors J = \<Union> (on_time_sectors ` snd ` set (late n ?a))" by (simp add: J_def fold_join_sets es_empty_def)
  have sums: "total_power J = amt_sum total_power (late n ?a)" "fee_deduction J = amt_sum fee_deduction (late n ?a)"
    using fold_join_sum [of total_power "late n ?a" es_empty] fold_join_sum [of fee_deduction "late n ?a" es_empty]
    by (simp_all add: J_def es_join_def es_empty_def algebra_simps)
  from faulted_acc [OF J(1), of ?F] J(2) parts(1)
  have "es_acc sz info ?F (faulted J)" by auto
  then have fJ: "faulted J = canon sz info ?F (on_time_sectors J) {}" using J(3) by (auto simp: es_acc_def faulted_def)
  have onF: "on_time_sectors J \<subseteq> ?F" using J(2) parts(1) by auto
  have "faulty_power (faulted J) = (\<Sum>n\<in>on_time_sectors J. spower sz info n)"
    "fee_deduction (faulted J) = (\<Sum>n\<in>on_time_sectors J. si_daily_fee (info n))"
    unfolding fJ using onF by (simp_all add: canon_def Int_absorb2)
  then have amounts: "amt_sum total_power (late n ?a) = (\<Sum>n\<in>on_time_sectors J. spower sz info n)"
    "amt_sum fee_deduction (late n ?a) = (\<Sum>n\<in>on_time_sectors J. si_daily_fee (info n))"
    unfolding sums [symmetric] by (simp_all add: faulted_def add.commute)
  from last show ?thesis
  proof
    assume "late n ?a = [] \<and> q' = q1"
    then have "q' = q0" "l_secs (late n ?a) = {}" by (simp_all add: q0_def amt_batch_delete_def)
    with q0 parts show ?thesis by simp
  next
    assume "late n ?a \<noteq> [] \<and> (\<exists>q2. eq_add e {} (\<Union> (on_time_sectors ` snd ` set (late n ?a))) 0
        (amt_sum total_power (late n ?a)) 0 (amt_sum fee_deduction (late n ?a)) q1 = Inr q2
      \<and> q' = q2\<lparr>eq_amt := amt_batch_delete (map fst (late n ?a)) (eq_amt q2)\<rparr>)"
    then obtain q2 where add: "eq_add e {} (on_time_sectors J) 0 (\<Sum>n\<in>on_time_sectors J. spower sz info n) 0
        (\<Sum>n\<in>on_time_sectors J. si_daily_fee (info n)) q1 = Inr q2"
      and q': "q' = q2\<lparr>eq_amt := amt_batch_delete (map fst (late n ?a)) (eq_amt q2)\<rparr>"
      unfolding on amounts by blast
    from add have "0 \<le> n" by (rule eq_add_Inr) (simp add: n_def q1(2))
    then have "nat (quantize_up (eq_quant q1) e) \<notin> set (map fst (late n ?a))" unfolding late_iff by (simp add: q1(2) n_def)
    from eq_add_batch_delete [OF add ok1 this]
    have add0: "eq_add e {} (on_time_sectors J) 0 (\<Sum>n\<in>on_time_sectors J. spower sz info n) 0
        (\<Sum>n\<in>on_time_sectors J. si_daily_fee (info n)) q0 = Inr q'" unfolding q0_def q' .
    have fin: "finite (on_time_sectors J)" using J(1) by (simp add: es_acc_def)
    have new: "({} \<union> on_time_sectors J) \<inter> eq_sectors q0 = {}" using J(2) parts(2) q0(2) by auto
    have "q_acc sz info ?F q'" "eq_sectors q' = eq_sectors q0 \<union> {} \<union> on_time_sectors J" "eq_quant q' = eq_quant q0"
      by (rule eq_add_acc [OF q0(1) add0 canon_early [OF onF]]; use fin onF new in simp)+
    moreover have "eq_sectors q0 \<union> {} \<union> on_time_sectors J = eq_sectors q" using J(2,3) parts(1) q0(2) by auto
    ultimately show ?thesis using q0(3) by simp
  qed
qed

section \<open>Recovered sectors\<close>

lemma iter_entries_ConsE:
  assumes "iter_entries f ((j, es) # a) s = Inr ((a', em), s')"
  obtains (stop) es1 where "f (int j) es s = Inr ((False, es1), s')" "a' = (j, es1) # a" "em = (if es_is_empty es1 then [j] else [])"
  | (go) es1 s1 a1 em1 where "f (int j) es s = Inr ((True, es1), s1)" "iter_entries f a s1 = Inr ((a1, em1), s')"
      "a' = (j, es1) # a1" "em = (if es_is_empty es1 then [j] else []) @ em1"
proof -
  from assms obtain r where r: "f (int j) es s = Inr r" by (auto simp: r_bind_eq_Inr)
  obtain keep es1 s1 where rr: "r = ((keep, es1), s1)" by (metis prod.collapse)
  show thesis
  proof (cases keep)
    case True
    with assms r rr obtain a1 em1 where "iter_entries f a s1 = Inr ((a1, em1), s')" "a' = (j, es1) # a1"
      "em = (if es_is_empty es1 then [j] else []) @ em1" by (auto simp: r_bind_eq_Inr Let_def)
    with r rr True show thesis by (intro go) simp_all
  next
    case False
    with assms r rr stop show thesis by (simp add: Let_def)
  qed
qed

lemma iter_entries_emptied:
  "iter_entries f a s = Inr ((a', em), s') \<Longrightarrow> k \<in> set em \<Longrightarrow> \<exists>es. (k, es) \<in> set a' \<and> es_all es = {}"
proof (induction a arbitrary: s a' em s')
  case (Cons p a)
  obtain j es where p: "p = (j, es)" by fastforce
  from Cons.prems(1) [unfolded p] show ?case
  proof (cases rule: iter_entries_ConsE)
    case (stop es1)
    with Cons.prems(2) show ?thesis by (auto simp: es_is_empty_def split: if_split_asm)
  next
    case (go es1 s1 a1 em1)
    show ?thesis
    proof (cases "k \<in> set em1")
      case True
      with Cons.IH [OF go(2)] go(3) show ?thesis by auto
    next
      case False
      with Cons.prems(2) go(3,4) show ?thesis by (auto simp: es_is_empty_def split: if_split_asm)
    qed
  qed
qed simp

lemma iter_while_acc:
  assumes "iter_entries f (eq_amt q) s = Inr ((a, em), s')" and "l_acc sz info F a" and "map fst a = map fst (eq_amt q)"
    and "eq_ok q" and "q' = q\<lparr>eq_amt := amt_batch_delete em a\<rparr>" and "eq_ok q'"
  shows "q_acc sz info F q' \<and> eq_sectors q' = l_secs a \<and> eq_quant q' = eq_quant q"
proof -
  have ok: "amt_ok a" using assms(3,4) by (simp add: eq_ok_def amt_ok_def)
  have f: "eq_amt q' = filter (\<lambda>(k, v). k \<notin> set em) a" using assms(5) by (simp add: amt_batch_delete_filter)
  have "n \<in> l_secs (filter (\<lambda>(k, v). k \<notin> set em) a)" if n: "n \<in> l_secs a" for n
  proof -
    from n obtain k es where m: "(k, es) \<in> set a" "n \<in> es_all es" unfolding l_secs_mem by blast
    have "k \<notin> set em"
    proof
      assume "k \<in> set em"
      from iter_entries_emptied [OF assms(1) this] obtain es' where "(k, es') \<in> set a" "es_all es' = {}" by blast
      with m amt_get_Some_mem [OF ok] show False by (metis empty_iff option.inject)
    qed
    with m show ?thesis unfolding l_secs_mem by force
  qed
  with l_secs_filter [of _ a] have "l_secs (eq_amt q') = l_secs a" unfolding f by blast
  moreover have "l_acc sz info F (eq_amt q')" unfolding f by (rule l_acc_filter [OF assms(2)])
  moreover have "eq_quant q' = eq_quant q" using assms(5) by simp
  ultimately show ?thesis using assms(6) unfolding q_acc_list by (simp add: eq_sectors_list)
qed

definition rem_of :: "(nat \<Rightarrow> sector_info) \<Rightarrow> (nat, sector_info) map2 \<Rightarrow> nat set \<Rightarrow> bool" where
  "rem_of info rem R \<longleftrightarrow> (\<forall>n. map2_get rem n = (if n \<in> R then Some (info n) else None)) \<and> (\<forall>n \<in> R. sector_number (info n) = n)"

lemma rem_of_empty: "rem_of info rem R \<Longrightarrow> map2_is_empty rem \<longleftrightarrow> R = {}"
proof -
  assume "rem_of info rem R"
  then have "map2_get rem n = (if n \<in> R then Some (info n) else None)" for n by (simp add: rem_of_def)
  moreover have "map2_is_empty rem \<longleftrightarrow> (\<forall>n. map2_get rem n = None)"
    by (simp add: map2_is_empty_def map2_get_def) (metis map_of_eq_empty_iff ext)
  ultimately show ?thesis by auto
qed

lemma rem_of_take:
  assumes "rem_of info rem R" and "distinct ns"
    and "xs = List.map_filter (map2_get rem) ns"
  shows "xs = map info (filter (\<lambda>n. n \<in> R) ns)" and "map sector_number xs = filter (\<lambda>n. n \<in> R) ns"
    and "rem_of info (fold map2_remove (map sector_number xs) rem) (R - set ns)"
proof -
  have g: "map2_get rem = (\<lambda>n. if n \<in> R then Some (info n) else None)" and num: "\<And>n. n \<in> R \<Longrightarrow> sector_number (info n) = n"
    using assms(1) by (auto simp: rem_of_def)
  show xs: "xs = map info (filter (\<lambda>n. n \<in> R) ns)" unfolding assms(3) g by (induction ns) (auto simp: map_filter_simps)
  show nums: "map sector_number xs = filter (\<lambda>n. n \<in> R) ns" unfolding xs map_map using num by (intro map_idI) auto
  have "map2_get (fold map2_remove ks m) n = (if n \<in> set ks then None else map2_get m n)" for ks n and m :: "(nat, sector_info) map2"
    by (induction ks arbitrary: m) auto
  then show "rem_of info (fold map2_remove (map sector_number xs) rem) (R - set ns)"
    using num unfolding nums rem_of_def by (auto simp: g)
qed

lemma sum_map_info:
  "distinct ns \<Longrightarrow> sum_list (map f (map info (filter P ns))) = (\<Sum>n\<in>{n \<in> set ns. P n}. f (info n))"
  using sum_list_distinct_conv_sum_set [of "filter P ns" "\<lambda>n. f (info n)"] by (simp add: o_def)

lemma canon_recover:
  assumes "finite on" "finite early" and "on \<inter> early = {}" and "early \<subseteq> F" and "R \<subseteq> F"
  shows "canon sz info (F - R) on (early - R) =
    (canon sz info F on early)\<lparr>active_power := (\<Sum>n\<in>on - F. spower sz info n) + (\<Sum>n\<in>on \<inter> R. spower sz info n),
       faulty_power := (\<Sum>n\<in>on \<inter> F \<union> early. spower sz info n)
         - ((\<Sum>n\<in>on \<inter> R. spower sz info n) + (\<Sum>n\<in>early \<inter> R. spower sz info n)),
       fee_deduction := (\<Sum>n\<in>on \<union> early. si_daily_fee (info n)) - (\<Sum>n\<in>early \<inter> R. si_daily_fee (info n)),
       early_sectors := early - early \<inter> R\<rparr>"
proof -
  have 1: "on - (F - R) = (on - F) \<union> (on \<inter> R)" "on \<inter> (F - R) \<union> (early - R) = (on \<inter> F \<union> early) - (on \<inter> R \<union> early \<inter> R)"
    "on \<union> (early - R) = (on \<union> early) - early \<inter> R" "early - R = early - early \<inter> R"
    using assms by blast+
  have 2: "(on - F) \<inter> (on \<inter> R) = {}" "on \<inter> R \<union> early \<inter> R \<subseteq> on \<inter> F \<union> early" "(on \<inter> R) \<inter> (early \<inter> R) = {}" "early \<inter> R \<subseteq> on \<union> early"
    using assms by blast+
  have 3: "(\<Sum>n\<in>(on - F) \<union> (on \<inter> R). spower sz info n) = (\<Sum>n\<in>on - F. spower sz info n) + (\<Sum>n\<in>on \<inter> R. spower sz info n)"
    "(\<Sum>n\<in>on \<inter> R \<union> early \<inter> R. spower sz info n) = (\<Sum>n\<in>on \<inter> R. spower sz info n) + (\<Sum>n\<in>early \<inter> R. spower sz info n)"
    "(\<Sum>n\<in>(on \<inter> F \<union> early) - (on \<inter> R \<union> early \<inter> R). spower sz info n)
      = (\<Sum>n\<in>on \<inter> F \<union> early. spower sz info n) - (\<Sum>n\<in>on \<inter> R \<union> early \<inter> R. spower sz info n)"
    "(\<Sum>n\<in>(on \<union> early) - early \<inter> R. si_daily_fee (info n)) = (\<Sum>n\<in>on \<union> early. si_daily_fee (info n)) - (\<Sum>n\<in>early \<inter> R. si_daily_fee (info n))"
    by (intro sum_add_disjoint sum_diff; use assms(1,2) 2 in auto)+
  show ?thesis unfolding canon_def 1(1-3) 3 using 1(4) by simp
qed

lemma recover_entry_acc:
  assumes bits: "converts bits" and acc: "es_acc sz info F es" and rem: "rem_of info rem R" and RF: "R \<subseteq> F"
    and run: "recover_entry bits sz e es (rem, rs, rc) = Inr ((keep, es'), (rem', rs', rc'))"
  shows "es_acc sz info (F - R) es' \<and> es_all es' = es_all es - early_sectors es \<inter> R \<and> rem_of info rem' (R - es_all es)
    \<and> rs' = rs @ map info (sorted_list_of_set (early_sectors es \<inter> R)) \<and> rc' = rc + (\<Sum>n\<in>es_all es \<inter> R. spower sz info n)
    \<and> (keep \<longleftrightarrow> R - es_all es \<noteq> {})"
proof -
  from acc obtain on early where o: "es = canon sz info F on early" "finite on" "finite early" "on \<inter> early = {}" "early \<subseteq> F"
    by (rule es_accE)
  define xs where "xs = List.map_filter (map2_get rem) (sorted_list_of_set on)"
  define rem1 where "rem1 = fold map2_remove (map sector_number xs) rem"
  define ys where "ys = List.map_filter (map2_get rem1) (sorted_list_of_set early)"
  define rem2 where "rem2 = fold map2_remove (map sector_number ys) rem1"
  note x = rem_of_take [OF rem _ xs_def, folded rem1_def]
  have r1: "rem_of info rem1 (R - on)" using x(3) o(2) by simp
  note y = rem_of_take [OF r1 _ ys_def, folded rem2_def]
  have r2: "rem_of info rem2 (R - on - early)" using y(3) o(3) by simp
  have e1: "(\<lambda>n. n \<in> early \<and> n \<in> R - on) = (\<lambda>n. n \<in> early \<inter> R)" using o(4) by auto
  have ye: "map sector_number ys = sorted_list_of_set (early \<inter> R)"
  proof -
    have "map sector_number ys = filter (\<lambda>n. n \<in> R - on) (sorted_list_of_set early)" using y(2) o(3) by simp
    also have "\<dots> = sorted_list_of_set (early \<inter> R)"
      by (rule sorted_distinct_set_unique) (use o(3,4) in \<open>auto intro: sorted_wrt_filter\<close>)
    finally show ?thesis .
  qed
  have yi: "ys = map info (sorted_list_of_set (early \<inter> R))"
    using y(1,2) ye o(3) by simp
  have px: "sum_list (map f xs) = (\<Sum>n\<in>on \<inter> R. f (info n))" for f :: "sector_info \<Rightarrow> 'b::comm_monoid_add"
    using x(1) o(2) sum_map_info [of "sorted_list_of_set on" f info "\<lambda>n. n \<in> R"] by (simp add: Int_def)
  have py: "sum_list (map f ys) = (\<Sum>n\<in>early \<inter> R. f (info n))" for f :: "sector_info \<Rightarrow> 'b::comm_monoid_add"
    using yi o(3) sum_list_distinct_conv_sum_set [of "sorted_list_of_set (early \<inter> R)" "\<lambda>n. f (info n)"] by (simp add: o_def)
  have on_es: "on_time_sectors es = on" "early_sectors es = early" by (simp_all add: o(1))
  let ?px = "\<Sum>n\<in>on \<inter> R. spower sz info n" and ?py = "\<Sum>n\<in>early \<inter> R. spower sz info n" and ?fy = "\<Sum>n\<in>early \<inter> R. si_daily_fee (info n)"
  have "r_bind (if map sector_number ys \<noteq> [] \<or> - (?px + ?py) \<noteq> 0 \<or> ?px \<noteq> 0 then
        r_bind (bits (map sector_number ys)) (\<lambda>bf. Inr (es\<lparr>active_power := active_power es + ?px,
          faulty_power := faulty_power es + - (?px + ?py), fee_deduction := fee_deduction es + - ?fy, early_sectors := early - bf\<rparr>))
        else Inr es) (\<lambda>es'. r_bind (validate_state es') (\<lambda>_. Inr ((\<not> map2_is_empty rem2, es'), rem2, rs @ ys, rc + ?px + ?py)))
      = Inr ((keep, es'), (rem', rs', rc'))"
    using run unfolding recover_entry_def Let_def prod.case on_es
    unfolding xs_def [symmetric] unfolding rem1_def [symmetric] unfolding ys_def [symmetric] unfolding rem2_def [symmetric] px py .
  then obtain es1 where es1: "(if map sector_number ys \<noteq> [] \<or> - (?px + ?py) \<noteq> 0 \<or> ?px \<noteq> 0 then
        r_bind (bits (map sector_number ys)) (\<lambda>bf. Inr (es\<lparr>active_power := active_power es + ?px,
          faulty_power := faulty_power es + - (?px + ?py), fee_deduction := fee_deduction es + - ?fy, early_sectors := early - bf\<rparr>))
        else Inr es) = Inr es1" and "r_bind (validate_state es1) (\<lambda>_. Inr ((\<not> map2_is_empty rem2, es1), rem2, rs @ ys, rc + ?px + ?py))
      = Inr ((keep, es'), (rem', rs', rc'))" by (rule r_bindE)
  then have out: "es' = es1" "keep = (\<not> map2_is_empty rem2)" "rem' = rem2" "rs' = rs @ ys" "rc' = rc + ?px + ?py"
    by (auto simp: r_bind_eq_Inr)
  have fin: "finite (early \<inter> R)" using o(3) by simp
  have "es' = canon sz info (F - R) on (early - R)"
  proof (cases "map sector_number ys \<noteq> [] \<or> - (?px + ?py) \<noteq> 0 \<or> ?px \<noteq> 0")
    case True
    with es1 obtain bf where "bits (map sector_number ys) = Inr bf" and e: "es1 = es\<lparr>active_power := active_power es + ?px,
          faulty_power := faulty_power es + - (?px + ?py), fee_deduction := fee_deduction es + - ?fy, early_sectors := early - bf\<rparr>"
      by (auto simp: r_bind_eq_Inr)
    then have "bf = set (sorted_list_of_set (early \<inter> R))" using bits unfolding ye converts_def by blast
    then have "bf = early \<inter> R" using fin by simp
    then show ?thesis unfolding out e canon_recover [OF o(2-5) RF] o(1) by (simp add: canon_def)
  next
    case False
    then have "early \<inter> R = {}" "?px = 0" using ye fin by auto
    moreover have "es1 = canon sz info F on early" using es1 False o(1) by auto
    ultimately show ?thesis unfolding out canon_recover [OF o(2-5) RF] by (simp add: canon_def)
  qed
  then have es': "es' = canon sz info (F - R) on (early - R)" .
  have pw: "(\<Sum>n\<in>(on \<union> early) \<inter> R. spower sz info n) = ?px + ?py"
    unfolding Int_Un_distrib2 by (rule sum_add_disjoint) (use o(2-4) in auto)
  have "es_acc sz info (F - R) es'" unfolding es' es_acc_canon using o(2-5) by blast
  moreover have "es_all es' = es_all es - early_sectors es \<inter> R" unfolding es' canon_sets on_es using o(4) by blast
  moreover have rest: "R - on - early = R - (on \<union> early)" by blast
  then have "rem_of info rem' (R - es_all es)" using r2 unfolding out(3) on_es by simp
  moreover have "keep \<longleftrightarrow> R - es_all es \<noteq> {}" using rem_of_empty [OF r2] unfolding out(2) on_es rest by simp
  ultimately show ?thesis unfolding out(4,5) on_es yi pw add.assoc by blast
qed

lemma iter_recover_acc:
  assumes bits: "converts bits" and "l_acc sz info F a" and "rem_of info rem R" and "R \<subseteq> F"
    and "iter_entries (recover_entry bits sz) a (rem, rs, rc) = Inr ((a', em), (rem', rs', rc'))"
  shows "\<exists>ns. l_acc sz info (F - R) a' \<and> map fst a' = map fst a \<and> set ns \<subseteq> R \<inter> l_secs a \<and> distinct ns \<and> l_secs a' = l_secs a - set ns
    \<and> rs' = rs @ map info ns \<and> rem_of info rem' (R - l_secs a) \<and> rc' = rc + (\<Sum>n\<in>l_secs a \<inter> R. spower sz info n)"
  using assms(2-5)
proof (induction a arbitrary: rem R rs rc a' em)
  case (Cons p a)
  obtain k es where p: "p = (k, es)" by fastforce
  let ?E = "sorted_list_of_set (early_sectors es \<inter> R)"
  have acc: "es_acc sz info F es" and d: "es_all es \<inter> l_secs a = {}" and la: "l_acc sz info F a" using Cons.prems(1) p by simp_all
  have fin: "finite (es_all es)" "finite (l_secs a)" using acc l_acc_finite [OF la] by (auto simp: es_acc_def)
  have E: "set ?E = early_sectors es \<inter> R" "distinct ?E" using fin by auto
  from Cons.prems(4) [unfolded p] show ?case
  proof (cases rule: iter_entries_ConsE)
    case (stop es1)
    note s = recover_entry_acc [OF bits acc Cons.prems(2,3) stop(1)]
    have none: "R - es_all es = {}" using s by blast
    then have "l_acc sz info (F - R) a" using d by (intro l_acc_cong [OF la]) blast
    moreover have "l_secs (p # a) \<inter> R = es_all es \<inter> R" "R - l_secs (p # a) = R - es_all es" using none d p by auto
    moreover have "l_secs a' = l_secs (p # a) - set ?E" using s stop(2) d p E by auto
    ultimately show ?thesis using s stop(2) d p E by (intro exI [of _ ?E]) auto
  next
    case (go es1 s1 a1 em1)
    obtain rem1 rs1 rc1 where s1: "s1 = (rem1, rs1, rc1)" by (cases s1)
    note s = recover_entry_acc [OF bits acc Cons.prems(2,3) go(1) [unfolded s1]]
    have r1: "rem_of info rem1 (R - es_all es)" using s by blast
    have "R - es_all es \<subseteq> F" using Cons.prems(3) by blast
    from Cons.IH [OF la r1 this go(2) [unfolded s1]] obtain ns where
      ns: "l_acc sz info (F - (R - es_all es)) a1" "map fst a1 = map fst a" "set ns \<subseteq> (R - es_all es) \<inter> l_secs a" "distinct ns"
        "l_secs a1 = l_secs a - set ns" "rs' = rs1 @ map info ns" "rem_of info rem' (R - es_all es - l_secs a)"
        "rc' = rc1 + (\<Sum>n\<in>l_secs a \<inter> (R - es_all es). spower sz info n)" by blast
    have "l_acc sz info (F - R) a1" using d ns(5) by (intro l_acc_cong [OF ns(1)]) blast
    moreover have "(\<Sum>n\<in>l_secs (p # a) \<inter> R. spower sz info n)
        = (\<Sum>n\<in>es_all es \<inter> R. spower sz info n) + (\<Sum>n\<in>l_secs a \<inter> (R - es_all es). spower sz info n)"
    proof -
      have "l_secs (p # a) \<inter> R = es_all es \<inter> R \<union> l_secs a \<inter> (R - es_all es)" using p by auto
      then show ?thesis using fin by (simp only:) (rule sum_add_disjoint; auto)
    qed
    moreover have "R - es_all es - l_secs a = R - l_secs (p # a)" using p by auto
    moreover have "l_secs a' = l_secs (p # a) - set (?E @ ns)" using s go(3) d p E ns(3,5) by auto
    moreover have "es_all es1 \<inter> l_secs a1 = {}" using s ns(5) d by blast
    moreover have "set (?E @ ns) \<subseteq> R \<inter> l_secs (p # a)" "distinct (?E @ ns)" using E ns(3,4) p by auto
    ultimately show ?thesis using s go(3) p ns(2,6-8) by (intro exI [of _ "?E @ ns"]) (simp add: add.assoc)
  qed
qed simp

lemma by_number_rem:
  assumes "distinct (map sector_number ss)" and "\<And>s. s \<in> set ss \<Longrightarrow> info (sector_number s) = s"
  shows "rem_of info (fold (\<lambda>s m. map2_put (sector_number s) s m) ss map2_empty) (sector_number ` set ss)"
proof -
  have "map2_get (fold (\<lambda>s m. map2_put (sector_number s) s m) ss m0) n
      = (if n \<in> sector_number ` set ss then Some (info n) else map2_get m0 n)" for m0 n
    using assms(2) by (induction ss arbitrary: m0) auto
  with assms(2) show ?thesis by (auto simp: rem_of_def)
qed

lemma reschedule_recovered_acc:
  assumes bits: "converts bits" and q: "q_acc sz info F q"
    and ss: "distinct (map sector_number ss)" "\<And>s. s \<in> set ss \<Longrightarrow> info (sector_number s) = s"
    and F: "sector_number ` set ss \<subseteq> F" and run: "reschedule_recovered bits ss sz q = Inr (pw, q')"
  shows "q_acc sz info (F - sector_number ` set ss) q' \<and> eq_sectors q' = eq_sectors q \<and> eq_quant q' = eq_quant q
    \<and> sector_number ` set ss \<subseteq> eq_sectors q \<and> pw = (\<Sum>n\<in>sector_number ` set ss. spower sz info n)"
proof -
  let ?N = "sector_number ` set ss" and ?rem = "fold (\<lambda>s m. map2_put (sector_number s) s m) ss map2_empty"
  from run obtain rem' rs q1 t where it: "iter_while_mut (recover_entry bits sz) (?rem, [], 0) q = Inr ((rem', rs, pw), q1)"
    and none_left: "map2_is_empty rem'" and add: "add_active_sectors bits rs sz q1 = Inr (t, q')"
    by (auto simp: reschedule_recovered_def r_bind_eq_Inr Let_def split: if_split_asm)
  from it obtain a em where ie: "iter_entries (recover_entry bits sz) (eq_amt q) (?rem, [], 0) = Inr ((a, em), (rem', rs, pw))"
    and q1: "q1 = q\<lparr>eq_amt := amt_batch_delete em a\<rparr>" by (auto simp: iter_while_mut_def r_bind_eq_Inr)
  have ok: "eq_ok q" by (rule q_accD(1) [OF q])
  have l: "l_acc sz info F (eq_amt q)" using q by (simp add: q_acc_list)
  have ok1: "eq_ok q1" by (rule conjunct1 [OF iter_while_mut_ok [OF _ ok it]]) (rule recover_entry_ok)
  obtain ns where ns: "l_acc sz info (F - ?N) a" "map fst a = map fst (eq_amt q)" "set ns \<subseteq> ?N \<inter> eq_sectors q" "distinct ns"
    "l_secs a = eq_sectors q - set ns" "rs = map info ns" "rem_of info rem' (?N - eq_sectors q)"
    "pw = (\<Sum>n\<in>eq_sectors q \<inter> ?N. spower sz info n)"
    using iter_recover_acc [OF bits l by_number_rem [OF ss] F ie, folded eq_sectors_list [OF ok], unfolded append_Nil add_0] by blast
  have all: "?N \<subseteq> eq_sectors q" using rem_of_empty [OF ns(7)] none_left by blast
  have i: "q_acc sz info (F - ?N) q1" "eq_sectors q1 = eq_sectors q - set ns" "eq_quant q1 = eq_quant q"
    using iter_while_acc [OF ie ns(1,2) ok q1 ok1] ns(5) by auto
  have num: "sector_number (info n) = n" if "n \<in> ?N" for n using that ss(2) by auto
  have nums: "map sector_number rs = ns" unfolding ns(6) map_map using ns(3) num by (intro map_idI) auto
  have rs: "distinct (map sector_number rs)" unfolding nums by (rule ns(4))
  have rs_info: "info (sector_number s) = s" if "s \<in> set rs" for s using that ns(3) num unfolding ns(6) by auto
  have rs_set: "sector_number ` set rs = set ns" using nums by (metis list.set_map)
  obtain N' p' pl' f' where t: "t = (N', p', pl', f')" by (cases t)
  have "sector_number ` set rs \<inter> (eq_sectors q1 \<union> (F - ?N)) = {}" unfolding rs_set i(2) using ns(3) by blast
  from add_active_acc [OF bits i(1) rs rs_info this add [unfolded t]]
  have "q_acc sz info (F - ?N) q'" "eq_sectors q' = eq_sectors q1 \<union> set ns" "eq_quant q' = eq_quant q1" unfolding rs_set by auto
  moreover have "eq_sectors q1 \<union> set ns = eq_sectors q" "eq_sectors q \<inter> ?N = ?N" using i(2) ns(3) all by auto
  ultimately show ?thesis using i(3) all ns(8) by simp
qed

section \<open>Removing sectors, faulty or not\<close>

text \<open>One faulty sector more or less in a set.\<close>

lemma canon_drop:
  assumes "finite on" "finite early" "on \<inter> early = {}" and "n \<in> F"
  shows "n \<in> on \<Longrightarrow> canon sz info F (on - {n}) early = (canon sz info F on early)\<lparr>on_time_sectors := on - {n},
       on_time_pledge := on_time_pledge (canon sz info F on early) - si_initial_pledge (info n),
       faulty_power := faulty_power (canon sz info F on early) - spower sz info n,
       fee_deduction := fee_deduction (canon sz info F on early) - si_daily_fee (info n)\<rparr>"
    and "n \<in> early \<Longrightarrow> canon sz info F on (early - {n}) = (canon sz info F on early)\<lparr>early_sectors := early - {n},
       faulty_power := faulty_power (canon sz info F on early) - spower sz info n,
       fee_deduction := fee_deduction (canon sz info F on early) - si_daily_fee (info n)\<rparr>"
proof -
  have minus: "(\<Sum>m\<in>A - {n}. f m) = (\<Sum>m\<in>A. f m) - f n" if "n \<in> A" "finite A" for A and f :: "nat \<Rightarrow> 'b::ab_group_add"
    using that by (simp add: sum_diff1)
  show "canon sz info F (on - {n}) early = (canon sz info F on early)\<lparr>on_time_sectors := on - {n},
       on_time_pledge := on_time_pledge (canon sz info F on early) - si_initial_pledge (info n),
       faulty_power := faulty_power (canon sz info F on early) - spower sz info n,
       fee_deduction := fee_deduction (canon sz info F on early) - si_daily_fee (info n)\<rparr>" if "n \<in> on"
  proof -
    have "on - {n} - F = on - F" "(on - {n}) \<inter> F \<union> early = (on \<inter> F \<union> early) - {n}" "on - {n} \<union> early = (on \<union> early) - {n}"
      "n \<in> on \<inter> F \<union> early" "n \<in> on \<union> early" using that assms(3,4) by blast+
    with that assms(1,2) show ?thesis by (simp add: canon_def minus)
  qed
  show "canon sz info F on (early - {n}) = (canon sz info F on early)\<lparr>early_sectors := early - {n},
       faulty_power := faulty_power (canon sz info F on early) - spower sz info n,
       fee_deduction := fee_deduction (canon sz info F on early) - si_daily_fee (info n)\<rparr>" if "n \<in> early"
  proof -
    have "on \<inter> F \<union> (early - {n}) = (on \<inter> F \<union> early) - {n}" "on \<union> (early - {n}) = (on \<union> early) - {n}"
      "n \<in> on \<inter> F \<union> early" "n \<in> on \<union> early" using that assms(3,4) by blast+
    with that assms(1,2) show ?thesis by (simp add: canon_def minus)
  qed
qed

lemma canon_insert:
  assumes "finite on" "finite early" and "n \<in> F" "n \<notin> on" "n \<notin> early"
  shows "canon sz info F (insert n on) early = (canon sz info F on early)\<lparr>on_time_sectors := insert n on,
       on_time_pledge := on_time_pledge (canon sz info F on early) + si_initial_pledge (info n),
       faulty_power := faulty_power (canon sz info F on early) + spower sz info n,
       fee_deduction := fee_deduction (canon sz info F on early) + si_daily_fee (info n)\<rparr>"
    and "canon sz info F on (insert n early) = (canon sz info F on early)\<lparr>early_sectors := insert n early,
       faulty_power := faulty_power (canon sz info F on early) + spower sz info n,
       fee_deduction := fee_deduction (canon sz info F on early) + si_daily_fee (info n)\<rparr>"
proof -
  have "insert n on - F = on - F" "insert n on \<inter> F \<union> early = insert n (on \<inter> F \<union> early)" "on \<inter> F \<union> insert n early = insert n (on \<inter> F \<union> early)"
    "on \<union> insert n early = insert n (on \<union> early)" "n \<notin> on \<inter> F \<union> early" "n \<notin> on \<union> early" using assms by blast+
  with assms show "canon sz info F (insert n on) early = (canon sz info F on early)\<lparr>on_time_sectors := insert n on,
       on_time_pledge := on_time_pledge (canon sz info F on early) + si_initial_pledge (info n),
       faulty_power := faulty_power (canon sz info F on early) + spower sz info n,
       fee_deduction := fee_deduction (canon sz info F on early) + si_daily_fee (info n)\<rparr>"
    "canon sz info F on (insert n early) = (canon sz info F on early)\<lparr>early_sectors := insert n early,
       faulty_power := faulty_power (canon sz info F on early) + spower sz info n,
       fee_deduction := fee_deduction (canon sz info F on early) + si_daily_fee (info n)\<rparr>"
    by (simp_all add: canon_def add.commute)
qed

text \<open>The state of the loop over the faulty sectors after those of \<open>M\<close>.\<close>

definition removal ::
  "int \<Rightarrow> (nat \<Rightarrow> sector_info) \<Rightarrow> nat set \<Rightarrow> nat set \<Rightarrow> nat set \<Rightarrow> nat set \<Rightarrow> expiration_set \<times> power_pair \<times> nat set \<Rightarrow> nat set \<Rightarrow> remove_acc" where
  "removal sz info F rec on early init M = (case init of (removed, pw, R) \<Rightarrow>
     (canon sz info F (on - M) (early - M), es_join removed (canon sz info F (on \<inter> M) (early \<inter> M)),
      pw + (\<Sum>n\<in>(on \<union> early) \<inter> M \<inter> rec. spower sz info n), R - (on \<union> early) \<inter> M))"

lemma remove_faulty_acc:
  assumes fin: "finite on" "finite early" and d: "on \<inter> early = {}" and n: "sector_number s = n" "info n = s" "n \<in> F" "n \<notin> M"
  shows "remove_faulty F rec on early sz s (removal sz info F rec on early init M) = removal sz info F rec on early init (insert n M)"
proof -
  obtain removed pw R where init: "init = (removed, pw, R)" by (cases init)
  have fin': "finite (on - M)" "finite (early - M)" "finite (on \<inter> M)" "finite (early \<inter> M)" "finite ((on \<union> early) \<inter> M \<inter> rec)"
    "(on - M) \<inter> (early - M) = {}" "n \<notin> on \<inter> M" "n \<notin> early \<inter> M" using fin d n by auto
  have s: "si_initial_pledge s = si_initial_pledge (info n)" "si_daily_fee s = si_daily_fee (info n)" "power_for_sector sz s = spower sz info n"
    using n by simp_all
  have sum: "(\<Sum>m\<in>(on \<union> early) \<inter> insert n M \<inter> rec. spower sz info m)
      = (\<Sum>m\<in>(on \<union> early) \<inter> M \<inter> rec. spower sz info m) + (if n \<in> rec then spower sz info n else 0)" if "n \<in> on \<union> early"
  proof (cases "n \<in> rec")
    case True
    then have "(on \<union> early) \<inter> insert n M \<inter> rec = insert n ((on \<union> early) \<inter> M \<inter> rec)" using that by blast
    with True fin' n(4) show ?thesis by (simp add: add.commute)
  next
    case False
    then have "(on \<union> early) \<inter> insert n M \<inter> rec = (on \<union> early) \<inter> M \<inter> rec" by blast
    with False show ?thesis by simp
  qed
  have R: "R - (on \<union> early) \<inter> insert n M = R - (on \<union> early) \<inter> M - {n}" if "n \<in> on \<union> early" using that by blast
  consider (on) "n \<in> on" "n \<notin> early" | (early) "n \<notin> on" "n \<in> early" | (none) "n \<notin> on" "n \<notin> early" using d by blast
  then show ?thesis
  proof cases
    case on
    then have "on - insert n M = (on - M) - {n}" "early - insert n M = early - M" "on \<inter> insert n M = insert n (on \<inter> M)"
      "early \<inter> insert n M = early \<inter> M" "n \<in> on - M" "n \<in> on \<union> early" using n by blast+
    then show ?thesis using on n(1,3) fin' unfolding removal_def init prod.case sum [OF \<open>n \<in> on \<union> early\<close>] R [OF \<open>n \<in> on \<union> early\<close>]
      by (simp add: remove_faulty_def Let_def s canon_drop(1) canon_insert(1) es_join_def add.assoc)
  next
    case early
    then have "early - insert n M = (early - M) - {n}" "on - insert n M = on - M" "early \<inter> insert n M = insert n (early \<inter> M)"
      "on \<inter> insert n M = on \<inter> M" "n \<in> early - M" "n \<in> on \<union> early" using n by blast+
    then show ?thesis using early n(1,3) fin' unfolding removal_def init prod.case sum [OF \<open>n \<in> on \<union> early\<close>] R [OF \<open>n \<in> on \<union> early\<close>]
      by (simp add: remove_faulty_def Let_def s canon_drop(2) canon_insert(2) es_join_def add.assoc)
  next
    case none
    then have "on - insert n M = on - M" "early - insert n M = early - M" "on \<inter> insert n M = on \<inter> M" "early \<inter> insert n M = early \<inter> M"
      "(on \<union> early) \<inter> insert n M = (on \<union> early) \<inter> M" by blast+
    with none n(1) show ?thesis by (simp add: removal_def remove_faulty_def init Let_def)
  qed
qed

lemma fold_remove_acc:
  assumes fin: "finite on" "finite early" and d: "on \<inter> early = {}"
    and ss: "distinct (map sector_number ss)" "\<And>s. s \<in> set ss \<Longrightarrow> info (sector_number s) = s"
    and F: "sector_number ` set ss \<subseteq> F" and M: "sector_number ` set ss \<inter> M = {}"
  shows "fold (remove_faulty F rec on early sz) ss (removal sz info F rec on early init M)
    = removal sz info F rec on early init (M \<union> sector_number ` set ss)"
  using ss F M
proof (induction ss arbitrary: M)
  case (Cons s ss)
  have s: "remove_faulty F rec on early sz s (removal sz info F rec on early init M)
      = removal sz info F rec on early init (insert (sector_number s) M)"
    by (rule remove_faulty_acc [OF fin d refl]) (use Cons.prems in auto)
  have "sector_number ` set ss \<inter> insert (sector_number s) M = {}" using Cons.prems(1,4) by auto
  from Cons.IH [OF _ _ _ this] Cons.prems have "fold (remove_faulty F rec on early sz) ss (removal sz info F rec on early init (insert (sector_number s) M))
      = removal sz info F rec on early init (insert (sector_number s) M \<union> sector_number ` set ss)" by auto
  with s show ?case by simp
qed simp

lemma remove_entry_acc:
  assumes acc: "es_acc sz info F es"
    and ss: "distinct (map sector_number ss)" "\<And>s. s \<in> set ss \<Longrightarrow> info (sector_number s) = s" "sector_number ` set ss \<subseteq> F"
    and N: "N = sector_number ` set ss"
    and run: "remove_entry F rec ss sz e es (removed, pw, R) = Inr ((keep, es'), (removed', pw', R'))"
  shows "es' = canon sz info F (on_time_sectors es - N) (early_sectors es - N)
    \<and> removed' = es_join removed (canon sz info F (on_time_sectors es \<inter> N) (early_sectors es \<inter> N))
    \<and> pw' = pw + (\<Sum>n\<in>es_all es \<inter> N \<inter> rec. spower sz info n) \<and> R' = R - es_all es \<inter> N \<and> (keep \<longleftrightarrow> R' \<noteq> {})"
proof -
  let ?on = "on_time_sectors es" and ?early = "early_sectors es"
  have o: "finite ?on" "finite ?early" "?on \<inter> ?early = {}" "es = canon sz info F ?on ?early"
    using acc by (auto simp: es_acc_def)
  have zero: "es_join removed (canon sz info F {} {}) = removed" by (simp add: es_join_def canon_def)
  have "(es, (removed, pw, R)) = removal sz info F rec ?on ?early (removed, pw, R) {}"
    using o(4) by (simp add: removal_def zero)
  then have "fold (remove_faulty F rec ?on ?early sz) ss (es, (removed, pw, R))
      = removal sz info F rec ?on ?early (removed, pw, R) N"
    using fold_remove_acc [OF o(1-3) ss, of "{}"] by (simp add: N)
  with run show ?thesis
    by (auto simp: remove_entry_def removal_def r_bind_eq_Inr split: if_split_asm)
qed

lemma iter_remove_acc:
  assumes ss: "distinct (map sector_number ss)" "\<And>s. s \<in> set ss \<Longrightarrow> info (sector_number s) = s" "sector_number ` set ss \<subseteq> F"
    and N: "N = sector_number ` set ss"
    and "l_acc sz info F a" and "R \<inter> l_secs a = N \<inter> l_secs a"
    and "iter_entries (remove_entry F rec ss sz) a (removed, pw, R) = Inr ((a', em), (removed', pw', R'))"
  shows "\<exists>on early. l_acc sz info F a' \<and> map fst a' = map fst a \<and> l_secs a' = l_secs a - N
    \<and> on \<union> early = N \<inter> l_secs a \<and> on \<inter> early = {} \<and> removed' = es_join removed (canon sz info F on early)
    \<and> pw' = pw + (\<Sum>n\<in>l_secs a \<inter> N \<inter> rec. spower sz info n) \<and> R' = R - l_secs a"
  using assms(5-7)
proof (induction a arbitrary: removed pw R a' em)
  case Nil
  have "es_join removed (canon sz info F {} {}) = removed" by (simp add: es_join_def canon_def)
  with Nil show ?case by (intro exI [of _ "{}"]) auto
next
  case (Cons p a)
  obtain k es where p: "p = (k, es)" by fastforce
  let ?on = "on_time_sectors es" and ?early = "early_sectors es"
  have acc: "es_acc sz info F es" and d: "es_all es \<inter> l_secs a = {}" and la: "l_acc sz info F a" using Cons.prems(1) p by simp_all
  have o: "finite ?on" "finite ?early" "?on \<inter> ?early = {}" "?early \<subseteq> F" using acc by (auto simp: es_acc_def)
  have fin: "finite (l_secs a)" by (rule l_acc_finite [OF la])
  have RN: "R \<inter> es_all es = N \<inter> es_all es" "R \<inter> l_secs a = N \<inter> l_secs a" using Cons.prems(2) p by auto
  have acc': "es_acc sz info F (canon sz info F (?on - N) (?early - N))" using o by (auto simp: es_acc_canon)
  from Cons.prems(3) [unfolded p] show ?case
  proof (cases rule: iter_entries_ConsE)
    case (stop es1)
    note s = remove_entry_acc [OF acc ss N stop(1)]
    have "R - es_all es \<inter> N = {}" using s by blast
    then have none: "N \<inter> l_secs a = {}" "R - es_all es \<inter> N = R - l_secs (p # a)" using RN d p by auto
    have "l_secs (p # a) \<inter> N \<inter> rec = es_all es \<inter> N \<inter> rec" "(?on \<inter> N) \<union> (?early \<inter> N) = N \<inter> l_secs (p # a)"
      "?on - N \<union> (?early - N) \<union> l_secs a = l_secs (p # a) - N" "(?on \<inter> N) \<inter> (?early \<inter> N) = {}"
      "(?on - N \<union> (?early - N)) \<inter> l_secs a = {}"
      using none(1) p o(3) d by auto
    with s none(2) stop(2) p acc' la show ?thesis
      by (intro exI [of _ "?on \<inter> N"] exI [of _ "?early \<inter> N"]) simp
  next
    case (go es1 s1 a1 em1)
    obtain removed1 pw1 R1 where s1: "s1 = (removed1, pw1, R1)" by (cases s1)
    note s = remove_entry_acc [OF acc ss N go(1) [unfolded s1]]
    have "R1 = R - es_all es \<inter> N" using s by blast
    then have R1: "R1 \<inter> l_secs a = N \<inter> l_secs a" "R1 - l_secs a = R - l_secs (p # a)" using RN d p by auto
    from Cons.IH [OF la R1(1) go(2) [unfolded s1]] obtain on early where
      i: "l_acc sz info F a1" "map fst a1 = map fst a" "l_secs a1 = l_secs a - N" "on \<union> early = N \<inter> l_secs a" "on \<inter> early = {}"
        "removed' = es_join removed1 (canon sz info F on early)" "pw' = pw1 + (\<Sum>n\<in>l_secs a \<inter> N \<inter> rec. spower sz info n)" "R' = R1 - l_secs a" by blast
    have fin': "finite on" "finite early" using i(4) fin by (metis finite_Int finite_Un)+
    have "es_join (canon sz info F (?on \<inter> N) (?early \<inter> N)) (canon sz info F on early) = canon sz info F (?on \<inter> N \<union> on) (?early \<inter> N \<union> early)"
      by (rule canon_join) (use o fin' i(4,5) d in auto)
    moreover have "es_join (es_join x y) z = es_join x (es_join y z)" for x y z by (simp add: es_join_def ac_simps)
    ultimately have rm: "removed' = es_join removed (canon sz info F (?on \<inter> N \<union> on) (?early \<inter> N \<union> early))"
      using s i(6) by simp
    have "(\<Sum>n\<in>(es_all es \<inter> N \<inter> rec) \<union> (l_secs a \<inter> N \<inter> rec). spower sz info n)
        = (\<Sum>n\<in>es_all es \<inter> N \<inter> rec. spower sz info n) + (\<Sum>n\<in>l_secs a \<inter> N \<inter> rec. spower sz info n)"
      by (rule sum_add_disjoint) (use o fin d in auto)
    moreover have "(es_all es \<inter> N \<inter> rec) \<union> (l_secs a \<inter> N \<inter> rec) = l_secs (p # a) \<inter> N \<inter> rec" using p by auto
    ultimately have pw: "pw' = pw + (\<Sum>n\<in>l_secs (p # a) \<inter> N \<inter> rec. spower sz info n)" using s i(7) by (simp add: add.assoc)
    have sets: "(?on \<inter> N \<union> on) \<union> (?early \<inter> N \<union> early) = N \<inter> l_secs (p # a)" "(?on \<inter> N \<union> on) \<inter> (?early \<inter> N \<union> early) = {}"
      "es_all (canon sz info F (?on - N) (?early - N)) \<inter> l_secs a1 = {}" "l_secs a' = l_secs (p # a) - N"
      using i(3,4,5) p o(3) d s go(3) by auto
    have "l_acc sz info F a'" "map fst a' = map fst (p # a)" using sets(3) acc' i(1,2) s go(3) p by auto
    with rm pw sets i(8) R1(2) show ?thesis by blast
  qed
qed

lemma remove_sectors_acc:
  assumes bits: "converts bits" and q: "q_acc sz info F q"
    and ss: "distinct (map sector_number ss)" "\<And>s. s \<in> set ss \<Longrightarrow> info (sector_number s) = s"
    and N: "N = sector_number ` set ss" and run: "remove_sectors bits mx ss F rec sz q = Inr ((removed, rpw), q')"
  shows "q_acc sz info F q' \<and> eq_sectors q' = eq_sectors q - N \<and> N \<subseteq> eq_sectors q \<and> eq_quant q' = eq_quant q
    \<and> es_acc sz info F removed \<and> es_all removed = N \<and> rpw = (\<Sum>n\<in>N \<inter> F \<inter> rec. spower sz info n)"
proof -
  let ?fs = "filter (\<lambda>s. sector_number s \<in> F) ss" and ?ns = "filter (\<lambda>s. sector_number s \<notin> F) ss"
  let ?R = "set (map sector_number ss) - set (map sector_number ?ns)"
  from run obtain nums pw pl fee q1 where
    rm: "remove_active_sectors bits ?ns sz q = Inr ((nums, pw, pl, fee), q1)"
    and it: "iter_while_mut (remove_entry F rec ?fs sz)
      (es_empty\<lparr>on_time_sectors := nums, active_power := pw, on_time_pledge := pl, fee_deduction := fee\<rparr>, 0, ?R) q1
      = Inr ((removed, rpw, {}), q')"
    by (auto simp: remove_sectors_def r_bind_eq_Inr Let_def split: if_split_asm)
  have dist: "distinct (map sector_number ?ns)" "distinct (map sector_number ?fs)" using ss(1) by (auto simp: distinct_map_filter)
  have sets: "sector_number ` set ?ns = N - F" "sector_number ` set ?fs = N \<inter> F" by (auto simp: N)
  have R: "?R = N \<inter> F" by (auto simp: N)
  have NF: "sector_number ` set ?ns \<inter> F = {}" by auto
  have info: "\<And>s. s \<in> set ?ns \<Longrightarrow> info (sector_number s) = s" "\<And>s. s \<in> set ?fs \<Longrightarrow> info (sector_number s) = s" using ss(2) by auto
  note r = remove_active_acc [OF bits q dist(1) info(1) NF rm, unfolded sets]
  have q1: "q_acc sz info F q1" "eq_sectors q1 = eq_sectors q - (N - F)" "eq_quant q1 = eq_quant q" "N - F \<subseteq> eq_sectors q" using r by auto
  have disj: "(N - F) \<inter> F = {}" by blast
  have r0: "es_empty\<lparr>on_time_sectors := nums, active_power := pw, on_time_pledge := pl, fee_deduction := fee\<rparr> = canon sz info F (N - F) {}"
    using r canon_on_time [OF disj, of info sz] by (simp add: es_empty_def)
  from it obtain a em where ie: "iter_entries (remove_entry F rec ?fs sz) (eq_amt q1) (canon sz info F (N - F) {}, 0, N \<inter> F)
      = Inr ((a, em), (removed, rpw, {}))" and q': "q' = q1\<lparr>eq_amt := amt_batch_delete em a\<rparr>"
    unfolding r0 R by (auto simp: iter_while_mut_def r_bind_eq_Inr)
  have ok: "eq_ok q1" by (rule q_accD(1) [OF q1(1)])
  have ok': "eq_ok q'" by (rule conjunct1 [OF iter_while_mut_ok [OF _ ok it]]) (rule remove_entry_ok)
  have l: "l_acc sz info F (eq_amt q1)" using q1(1) by (simp add: q_acc_list)
  have sub: "sector_number ` set ?fs \<subseteq> F" unfolding sets by blast
  note ir = iter_remove_acc [OF dist(2) info(2) sub sets(2) [symmetric] l refl ie, folded eq_sectors_list [OF ok], unfolded add_0]
  from ir obtain on early where i: "l_acc sz info F a" "map fst a = map fst (eq_amt q1)" "l_secs a = eq_sectors q1 - N \<inter> F"
    "on \<union> early = N \<inter> F \<inter> eq_sectors q1" "on \<inter> early = {}" "removed = es_join (canon sz info F (N - F) {}) (canon sz info F on early)"
    "rpw = (\<Sum>n\<in>eq_sectors q1 \<inter> (N \<inter> F) \<inter> rec. spower sz info n)" "{} = N \<inter> F - eq_sectors q1"
    by blast
  have all: "N \<inter> F \<subseteq> eq_sectors q1" "N \<subseteq> eq_sectors q" using i(8) q1(2,4) by blast+
  have fin: "finite N" "finite on" "finite early"
  proof -
    show "finite N" by (simp add: N)
    moreover have "on \<subseteq> N" "early \<subseteq> N" using i(4) by blast+
    ultimately show "finite on" "finite early" using finite_subset by blast+
  qed
  have rmd: "removed = canon sz info F (N - F \<union> on) ({} \<union> early)"
    unfolding i(6) by (rule canon_join) (use fin i(4,5) in auto)
  have "on \<union> early = N \<inter> F" using i(4) all(1) by blast
  then have "es_acc sz info F removed" "es_all removed = N" unfolding rmd es_acc_canon canon_sets using fin i(5) by blast+
  moreover have "eq_sectors q1 \<inter> (N \<inter> F) \<inter> rec = N \<inter> F \<inter> rec" "eq_sectors q1 - N \<inter> F = eq_sectors q - N" using all q1(2) by blast+
  ultimately show ?thesis using iter_while_acc [OF ie i(1,2) ok q' ok'] i(3,7) q1(3) all(2) by simp
qed

text \<open>The table may change at sectors that are not in the queue.\<close>

lemma canon_info:
  assumes "\<And>n. n \<in> on \<union> early \<Longrightarrow> info n = info' n"
  shows "canon sz info F on early = canon sz info' F on early"
proof -
  have s: "(\<Sum>n\<in>A. f (info n)) = (\<Sum>n\<in>A. f (info' n))" if "A \<subseteq> on \<union> early" for A and f :: "sector_info \<Rightarrow> 'b::comm_monoid_add"
    using that assms by (intro sum.cong) auto
  show ?thesis unfolding canon_def by (simp add: s [of on] s [of "on - F"] s [of "on \<inter> F \<union> early"] s [of "on \<union> early"] le_supI1 Diff_subset le_infI1)
qed

lemma es_acc_info: "es_acc sz info F es \<Longrightarrow> (\<And>n. n \<in> es_all es \<Longrightarrow> info n = info' n) \<Longrightarrow> es_acc sz info' F es"
  using canon_info [of "on_time_sectors es" "early_sectors es" info info' sz F] by (simp add: es_acc_def)

lemma q_acc_info:
  assumes "q_acc sz info F q" and "\<And>n. n \<in> eq_sectors q \<Longrightarrow> info n = info' n"
  shows "q_acc sz info' F q"
proof -
  have "es_acc sz info' F es" if "amt_get (eq_amt q) k = Some es" for k es
    using es_acc_info [OF q_accD(3) [OF assms(1) that], of info'] entry_subset [OF that] assms(2) by blast
  with assms(1) show ?thesis unfolding q_acc_def by blast
qed

lemma replace_sectors_acc:
  assumes bits: "converts bits" and q: "q_acc sz info F q"
    and old: "distinct (map sector_number ss)" "\<And>s. s \<in> set ss \<Longrightarrow> info (sector_number s) = s" "sector_number ` set ss \<inter> F = {}"
    and new: "distinct (map sector_number ss')" "\<And>s. s \<in> set ss' \<Longrightarrow> info' (sector_number s) = s" "sector_number ` set ss' \<inter> F = {}"
    and same: "\<And>n. n \<in> eq_sectors q - sector_number ` set ss \<Longrightarrow> info n = info' n"
    and fresh: "sector_number ` set ss' \<inter> (eq_sectors q - sector_number ` set ss) = {}"
    and run: "replace_sectors bits ss ss' sz q = Inr ((onums, nnums, dpw, dpl, dfee), q')"
  shows "q_acc sz info' F q' \<and> eq_sectors q' = eq_sectors q - sector_number ` set ss \<union> sector_number ` set ss' \<and> eq_quant q' = eq_quant q
    \<and> onums = sector_number ` set ss \<and> nnums = sector_number ` set ss' \<and> sector_number ` set ss \<subseteq> eq_sectors q
    \<and> dpw = (\<Sum>n\<in>nnums. spower sz info' n) - (\<Sum>n\<in>onums. spower sz info n)
    \<and> dpl = (\<Sum>n\<in>nnums. si_initial_pledge (info' n)) - (\<Sum>n\<in>onums. si_initial_pledge (info n))
    \<and> dfee = (\<Sum>n\<in>nnums. si_daily_fee (info' n)) - (\<Sum>n\<in>onums. si_daily_fee (info n))"
proof -
  from run obtain opw opl ofee q1 npw npl nfee where
    rm: "remove_active_sectors bits ss sz q = Inr ((onums, opw, opl, ofee), q1)"
    and add: "add_active_sectors bits ss' sz q1 = Inr ((nnums, npw, npl, nfee), q')"
    and dlt: "dpw = npw - opw" "dpl = npl - opl" "dfee = nfee - ofee"
    by (auto simp: replace_sectors_def r_bind_eq_Inr)
  note r = remove_active_acc [OF bits q old rm]
  have r1: "q_acc sz info F q1" "eq_sectors q1 = eq_sectors q - sector_number ` set ss" using r by auto
  have q1: "q_acc sz info' F q1" by (rule q_acc_info [OF r1(1)]) (simp add: r1(2) same)
  have "sector_number ` set ss' \<inter> (eq_sectors q1 \<union> F) = {}" using r fresh new(3) by auto
  from add_active_acc [OF bits q1 new(1,2) this add] r dlt show ?thesis by simp
qed

end
