(* ===== verification/Partition.thy ===== *)
theory Partition
  imports Expiration
begin

text \<open>
  The partition of a deadline: \<open>actors/miner/src/partition_state.rs\<close>, with the table of sectors
  (\<open>sectors.rs\<close>), the maps from partitions and deadlines to sectors (\<open>sector_map.rs\<close>) and the result of
  popping early terminations (\<open>termination.rs\<close>). A stored queue is its content; a method on a partition
  returns the partition after the call, and an error discards it, as its callers do. Counts are natural
  numbers, a subtraction below zero a panic; the conversion of a list of numbers to a bitfield is the
  parameter \<open>bits\<close>.
\<close>

section \<open>Errors\<close>

text \<open>The conversion of an \<open>ActorError\<close> by the question mark, and \<open>downcast_default\<close>.\<close>

fun into_anyhow :: "'a result \<Rightarrow> 'a anyhow" where
  "into_anyhow (Inl e) = Inl (Some e)"
| "into_anyhow (Inr x) = Inr x"

fun downcast_default :: "exit_code \<Rightarrow> 'a anyhow \<Rightarrow> 'a result" where
  "downcast_default code (Inl (Some e)) = Inl e"
| "downcast_default code (Inl None) = Inl (ActorError code None)"
| "downcast_default code (Inr x) = Inr x"

text \<open>Replacing whatever error there is by another.\<close>

fun map_error :: "actor_error \<Rightarrow> 'a anyhow \<Rightarrow> 'a anyhow" where
  "map_error e (Inl _) = Inl (Some e)"
| "map_error e (Inr x) = Inr x"

lemma map_error_Inr [res_inv]: "map_error e r = Inr x \<longleftrightarrow> r = Inr x"
  by (cases r) auto

lemma into_anyhow_Inr [res_inv]: "into_anyhow r = Inr x \<longleftrightarrow> r = Inr x"
  by (cases r) auto

lemma downcast_default_Inr [res_inv]: "downcast_default code r = Inr x \<longleftrightarrow> r = Inr x"
  by (cases "(code, r)" rule: downcast_default.cases) auto

text \<open>A fallible function on every element of a list.\<close>

fun r_mapM :: "('a \<Rightarrow> 'e + 'b) \<Rightarrow> 'a list \<Rightarrow> 'e + 'b list" where
  "r_mapM f [] = Inr []"
| "r_mapM f (x # xs) = r_bind (f x) (\<lambda>y. r_bind (r_mapM f xs) (\<lambda>ys. Inr (y # ys)))"

lemma r_mapM_Inr: "r_mapM f xs = Inr ys \<longleftrightarrow> map f xs = map Inr ys"
  by (induction xs arbitrary: ys) (auto simp: r_bind_eq_Inr Cons_eq_map_conv)

section \<open>The table of sectors\<close>

type_synonym sector_table = "sector_info amt"

definition MAX_SECTOR_NUMBER :: nat where "MAX_SECTOR_NUMBER = 2 ^ 63 - 1"

text \<open>The sectors of a bitfield in increasing order of their numbers; one that is missing is not found.\<close>

definition load_sector :: "sector_table \<Rightarrow> nat \<Rightarrow> sector_info result" where
  "load_sector t n = (case amt_get t n of None \<Rightarrow> Inl not_found | Some s \<Rightarrow> Inr s)"

definition load_sectors :: "bitfield \<Rightarrow> sector_table \<Rightarrow> sector_info list result" where
  "load_sectors numbers t = r_mapM (load_sector t) (sorted_list_of_set numbers)"

definition delete_sector :: "nat \<Rightarrow> sector_table \<Rightarrow> sector_table result" where
  "delete_sector n t = (case amt_get t n of None \<Rightarrow> Inl not_found | Some _ \<Rightarrow> Inr (amt_delete n t))"

definition delete_sectors :: "bitfield \<Rightarrow> sector_table \<Rightarrow> sector_table result" where
  "delete_sectors numbers t = r_fold delete_sector (sorted_list_of_set numbers) t"

definition store_sector :: "sector_info \<Rightarrow> sector_table \<Rightarrow> sector_table anyhow" where
  "store_sector info t =
     (if MAX_SECTOR_NUMBER < sector_number info then Inl None else Inr (amt_set (sector_number info) info t))"

definition store_sectors :: "sector_info list \<Rightarrow> sector_table \<Rightarrow> sector_table anyhow" where
  "store_sectors infos t = r_fold store_sector infos t"

definition must_get_sector :: "sector_table \<Rightarrow> nat \<Rightarrow> sector_info anyhow" where
  "must_get_sector t n = into_anyhow (load_sector t n)"

definition load_with_fault_max :: "bitfield \<Rightarrow> bitfield \<Rightarrow> nat \<Rightarrow> sector_table \<Rightarrow> sector_info list anyhow" where
  "load_with_fault_max numbers faulty fault_stand_in t =
     r_bind (must_get_sector t fault_stand_in) (\<lambda>stand_in.
     r_mapM (\<lambda>i. if i \<in> faulty then Inr stand_in else must_get_sector t i) (sorted_list_of_set numbers))"

definition load_for_proof :: "bitfield \<Rightarrow> bitfield \<Rightarrow> sector_table \<Rightarrow> sector_info list anyhow" where
  "load_for_proof proven_sectors expected_faults t =
     (let non_faults = proven_sectors - expected_faults
      in if non_faults = {} then Inr []
         else load_with_fault_max proven_sectors expected_faults (Min non_faults) t)"

text \<open>The first sector of each number of the bitfield; a number without a sector is an error.\<close>

fun select_from :: "sector_info list \<Rightarrow> bitfield \<Rightarrow> sector_info list \<times> bitfield" where
  "select_from [] field = ([], field)"
| "select_from (s # ss) field =
     (if sector_number s \<in> field then
        (case select_from ss (field - {sector_number s}) of (included, rest) \<Rightarrow> (s # included, rest))
      else select_from ss field)"

definition select_sectors :: "sector_info list \<Rightarrow> bitfield \<Rightarrow> sector_info list anyhow" where
  "select_sectors ss field =
     (case select_from ss field of (included, to_include) \<Rightarrow>
        if to_include \<noteq> {} then Inl None else Inr included)"

section \<open>Maps to sectors\<close>

type_synonym partition_sector_map = "bitfield amt"
type_synonym deadline_sector_map = "partition_sector_map amt"

definition psm_add :: "nat \<Rightarrow> bitfield \<Rightarrow> partition_sector_map \<Rightarrow> partition_sector_map" where
  "psm_add i numbers m =
     (case amt_get m i of Some old \<Rightarrow> amt_set i (old \<union> numbers) m | None \<Rightarrow> amt_set i numbers m)"

definition psm_add_values ::
  "to_bits \<Rightarrow> nat \<Rightarrow> nat list \<Rightarrow> partition_sector_map \<Rightarrow> partition_sector_map anyhow" where
  "psm_add_values bits i numbers m = r_bind (bits numbers) (\<lambda>bf. Inr (psm_add i bf m))"

definition checked_add :: "nat \<Rightarrow> nat \<Rightarrow> nat anyhow" where
  "checked_add a b = (if a + b < 2 ^ 64 then Inr (a + b) else Inl None)"

definition psm_count :: "partition_sector_map \<Rightarrow> (nat \<times> nat) anyhow" where
  "psm_count m =
     r_bind (r_fold (\<lambda>(i, bf) n. checked_add n (card bf)) m 0) (\<lambda>n. Inr (length m, n))"

definition dsm_add ::
  "policy \<Rightarrow> nat \<Rightarrow> nat \<Rightarrow> bitfield \<Rightarrow> deadline_sector_map \<Rightarrow> deadline_sector_map anyhow" where
  "dsm_add policy deadline_idx partition_idx numbers m =
     (if wpost_period_deadlines policy \<le> deadline_idx then Inl None
      else
        let pm = (case amt_get m deadline_idx of None \<Rightarrow> amt_empty | Some pm \<Rightarrow> pm)
        in Inr (amt_set deadline_idx (psm_add partition_idx numbers pm) m))"

definition dsm_add_values ::
  "to_bits \<Rightarrow> policy \<Rightarrow> nat \<Rightarrow> nat \<Rightarrow> nat list \<Rightarrow> deadline_sector_map \<Rightarrow> deadline_sector_map anyhow" where
  "dsm_add_values bits policy deadline_idx partition_idx numbers m =
     r_bind (bits numbers) (\<lambda>bf. dsm_add policy deadline_idx partition_idx bf m)"

definition dsm_count :: "deadline_sector_map \<Rightarrow> (nat \<times> nat) anyhow" where
  "dsm_count m =
     r_fold (\<lambda>(i, pm) (partitions, sectors).
       r_bind (psm_count pm) (\<lambda>(partition_count, sector_count).
       r_bind (checked_add partitions partition_count) (\<lambda>ps.
       r_bind (checked_add sectors sector_count) (\<lambda>ss. Inr (ps, ss))))) m (0, 0)"

definition dsm_check :: "nat \<Rightarrow> nat \<Rightarrow> deadline_sector_map \<Rightarrow> unit anyhow" where
  "dsm_check max_partitions max_sectors m =
     r_bind (case dsm_count m of Inl e \<Rightarrow> Inl None | Inr x \<Rightarrow> Inr x)
       (\<lambda>(partition_count, sector_count).
          if max_partitions < partition_count then Inl None
          else if max_sectors < sector_count then Inl None
          else Inr ())"

section \<open>The result of popping early terminations\<close>

record termination_result =
  tr_sectors :: "bitfield amt"
  partitions_processed :: nat
  sectors_processed :: nat

definition termination_result_new :: termination_result where
  "termination_result_new = \<lparr>tr_sectors = amt_empty, partitions_processed = 0, sectors_processed = 0\<rparr>"

definition termination_result_add :: "termination_result \<Rightarrow> termination_result \<Rightarrow> termination_result" where
  "termination_result_add r rhs =
     \<lparr>tr_sectors = fold (\<lambda>(epoch, ss). psm_add epoch ss) (tr_sectors rhs) (tr_sectors r),
      partitions_processed = partitions_processed r + partitions_processed rhs,
      sectors_processed = sectors_processed r + sectors_processed rhs\<rparr>"

definition below_limit :: "nat \<Rightarrow> nat \<Rightarrow> termination_result \<Rightarrow> bool" where
  "below_limit partition_limit sector_limit r \<longleftrightarrow>
     partitions_processed r < partition_limit \<and> sectors_processed r < sector_limit"

section \<open>The partition\<close>

record partition_state =
  pt_sectors :: bitfield
  pt_unproven :: bitfield
  pt_faults :: bitfield
  pt_recoveries :: bitfield
  pt_terminated :: bitfield
  pt_expirations_epochs :: "expiration_set amt"
  pt_early_terminated :: "bitfield amt"
  pt_live_power :: power_pair
  pt_unproven_power :: power_pair
  pt_faulty_power :: power_pair
  pt_recovering_power :: power_pair

definition partition_new :: partition_state where
  "partition_new = \<lparr>pt_sectors = {}, pt_unproven = {}, pt_faults = {}, pt_recoveries = {}, pt_terminated = {},
     pt_expirations_epochs = amt_empty, pt_early_terminated = amt_empty, pt_live_power = 0, pt_unproven_power = 0,
     pt_faulty_power = 0, pt_recovering_power = 0\<rparr>"

definition live_sectors :: "partition_state \<Rightarrow> bitfield" where
  "live_sectors p = pt_sectors p - pt_terminated p"

definition active_sectors :: "partition_state \<Rightarrow> bitfield" where
  "active_sectors p = live_sectors p - pt_faults p - pt_unproven p"

definition pt_active_power :: "partition_state \<Rightarrow> power_pair" where
  "pt_active_power p = pt_live_power p - pt_faulty_power p - pt_unproven_power p"

definition pt_queue :: "quant_spec \<Rightarrow> partition_state \<Rightarrow> expiration_queue" where
  "pt_queue quant p = \<lparr>eq_amt = pt_expirations_epochs p, eq_quant = quant\<rparr>"

definition validate_power_state :: "partition_state \<Rightarrow> unit anyhow" where
  "validate_power_state p =
     (if pp_raw (pt_live_power p) < 0 \<or> pp_qa (pt_live_power p) < 0 then Inl None
      else if pp_raw (pt_unproven_power p) < 0 \<or> pp_qa (pt_unproven_power p) < 0 then Inl None
      else if pp_raw (pt_faulty_power p) < 0 \<or> pp_qa (pt_faulty_power p) < 0 then Inl None
      else if pp_raw (pt_recovering_power p) < 0 \<or> pp_qa (pt_recovering_power p) < 0 then Inl None
      else if pp_raw (pt_live_power p) < pp_raw (pt_unproven_power p) then Inl None
      else if pp_raw (pt_live_power p) < pp_raw (pt_faulty_power p) then Inl None
      else if pp_raw (pt_live_power p) < pp_raw (pt_recovering_power p)
              \<or> pp_raw (pt_faulty_power p) < pp_raw (pt_recovering_power p) then Inl None
      else Inr ())"

definition validate_bf_state :: "partition_state \<Rightarrow> unit anyhow" where
  "validate_bf_state p =
     (let merge = pt_unproven p \<union> pt_faults p
      in if pt_terminated p \<inter> merge \<noteq> {} then Inl None
         else if \<not> merge \<union> pt_terminated p \<subseteq> pt_sectors p then Inl None
         else if \<not> pt_recoveries p \<subseteq> pt_faults p then Inl None
         else Inr ())"

definition pt_validate_state :: "partition_state \<Rightarrow> unit anyhow" where
  "pt_validate_state p = r_bind (validate_power_state p) (\<lambda>_. validate_bf_state p)"

text \<open>The check at the end of a method.\<close>

definition validated :: "'a \<times> partition_state \<Rightarrow> ('a \<times> partition_state) anyhow" where
  "validated r = r_bind (pt_validate_state (snd r)) (\<lambda>_. Inr r)"

definition validate_partition_contains_sectors :: "partition_state \<Rightarrow> bitfield \<Rightarrow> unit anyhow" where
  "validate_partition_contains_sectors p ss =
     (if ss \<subseteq> pt_sectors p then Inr () else Inl None)"

definition pt_add_sectors ::
  "to_bits \<Rightarrow> bool \<Rightarrow> sector_info list \<Rightarrow> int \<Rightarrow> quant_spec \<Rightarrow> partition_state \<Rightarrow>
   ((power_pair \<times> int) \<times> partition_state) anyhow" where
  "pt_add_sectors bits proven infos sz quant p =
     r_bind (add_active_sectors bits infos sz (pt_queue quant p)) (\<lambda>((numbers, pwr, _, daily_fee), q).
     if pt_sectors p \<inter> numbers \<noteq> {} then Inl None
     else
       let p1 = p\<lparr>pt_expirations_epochs := eq_amt q, pt_sectors := pt_sectors p \<union> numbers,
                  pt_live_power := pt_live_power p + pwr\<rparr>;
           p2 = (if proven then p1
                 else p1\<lparr>pt_unproven_power := pt_unproven_power p1 + pwr, pt_unproven := pt_unproven p1 \<union> numbers\<rparr>)
       in validated ((pwr, daily_fee), p2))"

definition add_faults ::
  "to_bits \<Rightarrow> bitfield \<Rightarrow> sector_info list \<Rightarrow> int \<Rightarrow> int \<Rightarrow> quant_spec \<Rightarrow> partition_state \<Rightarrow>
   ((power_pair \<times> power_pair) \<times> partition_state) anyhow" where
  "add_faults bits numbers infos fault_expiration sz quant p =
     r_bind (reschedule_as_faults bits fault_expiration infos sz (pt_queue quant p)) (\<lambda>(new_faulty_power, q).
     let unproven = numbers \<inter> pt_unproven p;
         p1 = p\<lparr>pt_expirations_epochs := eq_amt q, pt_faults := pt_faults p \<union> numbers,
                pt_faulty_power := pt_faulty_power p + new_faulty_power, pt_unproven := pt_unproven p - unproven\<rparr>
     in r_bind (select_sectors infos unproven) (\<lambda>unproven_infos.
        let lost_unproven_power = (if unproven_infos = [] then 0 else power_for_sectors sz unproven_infos)
        in validated ((- new_faulty_power + lost_unproven_power, new_faulty_power),
             p1\<lparr>pt_unproven_power := pt_unproven_power p1 - lost_unproven_power\<rparr>)))"

definition remove_recoveries :: "bitfield \<Rightarrow> power_pair \<Rightarrow> partition_state \<Rightarrow> partition_state" where
  "remove_recoveries numbers pwr p =
     (if numbers = {} then p
      else p\<lparr>pt_recoveries := pt_recoveries p - numbers, pt_recovering_power := pt_recovering_power p - pwr\<rparr>)"

definition pt_record_faults ::
  "to_bits \<Rightarrow> sector_table \<Rightarrow> bitfield \<Rightarrow> int \<Rightarrow> int \<Rightarrow> quant_spec \<Rightarrow> partition_state \<Rightarrow>
   ((bitfield \<times> power_pair \<times> power_pair) \<times> partition_state) anyhow" where
  "pt_record_faults bits t numbers fault_expiration sz quant p =
     r_bind (map_error illegal_argument (validate_partition_contains_sectors p numbers)) (\<lambda>_.
     let retracted = pt_recoveries p \<inter> numbers;
         new_faults = numbers - retracted - pt_terminated p - pt_faults p
     in r_bind (into_anyhow (load_sectors new_faults t)) (\<lambda>infos.
        r_bind (if infos \<noteq> [] then add_faults bits new_faults infos fault_expiration sz quant p else Inr ((0, 0), p))
          (\<lambda>((power_delta, new_faulty_power), p1).
        r_bind (into_anyhow (load_sectors retracted t)) (\<lambda>retracted_infos.
        let p2 = (if retracted_infos \<noteq> [] then remove_recoveries retracted (power_for_sectors sz retracted_infos) p1
                  else p1)
        in validated ((new_faults, power_delta, new_faulty_power), p2)))))"

definition recover_faults ::
  "to_bits \<Rightarrow> sector_table \<Rightarrow> int \<Rightarrow> quant_spec \<Rightarrow> partition_state \<Rightarrow> (power_pair \<times> partition_state) anyhow" where
  "recover_faults bits t sz quant p =
     r_bind (into_anyhow (load_sectors (pt_recoveries p) t)) (\<lambda>recovered.
     r_bind (reschedule_recovered bits recovered sz (pt_queue quant p)) (\<lambda>(pwr, q).
     validated (pwr, p\<lparr>pt_expirations_epochs := eq_amt q, pt_faults := pt_faults p - pt_recoveries p,
       pt_recoveries := {}, pt_faulty_power := pt_faulty_power p - pwr,
       pt_recovering_power := pt_recovering_power p - pwr\<rparr>)))"

definition activate_unproven :: "partition_state \<Rightarrow> power_pair \<times> partition_state" where
  "activate_unproven p = (pt_unproven_power p, p\<lparr>pt_unproven := {}, pt_unproven_power := 0\<rparr>)"

definition pt_declare_faults_recovered ::
  "sector_table \<Rightarrow> int \<Rightarrow> bitfield \<Rightarrow> partition_state \<Rightarrow> (unit \<times> partition_state) anyhow" where
  "pt_declare_faults_recovered t sz numbers p =
     r_bind (map_error illegal_argument (validate_partition_contains_sectors p numbers)) (\<lambda>_.
     let recoveries = numbers \<inter> pt_faults p - pt_recoveries p
     in r_bind (into_anyhow (load_sectors recoveries t)) (\<lambda>infos.
        validated ((), p\<lparr>pt_recoveries := pt_recoveries p \<union> recoveries,
          pt_recovering_power := pt_recovering_power p + power_for_sectors sz infos\<rparr>)))"

definition pt_reschedule_expirations ::
  "to_bits \<Rightarrow> sector_table \<Rightarrow> int \<Rightarrow> bitfield \<Rightarrow> int \<Rightarrow> quant_spec \<Rightarrow> partition_state \<Rightarrow>
   (sector_info list \<times> partition_state) anyhow" where
  "pt_reschedule_expirations bits t new_expiration numbers sz quant p =
     (let active = numbers \<inter> pt_sectors p - pt_terminated p - pt_faults p
      in r_bind (into_anyhow (load_sectors active t)) (\<lambda>infos.
         r_bind (reschedule_expirations bits new_expiration infos sz (pt_queue quant p)) (\<lambda>q.
         validated (infos, p\<lparr>pt_expirations_epochs := eq_amt q\<rparr>))))"

definition pt_replace_sectors ::
  "to_bits \<Rightarrow> sector_info list \<Rightarrow> sector_info list \<Rightarrow> int \<Rightarrow> quant_spec \<Rightarrow> partition_state \<Rightarrow>
   ((power_pair \<times> int \<times> int) \<times> partition_state) anyhow" where
  "pt_replace_sectors bits old_sectors new_sectors sz quant p =
     r_bind (replace_sectors bits old_sectors new_sectors sz (pt_queue quant p))
       (\<lambda>((old_numbers, new_numbers, power_delta, pledge_delta, fee_delta), q).
     if \<not> old_numbers \<subseteq> active_sectors p then Inl None
     else validated ((power_delta, pledge_delta, fee_delta),
       p\<lparr>pt_expirations_epochs := eq_amt q, pt_sectors := pt_sectors p - old_numbers \<union> new_numbers,
         pt_live_power := pt_live_power p + power_delta\<rparr>))"

definition record_early_termination :: "int \<Rightarrow> bitfield \<Rightarrow> partition_state \<Rightarrow> partition_state anyhow" where
  "record_early_termination epoch ss p =
     r_bind (add_to_queue epoch ss \<lparr>bq_amt = pt_early_terminated p, bq_quant = NO_QUANTIZATION\<rparr>) (\<lambda>q.
     Inr (p\<lparr>pt_early_terminated := bq_amt q\<rparr>))"

definition pt_terminate_sectors ::
  "to_bits \<Rightarrow> nat \<Rightarrow> sector_table \<Rightarrow> int \<Rightarrow> bitfield \<Rightarrow> int \<Rightarrow> quant_spec \<Rightarrow> partition_state \<Rightarrow>
   ((expiration_set \<times> power_pair) \<times> partition_state) anyhow" where
  "pt_terminate_sectors bits addressed_sectors_max t epoch numbers sz quant p =
     (if \<not> numbers \<subseteq> live_sectors p then Inl (Some illegal_argument)
      else
        r_bind (into_anyhow (load_sectors numbers t)) (\<lambda>infos.
        r_bind (remove_sectors bits addressed_sectors_max infos (pt_faults p) (pt_recoveries p) sz (pt_queue quant p))
          (\<lambda>((removed, removed_recovering), q).
        let removed_sectors = on_time_sectors removed \<union> early_sectors removed
        in r_bind (record_early_termination epoch removed_sectors (p\<lparr>pt_expirations_epochs := eq_amt q\<rparr>)) (\<lambda>p1.
           let unproven_nos = removed_sectors \<inter> pt_unproven p1;
               p2 = p1\<lparr>pt_faults := pt_faults p1 - removed_sectors, pt_recoveries := pt_recoveries p1 - removed_sectors,
                       pt_terminated := pt_terminated p1 \<union> removed_sectors,
                       pt_live_power := pt_live_power p1 - active_power removed - faulty_power removed,
                       pt_faulty_power := pt_faulty_power p1 - faulty_power removed,
                       pt_recovering_power := pt_recovering_power p1 - removed_recovering,
                       pt_unproven := pt_unproven p1 - unproven_nos\<rparr>
           in r_bind (select_sectors infos unproven_nos) (\<lambda>unproven_infos.
              let removed_unproven = power_for_sectors sz unproven_infos
              in validated ((removed\<lparr>active_power := active_power removed - removed_unproven\<rparr>, removed_unproven),
                   p2\<lparr>pt_unproven_power := pt_unproven_power p2 - removed_unproven\<rparr>))))))"

definition pt_pop_expired_sectors ::
  "int \<Rightarrow> quant_spec \<Rightarrow> partition_state \<Rightarrow> (expiration_set \<times> partition_state) anyhow" where
  "pt_pop_expired_sectors until quant p =
     (if pt_unproven p \<noteq> {} then Inl None
      else
        let (popped, q) = eq_pop_until until (pt_queue quant p);
            expired = on_time_sectors popped \<union> early_sectors popped
        in if pt_recoveries p \<noteq> {} then Inl None
           else if pt_recovering_power p \<noteq> 0 then Inl None
           else if pt_terminated p \<inter> expired \<noteq> {} then Inl None
           else
             r_bind (record_early_termination until (early_sectors popped)
               (p\<lparr>pt_expirations_epochs := eq_amt q, pt_terminated := pt_terminated p \<union> expired,
                  pt_faults := pt_faults p - expired,
                  pt_live_power := pt_live_power p - (active_power popped + faulty_power popped),
                  pt_faulty_power := pt_faulty_power p - faulty_power popped\<rparr>)) (\<lambda>p1.
             validated (popped, p1)))"

definition record_missed_post ::
  "int \<Rightarrow> quant_spec \<Rightarrow> partition_state \<Rightarrow> ((power_pair \<times> power_pair \<times> power_pair) \<times> partition_state) anyhow" where
  "record_missed_post fault_expiration quant p =
     r_bind (reschedule_all_as_faults fault_expiration (pt_queue quant p)) (\<lambda>q.
     let new_faulty_power = pt_live_power p - pt_faulty_power p;
         penalized_power = pt_recovering_power p + new_faulty_power;
         power_delta = pt_unproven_power p - new_faulty_power
     in validated ((power_delta, penalized_power, new_faulty_power),
          p\<lparr>pt_expirations_epochs := eq_amt q, pt_faults := live_sectors p, pt_recoveries := {}, pt_unproven := {},
            pt_faulty_power := pt_live_power p, pt_recovering_power := 0, pt_unproven_power := 0\<rparr>))"

text \<open>
  The walk over the early terminations: the entries taken whole, the rest of the entry that is taken in
  part, and the result. An index that is no epoch is an error.
\<close>

fun pop_early_entries ::
  "nat \<Rightarrow> bitfield amt \<Rightarrow> nat list \<times> (nat \<times> bitfield) option \<times> termination_result \<Rightarrow>
   (nat list \<times> (nat \<times> bitfield) option \<times> termination_result) anyhow" where
  "pop_early_entries max_sectors [] acc = Inr acc"
| "pop_early_entries max_sectors ((i, ss) # a) (processed, remaining, r) =
     (if 2 ^ 63 \<le> i then Inl None
      else if max_sectors < sectors_processed r then Inl (Some Panic)
      else
        let limit = max_sectors - sectors_processed r;
            (to_process, acc') =
              (if limit < card ss then
                 let part = set (take limit (sorted_list_of_set ss))
                 in (part, processed, Some (i, ss - part), r\<lparr>sectors_processed := sectors_processed r + limit\<rparr>)
               else (ss, processed @ [i], remaining, r\<lparr>sectors_processed := sectors_processed r + card ss\<rparr>));
            acc'' = (case acc' of (pr, rem, r') \<Rightarrow> (pr, rem, r'\<lparr>tr_sectors := amt_set i to_process (tr_sectors r')\<rparr>))
        in if sectors_processed (snd (snd acc'')) < max_sectors then pop_early_entries max_sectors a acc''
           else Inr acc'')"

definition pt_pop_early_terminations ::
  "nat \<Rightarrow> partition_state \<Rightarrow> ((termination_result \<times> bool) \<times> partition_state) anyhow" where
  "pt_pop_early_terminations max_sectors p =
     r_bind (pop_early_entries max_sectors (pt_early_terminated p)
               ([], None, termination_result_new\<lparr>partitions_processed := 1\<rparr>)) (\<lambda>(processed, remaining, r).
     if \<not> (\<forall>i \<in> set processed. amt_get (pt_early_terminated p) i \<noteq> None) then Inl None
     else
       let a = amt_batch_delete processed (pt_early_terminated p);
           a' = (case remaining of None \<Rightarrow> a | Some (epoch, rest) \<Rightarrow> amt_set epoch rest a)
       in validated ((r, a' \<noteq> []), p\<lparr>pt_early_terminated := a'\<rparr>))"

definition record_skipped_faults ::
  "to_bits \<Rightarrow> sector_table \<Rightarrow> int \<Rightarrow> quant_spec \<Rightarrow> int \<Rightarrow> bitfield \<Rightarrow> partition_state \<Rightarrow>
   ((power_pair \<times> power_pair \<times> power_pair \<times> bool) \<times> partition_state) anyhow" where
  "record_skipped_faults bits t sz quant fault_expiration skipped p =
     (if skipped = {} then Inr ((0, 0, 0, False), p)
      else if \<not> skipped \<subseteq> pt_sectors p then Inl (Some illegal_argument)
      else
        let retracted = pt_recoveries p \<inter> skipped
        in r_bind (into_anyhow (load_sectors retracted t)) (\<lambda>retracted_infos.
           let retracted_power = power_for_sectors sz retracted_infos;
               new_faults = skipped - pt_terminated p - pt_faults p
           in r_bind (into_anyhow (load_sectors new_faults t)) (\<lambda>infos.
              r_bind (into_anyhow (downcast_default USR_ILLEGAL_STATE
                       (add_faults bits new_faults infos fault_expiration sz quant p)))
                (\<lambda>((power_delta, new_fault_power), p1).
              validated ((power_delta, new_fault_power, retracted_power, infos \<noteq> []),
                remove_recoveries retracted retracted_power p1)))))"

end
