(* ===== verification/PartitionRun.thy ===== *)
theory PartitionRun
  imports QueueMoves Partition
begin

text \<open>
  What a partition holds: its power fields are the power of its sets of sectors, and its expiration queue
  schedules every live sector once. Every operation of \<open>partition_state.rs\<close> keeps this, and the change of
  active power it reports is the change that happens.
\<close>

section \<open>Loading and selecting sectors\<close>

abbreviation tinfo :: "sector_table \<Rightarrow> nat \<Rightarrow> sector_info" where
  "tinfo t n \<equiv> the (amt_get t n)"

definition in_table :: "sector_table \<Rightarrow> nat set \<Rightarrow> bool" where
  "in_table t N \<longleftrightarrow> (\<forall>n \<in> N. \<exists>s. amt_get t n = Some s \<and> sector_number s = n)"

lemma power_for_sectors_sum: "power_for_sectors sz ss = sum_list (map (power_for_sector sz) ss)"
proof (induction ss)
  case Nil
  show ?case by (simp add: power_for_sectors_def zero_power_pair_def)
next
  case (Cons s ss)
  have "power_for_sectors sz (s # ss) = power_for_sector sz s + power_for_sectors sz ss"
    by (simp add: power_for_sectors_def power_for_sector_def plus_power_pair_def algebra_simps)
  with Cons show ?case by simp
qed

text \<open>A list of sectors as the table holds them, with their numbers.\<close>

definition listed :: "sector_table \<Rightarrow> sector_info list \<Rightarrow> nat set \<Rightarrow> bool" where
  "listed t ss N \<longleftrightarrow> distinct (map sector_number ss) \<and> (\<forall>s \<in> set ss. tinfo t (sector_number s) = s) \<and> sector_number ` set ss = N"

lemma listedD:
  assumes "listed t ss N"
  shows "distinct (map sector_number ss)" and "\<And>s. s \<in> set ss \<Longrightarrow> tinfo t (sector_number s) = s" and "sector_number ` set ss = N"
    and "finite N" and "ss = [] \<longleftrightarrow> N = {}"
  using assms by (auto simp: listed_def)

lemma listed_power: "listed t ss N \<Longrightarrow> power_for_sectors sz ss = (\<Sum>n\<in>N. spower sz (tinfo t) n)"
  using sum_infos [of ss "tinfo t" "power_for_sector sz"] by (simp add: power_for_sectors_sum listed_def)

lemma load_sectors_listed:
  assumes "load_sectors N t = Inr ss" and "finite N" and "in_table t N"
  shows "listed t ss N"
proof -
  let ?ns = "sorted_list_of_set N"
  have "map (load_sector t) ?ns = map Inr ss" using assms(1) by (simp add: load_sectors_def r_mapM_Inr)
  then have "ss = map (\<lambda>n. tinfo t n) ?ns"
    by (intro nth_equalityI) (auto simp: list_eq_iff_nth_eq load_sector_def split: option.split_asm)
  moreover have "sector_number (tinfo t n) = n" if "n \<in> N" for n using assms(3) that by (force simp: in_table_def)
  ultimately have "map sector_number ss = ?ns" "\<forall>s \<in> set ss. tinfo t (sector_number s) = s"
    using assms(2) by (auto intro: map_idI)
  then show ?thesis using assms(2) unfolding listed_def by (metis distinct_sorted_list_of_set list.set_map set_sorted_list_of_set)
qed

lemma select_from_eq:
  "distinct (map sector_number ss) \<Longrightarrow>
   select_from ss field = (filter (\<lambda>s. sector_number s \<in> field) ss, field - sector_number ` set ss)"
proof (induction ss arbitrary: field)
  case (Cons s ss)
  have "sector_number x \<noteq> sector_number s" if "x \<in> set ss" for x
    using Cons.prems that by (metis distinct.simps(2) image_eqI list.set_map list.simps(9))
  then have "filter (\<lambda>x. sector_number x \<in> field - {sector_number s}) ss = filter (\<lambda>x. sector_number x \<in> field) ss"
    by (intro filter_cong) auto
  with Cons show ?case by auto
qed simp

lemma select_sectors_listed:
  assumes "listed t ss N" and "select_sectors ss U = Inr us"
  shows "listed t us U"
proof -
  have "us = filter (\<lambda>s. sector_number s \<in> U) ss" "U - N = {}"
    using assms by (auto simp: select_sectors_def select_from_eq listed_def split: if_split_asm)
  with assms(1) show ?thesis by (auto simp: listed_def distinct_map_filter)
qed

section \<open>What a partition should hold\<close>

definition pt_acc :: "int \<Rightarrow> quant_spec \<Rightarrow> sector_table \<Rightarrow> partition_state \<Rightarrow> bool" where
  "pt_acc sz quant t p \<longleftrightarrow> finite (pt_sectors p) \<and> pt_terminated p \<subseteq> pt_sectors p \<and> pt_faults p \<subseteq> live_sectors p
     \<and> pt_unproven p \<subseteq> live_sectors p - pt_faults p \<and> pt_recoveries p \<subseteq> pt_faults p \<and> in_table t (live_sectors p)
     \<and> q_acc sz (tinfo t) (pt_faults p) (pt_queue quant p) \<and> eq_sectors (pt_queue quant p) = live_sectors p
     \<and> pt_live_power p = (\<Sum>n\<in>live_sectors p. spower sz (tinfo t) n)
     \<and> pt_unproven_power p = (\<Sum>n\<in>pt_unproven p. spower sz (tinfo t) n)
     \<and> pt_faulty_power p = (\<Sum>n\<in>pt_faults p. spower sz (tinfo t) n)
     \<and> pt_recovering_power p = (\<Sum>n\<in>pt_recoveries p. spower sz (tinfo t) n)"

lemma pt_accD:
  assumes "pt_acc sz quant t p"
  shows "finite (pt_sectors p)" and "pt_terminated p \<subseteq> pt_sectors p" and "pt_faults p \<subseteq> live_sectors p"
    and "pt_unproven p \<subseteq> live_sectors p - pt_faults p" and "pt_recoveries p \<subseteq> pt_faults p" and "in_table t (live_sectors p)"
    and "q_acc sz (tinfo t) (pt_faults p) (pt_queue quant p)" and "eq_sectors (pt_queue quant p) = live_sectors p"
    and "pt_live_power p = (\<Sum>n\<in>live_sectors p. spower sz (tinfo t) n)"
    and "pt_unproven_power p = (\<Sum>n\<in>pt_unproven p. spower sz (tinfo t) n)"
    and "pt_faulty_power p = (\<Sum>n\<in>pt_faults p. spower sz (tinfo t) n)"
    and "pt_recovering_power p = (\<Sum>n\<in>pt_recoveries p. spower sz (tinfo t) n)"
    and "finite (live_sectors p)" and "finite (pt_faults p)" and "finite (pt_unproven p)" and "finite (pt_recoveries p)"
proof -
  show "finite (live_sectors p)" using assms by (simp add: pt_acc_def live_sectors_def)
  then show "finite (pt_faults p)" "finite (pt_unproven p)" "finite (pt_recoveries p)"
    using assms finite_subset unfolding pt_acc_def by (metis finite_Diff)+
qed (use assms in \<open>simp_all add: pt_acc_def\<close>)

lemma in_table_subset: "in_table t N \<Longrightarrow> M \<subseteq> N \<Longrightarrow> in_table t M"
  by (auto simp: in_table_def)

text \<open>Sums over parts of the partition.\<close>

lemma psum_minus: "finite B \<Longrightarrow> A \<subseteq> B \<Longrightarrow> (\<Sum>n\<in>B - A. f n) = (\<Sum>n\<in>B. f n) - (\<Sum>n\<in>A. f n :: 'a::ab_group_add)"
  by (rule sum_diff)

lemma validated_Inr [res_inv]: "validated r = Inr r' \<longleftrightarrow> r' = r \<and> pt_validate_state (snd r) = Inr ()"
  by (auto simp: validated_def r_bind_eq_Inr)

lemma pt_queue_sel [simp]: "eq_amt (pt_queue quant p) = pt_expirations_epochs p" "eq_quant (pt_queue quant p) = quant"
  by (simp_all add: pt_queue_def)

lemma pt_queue_eq: "eq_quant q = quant \<Longrightarrow> pt_expirations_epochs p = eq_amt q \<Longrightarrow> pt_queue quant p = q"
  by (cases q) (simp add: pt_queue_def)

lemma active_power_sum:
  assumes "pt_acc sz quant t p"
  shows "pt_active_power p = (\<Sum>n\<in>active_sectors p. spower sz (tinfo t) n)"
proof -
  note a = pt_accD [OF assms]
  have "(\<Sum>n\<in>live_sectors p - pt_faults p - pt_unproven p. spower sz (tinfo t) n)
      = (\<Sum>n\<in>live_sectors p. spower sz (tinfo t) n) - (\<Sum>n\<in>pt_faults p. spower sz (tinfo t) n) - (\<Sum>n\<in>pt_unproven p. spower sz (tinfo t) n)"
    using a by (simp add: psum_minus)
  with a show ?thesis by (simp add: pt_active_power_def active_sectors_def)
qed

section \<open>Every operation keeps it so\<close>

lemma add_active_numbers:
  assumes "converts bits" and "add_active_sectors bits ss sz q = Inr ((N, pw, pl, fee), q')"
  shows "N = sector_number ` set ss"
proof -
  have fold: "r_fold (add_group bits) gs acc = Inr acc' \<Longrightarrow> fst (fst acc') = fst (fst acc) \<union> set (concat (map ses_sectors gs))" for gs acc acc'
  proof (induction gs arbitrary: acc)
    case (Cons g gs)
    from Cons.prems obtain acc1 where 1: "add_group bits g acc = Inr acc1" and 2: "r_fold (add_group bits) gs acc1 = Inr acc'"
      by (auto simp: r_bind_eq_Inr)
    from 1 assms(1) have "fst (fst acc1) = fst (fst acc) \<union> set (ses_sectors g)"
      by (auto simp: add_group_def [of bits g] r_bind_eq_Inr converts_def split: prod.split_asm)
    with Cons.IH [OF 2] show ?case by auto
  qed simp
  have "set (concat (map ses_sectors (group_new_sectors_by_declared_expiration sz ss (eq_quant q)))) = sector_number ` set ss"
    by (force simp: group_new_sectors_by_declared_expiration_def epoch_set_of_def)
  with fold [OF assms(2) [unfolded add_active_sectors_def]] show ?thesis by simp
qed

lemma add_sectors_acc:
  assumes bits: "converts bits" and p: "pt_acc sz quant t p" and "listed t ss N" and "in_table t N"
    and "pt_add_sectors bits proven ss sz quant p = Inr ((pw, fee), p')"
  shows "pt_acc sz quant t p' \<and> pw = (\<Sum>n\<in>N. spower sz (tinfo t) n)
    \<and> pt_active_power p' = pt_active_power p + (if proven then pw else 0)
    \<and> live_sectors p' = live_sectors p \<union> N \<and> N \<inter> pt_sectors p = {}"
proof -
  note a = pt_accD [OF p] and ss = listedD [OF assms(3)]
  from assms(5) obtain N0 pl q where add: "add_active_sectors bits ss sz (pt_queue quant p) = Inr ((N0, pw, pl, fee), q)"
    and "pt_sectors p \<inter> N0 = {}"
    and p': "p' = (let p1 = p\<lparr>pt_expirations_epochs := eq_amt q, pt_sectors := pt_sectors p \<union> N0, pt_live_power := pt_live_power p + pw\<rparr>
        in if proven then p1 else p1\<lparr>pt_unproven_power := pt_unproven_power p + pw, pt_unproven := pt_unproven p \<union> N0\<rparr>)"
    by (auto simp: pt_add_sectors_def r_bind_eq_Inr validated_Inr Let_def split: if_split_asm)
  moreover have N0: "N0 = N" using add_active_numbers [OF bits add] ss(3) by simp
  ultimately have new: "N \<inter> pt_sectors p = {}" by blast
  have sub: "live_sectors p \<subseteq> pt_sectors p" by (auto simp: live_sectors_def)
  have "sector_number ` set ss \<inter> (eq_sectors (pt_queue quant p) \<union> pt_faults p) = {}" unfolding ss(3) a(8) using new sub a(3) by blast
  note q = add_active_acc [OF bits a(7) ss(1,2) this add, unfolded ss(3) a(8)]
  have live: "live_sectors p' = live_sectors p \<union> N" using new a(2) by (auto simp: p' N0 Let_def live_sectors_def)
  have disj: "live_sectors p \<inter> N = {}" "pt_unproven p \<inter> N = {}" using new sub a(4) by blast+
  have que: "pt_queue quant p' = q" using q by (intro pt_queue_eq) (simp_all add: p' Let_def)
  have flt: "pt_faults p' = pt_faults p" "pt_terminated p' = pt_terminated p" "pt_recoveries p' = pt_recoveries p"
    "pt_faulty_power p' = pt_faulty_power p" "pt_recovering_power p' = pt_recovering_power p" "pt_sectors p' = pt_sectors p \<union> N"
    "pt_live_power p' = pt_live_power p + pw" "pt_unproven p' = (if proven then pt_unproven p else pt_unproven p \<union> N)"
    "pt_unproven_power p' = (if proven then pt_unproven_power p else pt_unproven_power p + pw)" by (simp_all add: p' N0 Let_def)
  have "pt_acc sz quant t p'"
    unfolding pt_acc_def que live flt
  proof (intro conjI)
    show "in_table t (live_sectors p \<union> N)" using a(6) assms(4) by (auto simp: in_table_def)
    show "(if proven then pt_unproven p else pt_unproven p \<union> N) \<subseteq> live_sectors p \<union> N - pt_faults p" using a(3,4) disj(1) by auto
    show "pt_live_power p + pw = (\<Sum>n\<in>live_sectors p \<union> N. spower sz (tinfo t) n)"
      using q a(9,13) ss(4) disj(1) by (simp add: sum_add_disjoint)
    show "(if proven then pt_unproven_power p else pt_unproven_power p + pw)
        = (\<Sum>n\<in>(if proven then pt_unproven p else pt_unproven p \<union> N). spower sz (tinfo t) n)"
      using q a(10,15) ss(4) disj(2) by (simp add: sum_add_disjoint)
  qed (use a q ss(4) in auto)
  then show ?thesis using q live new by (simp add: pt_active_power_def flt)
qed

lemma add_faults_acc:
  assumes bits: "converts bits" and p: "pt_acc sz quant t p" and "listed t ss N" and N: "N \<subseteq> live_sectors p" "N \<inter> pt_faults p = {}"
    and run: "add_faults bits N ss e sz quant p = Inr ((dpw, fpw), p')"
  shows "pt_acc sz quant t p' \<and> pt_active_power p' = pt_active_power p + dpw \<and> fpw = (\<Sum>n\<in>N. spower sz (tinfo t) n)
    \<and> pt_faults p' = pt_faults p \<union> N \<and> live_sectors p' = live_sectors p \<and> pt_recoveries p' = pt_recoveries p
    \<and> pt_sectors p' = pt_sectors p"
proof -
  note a = pt_accD [OF p] and ss = listedD [OF assms(3)]
  let ?U = "N \<inter> pt_unproven p"
  from run obtain q us where rs: "reschedule_as_faults bits e ss sz (pt_queue quant p) = Inr (fpw, q)"
    and us: "select_sectors ss ?U = Inr us" and out: "dpw = - fpw + power_for_sectors sz us"
    and p': "p' = p\<lparr>pt_expirations_epochs := eq_amt q, pt_faults := pt_faults p \<union> N, pt_faulty_power := pt_faulty_power p + fpw,
      pt_unproven := pt_unproven p - ?U, pt_unproven_power := pt_unproven_power p - power_for_sectors sz us\<rparr>"
    by (auto simp: add_faults_def r_bind_eq_Inr validated_Inr Let_def power_for_sectors_sum split: if_split_asm)
  have "sector_number ` set ss \<inter> pt_faults p = {}" unfolding ss(3) by (rule N(2))
  note q = reschedule_as_faults_acc [OF bits a(7) ss(1,2) this rs, unfolded ss(3) a(8)]
  have lost: "power_for_sectors sz us = (\<Sum>n\<in>?U. spower sz (tinfo t) n)"
    by (rule listed_power [OF select_sectors_listed [OF assms(3) us]])
  have live: "live_sectors p' = live_sectors p" by (simp add: p' live_sectors_def)
  have que: "pt_queue quant p' = q" using q by (intro pt_queue_eq) (simp_all add: p')
  have "pt_acc sz quant t p'"
    unfolding pt_acc_def que live
  proof (intro conjI)
    show "pt_unproven_power p' = (\<Sum>n\<in>pt_unproven p'. spower sz (tinfo t) n)"
      using a(10,15) by (simp add: p' lost psum_minus)
    show "pt_faulty_power p' = (\<Sum>n\<in>pt_faults p'. spower sz (tinfo t) n)"
      using a(11,14) q ss(4) N(2) by (simp add: p' sum_add_disjoint Int_commute)
  qed (use a q N in \<open>auto simp: p'\<close>)
  then show ?thesis using q live by (simp add: p' pt_active_power_def out algebra_simps)
qed

lemma remove_recoveries_acc:
  assumes p: "pt_acc sz quant t p" and R: "R \<subseteq> pt_recoveries p" "pw = (\<Sum>n\<in>R. spower sz (tinfo t) n)"
  shows "pt_acc sz quant t (remove_recoveries R pw p) \<and> pt_active_power (remove_recoveries R pw p) = pt_active_power p
    \<and> live_sectors (remove_recoveries R pw p) = live_sectors p"
proof (cases "R = {}")
  case True
  with p show ?thesis by (simp add: remove_recoveries_def)
next
  case False
  note a = pt_accD [OF p]
  let ?p = "p\<lparr>pt_recoveries := pt_recoveries p - R, pt_recovering_power := pt_recovering_power p - pw\<rparr>"
  have rr: "remove_recoveries R pw p = ?p" using False by (simp add: remove_recoveries_def)
  have que: "pt_queue quant ?p = pt_queue quant p" and live: "live_sectors ?p = live_sectors p"
    by (simp_all add: pt_queue_def live_sectors_def)
  have "pt_acc sz quant t ?p" unfolding pt_acc_def que live
    using a R by (auto simp: psum_minus)
  then show ?thesis unfolding rr live by (simp add: pt_active_power_def)
qed

lemma load_live:
  assumes "pt_acc sz quant t p" and "load_sectors N t = Inr ss" and "N \<subseteq> live_sectors p"
  shows "listed t ss N"
  by (rule load_sectors_listed [OF assms(2) finite_subset [OF assms(3) pt_accD(13) [OF assms(1)]]
    in_table_subset [OF pt_accD(6) [OF assms(1)] assms(3)]])

lemma contains_Inr [res_inv]: "validate_partition_contains_sectors p ns = Inr u \<longleftrightarrow> ns \<subseteq> pt_sectors p"
  by (simp add: validate_partition_contains_sectors_def)

lemma record_faults_acc:
  assumes bits: "converts bits" and p: "pt_acc sz quant t p"
    and run: "pt_record_faults bits t ns e sz quant p = Inr ((nf, dpw, fpw), p')"
  shows "pt_acc sz quant t p' \<and> pt_active_power p' = pt_active_power p + dpw \<and> live_sectors p' = live_sectors p
    \<and> nf = ns - pt_recoveries p - pt_terminated p - pt_faults p \<and> fpw = (\<Sum>n\<in>nf. spower sz (tinfo t) n)"
proof -
  note a = pt_accD [OF p]
  let ?R = "pt_recoveries p \<inter> ns" let ?N = "ns - ?R - pt_terminated p - pt_faults p"
  from run obtain ss rs p1 where ns: "ns \<subseteq> pt_sectors p" and ss: "load_sectors ?N t = Inr ss" and rs: "load_sectors ?R t = Inr rs"
    and add: "(if ss \<noteq> [] then add_faults bits ?N ss e sz quant p else Inr ((0, 0), p)) = Inr ((dpw, fpw), p1)"
    and out: "nf = ?N" "p' = (if rs \<noteq> [] then remove_recoveries ?R (power_for_sectors sz rs) p1 else p1)"
    by (auto simp: pt_record_faults_def contains_Inr map_error_Inr r_bind_eq_Inr validated_Inr into_anyhow_Inr Let_def)
  have N: "?N \<subseteq> live_sectors p" "?N \<inter> pt_faults p = {}" using ns by (auto simp: live_sectors_def)
  have l: "listed t ss ?N" "listed t rs ?R"
    by (rule load_live [OF p ss N(1)]) (rule load_live [OF p rs], use a(3,5) in blast)
  have p1: "pt_acc sz quant t p1" "pt_active_power p1 = pt_active_power p + dpw" "live_sectors p1 = live_sectors p"
    "fpw = (\<Sum>n\<in>?N. spower sz (tinfo t) n)" "pt_recoveries p1 = pt_recoveries p"
  proof -
    have "pt_acc sz quant t p1 \<and> pt_active_power p1 = pt_active_power p + dpw \<and> live_sectors p1 = live_sectors p
        \<and> fpw = (\<Sum>n\<in>?N. spower sz (tinfo t) n) \<and> pt_recoveries p1 = pt_recoveries p"
    proof (cases "ss = []")
      case True
      then have "?N = {}" using listedD(5) [OF l(1)] by (simp only:)
      then have "(\<Sum>n\<in>?N. spower sz (tinfo t) n) = 0" by (simp only: sum.empty)
      with True add p show ?thesis by simp
    next
      case False
      then have "add_faults bits ?N ss e sz quant p = Inr ((dpw, fpw), p1)" using add by simp
      from add_faults_acc [OF bits p l(1) N this] show ?thesis by blast
    qed
    then show "pt_acc sz quant t p1" "pt_active_power p1 = pt_active_power p + dpw" "live_sectors p1 = live_sectors p"
      "fpw = (\<Sum>n\<in>?N. spower sz (tinfo t) n)" "pt_recoveries p1 = pt_recoveries p" by auto
  qed
  have sub: "?R \<subseteq> pt_recoveries p1" using p1(5) by blast
  note r = remove_recoveries_acc [OF p1(1) sub listed_power [OF l(2)]]
  have "ns - ?R - pt_terminated p - pt_faults p = ns - pt_recoveries p - pt_terminated p - pt_faults p" using a(5) by blast
  with p1 r show ?thesis unfolding out by simp
qed

lemma recover_faults_acc:
  assumes bits: "converts bits" and p: "pt_acc sz quant t p" and run: "recover_faults bits t sz quant p = Inr (pw, p')"
  shows "pt_acc sz quant t p' \<and> pt_active_power p' = pt_active_power p + pw \<and> live_sectors p' = live_sectors p
    \<and> pw = (\<Sum>n\<in>pt_recoveries p. spower sz (tinfo t) n)"
proof -
  note a = pt_accD [OF p]
  from run obtain ss q where ss: "load_sectors (pt_recoveries p) t = Inr ss" and rs: "reschedule_recovered bits ss sz (pt_queue quant p) = Inr (pw, q)"
    and p': "p' = p\<lparr>pt_expirations_epochs := eq_amt q, pt_faults := pt_faults p - pt_recoveries p, pt_recoveries := {},
      pt_faulty_power := pt_faulty_power p - pw, pt_recovering_power := pt_recovering_power p - pw\<rparr>"
    by (auto simp: recover_faults_def r_bind_eq_Inr validated_Inr into_anyhow_Inr)
  have l: "listed t ss (pt_recoveries p)"
    by (rule load_live [OF p ss]) (use a(3,5) in blast)
  note ls = listedD [OF l]
  have "sector_number ` set ss \<subseteq> pt_faults p" unfolding ls(3) by (rule a(5))
  note q = reschedule_recovered_acc [OF bits a(7) ls(1,2) this rs, unfolded ls(3) a(8)]
  have que: "pt_queue quant p' = q" using q by (intro pt_queue_eq) (simp_all add: p')
  have live: "live_sectors p' = live_sectors p" by (simp add: p' live_sectors_def)
  have "pt_acc sz quant t p'" unfolding pt_acc_def que live
  proof (intro conjI)
    show "pt_faulty_power p' = (\<Sum>n\<in>pt_faults p'. spower sz (tinfo t) n)" using a(5,11,14) q by (simp add: p' psum_minus)
    show "pt_unproven p' \<subseteq> live_sectors p - pt_faults p'" "pt_faults p' \<subseteq> live_sectors p" using a(3,4) by (auto simp: p')
  qed (use a q in \<open>simp_all add: p'\<close>)
  then show ?thesis using q live by (simp add: p' pt_active_power_def algebra_simps)
qed

lemma activate_unproven_acc:
  assumes p: "pt_acc sz quant t p" and run: "activate_unproven p = (pw, p')"
  shows "pt_acc sz quant t p' \<and> pt_active_power p' = pt_active_power p + pw \<and> live_sectors p' = live_sectors p"
proof -
  have p': "p' = p\<lparr>pt_unproven := {}, pt_unproven_power := 0\<rparr>" "pw = pt_unproven_power p" using run by (auto simp: activate_unproven_def)
  have que: "pt_queue quant p' = pt_queue quant p" and live: "live_sectors p' = live_sectors p" by (simp_all add: p' pt_queue_def live_sectors_def)
  have "pt_acc sz quant t p'" unfolding pt_acc_def que live using pt_accD [OF p] by (simp add: p')
  then show ?thesis using live by (simp add: p' pt_active_power_def)
qed

lemma declare_recovered_acc:
  assumes p: "pt_acc sz quant t p" and run: "pt_declare_faults_recovered t sz ns p = Inr (u, p')"
  shows "pt_acc sz quant t p' \<and> pt_active_power p' = pt_active_power p \<and> live_sectors p' = live_sectors p"
proof -
  note a = pt_accD [OF p]
  let ?R = "ns \<inter> pt_faults p - pt_recoveries p"
  from run obtain ss where ss: "load_sectors ?R t = Inr ss"
    and p': "p' = p\<lparr>pt_recoveries := pt_recoveries p \<union> ?R, pt_recovering_power := pt_recovering_power p + power_for_sectors sz ss\<rparr>"
    by (auto simp: pt_declare_faults_recovered_def r_bind_eq_Inr validated_Inr into_anyhow_Inr Let_def)
  have l: "listed t ss ?R"
    by (rule load_live [OF p ss]) (use a(3,5) in blast)
  have que: "pt_queue quant p' = pt_queue quant p" and live: "live_sectors p' = live_sectors p" by (simp_all add: p' pt_queue_def live_sectors_def)
  have "(\<Sum>n\<in>pt_recoveries p \<union> ?R. spower sz (tinfo t) n) = (\<Sum>n\<in>pt_recoveries p. spower sz (tinfo t) n) + (\<Sum>n\<in>?R. spower sz (tinfo t) n)"
    by (rule sum_add_disjoint) (use a in auto)
  then have "pt_acc sz quant t p'" unfolding pt_acc_def que live using a by (auto simp: p' listed_power [OF l])
  then show ?thesis using live by (simp add: p' pt_active_power_def)
qed

lemma pt_reschedule_acc:
  assumes bits: "converts bits" and p: "pt_acc sz quant t p"
    and run: "pt_reschedule_expirations bits t e ns sz quant p = Inr (ss, p')"
  shows "pt_acc sz quant t p' \<and> pt_active_power p' = pt_active_power p \<and> live_sectors p' = live_sectors p
    \<and> listed t ss (ns \<inter> live_sectors p - pt_faults p)"
proof -
  note a = pt_accD [OF p]
  let ?N = "ns \<inter> pt_sectors p - pt_terminated p - pt_faults p"
  from run obtain q where ss: "load_sectors ?N t = Inr ss" and rs: "reschedule_expirations bits e ss sz (pt_queue quant p) = Inr q"
    and p': "p' = p\<lparr>pt_expirations_epochs := eq_amt q\<rparr>"
    by (auto simp: pt_reschedule_expirations_def r_bind_eq_Inr validated_Inr into_anyhow_Inr Let_def)
  have N: "?N = ns \<inter> live_sectors p - pt_faults p" by (auto simp: live_sectors_def)
  have l: "listed t ss ?N"
    by (rule load_live [OF p ss]) (use N in blast)
  note ls = listedD [OF l]
  have "sector_number ` set ss \<inter> pt_faults p = {}" unfolding ls(3) by blast
  note q = reschedule_expirations_acc [OF bits a(7) ls(1,2) this rs, unfolded a(8)]
  have que: "pt_queue quant p' = q" using q by (intro pt_queue_eq) (simp_all add: p')
  have live: "live_sectors p' = live_sectors p" by (simp add: p' live_sectors_def)
  have "pt_acc sz quant t p'" unfolding pt_acc_def que live using a q by (simp add: p')
  then show ?thesis using live l N by (simp add: p' pt_active_power_def)
qed

lemma es_acc_power:
  assumes "es_acc sz info F es"
  shows "active_power es = (\<Sum>n\<in>es_all es - F. spower sz info n)" and "faulty_power es = (\<Sum>n\<in>es_all es \<inter> F. spower sz info n)"
    and "on_time_pledge es = (\<Sum>n\<in>on_time_sectors es. si_initial_pledge (info n))"
    and "fee_deduction es = (\<Sum>n\<in>es_all es. si_daily_fee (info n))"
proof -
  from assms obtain on early where o: "es = canon sz info F on early" "early \<subseteq> F" by (rule es_accE)
  have "on - F = on \<union> early - F" "on \<inter> F \<union> early = (on \<union> early) \<inter> F" using o(2) by blast+
  then show "active_power es = (\<Sum>n\<in>es_all es - F. spower sz info n)" "faulty_power es = (\<Sum>n\<in>es_all es \<inter> F. spower sz info n)"
    unfolding o(1) canon_sets by (simp_all add: canon_def)
  show "on_time_pledge es = (\<Sum>n\<in>on_time_sectors es. si_initial_pledge (info n))" "fee_deduction es = (\<Sum>n\<in>es_all es. si_daily_fee (info n))"
    unfolding o(1) canon_sets by (simp_all add: canon_def)
qed

lemma missed_post_acc:
  assumes p: "pt_acc sz quant t p" and run: "record_missed_post e quant p = Inr ((dpw, pen, fpw), p')"
  shows "pt_acc sz quant t p' \<and> pt_active_power p' = pt_active_power p + dpw \<and> live_sectors p' = live_sectors p
    \<and> pt_faults p' = live_sectors p \<and> pen = (\<Sum>n\<in>pt_recoveries p. spower sz (tinfo t) n) + (\<Sum>n\<in>live_sectors p - pt_faults p. spower sz (tinfo t) n)"
proof -
  note a = pt_accD [OF p]
  from run obtain q where rs: "reschedule_all_as_faults e (pt_queue quant p) = Inr q"
    and out: "fpw = pt_live_power p - pt_faulty_power p" "pen = pt_recovering_power p + fpw" "dpw = pt_unproven_power p - fpw"
    and p': "p' = p\<lparr>pt_expirations_epochs := eq_amt q, pt_faults := live_sectors p, pt_recoveries := {}, pt_unproven := {},
      pt_faulty_power := pt_live_power p, pt_recovering_power := 0, pt_unproven_power := 0\<rparr>"
    by (auto simp: record_missed_post_def r_bind_eq_Inr validated_Inr Let_def)
  note q = reschedule_all_acc [OF a(7) rs, unfolded a(8)]
  have F: "pt_faults p \<union> live_sectors p = live_sectors p" using a(3) by blast
  have que: "pt_queue quant p' = q" using q by (intro pt_queue_eq) (simp_all add: p')
  have live: "live_sectors p' = live_sectors p" by (simp add: p' live_sectors_def)
  have "pt_acc sz quant t p'" unfolding pt_acc_def que live using a q F by (simp add: p')
  then show ?thesis using live a(3,9,11,12,13) by (simp add: p' pt_active_power_def out psum_minus algebra_simps)
qed

lemma record_early_Inr:
  "record_early_termination e ss p = Inr p' \<Longrightarrow> \<exists>a. p' = p\<lparr>pt_early_terminated := a\<rparr>"
  by (auto simp: record_early_termination_def r_bind_eq_Inr)

lemma pop_expired_acc:
  assumes p: "pt_acc sz quant t p" and run: "pt_pop_expired_sectors u quant p = Inr (popped, p')"
  shows "pt_acc sz quant t p' \<and> pt_active_power p' = pt_active_power p - active_power popped
    \<and> es_acc sz (tinfo t) (pt_faults p) popped \<and> es_all popped \<subseteq> live_sectors p \<and> live_sectors p' = live_sectors p - es_all popped"
proof -
  note a = pt_accD [OF p]
  obtain es q where pop: "eq_pop_until u (pt_queue quant p) = (es, q)" by fastforce
  let ?x = "es_all es"
  from run pop obtain p1 where out: "popped = es" and un: "pt_unproven p = {}" and rec: "pt_recoveries p = {}"
    and r: "record_early_termination u (early_sectors es)
      (p\<lparr>pt_expirations_epochs := eq_amt q, pt_terminated := pt_terminated p \<union> ?x, pt_faults := pt_faults p - ?x,
         pt_live_power := pt_live_power p - (active_power es + faulty_power es), pt_faulty_power := pt_faulty_power p - faulty_power es\<rparr>) = Inr p'"
    by (auto simp: pt_pop_expired_sectors_def r_bind_eq_Inr validated_Inr Let_def split: if_split_asm)
  from record_early_Inr [OF r] obtain et where p': "p' = p\<lparr>pt_expirations_epochs := eq_amt q,
      pt_terminated := pt_terminated p \<union> ?x, pt_faults := pt_faults p - ?x,
      pt_live_power := pt_live_power p - (active_power es + faulty_power es), pt_faulty_power := pt_faulty_power p - faulty_power es, pt_early_terminated := et\<rparr>" by auto
  note q = eq_pop_until_acc [OF a(7) pop, unfolded a(8)]
  have es: "es_acc sz (tinfo t) (pt_faults p) es" and x: "?x \<subseteq> live_sectors p" using q by auto
  note w = es_acc_power [OF es]
  have live: "live_sectors p' = live_sectors p - ?x" by (auto simp: p' live_sectors_def)
  have que: "pt_queue quant p' = q" using q by (intro pt_queue_eq) (simp_all add: p')
  have qf: "q_acc sz (tinfo t) (pt_faults p - ?x) q" by (rule q_acc_cong [of _ _ "pt_faults p"]) (use q in blast)+
  have fin: "finite ?x" using finite_subset [OF x a(13)] .
  have tot: "active_power es + faulty_power es = (\<Sum>n\<in>?x. spower sz (tinfo t) n)"
  proof -
    have "?x = (?x - pt_faults p) \<union> (?x \<inter> pt_faults p)" by blast
    then have "(\<Sum>n\<in>?x. spower sz (tinfo t) n) = (\<Sum>n\<in>?x - pt_faults p. spower sz (tinfo t) n) + (\<Sum>n\<in>?x \<inter> pt_faults p. spower sz (tinfo t) n)"
      using fin sum_add_disjoint [of "?x - pt_faults p" "?x \<inter> pt_faults p" "spower sz (tinfo t)"] by auto
    with w show ?thesis by simp
  qed
  have "pt_acc sz quant t p'" unfolding pt_acc_def que live
  proof (intro conjI)
    show "finite (pt_sectors p')" "pt_terminated p' \<subseteq> pt_sectors p'" using a(1,2) x by (auto simp: p' live_sectors_def)
    show "pt_faults p' \<subseteq> live_sectors p - ?x" using a(3) by (auto simp: p')
    show "in_table t (live_sectors p - ?x)" by (rule in_table_subset [OF a(6)]) blast
    show "pt_live_power p' = (\<Sum>n\<in>live_sectors p - ?x. spower sz (tinfo t) n)"
      using a(9,13) x tot by (simp add: p' psum_minus)
    have "pt_faults p - ?x = pt_faults p - ?x \<inter> pt_faults p" by blast
    then show "pt_faulty_power p' = (\<Sum>n\<in>pt_faults p'. spower sz (tinfo t) n)"
      using a(11,14) w(2) by (simp add: p' psum_minus)
  qed (use q qf rec un a(10,12) in \<open>simp_all add: p'\<close>)
  moreover have "pt_active_power p' = pt_active_power p - active_power es" by (simp add: p' pt_active_power_def algebra_simps)
  ultimately show ?thesis using es x live out by simp
qed

lemma skipped_acc:
  assumes bits: "converts bits" and p: "pt_acc sz quant t p"
    and run: "record_skipped_faults bits t sz quant e sk p = Inr ((dpw, fpw, rpw, flag), p')"
  shows "pt_acc sz quant t p' \<and> pt_active_power p' = pt_active_power p + dpw \<and> live_sectors p' = live_sectors p"
proof (cases "sk = {}")
  case True
  with run p show ?thesis by (simp add: record_skipped_faults_def)
next
  case False
  note a = pt_accD [OF p]
  let ?R = "pt_recoveries p \<inter> sk" and ?N = "sk - pt_terminated p - pt_faults p"
  from run False obtain rs ss p1 where sk: "sk \<subseteq> pt_sectors p" and rs: "load_sectors ?R t = Inr rs" and ss: "load_sectors ?N t = Inr ss"
    and add: "add_faults bits ?N ss e sz quant p = Inr ((dpw, fpw), p1)" and p': "p' = remove_recoveries ?R (power_for_sectors sz rs) p1"
    by (auto simp: record_skipped_faults_def r_bind_eq_Inr validated_Inr into_anyhow_Inr downcast_default_Inr Let_def split: if_split_asm)
  have N: "?N \<subseteq> live_sectors p" "?N \<inter> pt_faults p = {}" using sk by (auto simp: live_sectors_def)
  have l: "listed t ss ?N" by (rule load_live [OF p ss N(1)])
  have lr: "listed t rs ?R" by (rule load_live [OF p rs]) (use a(3,5) in blast)
  note p1 = add_faults_acc [OF bits p l N add]
  have "pt_acc sz quant t p1" "?R \<subseteq> pt_recoveries p1" using p1 by auto
  from remove_recoveries_acc [OF this listed_power [OF lr]] p1 show ?thesis unfolding p' by simp
qed

lemma sum_split_set:
  "finite X \<Longrightarrow> (\<Sum>n\<in>X. f n) = (\<Sum>n\<in>X - F. f n) + (\<Sum>n\<in>X \<inter> F. f n :: 'a::ab_group_add)"
  by (metis add.commute sum.Int_Diff)

lemma terminate_acc:
  assumes bits: "converts bits" and p: "pt_acc sz quant t p"
    and run: "pt_terminate_sectors bits mx t e ns sz quant p = Inr ((removed, upw), p')"
  shows "pt_acc sz quant t p' \<and> pt_active_power p' = pt_active_power p - active_power removed
    \<and> live_sectors p' = live_sectors p - ns \<and> ns \<subseteq> live_sectors p \<and> es_all removed = ns"
proof -
  note a = pt_accD [OF p]
  let ?U = "ns \<inter> pt_unproven p"
  from run obtain ss rm rpw q p1 us where ns: "ns \<subseteq> live_sectors p" and ss: "load_sectors ns t = Inr ss"
    and rs: "remove_sectors bits mx ss (pt_faults p) (pt_recoveries p) sz (pt_queue quant p) = Inr ((rm, rpw), q)"
    and et: "record_early_termination e (es_all rm) (p\<lparr>pt_expirations_epochs := eq_amt q\<rparr>) = Inr p1"
    and us: "select_sectors ss (es_all rm \<inter> pt_unproven p1) = Inr us"
    and out: "removed = rm\<lparr>active_power := active_power rm - power_for_sectors sz us\<rparr>" "upw = power_for_sectors sz us"
    and p': "p' = p1\<lparr>pt_faults := pt_faults p1 - es_all rm, pt_recoveries := pt_recoveries p1 - es_all rm,
       pt_terminated := pt_terminated p1 \<union> es_all rm, pt_live_power := pt_live_power p1 - active_power rm - faulty_power rm,
       pt_faulty_power := pt_faulty_power p1 - faulty_power rm, pt_recovering_power := pt_recovering_power p1 - rpw,
       pt_unproven := pt_unproven p1 - es_all rm \<inter> pt_unproven p1, pt_unproven_power := pt_unproven_power p1 - power_for_sectors sz us\<rparr>"
    by (auto simp: pt_terminate_sectors_def r_bind_eq_Inr validated_Inr into_anyhow_Inr Let_def split: if_split_asm)
  from record_early_Inr [OF et] obtain b where p1: "p1 = p\<lparr>pt_expirations_epochs := eq_amt q, pt_early_terminated := b\<rparr>" by auto
  have l: "listed t ss ns" by (rule load_live [OF p ss ns])
  note ls = listedD [OF l]
  note q = remove_sectors_acc [OF bits a(7) ls(1,2) ls(3) [symmetric] rs, unfolded a(8)]
  have x: "es_all rm = ns" and acc: "es_acc sz (tinfo t) (pt_faults p) rm" using q by auto
  note w = es_acc_power [OF acc, unfolded x]
  have upw: "power_for_sectors sz us = (\<Sum>n\<in>?U. spower sz (tinfo t) n)"
    by (rule listed_power [OF select_sectors_listed [OF l]]) (use us in \<open>simp add: x p1\<close>)
  have live: "live_sectors p' = live_sectors p - ns" by (auto simp: p' p1 x live_sectors_def)
  have que: "pt_queue quant p' = q" using q by (intro pt_queue_eq) (simp_all add: p' p1)
  have qf: "q_acc sz (tinfo t) (pt_faults p - ns) q" by (rule q_acc_cong [of _ _ "pt_faults p"]) (use q in blast)+
  have tot: "active_power rm + faulty_power rm = (\<Sum>n\<in>ns. spower sz (tinfo t) n)"
    using w sum_split_set [OF ls(4), of "spower sz (tinfo t)" "pt_faults p"] by simp
  have "pt_acc sz quant t p'" unfolding pt_acc_def que live
  proof (intro conjI)
    show "finite (pt_sectors p')" "pt_terminated p' \<subseteq> pt_sectors p'" using a(1,2) ns by (auto simp: p' p1 x live_sectors_def)
    show "pt_faults p' \<subseteq> live_sectors p - ns" "pt_unproven p' \<subseteq> live_sectors p - ns - pt_faults p'" "pt_recoveries p' \<subseteq> pt_faults p'"
      using a(3,4,5) by (auto simp: p' p1 x)
    show "in_table t (live_sectors p - ns)" by (rule in_table_subset [OF a(6)]) blast
    show "pt_live_power p' = (\<Sum>n\<in>live_sectors p - ns. spower sz (tinfo t) n)"
      using a(9,13) ns tot by (simp add: p' p1 psum_minus algebra_simps)
    show "pt_unproven_power p' = (\<Sum>n\<in>pt_unproven p'. spower sz (tinfo t) n)"
      using a(10,15) upw by (simp add: p' p1 x psum_minus)
    have "pt_faults p - ns = pt_faults p - ns \<inter> pt_faults p" by blast
    then show "pt_faulty_power p' = (\<Sum>n\<in>pt_faults p'. spower sz (tinfo t) n)"
      using a(11,14) w(2) by (simp add: p' p1 x psum_minus)
    have "pt_recoveries p - ns = pt_recoveries p - ns \<inter> pt_faults p \<inter> pt_recoveries p" using a(5) by blast
    then show "pt_recovering_power p' = (\<Sum>n\<in>pt_recoveries p'. spower sz (tinfo t) n)"
      using a(12,16) q by (simp add: p' p1 x psum_minus)
  qed (use q qf in \<open>simp_all add: p' p1 x\<close>)
  moreover have "pt_active_power p' = pt_active_power p - active_power removed"
    by (simp add: p' p1 out pt_active_power_def algebra_simps)
  ultimately show ?thesis using live ns x by (simp add: out)
qed

text \<open>A table that keeps the sectors of the partition.\<close>

lemma table_acc:
  assumes p: "pt_acc sz quant t p" and same: "\<And>n. n \<in> live_sectors p \<Longrightarrow> amt_get t' n = amt_get t n"
  shows "pt_acc sz quant t' p"
proof -
  note a = pt_accD [OF p]
  have s: "(\<Sum>n\<in>A. spower sz (tinfo t') n) = (\<Sum>n\<in>A. spower sz (tinfo t) n)" if "A \<subseteq> live_sectors p" for A
    by (rule sum.cong) (use that same in auto)
  have "q_acc sz (tinfo t') (pt_faults p) (pt_queue quant p)"
    by (rule q_acc_info [OF a(7)]) (use same a(8) in simp)
  moreover have "in_table t' (live_sectors p)" using a(6) same by (simp add: in_table_def)
  moreover have "pt_unproven p \<subseteq> live_sectors p" "pt_recoveries p \<subseteq> live_sectors p" using a(3,4,5) by blast+
  ultimately show ?thesis using a s unfolding pt_acc_def by simp
qed

lemma remove_active_numbers:
  assumes "converts bits" and "q_acc sz info F q" and "distinct (map sector_number ss)" and "\<And>s. s \<in> set ss \<Longrightarrow> info (sector_number s) = s"
    and "remove_active_sectors bits ss sz q = Inr ((N, pw, pl, fee), q')"
  shows "N = sector_number ` set ss"
proof -
  from assms(5) obtain gs nums where gs: "find_sectors_by_expiration sz ss q = Inr gs"
    and run: "r_fold (remove_group bits) gs (([], 0, 0, 0), q) = Inr ((nums, pw, pl, fee), q')" and bf: "bits nums = Inr N"
    by (auto simp: remove_active_sectors_def r_bind_eq_Inr)
  have "r_fold (remove_group bits) gs acc = Inr acc' \<Longrightarrow> fst (fst acc') = fst (fst acc) @ gs_nums gs" for gs acc acc'
  proof (induction gs arbitrary: acc)
    case (Cons g gs)
    from Cons.prems obtain acc1 where 1: "remove_group bits g acc = Inr acc1" and 2: "r_fold (remove_group bits) gs acc1 = Inr acc'"
      by (auto simp: r_bind_eq_Inr)
    from 1 have "fst (fst acc1) = fst (fst acc) @ ses_sectors (sector_epoch_set g)"
      by (auto simp: remove_group_def [of bits g] r_bind_eq_Inr Let_def split: prod.split_asm)
    with Cons.IH [OF 2] show ?case by simp
  qed simp
  from this [OF run] have "nums = gs_nums gs" by simp
  moreover have "N = set nums" using assms(1) bf by (auto simp: converts_def)
  ultimately show ?thesis using find_sectors_acc [OF assms(2-4) gs] by auto
qed

lemma pt_replace_acc:
  assumes bits: "converts bits" and p: "pt_acc sz quant t p" and old: "listed t ss N" and new: "listed t' ss' N" "in_table t' N"
    and same: "\<And>n. n \<in> live_sectors p - N \<Longrightarrow> amt_get t' n = amt_get t n"
    and run: "pt_replace_sectors bits ss ss' sz quant p = Inr ((dpw, dpl, dfee), p')"
  shows "pt_acc sz quant t' p' \<and> pt_active_power p' = pt_active_power p + dpw \<and> live_sectors p' = live_sectors p \<and> N \<subseteq> active_sectors p"
proof -
  note a = pt_accD [OF p] and o = listedD [OF old] and n = listedD [OF new(1)]
  from run obtain onums nnums q where rs: "replace_sectors bits ss ss' sz (pt_queue quant p) = Inr ((onums, nnums, dpw, dpl, dfee), q)"
    and act: "onums \<subseteq> active_sectors p"
    and p': "p' = p\<lparr>pt_expirations_epochs := eq_amt q, pt_sectors := pt_sectors p - onums \<union> nnums, pt_live_power := pt_live_power p + dpw\<rparr>"
    by (auto simp: pt_replace_sectors_def r_bind_eq_Inr validated_Inr split: if_split_asm)
  from rs obtain t1 q1 where rm: "remove_active_sectors bits ss sz (pt_queue quant p) = Inr ((onums, t1), q1)"
    by (auto simp: replace_sectors_def r_bind_eq_Inr)
  have "onums = N" using remove_active_numbers [OF bits a(7) o(1,2)] rm o(3) by (cases t1) auto
  with act have N: "N \<subseteq> live_sectors p" "N \<inter> pt_faults p = {}" "N \<inter> pt_unproven p = {}" by (auto simp: active_sectors_def)
  have q: "q_acc sz (tinfo t') (pt_faults p) q \<and> eq_sectors q = live_sectors p - N \<union> N \<and> eq_quant q = quant \<and> onums = N \<and> nnums = N
    \<and> N \<subseteq> live_sectors p \<and> dpw = (\<Sum>n\<in>nnums. spower sz (tinfo t') n) - (\<Sum>n\<in>onums. spower sz (tinfo t) n)"
    using replace_sectors_acc [OF bits a(7) o(1,2) _ n(1,2) _ _ _ rs] same N(2) unfolding o(3) n(3) a(8) pt_queue_sel by auto
  have un: "live_sectors p - N \<union> N = live_sectors p" "pt_sectors p - N \<union> N = pt_sectors p" using N(1) by (auto simp: live_sectors_def)
  have p'': "p' = p\<lparr>pt_expirations_epochs := eq_amt q, pt_live_power := pt_live_power p + dpw\<rparr>" using p' q un(2) by simp
  have live: "live_sectors p' = live_sectors p" by (simp add: p'' live_sectors_def)
  have que: "pt_queue quant p' = q" using q by (intro pt_queue_eq) (simp_all add: p'')
  have s: "(\<Sum>n\<in>A. spower sz (tinfo t') n) = (\<Sum>n\<in>A. spower sz (tinfo t) n)" if "A \<subseteq> live_sectors p - N" for A
    by (rule sum.cong) (use that same in auto)
  have sub: "pt_unproven p \<subseteq> live_sectors p - N" "pt_faults p \<subseteq> live_sectors p - N" "pt_recoveries p \<subseteq> live_sectors p - N" using a(3,4,5) N by blast+
  have "pt_acc sz quant t' p'" unfolding pt_acc_def que live
  proof (intro conjI)
    show "in_table t' (live_sectors p)"
      unfolding in_table_def
    proof
      fix m assume m: "m \<in> live_sectors p"
      show "\<exists>s. amt_get t' m = Some s \<and> sector_number s = m"
        using m a(6) new(2) same [of m] by (cases "m \<in> N") (auto simp: in_table_def)
    qed
    have "(\<Sum>n\<in>live_sectors p. spower sz (tinfo t') n) = (\<Sum>n\<in>live_sectors p - N. spower sz (tinfo t) n) + (\<Sum>n\<in>N. spower sz (tinfo t') n)"
      using sum_split_set [OF a(13), of "spower sz (tinfo t')" N] s [OF subset_refl] N(1) by (simp add: Int_absorb1)
    then show "pt_live_power p' = (\<Sum>n\<in>live_sectors p. spower sz (tinfo t') n)"
      using a(9,13) q N(1) by (simp add: p'' psum_minus)
  qed (use a q un s [OF sub(1)] s [OF sub(2)] s [OF sub(3)] in \<open>simp_all add: p''\<close>)
  then show ?thesis using live act \<open>onums = N\<close> by (simp add: p'' pt_active_power_def)
qed

lemma pop_early_acc:
  assumes p: "pt_acc sz quant t p" and run: "pt_pop_early_terminations mx p = Inr (r, p')"
  shows "pt_acc sz quant t p' \<and> pt_active_power p' = pt_active_power p"
proof -
  from run obtain a where p': "p' = p\<lparr>pt_early_terminated := a\<rparr>"
    by (auto simp: pt_pop_early_terminations_def r_bind_eq_Inr validated_Inr Let_def split: if_split_asm)
  have que: "pt_queue quant p' = pt_queue quant p" and live: "live_sectors p' = live_sectors p" by (simp_all add: p' pt_queue_def live_sectors_def)
  have "pt_acc sz quant t p'" unfolding pt_acc_def que live using pt_accD [OF p] by (simp add: p')
  then show ?thesis by (simp add: p' pt_active_power_def)
qed

section \<open>Sequences of operations on a partition\<close>

text \<open>
  A step of a partition and the table of sectors, with the change of active power that the operation
  reports to its caller. The table may change where the partition has no live sector; sectors are in the
  table when they are added, and the table holds the new sectors when sectors are replaced.
\<close>

inductive pt_step ::
  "to_bits \<Rightarrow> int \<Rightarrow> quant_spec \<Rightarrow> sector_table \<times> partition_state \<Rightarrow> power_pair \<Rightarrow> sector_table \<times> partition_state \<Rightarrow> bool"
  for bits sz quant where
  stored: "\<forall>n \<in> live_sectors p. amt_get t' n = amt_get t n \<Longrightarrow> pt_step bits sz quant (t, p) 0 (t', p)"
| added: "listed t ss N \<Longrightarrow> in_table t N \<Longrightarrow> pt_add_sectors bits proven ss sz quant p = Inr ((pw, fee), p') \<Longrightarrow>
    pt_step bits sz quant (t, p) (if proven then pw else 0) (t, p')"
| faulted: "pt_record_faults bits t ns e sz quant p = Inr ((nf, dpw, fpw), p') \<Longrightarrow> pt_step bits sz quant (t, p) dpw (t, p')"
| recovered: "recover_faults bits t sz quant p = Inr (pw, p') \<Longrightarrow> pt_step bits sz quant (t, p) pw (t, p')"
| activated: "activate_unproven p = (pw, p') \<Longrightarrow> pt_step bits sz quant (t, p) pw (t, p')"
| declared: "pt_declare_faults_recovered t sz ns p = Inr (u, p') \<Longrightarrow> pt_step bits sz quant (t, p) 0 (t, p')"
| rescheduled: "pt_reschedule_expirations bits t e ns sz quant p = Inr (ss, p') \<Longrightarrow> pt_step bits sz quant (t, p) 0 (t, p')"
| replaced: "listed t ss N \<Longrightarrow> listed t' ss' N \<Longrightarrow> in_table t' N \<Longrightarrow> \<forall>n \<in> live_sectors p - N. amt_get t' n = amt_get t n \<Longrightarrow>
    pt_replace_sectors bits ss ss' sz quant p = Inr ((dpw, dpl, dfee), p') \<Longrightarrow> pt_step bits sz quant (t, p) dpw (t', p')"
| terminated: "pt_terminate_sectors bits mx t e ns sz quant p = Inr ((removed, upw), p') \<Longrightarrow>
    pt_step bits sz quant (t, p) (- active_power removed) (t, p')"
| expired: "pt_pop_expired_sectors e quant p = Inr (popped, p') \<Longrightarrow> pt_step bits sz quant (t, p) (- active_power popped) (t, p')"
| missed: "record_missed_post e quant p = Inr ((dpw, pen, fpw), p') \<Longrightarrow> pt_step bits sz quant (t, p) dpw (t, p')"
| skipped: "record_skipped_faults bits t sz quant e sk p = Inr ((dpw, fpw, rpw, flag), p') \<Longrightarrow> pt_step bits sz quant (t, p) dpw (t, p')"
| popped_early: "pt_pop_early_terminations mx p = Inr (r, p') \<Longrightarrow> pt_step bits sz quant (t, p) 0 (t, p')"

inductive pt_run ::
  "to_bits \<Rightarrow> int \<Rightarrow> quant_spec \<Rightarrow> sector_table \<times> partition_state \<Rightarrow> power_pair \<Rightarrow> sector_table \<times> partition_state \<Rightarrow> bool"
  for bits sz quant where
  start: "pt_run bits sz quant s 0 s"
| step: "pt_run bits sz quant s d s1 \<Longrightarrow> pt_step bits sz quant s1 e s2 \<Longrightarrow> pt_run bits sz quant s (d + e) s2"

lemma pt_step_acc:
  assumes "pt_step bits sz quant s d s'" and bits: "converts bits" and "pt_acc sz quant (fst s) (snd s)"
  shows "pt_acc sz quant (fst s') (snd s') \<and> pt_active_power (snd s') = pt_active_power (snd s) + d"
  using assms(1,3)
proof cases
  case stored
  with assms(3) table_acc show ?thesis by auto
next
  case (added t ss N proven p pw fee p')
  with assms(3) add_sectors_acc [OF bits _ added(4,5,6)] show ?thesis by auto
next
  case (faulted t ns e p nf fpw p')
  with assms(3) record_faults_acc [OF bits] show ?thesis by fastforce
next
  case (recovered t p p')
  with assms(3) recover_faults_acc [OF bits] show ?thesis by fastforce
next
  case (activated p p' t)
  with assms(3) activate_unproven_acc show ?thesis by fastforce
next
  case (declared t ns p u p')
  with assms(3) declare_recovered_acc show ?thesis by fastforce
next
  case (rescheduled t e ns p ss p')
  with assms(3) pt_reschedule_acc [OF bits] show ?thesis by fastforce
next
  case (replaced t ss N t' ss' p dpl dfee p')
  with assms(3) pt_replace_acc [OF bits _ replaced(3,4,5) _ replaced(7)] show ?thesis by auto
next
  case (terminated mx t e ns p removed upw p')
  with assms(3) terminate_acc [OF bits] show ?thesis by fastforce
next
  case (expired e p popped p' t)
  with assms(3) pop_expired_acc show ?thesis by fastforce
next
  case (missed e p pen fpw p' t)
  with assms(3) missed_post_acc show ?thesis by fastforce
next
  case (skipped t e sk p fpw rpw flag p')
  with assms(3) skipped_acc [OF bits] show ?thesis by fastforce
next
  case (popped_early mx p r p' t)
  with assms(3) pop_early_acc show ?thesis by fastforce
qed

lemma pt_run_acc:
  assumes "pt_run bits sz quant s d s'" and "converts bits" and "pt_acc sz quant (fst s) (snd s)"
  shows "pt_acc sz quant (fst s') (snd s') \<and> pt_active_power (snd s') = pt_active_power (snd s) + d"
  using assms
proof (induction rule: pt_run.induct)
  case (step s d s1 e s2)
  with pt_step_acc [OF step(2)] show ?case by (simp add: add.assoc)
qed simp

lemma partition_new_acc: "0 < quant_unit quant \<Longrightarrow> pt_acc sz quant t partition_new"
  by (simp add: pt_acc_def partition_new_def live_sectors_def in_table_def pt_queue_def q_acc_def eq_ok_def eq_sectors_def)

text \<open>Two sectors are added unproven, proven, and one of them becomes faulty.\<close>

definition ex_sector :: "nat \<Rightarrow> int \<Rightarrow> sector_info" where
  "ex_sector n expiration = \<lparr>sector_number = n, si_activation = 0, si_expiration = expiration, si_deal_weight = 0,
     si_verified_deal_weight = 0, si_initial_pledge = 5, si_power_base_epoch = 0, si_daily_fee = 1\<rparr>"

definition ex_sector_table :: sector_table where
  "ex_sector_table = [(1, ex_sector 1 20), (2, ex_sector 2 40)]"

definition ex_quant :: quant_spec where
  "ex_quant = \<lparr>quant_unit = 10, quant_offset = 0\<rparr>"

definition ex_added :: "((power_pair \<times> int) \<times> partition_state) anyhow" where
  "ex_added = pt_add_sectors ex_bits False [ex_sector 1 20, ex_sector 2 40] 32 ex_quant partition_new"

definition ex_proven :: partition_state where
  "ex_proven = snd (activate_unproven (snd (projr ex_added)))"

definition ex_faulted :: "((bitfield \<times> power_pair \<times> power_pair) \<times> partition_state) anyhow" where
  "ex_faulted = pt_record_faults ex_bits ex_sector_table {2} 25 32 ex_quant ex_proven"

abbreviation ex_partition :: partition_state where
  "ex_partition \<equiv> snd (projr ex_faulted)"

lemma ex_converts: "converts ex_bits"
  by (auto simp: converts_def ex_bits_def)

lemma ex_pt_run: "pt_run ex_bits 32 ex_quant (ex_sector_table, partition_new) (PowerPair 32 32) (ex_sector_table, ex_partition)"
proof -
  have 1: "pt_add_sectors ex_bits False [ex_sector 1 20, ex_sector 2 40] 32 ex_quant partition_new
      = Inr ((PowerPair 64 64, 2), snd (projr ex_added))" by code_simp
  have 2: "activate_unproven (snd (projr ex_added)) = (PowerPair 64 64, ex_proven)" by code_simp
  have 3: "pt_record_faults ex_bits ex_sector_table {2} 25 32 ex_quant ex_proven
      = Inr (({2}, PowerPair (- 32) (- 32), PowerPair 32 32), ex_partition)" by code_simp
  have l: "listed ex_sector_table [ex_sector 1 20, ex_sector 2 40] {1, 2}" "in_table ex_sector_table {1, 2}"
    by (auto simp: listed_def in_table_def ex_sector_table_def ex_sector_def)
  have s1: "pt_step ex_bits 32 ex_quant (ex_sector_table, partition_new) (if False then PowerPair 64 64 else 0) (ex_sector_table, snd (projr ex_added))"
    by (rule pt_step.added [OF l 1])
  have s2: "pt_step ex_bits 32 ex_quant (ex_sector_table, snd (projr ex_added)) (PowerPair 64 64) (ex_sector_table, ex_proven)"
    by (rule pt_step.activated [OF 2])
  have s3: "pt_step ex_bits 32 ex_quant (ex_sector_table, ex_proven) (PowerPair (- 32) (- 32)) (ex_sector_table, ex_partition)"
    by (rule pt_step.faulted [OF 3])
  show ?thesis
    using pt_run.step [OF pt_run.step [OF pt_run.step [OF pt_run.start s1] s2] s3]
    by (simp add: plus_power_pair_def zero_power_pair_def)
qed

text \<open>
  C2: a partition that started empty and went through any sequence of its operations holds, as live, unproven,
  faulty and recovering power, exactly the power of its live, unproven, faulty and recovering sectors as
  the table of sectors describes them. Its active power is the power of the sectors that are live and
  neither faulty nor unproven, and equals the sum of the changes that the operations reported to their
  callers.
\<close>

theorem partition_power_exact:
  assumes "pt_run bits sz quant (t0, partition_new) d (t, p)" and "converts bits" and "0 < quant_unit quant"
  shows "pt_active_power p = d
    \<and> d = (\<Sum>n\<in>active_sectors p. power_for_sector sz (the (amt_get t n)))
    \<and> pt_live_power p = (\<Sum>n\<in>live_sectors p. power_for_sector sz (the (amt_get t n)))
    \<and> pt_unproven_power p = (\<Sum>n\<in>pt_unproven p. power_for_sector sz (the (amt_get t n)))
    \<and> pt_faulty_power p = (\<Sum>n\<in>pt_faults p. power_for_sector sz (the (amt_get t n)))
    \<and> pt_recovering_power p = (\<Sum>n\<in>pt_recoveries p. power_for_sector sz (the (amt_get t n)))"
proof -
  from pt_run_acc [OF assms(1,2)] partition_new_acc [OF assms(3)]
  have p: "pt_acc sz quant t p" "pt_active_power p = pt_active_power partition_new + d" by simp_all
  moreover have "pt_active_power partition_new = 0" by (simp add: pt_active_power_def partition_new_def)
  ultimately show ?thesis using pt_accD(9-12) [OF p(1)] active_power_sum [OF p(1)] by simp
qed

theorem partition_power_exact_witness:
  "pt_active_power ex_partition = PowerPair 32 32 \<and> pt_faulty_power ex_partition = PowerPair 32 32
   \<and> pt_faults ex_partition = {2}
   \<and> pt_faulty_power ex_partition = (\<Sum>n\<in>{2}. power_for_sector 32 (the (amt_get ex_sector_table n)))"
proof -
  have "0 < quant_unit ex_quant" by (simp add: ex_quant_def)
  note w = partition_power_exact [OF ex_pt_run ex_converts this]
  have "pt_active_power ex_partition = PowerPair 32 32"
    "pt_faulty_power ex_partition = (\<Sum>n\<in>pt_faults ex_partition. power_for_sector 32 (the (amt_get ex_sector_table n)))" using w by blast+
  moreover have "pt_faults ex_partition = {2}" "pt_faulty_power ex_partition = PowerPair 32 32" by code_simp+
  ultimately show ?thesis by metis
qed

text \<open>
  C3: in such a partition every live sector is scheduled to expire exactly once, no other sector is, and each
  entry of the expiration queue holds what its sectors add up to: the active power of those that are not
  faulty, the faulty power of those that are, the pledge of the sectors that expire on time and the daily
  fee of all. A sector scheduled early is faulty.
\<close>

theorem partition_schedule_exact:
  assumes "pt_run bits sz quant (t0, partition_new) d (t, p)" and "converts bits" and "0 < quant_unit quant"
  shows "(\<forall>n. n \<in> live_sectors p \<longleftrightarrow> (\<exists>!k. \<exists>es. amt_get (pt_expirations_epochs p) k = Some es
        \<and> n \<in> on_time_sectors es \<union> early_sectors es))
    \<and> (\<forall>k es. amt_get (pt_expirations_epochs p) k = Some es \<longrightarrow>
         on_time_sectors es \<inter> early_sectors es = {} \<and> early_sectors es \<subseteq> pt_faults p
         \<and> active_power es = (\<Sum>n\<in>on_time_sectors es \<union> early_sectors es - pt_faults p. power_for_sector sz (the (amt_get t n)))
         \<and> faulty_power es = (\<Sum>n\<in>(on_time_sectors es \<union> early_sectors es) \<inter> pt_faults p. power_for_sector sz (the (amt_get t n)))
         \<and> on_time_pledge es = (\<Sum>n\<in>on_time_sectors es. si_initial_pledge (the (amt_get t n)))
         \<and> fee_deduction es = (\<Sum>n\<in>on_time_sectors es \<union> early_sectors es. si_daily_fee (the (amt_get t n))))"
proof -
  from pt_run_acc [OF assms(1,2)] partition_new_acc [OF assms(3)] have p: "pt_acc sz quant t p" by simp
  note a = pt_accD(7,8) [OF p]
  have "n \<in> live_sectors p \<longleftrightarrow> (\<exists>!k. \<exists>es. amt_get (pt_expirations_epochs p) k = Some es \<and> n \<in> es_all es)" for n
    unfolding a(2) [symmetric] eq_sectors_mem pt_queue_sel using q_accD(4) [OF a(1), unfolded pt_queue_sel] by blast
  moreover have "es_acc sz (tinfo t) (pt_faults p) es" if "amt_get (pt_expirations_epochs p) k = Some es" for k es
    using q_accD(3) [OF a(1)] that by simp
  moreover from this have "on_time_sectors es \<inter> early_sectors es = {} \<and> early_sectors es \<subseteq> pt_faults p"
    if "amt_get (pt_expirations_epochs p) k = Some es" for k es using that by (simp add: es_acc_def)
  ultimately show ?thesis by (intro conjI allI impI) (simp_all add: es_acc_power [of sz "tinfo t" "pt_faults p"])
qed

theorem partition_schedule_exact_witness:
  "(\<exists>!k. \<exists>es. amt_get (pt_expirations_epochs ex_partition) k = Some es \<and> 2 \<in> on_time_sectors es \<union> early_sectors es)
   \<and> pt_expirations_epochs ex_partition =
     [(20, \<lparr>on_time_sectors = {1}, early_sectors = {}, on_time_pledge = 5, active_power = PowerPair 32 32,
            faulty_power = 0, fee_deduction = 1\<rparr>),
      (30, \<lparr>on_time_sectors = {}, early_sectors = {2}, on_time_pledge = 0, active_power = 0,
            faulty_power = PowerPair 32 32, fee_deduction = 1\<rparr>)]"
proof -
  have "0 < quant_unit ex_quant" by (simp add: ex_quant_def)
  note w = partition_schedule_exact [OF ex_pt_run ex_converts this, THEN conjunct1, rule_format, of 2]
  moreover have "2 \<in> live_sectors ex_partition" by code_simp
  moreover have "pt_expirations_epochs ex_partition =
     [(20, \<lparr>on_time_sectors = {1}, early_sectors = {}, on_time_pledge = 5, active_power = PowerPair 32 32,
            faulty_power = 0, fee_deduction = 1\<rparr>),
      (30, \<lparr>on_time_sectors = {}, early_sectors = {2}, on_time_pledge = 0, active_power = 0,
            faulty_power = PowerPair 32 32, fee_deduction = 1\<rparr>)]" by code_simp
  ultimately show ?thesis by blast
qed

end
