(* ===== verification/Smooth.thy ===== *)
theory Smooth
  imports Prelude "HOL-Library.Monad_Syntax"
begin

text \<open>
  Fixed-point estimation: \<open>runtime/src/builtin/reward\<close>. Numbers are integers in the format with
  128 binary fractional digits; a left shift by \<open>PRECISION\<close> is a multiplication and a right
  shift the floor division by \<open>2 ^ 128\<close>. Dividing by zero panics: what may do so returns
  \<open>None\<close>.

  \<^item> \<open>math.rs\<close>: \<open>poly_val\<close>.
  \<^item> \<open>smooth/alpha_beta_filter.rs\<close>: estimates and the alpha-beta filter.
  \<^item> \<open>smooth/smooth_func.rs\<close>: the logarithm and the extrapolated ratio of two estimates.
\<close>

section \<open>Fixed-point numbers\<close>

definition PRECISION :: nat where "PRECISION = 128"

definition shl :: "int \<Rightarrow> int" where "shl x = x * 2 ^ PRECISION"

definition shr :: "int \<Rightarrow> int" where "shr x = x div 2 ^ PRECISION"

definition checked_div_floor :: "int \<Rightarrow> int \<Rightarrow> int option" where
  "checked_div_floor a b = (if b = 0 then None else Some (a div b))"

definition poly_val :: "int list \<Rightarrow> int \<Rightarrow> int" where
  "poly_val poly x = fold (\<lambda>coeff res. shr (res * x) + coeff) poly 0"

lemma shr_shl [simp]: "shr (shl x) = x"
  by (simp add: shr_def shl_def)

lemma shr_mono: "x \<le> y \<Longrightarrow> shr x \<le> shr y"
  by (simp add: shr_def zdiv_mono1)

lemma shr_nonneg: "0 \<le> x \<Longrightarrow> 0 \<le> shr x"
  by (simp add: shr_def pos_imp_zdiv_nonneg_iff)

lemma shr_lower: "shr x * 2 ^ PRECISION \<le> x"
  by (simp add: shr_def) (metis div_mult_mod_eq le_add_same_cancel1 pos_mod_sign zero_less_numeral zero_less_power)

lemma checked_div_floor_Some [simp]: "b \<noteq> 0 \<Longrightarrow> checked_div_floor a b = Some (a div b)"
  by (simp add: checked_div_floor_def)

text \<open>With non-negative coefficients and argument a polynomial is at least its last coefficient.\<close>

lemma fold_poly_lower:
  assumes "0 \<le> x" and "0 \<le> r" and "\<forall>c \<in> set p. 0 \<le> c"
  shows "0 \<le> fold (\<lambda>coeff res. shr (res * x) + coeff) p r"
  using assms(2,3)
  by (induction p arbitrary: r) (simp_all add: assms(1) shr_nonneg)

lemma poly_val_lower:
  assumes "0 \<le> x" and "\<forall>c \<in> set (p @ [a]). 0 \<le> c"
  shows "a \<le> poly_val (p @ [a]) x"
proof -
  have "0 \<le> fold (\<lambda>coeff res. shr (res * x) + coeff) p 0"
    using assms by (intro fold_poly_lower) auto
  with assms(1) show ?thesis by (simp add: poly_val_def shr_nonneg)
qed

section \<open>The alpha-beta filter\<close>

record filter_estimate =
  fe_position :: int
  fe_velocity :: int

definition filter_estimate_new :: "int \<Rightarrow> int \<Rightarrow> filter_estimate" where
  "filter_estimate_new position velocity = \<lparr>fe_position = shl position, fe_velocity = shl velocity\<rparr>"

definition estimate :: "filter_estimate \<Rightarrow> int" where
  "estimate fe = shr (fe_position fe)"

definition extrapolate :: "int \<Rightarrow> filter_estimate \<Rightarrow> int" where
  "extrapolate delta fe = fe_velocity fe * shl delta + shl (fe_position fe)"

definition DEFAULT_ALPHA :: int where "DEFAULT_ALPHA = 314760000000000000000000000000000000"
definition DEFAULT_BETA :: int where "DEFAULT_BETA = 96640100000000000000000000000000"

definition next_estimate ::
  "int \<Rightarrow> int \<Rightarrow> filter_estimate \<Rightarrow> int \<Rightarrow> int \<Rightarrow> filter_estimate option" where
  "next_estimate alpha beta prev_est obs epoch_delta =
     (let delta_t = shl epoch_delta;
          delta_x = shr (delta_t * fe_velocity prev_est);
          position = delta_x + fe_position prev_est;
          residual = shl obs - position;
          revision_x = shr (alpha * residual)
      in do {
           revision_v \<leftarrow> checked_div_floor (residual * beta) delta_t;
           Some \<lparr>fe_position = position + revision_x, fe_velocity = revision_v + fe_velocity prev_est\<rparr>
         })"

section \<open>Logarithm and extrapolation\<close>

definition NUM :: "int list" where
  "NUM = [261417938209272870992496419296200268025,
          7266615505142943436908456158054846846897,
          32458783941900493142649393804518050491988,
          17078670566130897220338060387082146864806,
          - 35150353308172866634071793531642638290419,
          - 20351202052858059355702509232125230498980,
          - 1563932590352680681114104005183375350999]"

definition DENOM :: "int list" where
  "DENOM = [49928077726659937662124949977867279384,
            2508163877009111928787629628566491583994,
            21757751789594546643737445330202599887121,
            53400635271583923415775576342898617051826,
            41248834748603606604000911015235164348839,
            9015227820322455780436733526367238305537,
            340282366920938463463374607431768211456]"

definition LN_2 :: int where "LN_2 = 235865763225513294137944142764154484399"
definition EPSILON :: int where "EPSILON = 302231454903657293676544"

fun bit_len :: "nat \<Rightarrow> nat" where
  "bit_len n = (if n = 0 then 0 else Suc (bit_len (n div 2)))"

declare bit_len.simps [simp del]

definition get_bit_len :: "int \<Rightarrow> nat" where
  "get_bit_len z = bit_len (nat \<bar>z\<bar>)"

definition ln_between_one_and_two :: "int \<Rightarrow> int option" where
  "ln_between_one_and_two x = checked_div_floor (shl (poly_val NUM x)) (poly_val DENOM x)"

text \<open>The normalised argument and the power of two taken out of it.\<close>

definition ln_normalise :: "int \<Rightarrow> int \<times> int" where
  "ln_normalise z =
     (let k = int (get_bit_len z) - 1 - int PRECISION
      in (k, if 0 < k then z div 2 ^ nat k else z * 2 ^ nat \<bar>k\<bar>))"

definition ln :: "int \<Rightarrow> int option" where
  "ln z = (case ln_normalise z of (k, x) \<Rightarrow> do { l \<leftarrow> ln_between_one_and_two x; Some (k * LN_2 + l) })"

definition extrapolated_cum_sum_of_ratio ::
  "int \<Rightarrow> int \<Rightarrow> filter_estimate \<Rightarrow> filter_estimate \<Rightarrow> int option" where
  "extrapolated_cum_sum_of_ratio delta relative_start est_num est_denom =
     (let delta_t = shl delta; t0 = shl relative_start;
          pos_1 = fe_position est_num; pos_2 = fe_position est_denom;
          velo_1 = fe_velocity est_num; velo_2 = fe_velocity est_denom;
          squared_velo_2 = shr (velo_2 * velo_2)
      in if EPSILON < squared_velo_2 then
           let x2a = shr (velo_2 * t0) + pos_2; x2b = shr (velo_2 * delta_t) + x2a
           in do {
                la \<leftarrow> ln x2a;
                lb \<leftarrow> ln x2b;
                let m1 = shr ((lb - la) * pos_1 * velo_2);
                let m2_l = (la - lb) * pos_2;
                let m2_r = velo_2 * delta_t;
                let m2 = shr ((m2_l + m2_r) * velo_1);
                checked_div_floor (m2 + m1) squared_velo_2
              }
         else
           let half_delta = delta_t div 2;
               x1m = shr (velo_1 * (t0 + half_delta)) + pos_1
           in checked_div_floor (x1m * delta_t) pos_2)"

section \<open>Properties\<close>

lemma bit_len_bounds: "0 < n \<Longrightarrow> 2 ^ (bit_len n - 1) \<le> n \<and> n < 2 ^ bit_len n \<and> 0 < bit_len n"
proof (induction n rule: bit_len.induct)
  case (1 n)
  have s: "bit_len n = Suc (bit_len (n div 2))" using "1.prems" by (subst bit_len.simps) simp
  show ?case
  proof (cases "n div 2 = 0")
    case True
    then have "n = 1" using "1.prems" by auto
    then show ?thesis using s by (simp add: bit_len.simps)
  next
    case False
    then have ih: "2 ^ (bit_len (n div 2) - 1) \<le> n div 2" "n div 2 < 2 ^ bit_len (n div 2)" "0 < bit_len (n div 2)"
      using "1.IH" "1.prems" by auto
    from ih(3) have "(2::nat) ^ bit_len (n div 2) = 2 * 2 ^ (bit_len (n div 2) - 1)"
      by (cases "bit_len (n div 2)") auto
    moreover have "2 * (n div 2) \<le> n" "n < 2 * (n div 2) + 2" by linarith+
    ultimately have "2 ^ bit_len (n div 2) \<le> n" "n < 2 * 2 ^ bit_len (n div 2)" using ih(1,2) by linarith+
    then show ?thesis by (simp add: s)
  qed
qed

text \<open>The logarithm divides its positive argument by a power of two into the interval from one to two.\<close>

lemma ln_normalise_range:
  assumes "0 < z" and "ln_normalise z = (k, x)"
  shows "2 ^ PRECISION \<le> x \<and> x < 2 ^ (PRECISION + 1)"
proof -
  let ?b = "get_bit_len z"
  have b: "2 ^ (?b - 1) \<le> z" "z < 2 ^ ?b" "0 < ?b"
  proof -
    have "2 ^ (?b - 1) \<le> nat z" "nat z < 2 ^ ?b" "0 < ?b"
      using bit_len_bounds [of "nat z"] assms(1) by (auto simp: get_bit_len_def)
    then show "2 ^ (?b - 1) \<le> z" "z < 2 ^ ?b" "0 < ?b"
      using assms(1) by (auto simp: le_nat_iff nat_less_iff)
  qed
  show ?thesis
  proof (cases "PRECISION + 1 < ?b")
    case True
    define d where "d = ?b - 1 - PRECISION"
    have d: "?b = Suc (PRECISION + d)" "0 < d" using True by (auto simp: d_def)
    then have x: "x = z div 2 ^ d" using assms(2) by (auto simp: ln_normalise_def Let_def)
    have "2 ^ PRECISION * 2 ^ d \<le> z" "z < 2 ^ (PRECISION + 1) * 2 ^ d"
      using b(1,2) d(1) by (simp_all add: power_add)
    then show ?thesis
      unfolding x by (intro conjI div_ge div_lt) auto
  next
    case False
    define d where "d = PRECISION + 1 - ?b"
    have d: "PRECISION + 1 = ?b + d" using False by (simp add: d_def)
    then have x: "x = z * 2 ^ d" using assms(2) False b(3) by (auto simp: ln_normalise_def Let_def d_def)
    have "?b - 1 + d = PRECISION" using d b(3) by linarith
    with b(1) have "2 ^ PRECISION \<le> x" by (simp add: x flip: power_add) (metis mult_right_mono power_add zero_le_numeral zero_le_power)
    moreover have "x < 2 ^ (PRECISION + 1)" unfolding d x using b(2) by (simp add: power_add)
    ultimately show ?thesis by simp
  qed
qed

text \<open>
  C39: the alpha-beta filter tracks its observations. With the gains of the network a step over at
  least one epoch never divides by zero; it predicts with the velocity and then moves the prediction
  towards the observation without overshooting it, and moves the velocity in the same direction; an
  observation that meets the prediction leaves the velocity alone.
\<close>

theorem next_estimate_tracks:
  assumes "0 < delta"
    and "predicted = fe_position fe + fe_velocity fe * delta"
  shows "\<exists>fe'. next_estimate DEFAULT_ALPHA DEFAULT_BETA fe obs delta = Some fe'
    \<and> (predicted \<le> shl obs \<longrightarrow> predicted \<le> fe_position fe' \<and> fe_position fe' \<le> shl obs \<and> fe_velocity fe \<le> fe_velocity fe')
    \<and> (shl obs \<le> predicted \<longrightarrow> shl obs \<le> fe_position fe' \<and> fe_position fe' \<le> predicted \<and> fe_velocity fe' \<le> fe_velocity fe)"
proof -
  let ?res = "shl obs - predicted"
  let ?x = "shr (DEFAULT_ALPHA * ?res)" and ?v = "(?res * DEFAULT_BETA) div shl delta"
  have dt: "0 < shl delta" using assms(1) by (simp add: shl_def)
  have "shr (shl delta * fe_velocity fe) = fe_velocity fe * delta"
    by (simp add: shr_def shl_def mult.commute mult.left_commute)
  then have eq: "next_estimate DEFAULT_ALPHA DEFAULT_BETA fe obs delta =
      Some \<lparr>fe_position = predicted + ?x, fe_velocity = ?v + fe_velocity fe\<rparr>"
    using dt by (simp add: next_estimate_def Let_def assms(2) add.commute)
  have a: "0 \<le> DEFAULT_ALPHA" "DEFAULT_ALPHA \<le> 2 ^ PRECISION" "0 \<le> DEFAULT_BETA"
    by (simp_all add: DEFAULT_ALPHA_def DEFAULT_BETA_def PRECISION_def)
  have up: "0 \<le> ?x \<and> ?x \<le> ?res \<and> 0 \<le> ?v" if "0 \<le> ?res"
  proof -
    have "shr (DEFAULT_ALPHA * ?res) \<le> shr (2 ^ PRECISION * ?res)"
      using a(2) that by (intro shr_mono mult_right_mono)
    moreover have "shr (2 ^ PRECISION * ?res) = ?res" using shr_shl [of ?res] by (simp add: shl_def mult.commute)
    moreover have "0 \<le> ?x" using a(1) that by (intro shr_nonneg) simp
    moreover have "0 \<le> ?v" using a(3) that dt by (simp add: pos_imp_zdiv_nonneg_iff)
    ultimately show ?thesis by simp
  qed
  have down: "?x \<le> 0 \<and> ?res \<le> ?x \<and> ?v \<le> 0" if "?res \<le> 0"
  proof -
    have "shr (2 ^ PRECISION * ?res) \<le> shr (DEFAULT_ALPHA * ?res)"
      using a(2) that by (intro shr_mono mult_right_mono_neg)
    moreover have "shr (2 ^ PRECISION * ?res) = ?res" using shr_shl [of ?res] by (simp add: shl_def mult.commute)
    moreover have "?x \<le> shr 0" using a(1) that by (intro shr_mono mult_nonneg_nonpos)
    moreover have "?v \<le> 0 div shl delta" using a(3) that dt by (intro zdiv_mono1 mult_nonpos_nonneg)
    ultimately show ?thesis by (simp add: shr_def)
  qed
  show ?thesis unfolding eq using up down by auto
qed

theorem next_estimate_tracks_witness:
  "\<exists>fe'. next_estimate DEFAULT_ALPHA DEFAULT_BETA (filter_estimate_new 100 1) 110 2 = Some fe'
     \<and> shl 102 \<le> fe_position fe' \<and> fe_position fe' \<le> shl 110"
proof -
  have p: "shl 102 = fe_position (filter_estimate_new 100 1) + fe_velocity (filter_estimate_new 100 1) * 2"
    by (simp add: filter_estimate_new_def shl_def)
  from next_estimate_tracks [of 2, OF _ p, of 110] show ?thesis by (auto simp: shl_def)
qed

end
