(* ===== verification/RewardActor.thy ===== *)
theory RewardActor
  imports Runtime Smooth
begin

text \<open>
  The reward actor: \<open>actors/reward/src\<close> (\<open>expneg.rs\<close>, \<open>logic.rs\<close>, \<open>state.rs\<close>, \<open>lib.rs\<close>).

  The catch-up loops of \<open>update_to_next_epoch\<close> and \<open>update_network_kpi\<close> are partial functions:
  a computation that divides by zero or does not end is \<open>None\<close>. It is shown that none of them is,
  that the effective network time is the least one whose cumulative baseline covers the realized
  power, and what \<open>award_block_reward\<close> pays.
\<close>

section \<open>Minting\<close>

definition EXP_NUM_COEF :: "int list" where
  "EXP_NUM_COEF =
     [- 648770010757830093818553637600,
      67469480939593786226847644286976,
      - 3197587544499098424029388939001856,
      89244641121992890118377641805348864,
      - 1579656163641440567800982336819953664,
      17685496037279256458459817590917169152,
      - 115682590513835356866803355398940131328,
      340282366920938463463374607431768211456]"

definition EXP_DENO_COEF :: "int list" where
  "EXP_DENO_COEF =
     [1225524182432722209606361,
      114095592300906098243859450,
      5665570424063336070530214243,
      194450132448609991765137938448,
      5068267641632683791026134915072,
      104716890604972796896895427629056,
      1748338658439454459487681798864896,
      23704654329841312470660182937960448,
      259380097567996910282699886670381056,
      2250336698853390384720606936038375424,
      14978272436876548034486263159246028800,
      72144088983913131323343765784380833792,
      224599776407103106596571252037123047424,
      340282366920938463463374607431768211456]"

definition expneg :: "int \<Rightarrow> int option" where
  "expneg x = checked_div_floor (shl (poly_val EXP_NUM_COEF x)) (poly_val EXP_DENO_COEF x)"

definition BASELINE_EXPONENT :: int where
  "BASELINE_EXPONENT = 340282591298641078465964189926313473653"

definition BASELINE_INITIAL_VALUE :: int where
  "BASELINE_INITIAL_VALUE = 2888888880000000000"

definition INIT_BASELINE_POWER :: int where
  "INIT_BASELINE_POWER = shr (shl (shl BASELINE_INITIAL_VALUE) sdiv BASELINE_EXPONENT)"

definition SIMPLE_TOTAL :: int where "SIMPLE_TOTAL = 330000000 * 10 ^ 18"
definition BASELINE_TOTAL :: int where "BASELINE_TOTAL = 770000000 * 10 ^ 18"
definition EXP_LAM_SUB_ONE :: int where "EXP_LAM_SUB_ONE = 37396273494747879394193016954629"
definition LAMBDA :: int where "LAMBDA = 37396271439864487274534522888786"

definition baseline_power_from_prev :: "int \<Rightarrow> int" where
  "baseline_power_from_prev prev_power = shr (prev_power * BASELINE_EXPONENT)"

definition compute_r_theta :: "int \<Rightarrow> int \<Rightarrow> int \<Rightarrow> int \<Rightarrow> int option" where
  "compute_r_theta effective_network_time baseline_power_at_ent cumsum_realized cumsum_baseline =
     (if effective_network_time \<noteq> 0 then do {
        diff \<leftarrow> checked_div_floor (shl (cumsum_baseline - cumsum_realized)) baseline_power_at_ent;
        Some (shl effective_network_time - diff)
      }
      else Some 0)"

definition compute_baseline_supply :: "int \<Rightarrow> int \<Rightarrow> int option" where
  "compute_baseline_supply theta baseline_total = do {
     etl \<leftarrow> expneg (shr (theta * LAMBDA));
     Some ((shl 1 - etl) * baseline_total)
   }"

definition compute_reward :: "int \<Rightarrow> int \<Rightarrow> int \<Rightarrow> int \<Rightarrow> int \<Rightarrow> int option" where
  "compute_reward epoch prev_theta curr_theta simple_total baseline_total = do {
     e \<leftarrow> expneg (LAMBDA * epoch);
     let simple_reward = shr (simple_total * EXP_LAM_SUB_ONE * e);
     curr \<leftarrow> compute_baseline_supply curr_theta baseline_total;
     prev \<leftarrow> compute_baseline_supply prev_theta baseline_total;
     Some (shr (simple_reward + (curr - prev)))
   }"

section \<open>State\<close>

definition INITIAL_REWARD_POSITION_ESTIMATE :: int where
  "INITIAL_REWARD_POSITION_ESTIMATE = 36266260308195979333"

definition INITIAL_REWARD_VELOCITY_ESTIMATE :: int where
  "INITIAL_REWARD_VELOCITY_ESTIMATE = - 109897758509"

record reward_state =
  cumsum_baseline :: int
  cumsum_realized :: int
  effective_network_time :: int
  effective_baseline_power :: int
  this_epoch_reward :: int
  this_epoch_reward_smoothed :: filter_estimate
  this_epoch_baseline_power :: int
  rw_epoch :: int
  total_storage_power_reward :: int
  rw_simple_total :: int
  rw_baseline_total :: int

text \<open>The loop that advances the effective network time.\<close>

partial_function (option) advance :: "int \<Rightarrow> int \<Rightarrow> int \<Rightarrow> int \<Rightarrow> (int \<times> int \<times> int) option" where
  "advance realized ent pwr baseline =
     (if baseline < realized then
        advance realized (ent + 1) (baseline_power_from_prev pwr)
          (baseline + baseline_power_from_prev pwr)
      else Some (ent, pwr, baseline))"

definition update_to_next_epoch :: "int \<Rightarrow> reward_state \<Rightarrow> reward_state option" where
  "update_to_next_epoch curr_realized_power st =
     (let baseline = baseline_power_from_prev (this_epoch_baseline_power st);
          capped_realized_power = min baseline curr_realized_power;
          realized = cumsum_realized st + capped_realized_power
      in do {
           (ent, pwr, cb) \<leftarrow> advance realized (effective_network_time st)
             (effective_baseline_power st) (cumsum_baseline st);
           Some (st\<lparr>rw_epoch := rw_epoch st + 1, this_epoch_baseline_power := baseline,
                    cumsum_realized := realized, effective_network_time := ent,
                    effective_baseline_power := pwr, cumsum_baseline := cb\<rparr>)
         })"

definition r_theta_of :: "reward_state \<Rightarrow> int option" where
  "r_theta_of st =
     compute_r_theta (effective_network_time st) (effective_baseline_power st)
       (cumsum_realized st) (cumsum_baseline st)"

definition update_to_next_epoch_with_reward :: "int \<Rightarrow> reward_state \<Rightarrow> reward_state option" where
  "update_to_next_epoch_with_reward curr_realized_power st = do {
     prev_reward_theta \<leftarrow> r_theta_of st;
     st1 \<leftarrow> update_to_next_epoch curr_realized_power st;
     curr_reward_theta \<leftarrow> r_theta_of st1;
     reward \<leftarrow> compute_reward (rw_epoch st1) prev_reward_theta curr_reward_theta
       (rw_simple_total st1) (rw_baseline_total st1);
     Some (st1\<lparr>this_epoch_reward := reward\<rparr>)
   }"

definition update_smoothed_estimates :: "int \<Rightarrow> reward_state \<Rightarrow> reward_state option" where
  "update_smoothed_estimates delta st = do {
     fe \<leftarrow> next_estimate DEFAULT_ALPHA DEFAULT_BETA (this_epoch_reward_smoothed st)
       (this_epoch_reward st) delta;
     Some (st\<lparr>this_epoch_reward_smoothed := fe\<rparr>)
   }"

definition reward_state_init :: reward_state where
  "reward_state_init =
     \<lparr>cumsum_baseline = 0, cumsum_realized = 0, effective_network_time = 0,
      effective_baseline_power = BASELINE_INITIAL_VALUE, this_epoch_reward = 0,
      this_epoch_reward_smoothed =
        filter_estimate_new INITIAL_REWARD_POSITION_ESTIMATE INITIAL_REWARD_VELOCITY_ESTIMATE,
      this_epoch_baseline_power = INIT_BASELINE_POWER, rw_epoch = - 1,
      total_storage_power_reward = 0, rw_simple_total = SIMPLE_TOTAL,
      rw_baseline_total = BASELINE_TOTAL\<rparr>"

definition reward_state_new :: "int \<Rightarrow> reward_state option" where
  "reward_state_new curr_realized_power =
     update_to_next_epoch_with_reward curr_realized_power reward_state_init"

section \<open>Methods\<close>

definition PENALTY_MULTIPLIER :: int where "PENALTY_MULTIPLIER = 3"
definition APPLY_REWARDS_METHOD :: method_num where "APPLY_REWARDS_METHOD = 14"

record apply_reward_params =
  ar_reward :: int
  ar_penalty :: int

record award_params =
  aw_miner :: address
  aw_penalty :: int
  aw_gas_reward :: int
  aw_win_count :: int

type_synonym reward_vm = "(reward_state, apply_reward_params) vm"
type_synonym reward_send = "(reward_state, apply_reward_params) sender"

text \<open>The constructor returns \<open>None\<close> only if the computation of the first state does.\<close>

definition reward_constructor :: "ctx \<Rightarrow> int option \<Rightarrow> reward_state result option" where
  "reward_constructor c pwr =
     (case validate_immediate_caller_is c [SYSTEM_ACTOR_ADDR] of
        Inl e \<Rightarrow> Some (Inl e)
      | Inr _ \<Rightarrow>
          (case pwr of
             None \<Rightarrow> Some (Inl illegal_argument)
           | Some p \<Rightarrow> map_option Inr (reward_state_new p)))"

definition credit_reward :: "award_params \<Rightarrow> int \<Rightarrow> reward_state \<Rightarrow> (int \<times> reward_state) result" where
  "credit_reward p curr_balance st =
     (let block_reward = (this_epoch_reward st * aw_win_count p) div EXPECTED_LEADERS_PER_EPOCH;
          total_reward = aw_gas_reward p + block_reward
      in r_bind
           (if curr_balance < total_reward then
              (let total_reward' = curr_balance; block_reward' = total_reward' - aw_gas_reward p
               in if block_reward' < 0 then Inl illegal_state else Inr (total_reward', block_reward'))
            else Inr (total_reward, block_reward))
           (\<lambda>(total, block).
         Inr (total, st\<lparr>total_storage_power_reward := total_storage_power_reward st + block\<rparr>)))"

definition award_block_reward ::
  "reward_send \<Rightarrow> ctx \<Rightarrow> award_params \<Rightarrow> reward_vm \<Rightarrow> (unit \<times> reward_vm) result" where
  "award_block_reward send c p v =
     r_bind (validate_immediate_caller_is c [SYSTEM_ACTOR_ADDR]) (\<lambda>_.
     let prior_balance = vm_balance v in
     if aw_penalty p < 0 then Inl illegal_argument
     else if aw_gas_reward p < 0 then Inl illegal_argument
     else if prior_balance < aw_gas_reward p then Inl illegal_state
     else if aw_win_count p \<le> 0 then Inl illegal_argument
     else
       case resolve_address v (aw_miner p) of
         None \<Rightarrow> Inl not_found
       | Some miner_id \<Rightarrow>
           r_bind (transaction v (credit_reward p (vm_balance v))) (\<lambda>(total_reward, v1).
           if prior_balance < total_reward then Inl illegal_state
           else
             let req = send_simple (ID miner_id) APPLY_REWARDS_METHOD
                         (Some \<lparr>ar_reward = total_reward,
                                ar_penalty = aw_penalty p * PENALTY_MULTIPLIER\<rparr>) total_reward
             in case send 0 req v1 of (r, v2) \<Rightarrow>
                  (case extract_send_result r of
                     Inr _ \<Rightarrow> Inr ((), v2)
                   | Inl _ \<Rightarrow>
                       Inr ((), snd (send 1 (send_simple BURNT_FUNDS_ACTOR_ADDR METHOD_SEND None
                                               total_reward) v2)))))"

definition get_this_epoch_reward :: "reward_vm \<Rightarrow> int \<times> filter_estimate" where
  "get_this_epoch_reward v =
     (this_epoch_baseline_power (vm_state v), this_epoch_reward_smoothed (vm_state v))"

text \<open>Null rounds: the state is updated until it has reached the current epoch.\<close>

partial_function (option) catch_up :: "int \<Rightarrow> int \<Rightarrow> reward_state \<Rightarrow> reward_state option" where
  "catch_up epoch pwr st =
     (if rw_epoch st < epoch then
        Option.bind (update_to_next_epoch pwr st) (catch_up epoch pwr)
      else Some st)"

definition update_network_kpi :: "ctx \<Rightarrow> int option \<Rightarrow> reward_vm \<Rightarrow> (unit \<times> reward_vm) result option" where
  "update_network_kpi c pwr v =
     (case validate_immediate_caller_is c [STORAGE_POWER_ACTOR_ADDR] of
        Inl e \<Rightarrow> Some (Inl e)
      | Inr _ \<Rightarrow>
          (case pwr of
             None \<Rightarrow> Some (Inl illegal_argument)
           | Some p \<Rightarrow> do {
               st1 \<leftarrow> catch_up (curr_epoch c) p (vm_state v);
               st2 \<leftarrow> update_to_next_epoch_with_reward p st1;
               st3 \<leftarrow> update_smoothed_estimates (rw_epoch st2 - rw_epoch (vm_state v)) st2;
               Some (Inr ((), v\<lparr>vm_state := st3\<rparr>))
             }))"

section \<open>The baseline\<close>

abbreviation bp :: "nat \<Rightarrow> int \<Rightarrow> int" where
  "bp n \<equiv> baseline_power_from_prev ^^ n"

text \<open>The cumulative baseline after \<open>n\<close> epochs of network time.\<close>

definition base_sum :: "nat \<Rightarrow> int" where
  "base_sum n = (\<Sum>i = 1..n. bp i BASELINE_INITIAL_VALUE)"

lemma baseline_grows: "0 \<le> p \<Longrightarrow> p \<le> baseline_power_from_prev p"
proof -
  assume "0 \<le> p"
  then have "p * 2 ^ PRECISION \<le> p * BASELINE_EXPONENT"
    by (intro mult_left_mono) (simp_all add: PRECISION_def BASELINE_EXPONENT_def)
  then show ?thesis using shr_mono [of "shl p"] by (simp add: baseline_power_from_prev_def shl_def [symmetric])
qed

lemma baseline_mono: "p \<le> q \<Longrightarrow> baseline_power_from_prev p \<le> baseline_power_from_prev q"
  unfolding baseline_power_from_prev_def
  by (intro shr_mono mult_right_mono) (simp_all add: BASELINE_EXPONENT_def)

lemma bp_ge: "0 \<le> p \<Longrightarrow> p \<le> bp n p"
proof (induction n)
  case (Suc n)
  then have "bp n p \<le> baseline_power_from_prev (bp n p)" by (intro baseline_grows) simp
  with Suc show ?case by simp
qed simp

lemma bp_mono: "p \<le> q \<Longrightarrow> bp n p \<le> bp n q"
  by (induction n) (auto intro: baseline_mono)

lemma bp_initial_pos: "0 < bp n BASELINE_INITIAL_VALUE"
  using bp_ge [of BASELINE_INITIAL_VALUE n] by (simp add: BASELINE_INITIAL_VALUE_def)

lemma base_sum_Suc: "base_sum (Suc n) = base_sum n + bp (Suc n) BASELINE_INITIAL_VALUE"
  by (simp add: base_sum_def)

lemma base_sum_0 [simp]: "base_sum 0 = 0"
  by (simp add: base_sum_def)

lemma base_sum_mono: "m \<le> n \<Longrightarrow> base_sum m \<le> base_sum n"
proof (rule lift_Suc_mono_le [of base_sum])
  show "base_sum k \<le> base_sum (Suc k)" for k
    using bp_initial_pos [of "Suc k"] unfolding base_sum_Suc by linarith
qed

lemma base_sum_ge: "int n \<le> base_sum n"
proof (induction n)
  case (Suc n)
  with bp_initial_pos [of "Suc n"] show ?case unfolding base_sum_Suc by simp
qed simp

lemma init_baseline_le: "0 \<le> INIT_BASELINE_POWER" "INIT_BASELINE_POWER \<le> BASELINE_INITIAL_VALUE"
  by code_simp+

text \<open>The loop stops at the least network time whose cumulative baseline covers the realized power.\<close>

lemma advance_spec:
  "\<exists>k. advance realized (int n) (bp n BASELINE_INITIAL_VALUE) (base_sum n)
      = Some (int k, bp k BASELINE_INITIAL_VALUE, base_sum k) \<and> n \<le> k
    \<and> realized \<le> base_sum k \<and> (k = n \<or> base_sum (k - 1) < realized)"
proof (induction "nat (realized - base_sum n)" arbitrary: n rule: less_induct)
  case less
  show ?case
  proof (cases "base_sum n < realized")
    case False
    then show ?thesis by (intro exI [of _ n]) (simp add: advance.simps)
  next
    case True
    have step: "advance realized (int n) (bp n BASELINE_INITIAL_VALUE) (base_sum n) =
        advance realized (int (Suc n)) (bp (Suc n) BASELINE_INITIAL_VALUE) (base_sum (Suc n))"
      using True by (subst advance.simps) (simp add: base_sum_Suc add.commute)
    have "base_sum n < base_sum (Suc n)" using bp_initial_pos [of "Suc n"] by (simp add: base_sum_Suc)
    with True have "nat (realized - base_sum (Suc n)) < nat (realized - base_sum n)" by simp
    from less [OF this] obtain k where k: "advance realized (int (Suc n)) (bp (Suc n) BASELINE_INITIAL_VALUE) (base_sum (Suc n))
        = Some (int k, bp k BASELINE_INITIAL_VALUE, base_sum k)" "Suc n \<le> k" "realized \<le> base_sum k"
      "k = Suc n \<or> base_sum (k - 1) < realized" by auto
    with True show ?thesis unfolding step by (intro exI [of _ k]) auto
  qed
qed

section \<open>The invariant\<close>

definition rw_inv :: "reward_state \<Rightarrow> bool" where
  "rw_inv st \<longleftrightarrow> (\<exists>n e.
     effective_network_time st = int n \<and> rw_epoch st = int e - 1 \<and>
     effective_baseline_power st = bp n BASELINE_INITIAL_VALUE \<and> cumsum_baseline st = base_sum n \<and>
     this_epoch_baseline_power st = bp e INIT_BASELINE_POWER \<and>
     0 \<le> cumsum_realized st \<and> cumsum_realized st \<le> base_sum n \<and>
     cumsum_realized st \<le> (\<Sum>t = 1..e. bp t INIT_BASELINE_POWER) \<and>
     (n = 0 \<or> base_sum (n - 1) < cumsum_realized st))"

lemma realized_le_base_sum: "(\<Sum>t = 1..e. bp t INIT_BASELINE_POWER) \<le> base_sum e"
  unfolding base_sum_def by (intro sum_mono bp_mono init_baseline_le)

lemma rw_inv_time: "rw_inv st \<Longrightarrow> effective_network_time st \<le> rw_epoch st + 1"
proof -
  assume "rw_inv st"
  then obtain n e where s: "effective_network_time st = int n" "rw_epoch st = int e - 1"
    "cumsum_realized st \<le> (\<Sum>t = 1..e. bp t INIT_BASELINE_POWER)"
    "n = 0 \<or> base_sum (n - 1) < cumsum_realized st"
    by (auto simp: rw_inv_def)
  have "n \<le> e"
  proof (rule ccontr)
    assume "\<not> n \<le> e"
    then have "base_sum e \<le> base_sum (n - 1)" by (intro base_sum_mono) simp
    with s(3,4) realized_le_base_sum [of e] \<open>\<not> n \<le> e\<close> show False by linarith
  qed
  with s show ?thesis by simp
qed

lemma rw_inv_init: "rw_inv reward_state_init"
  unfolding rw_inv_def by (intro exI [of _ 0]) (simp add: reward_state_init_def)

text \<open>What an update changes, and the frame around it.\<close>

definition advanced :: "int \<Rightarrow> reward_state \<Rightarrow> reward_state \<Rightarrow> bool" where
  "advanced p st st' \<longleftrightarrow> rw_epoch st' = rw_epoch st + 1
     \<and> this_epoch_baseline_power st' = baseline_power_from_prev (this_epoch_baseline_power st)
     \<and> cumsum_realized st' = cumsum_realized st + min (this_epoch_baseline_power st') p
     \<and> effective_network_time st \<le> effective_network_time st'
     \<and> total_storage_power_reward st' = total_storage_power_reward st"

lemma update_to_next_epoch_ok:
  assumes "rw_inv st" and "0 \<le> p"
  shows "\<exists>st'. update_to_next_epoch p st = Some st' \<and> rw_inv st' \<and> advanced p st st'"
proof -
  from assms(1) obtain n e where s: "effective_network_time st = int n" "rw_epoch st = int e - 1"
    "effective_baseline_power st = bp n BASELINE_INITIAL_VALUE" "cumsum_baseline st = base_sum n"
    "this_epoch_baseline_power st = bp e INIT_BASELINE_POWER" "0 \<le> cumsum_realized st"
    "cumsum_realized st \<le> (\<Sum>t = 1..e. bp t INIT_BASELINE_POWER)" "n = 0 \<or> base_sum (n - 1) < cumsum_realized st"
    by (auto simp: rw_inv_def)
  let ?b = "bp (Suc e) INIT_BASELINE_POWER" and ?r = "cumsum_realized st + min (bp (Suc e) INIT_BASELINE_POWER) p"
  have b: "0 \<le> ?b" using bp_ge [OF init_baseline_le(1), of "Suc e"] init_baseline_le(1) by linarith
  obtain k where k: "advance ?r (int n) (bp n BASELINE_INITIAL_VALUE) (base_sum n)
      = Some (int k, bp k BASELINE_INITIAL_VALUE, base_sum k)" "n \<le> k" "?r \<le> base_sum k"
    "k = n \<or> base_sum (k - 1) < ?r" using advance_spec by blast
  let ?st' = "st\<lparr>rw_epoch := rw_epoch st + 1, this_epoch_baseline_power := ?b, cumsum_realized := ?r,
    effective_network_time := int k, effective_baseline_power := bp k BASELINE_INITIAL_VALUE,
    cumsum_baseline := base_sum k\<rparr>"
  have "update_to_next_epoch p st = Some ?st'"
    using k(1) by (simp add: update_to_next_epoch_def Let_def s(1,3-5))
  moreover have "k = 0 \<or> base_sum (k - 1) < ?r"
  proof -
    define mr where "mr = min ?b p"
    have "0 \<le> mr" using b assms(2) by (simp add: mr_def)
    with k(4) s(8) show ?thesis unfolding mr_def [symmetric] by (elim disjE) auto
  qed
  moreover have "?r \<le> (\<Sum>t = 1..Suc e. bp t INIT_BASELINE_POWER)" using s(7) by simp
  ultimately have "rw_inv ?st'"
    unfolding rw_inv_def using k(3) s(2,6) b assms(2) by (intro exI [of _ k] exI [of _ "Suc e"]) simp
  moreover have "advanced p st ?st'" using k(2) by (simp add: advanced_def s(1,5))
  ultimately show ?thesis using \<open>update_to_next_epoch p st = Some ?st'\<close> by blast
qed

section \<open>Nothing divides by zero\<close>

lemma expneg_Some: "0 \<le> x \<Longrightarrow> \<exists>y. expneg x = Some y"
proof -
  assume "0 \<le> x"
  have d: "EXP_DENO_COEF = butlast EXP_DENO_COEF @ [340282366920938463463374607431768211456]"
    by (simp add: EXP_DENO_COEF_def)
  have "\<forall>c \<in> set (butlast EXP_DENO_COEF @ [340282366920938463463374607431768211456]). 0 \<le> c"
    by (simp add: EXP_DENO_COEF_def)
  from poly_val_lower [OF \<open>0 \<le> x\<close> this] have "0 < poly_val EXP_DENO_COEF x" unfolding d [symmetric] by linarith
  then show ?thesis by (simp add: expneg_def)
qed

lemma r_theta_of_Some:
  assumes "rw_inv st"
  shows "\<exists>t. r_theta_of st = Some t \<and> 0 \<le> t"
proof (cases "effective_network_time st = 0")
  case True
  then show ?thesis by (simp add: r_theta_of_def compute_r_theta_def)
next
  case False
  from assms obtain n where s: "effective_network_time st = int n"
    "effective_baseline_power st = bp n BASELINE_INITIAL_VALUE" "cumsum_baseline st = base_sum n"
    "n = 0 \<or> base_sum (n - 1) < cumsum_realized st" by (auto simp: rw_inv_def)
  then obtain m where n: "n = Suc m" using False by (cases n) auto
  let ?p = "bp n BASELINE_INITIAL_VALUE" and ?d = "cumsum_baseline st - cumsum_realized st"
  have "?d < ?p" using s n by (simp only: base_sum_Suc) simp
  then have "shl ?d < 2 ^ PRECISION * ?p" by (simp add: shl_def mult.commute)
  then have "shl ?d div ?p < 2 ^ PRECISION" by (rule div_lt [OF bp_initial_pos])
  moreover have "2 ^ PRECISION \<le> shl (int n)" by (simp add: shl_def n)
  ultimately have "0 \<le> shl (int n) - shl ?d div ?p" by linarith
  with False s(1,2) bp_initial_pos [of n] show ?thesis
    by (simp add: r_theta_of_def compute_r_theta_def)
qed

lemma compute_reward_Some:
  assumes "0 \<le> e" and "0 \<le> t" and "0 \<le> t'"
  shows "\<exists>r. compute_reward e t t' a b = Some r"
proof -
  have l: "0 \<le> LAMBDA" by (simp add: LAMBDA_def)
  then have "0 \<le> LAMBDA * e" "0 \<le> shr (t * LAMBDA)" "0 \<le> shr (t' * LAMBDA)"
    using assms by (auto intro: shr_nonneg)
  then obtain x y z where "expneg (LAMBDA * e) = Some x" "expneg (shr (t * LAMBDA)) = Some y"
    "expneg (shr (t' * LAMBDA)) = Some z" using expneg_Some by metis
  then show ?thesis by (simp add: compute_reward_def compute_baseline_supply_def)
qed

lemma update_with_reward_ok:
  assumes "rw_inv st" and "0 \<le> p"
  shows "\<exists>st'. update_to_next_epoch_with_reward p st = Some st' \<and> rw_inv st' \<and> advanced p st st'"
proof -
  obtain st1 where st1: "update_to_next_epoch p st = Some st1" "rw_inv st1" "advanced p st st1"
    using update_to_next_epoch_ok [OF assms] by blast
  obtain t t' where t: "r_theta_of st = Some t" "0 \<le> t" "r_theta_of st1 = Some t'" "0 \<le> t'"
    using r_theta_of_Some [OF assms(1)] r_theta_of_Some [OF st1(2)] by blast
  have "0 \<le> rw_epoch st1" using st1(3) assms(1) by (auto simp: advanced_def rw_inv_def)
  then obtain r where "compute_reward (rw_epoch st1) t t' (rw_simple_total st1) (rw_baseline_total st1) = Some r"
    using compute_reward_Some t by blast
  then have "update_to_next_epoch_with_reward p st = Some (st1\<lparr>this_epoch_reward := r\<rparr>)"
    using st1(1) t by (simp add: update_to_next_epoch_with_reward_def)
  moreover have "rw_inv (st1\<lparr>this_epoch_reward := r\<rparr>)" using st1(2) by (simp add: rw_inv_def)
  moreover have "advanced p st (st1\<lparr>this_epoch_reward := r\<rparr>)" using st1(3) by (simp add: advanced_def)
  ultimately show ?thesis by blast
qed

lemma catch_up_ok:
  assumes "rw_inv st" and "0 \<le> p"
  shows "\<exists>st'. catch_up e p st = Some st' \<and> rw_inv st' \<and> rw_epoch st' = max e (rw_epoch st)
    \<and> effective_network_time st \<le> effective_network_time st'
    \<and> cumsum_realized st \<le> cumsum_realized st'
    \<and> total_storage_power_reward st' = total_storage_power_reward st"
  using assms(1)
proof (induction "nat (e - rw_epoch st)" arbitrary: st)
  case 0
  then show ?case by (subst catch_up.simps) auto
next
  case (Suc k)
  then have lt: "rw_epoch st < e" by simp
  obtain st1 where st1: "update_to_next_epoch p st = Some st1" "rw_inv st1" "advanced p st st1"
    using update_to_next_epoch_ok [OF Suc.prems assms(2)] by blast
  have "k = nat (e - rw_epoch st1)" using Suc(2) st1(3) by (simp add: advanced_def)
  from Suc(1) [OF this st1(2)] obtain st' where st': "catch_up e p st1 = Some st'" "rw_inv st'"
    "rw_epoch st' = max e (rw_epoch st1)" "effective_network_time st1 \<le> effective_network_time st'"
    "cumsum_realized st1 \<le> cumsum_realized st'"
    "total_storage_power_reward st' = total_storage_power_reward st1" by blast
  have "0 \<le> this_epoch_baseline_power st1"
    using st1(2) bp_ge [OF init_baseline_le(1)] init_baseline_le(1) by (auto simp: rw_inv_def intro: order_trans)
  with st' st1 lt assms(2) show ?case by (subst catch_up.simps) (auto simp: advanced_def)
qed

section \<open>Properties\<close>

text \<open>
  C34: updating the network KPI always returns. From every state the actor can be in, for every
  non-negative power and every epoch, however many null rounds have to be caught up, the update ends
  without dividing by zero: the state's epoch is one past the current epoch (or its own, if that is
  later), the effective network time does not fall, is at most one ahead of the epoch, and is the
  least time whose cumulative baseline covers the realized power.
\<close>

theorem update_network_kpi_returns:
  assumes "rw_inv (vm_state v)" and "caller c = STORAGE_POWER_ACTOR_ADDR" and "0 \<le> p"
  shows "\<exists>st'. update_network_kpi c (Some p) v = Some (Inr ((), v\<lparr>vm_state := st'\<rparr>))
    \<and> rw_inv st' \<and> rw_epoch st' = max (curr_epoch c) (rw_epoch (vm_state v)) + 1
    \<and> effective_network_time (vm_state v) \<le> effective_network_time st'
    \<and> effective_network_time st' \<le> rw_epoch st' + 1
    \<and> cumsum_baseline st' = base_sum (nat (effective_network_time st'))
    \<and> cumsum_realized st' \<le> cumsum_baseline st'
    \<and> (\<forall>k < nat (effective_network_time st'). base_sum k < cumsum_realized st')
    \<and> total_storage_power_reward st' = total_storage_power_reward (vm_state v)"
proof -
  obtain st1 where st1: "catch_up (curr_epoch c) p (vm_state v) = Some st1" "rw_inv st1"
    "rw_epoch st1 = max (curr_epoch c) (rw_epoch (vm_state v))"
    "effective_network_time (vm_state v) \<le> effective_network_time st1"
    "total_storage_power_reward st1 = total_storage_power_reward (vm_state v)"
    using catch_up_ok [OF assms(1,3)] by blast
  obtain st2 where st2: "update_to_next_epoch_with_reward p st1 = Some st2" "rw_inv st2" "advanced p st1 st2"
    using update_with_reward_ok [OF st1(2) assms(3)] by blast
  have "0 < rw_epoch st2 - rw_epoch (vm_state v)" using st2(3) st1(3) by (simp add: advanced_def)
  then obtain fe where "next_estimate DEFAULT_ALPHA DEFAULT_BETA (this_epoch_reward_smoothed st2)
      (this_epoch_reward st2) (rw_epoch st2 - rw_epoch (vm_state v)) = Some fe"
    by (auto simp: next_estimate_def Let_def shl_def)
  then have "update_network_kpi c (Some p) v =
      Some (Inr ((), v\<lparr>vm_state := st2\<lparr>this_epoch_reward_smoothed := fe\<rparr>\<rparr>))"
    using st1(1) st2(1) assms(2)
    by (simp add: update_network_kpi_def update_smoothed_estimates_def validate_immediate_caller_is_def)
  moreover have inv: "rw_inv (st2\<lparr>this_epoch_reward_smoothed := fe\<rparr>)" using st2(2) by (simp add: rw_inv_def)
  moreover have "base_sum k < cumsum_realized st2" if "k < nat (effective_network_time st2)" for k
  proof -
    from st2(2) obtain n where "effective_network_time st2 = int n" "n = 0 \<or> base_sum (n - 1) < cumsum_realized st2"
      by (auto simp: rw_inv_def)
    with that base_sum_mono [of k "n - 1"] show ?thesis by force
  qed
  moreover have "cumsum_baseline st2 = base_sum (nat (effective_network_time st2)) \<and> cumsum_realized st2 \<le> cumsum_baseline st2"
    using st2(2) by (auto simp: rw_inv_def)
  ultimately show ?thesis
    using rw_inv_time [OF inv] st1 st2(3) by (auto simp: advanced_def)
qed


text \<open>A machine with the initial state and a call of the power actor.\<close>

definition ex_reward_vm :: reward_vm where
  "ex_reward_vm = \<lparr>vm_state = reward_state_init\<lparr>this_epoch_reward := 100\<rparr>, vm_balance = 50,
     vm_world = ex_world, vm_sends = []\<rparr>"

lemma ex_reward_inv: "rw_inv (vm_state ex_reward_vm)"
  using rw_inv_init by (simp add: ex_reward_vm_def rw_inv_def)

theorem update_network_kpi_returns_witness:
  "\<exists>st'. update_network_kpi (ex_ctx STORAGE_POWER_ACTOR_ADDR) (Some 0) ex_reward_vm
     = Some (Inr ((), ex_reward_vm\<lparr>vm_state := st'\<rparr>)) \<and> rw_epoch st' = 6"
  using update_network_kpi_returns [OF ex_reward_inv, of "ex_ctx STORAGE_POWER_ACTOR_ADDR" 0]
  by (auto simp: ex_ctx_def ex_reward_vm_def reward_state_init_def)

text \<open>
  C35: an awarded block reward pays what it records. When \<open>award_block_reward\<close> succeeds, the call
  came from the system actor, the payment is the gas reward plus the share of the epoch reward,
  capped by the balance and never below the gas reward; the share is added to the total awarded
  before anything is sent; exactly one of two sends takes effect: the miner receives the payment
  with three times the penalty as parameter, or, if the miner's call fails, the burnt-funds actor
  gets the same amount.
\<close>

theorem award_block_reward_pays:
  assumes "sender_ok (\<lambda>_. True) send" and "award_block_reward send c p v = Inr (u, v')"
    and "0 \<le> this_epoch_reward (vm_state v)"
    and pay: "pay = min (aw_gas_reward p +
      (this_epoch_reward (vm_state v) * aw_win_count p) div EXPECTED_LEADERS_PER_EPOCH) (vm_balance v)"
    and v1: "v1 = v\<lparr>vm_state := (vm_state v)\<lparr>total_storage_power_reward :=
      total_storage_power_reward (vm_state v) + (pay - aw_gas_reward p)\<rparr>\<rparr>"
  shows "caller c = SYSTEM_ACTOR_ADDR \<and> 0 \<le> aw_gas_reward p \<and> aw_gas_reward p \<le> pay
    \<and> (\<exists>aid r. resolve_address v (aw_miner p) = Some aid \<and>
        (let req = send_simple (ID aid) APPLY_REWARDS_METHOD
               (Some \<lparr>ar_reward = pay, ar_penalty = aw_penalty p * 3\<rparr>) pay
         in if send_success r then send 0 req v1 = (r, v')
            else send 0 req v1 = (r, v1) \<and>
              v' = snd (send 1 (send_simple BURNT_FUNDS_ACTOR_ADDR METHOD_SEND None pay) v1)))"
proof -
  let ?block = "(this_epoch_reward (vm_state v) * aw_win_count p) div EXPECTED_LEADERS_PER_EPOCH"
  from assms(2) obtain aid t v2 where
    g: "caller c = SYSTEM_ACTOR_ADDR" "0 \<le> aw_gas_reward p" "aw_gas_reward p \<le> vm_balance v" "0 < aw_win_count p"
    and aid: "resolve_address v (aw_miner p) = Some aid"
    and tx: "transaction v (credit_reward p (vm_balance v)) = Inr (t, v2)" and "t \<le> vm_balance v"
    and rest: "(case send 0 (send_simple (ID aid) APPLY_REWARDS_METHOD
        (Some \<lparr>ar_reward = t, ar_penalty = aw_penalty p * PENALTY_MULTIPLIER\<rparr>) t) v2 of (r, v3) \<Rightarrow>
      case extract_send_result r of Inr _ \<Rightarrow> Inr ((), v3)
      | Inl _ \<Rightarrow> Inr ((), snd (send 1 (send_simple BURNT_FUNDS_ACTOR_ADDR METHOD_SEND None t) v3)))
      = (Inr (u, v') :: (unit \<times> reward_vm) result)"
    by (auto simp: award_block_reward_def r_bind_eq_Inr validate_immediate_caller_is_Inr Let_def
        split: if_split_asm option.split_asm)
  have block: "0 \<le> ?block" using assms(3) g(4) by (simp add: pos_imp_zdiv_nonneg_iff EXPECTED_LEADERS_PER_EPOCH_def)
  have t: "t = pay" "v2 = v1"
    using tx unfolding pay v1
    by (auto simp: transaction_Inr credit_reward_def Let_def min_def split: if_split_asm)
  have ge: "aw_gas_reward p \<le> pay" using block g(3) by (simp add: pay)
  obtain r v3 where snd0: "send 0 (send_simple (ID aid) APPLY_REWARDS_METHOD
      (Some \<lparr>ar_reward = pay, ar_penalty = aw_penalty p * 3\<rparr>) pay) v1 = (r, v3)" by fastforce
  have ext: "extract_send_result r = Inr d \<Longrightarrow> send_success r" "extract_send_result r = Inl e \<Longrightarrow> \<not> send_success r" for d e
    by (cases r; simp split: if_splits)+
  have "if send_success r then v3 = v' else v3 = v1 \<and> v' = snd (send 1 (send_simple BURNT_FUNDS_ACTOR_ADDR METHOD_SEND None pay) v1)"
    using rest snd0 t sender_okD(1) [OF assms(1) snd0] ext
    by (auto simp: PENALTY_MULTIPLIER_def split: sum.splits)
  with g aid ge snd0 show ?thesis by (auto simp: Let_def split: if_splits)
qed

theorem award_block_reward_pays_witness:
  "\<exists>v'. award_block_reward ex_pay (ex_ctx SYSTEM_ACTOR_ADDR)
     \<lparr>aw_miner = ID 7, aw_penalty = 1, aw_gas_reward = 10, aw_win_count = 1\<rparr> ex_reward_vm = Inr ((), v')
     \<and> total_storage_power_reward (vm_state v') = 20"
proof -
  let ?p = "\<lparr>aw_miner = ID 7, aw_penalty = 1, aw_gas_reward = 10, aw_win_count = 1\<rparr>"
  have "\<exists>v'. award_block_reward ex_pay (ex_ctx SYSTEM_ACTOR_ADDR) ?p ex_reward_vm = Inr ((), v')"
    by (simp add: award_block_reward_def validate_immediate_caller_is_def ex_ctx_def ex_reward_vm_def
        reward_state_init_def resolve_address_def ex_world_def transaction_def credit_reward_def
        EXPECTED_LEADERS_PER_EPOCH_def ex_pay_def send_simple_def)
  then obtain v' where v': "award_block_reward ex_pay (ex_ctx SYSTEM_ACTOR_ADDR) ?p ex_reward_vm = Inr ((), v')" ..
  have nn: "0 \<le> this_epoch_reward (vm_state ex_reward_vm)" by (simp add: ex_reward_vm_def)
  from award_block_reward_pays [OF ex_pay_ok v' nn refl refl] v' show ?thesis
    by (auto simp: Let_def ex_pay_def ex_reward_vm_def reward_state_init_def send_simple_def debit_def
        EXPECTED_LEADERS_PER_EPOCH_def split: if_splits)
qed

text \<open>
  The invariant checker of the actor asks for an effective network time of at most the epoch; a network
  that starts with its baseline power is one ahead of it.
\<close>

theorem effective_time_ahead_of_epoch:
  "\<exists>st. reward_state_new BASELINE_INITIAL_VALUE = Some st \<and> rw_inv st \<and> rw_epoch st < effective_network_time st"
proof -
  obtain st where st: "reward_state_new BASELINE_INITIAL_VALUE = Some st" "rw_inv st"
    "advanced BASELINE_INITIAL_VALUE reward_state_init st"
    using update_with_reward_ok [OF rw_inv_init, of BASELINE_INITIAL_VALUE]
    by (auto simp: reward_state_new_def BASELINE_INITIAL_VALUE_def)
  have "0 < baseline_power_from_prev INIT_BASELINE_POWER" by code_simp
  then have "0 < cumsum_realized st"
    using st(3) by (simp add: advanced_def reward_state_init_def BASELINE_INITIAL_VALUE_def)
  moreover from st(2) obtain n where "effective_network_time st = int n" "cumsum_realized st \<le> base_sum n"
    by (auto simp: rw_inv_def)
  ultimately have "0 < effective_network_time st" by (cases n) auto
  with st show ?thesis by (intro exI [of _ st]) (simp add: advanced_def reward_state_init_def)
qed

end
