(* ===== verification/Collections.thy ===== *)
theory Collections
  imports Map2
begin

text \<open>
  The nested containers of \<open>runtime/src/util\<close>: \<open>Multimap\<close> (a HAMT of arrays), \<open>Set\<close>,
  \<open>SetMultimap\<close> (a HAMT of sets) and \<open>MapMap\<close> (a HAMT of HAMTs with a cache of the inner
  maps that were loaded). Keys are represented by the values they encode.

  \<open>MapMap\<close> is the one with an internal protocol: reads and writes go through the cache and the
  outer map is only written by \<open>flush\<close>, which drops inner maps that became empty. It is shown to
  implement a plain two-level map (the contract \<open>two_level_map\<close>), whatever was cached, and a
  flushed and reloaded map to have the same content and no empty inner map.
\<close>

section \<open>Multimap\<close>

type_synonym ('k, 'v) multimap = "('k, 'v amt) map2"

definition mm_values :: "('k, 'v) multimap \<Rightarrow> 'k \<Rightarrow> 'v list" where
  "mm_values mm k = (case map2_get mm k of None \<Rightarrow> [] | Some a \<Rightarrow> map snd a)"

text \<open>The value is stored at the index given by the number of values.\<close>

definition mm_add :: "'k \<Rightarrow> 'v \<Rightarrow> ('k, 'v) multimap \<Rightarrow> ('k, 'v) multimap" where
  "mm_add k v mm =
     (let arr = (case map2_get mm k of None \<Rightarrow> amt_empty | Some a \<Rightarrow> a)
      in map2_put k (amt_set (length arr) v arr) mm)"

definition mm_for_each ::
  "('k, 'v) multimap \<Rightarrow> 'k \<Rightarrow> (nat \<Rightarrow> 'v \<Rightarrow> 's \<Rightarrow> 'e + 's) \<Rightarrow> 's \<Rightarrow> 'e + 's" where
  "mm_for_each mm k f s =
     (case map2_get mm k of None \<Rightarrow> Inr s | Some a \<Rightarrow> r_fold (\<lambda>(i, v). f i v) a s)"

text \<open>Removing the values of a key that has none is an error.\<close>

definition mm_remove_all :: "'k \<Rightarrow> ('k, 'v) multimap \<Rightarrow> ('k, 'v) multimap option" where
  "mm_remove_all k mm =
     (case map2_delete k mm of (None, mm') \<Rightarrow> None | (Some a, mm') \<Rightarrow> Some mm')"

text \<open>Every stored array is contiguous from zero.\<close>

definition mm_ok :: "('k, 'v) multimap \<Rightarrow> bool" where
  "mm_ok mm \<longleftrightarrow> map2_ok mm \<and> (\<forall>k a. map2_get mm k = Some a \<longrightarrow> map fst a = [0..<length a])"

lemma amt_set_append:
  "\<forall>j \<in> set (map fst a). j < n \<Longrightarrow> amt_set n v a = a @ [(n, v)]"
  by (induction n v a rule: amt_set.induct) auto

lemma mm_values_add:
  assumes "mm_ok mm"
  shows "mm_values (mm_add k v mm) j = (if j = k then mm_values mm k @ [v] else mm_values mm j)"
proof -
  let ?a = "case map2_get mm k of None \<Rightarrow> amt_empty | Some a \<Rightarrow> a"
  have "map fst ?a = [0..<length ?a]" using assms by (auto simp: mm_ok_def amt_empty_def split: option.splits)
  then have "amt_set (length ?a) v ?a = ?a @ [(length ?a, v)]" by (intro amt_set_append) simp
  then show ?thesis
    by (auto simp: mm_values_def mm_add_def Let_def amt_empty_def split: option.splits)
qed

lemma mm_ok_add: "mm_ok mm \<Longrightarrow> mm_ok (mm_add k v mm)"
proof -
  assume ok: "mm_ok mm"
  let ?a = "case map2_get mm k of None \<Rightarrow> amt_empty | Some a \<Rightarrow> a"
  have a: "map fst ?a = [0..<length ?a]" using ok by (auto simp: mm_ok_def amt_empty_def split: option.splits)
  then have "amt_set (length ?a) v ?a = ?a @ [(length ?a, v)]" by (intro amt_set_append) simp
  with a ok show ?thesis by (auto simp: mm_ok_def mm_add_def Let_def)
qed

lemma mm_ok_empty [simp]: "mm_ok map2_empty"
  by (simp add: mm_ok_def)

lemma mm_remove_all_Some:
  "mm_remove_all k mm = Some mm' \<longleftrightarrow> map2_get mm k \<noteq> None \<and> mm' = map2_remove k mm"
  by (auto simp: mm_remove_all_def map2_delete_def split: option.splits)

lemma mm_ok_remove: "mm_ok mm \<Longrightarrow> mm_ok (map2_remove k mm)"
  by (auto simp: mm_ok_def split: if_splits)

lemma mm_values_remove: "mm_values (map2_remove k mm) j = (if j = k then [] else mm_values mm j)"
  by (simp add: mm_values_def)

section \<open>Sets and set multimaps\<close>

type_synonym 'k hset = "('k, unit) map2"

definition hset_put :: "'k \<Rightarrow> 'k hset \<Rightarrow> 'k hset" where
  "hset_put k s = map2_put k () s"

definition hset_has :: "'k hset \<Rightarrow> 'k \<Rightarrow> bool" where
  "hset_has s k = map2_contains_key s k"

definition hset_delete :: "'k \<Rightarrow> 'k hset \<Rightarrow> unit option \<times> 'k hset" where
  "hset_delete k s = map2_delete k s"

definition hset_keys :: "'k hset \<Rightarrow> 'k list" where
  "hset_keys s = map fst s"

type_synonym ('k, 'v) set_multimap = "('k, 'v hset) map2"

definition smm_get :: "('k, 'v) set_multimap \<Rightarrow> 'k \<Rightarrow> 'v hset option" where
  "smm_get m k = map2_get m k"

definition smm_put :: "'k \<Rightarrow> 'v \<Rightarrow> ('k, 'v) set_multimap \<Rightarrow> ('k, 'v) set_multimap" where
  "smm_put k v m =
     map2_put k (hset_put v (case smm_get m k of None \<Rightarrow> map2_empty | Some s \<Rightarrow> s)) m"

definition smm_put_many :: "'k \<Rightarrow> 'v list \<Rightarrow> ('k, 'v) set_multimap \<Rightarrow> ('k, 'v) set_multimap" where
  "smm_put_many k vs m =
     map2_put k (fold hset_put vs (case smm_get m k of None \<Rightarrow> map2_empty | Some s \<Rightarrow> s)) m"

definition smm_remove :: "'k \<Rightarrow> 'v \<Rightarrow> ('k, 'v) set_multimap \<Rightarrow> ('k, 'v) set_multimap" where
  "smm_remove k v m =
     (case smm_get m k of None \<Rightarrow> m | Some s \<Rightarrow> map2_put k (snd (hset_delete v s)) m)"

definition smm_remove_all :: "'k \<Rightarrow> ('k, 'v) set_multimap \<Rightarrow> ('k, 'v) set_multimap" where
  "smm_remove_all k m = map2_remove k m"

definition smm_values :: "('k, 'v) set_multimap \<Rightarrow> 'k \<Rightarrow> 'v list" where
  "smm_values m k = (case smm_get m k of None \<Rightarrow> [] | Some s \<Rightarrow> hset_keys s)"

definition smm_has :: "('k, 'v) set_multimap \<Rightarrow> 'k \<Rightarrow> 'v \<Rightarrow> bool" where
  "smm_has m k v = (case smm_get m k of None \<Rightarrow> False | Some s \<Rightarrow> hset_has s v)"

lemma hset_has_put [simp]: "hset_has (hset_put k s) j \<longleftrightarrow> j = k \<or> hset_has s j"
  by (simp add: hset_has_def hset_put_def map2_contains_key_def)

lemma hset_has_empty [simp]: "\<not> hset_has map2_empty k"
  by (simp add: hset_has_def map2_contains_key_def)

lemma hset_has_fold_put [simp]: "hset_has (fold hset_put vs s) j \<longleftrightarrow> j \<in> set vs \<or> hset_has s j"
  by (induction vs arbitrary: s) auto

lemma hset_has_delete [simp]: "hset_has (snd (hset_delete k s)) j \<longleftrightarrow> j \<noteq> k \<and> hset_has s j"
  by (simp add: hset_has_def hset_delete_def map2_delete_def map2_contains_key_def)

lemma smm_has_put [simp]: "smm_has (smm_put k v m) j w \<longleftrightarrow> (j = k \<and> w = v) \<or> smm_has m j w"
  by (auto simp: smm_has_def smm_put_def smm_get_def split: option.splits)

lemma smm_has_put_many [simp]:
  "smm_has (smm_put_many k vs m) j w \<longleftrightarrow> (j = k \<and> w \<in> set vs) \<or> smm_has m j w"
  by (auto simp: smm_has_def smm_put_many_def smm_get_def split: option.splits)

lemma smm_has_remove [simp]: "smm_has (smm_remove k v m) j w \<longleftrightarrow> smm_has m j w \<and> \<not> (j = k \<and> w = v)"
  by (auto simp: smm_has_def smm_remove_def smm_get_def split: option.splits)

lemma smm_has_remove_all [simp]: "smm_has (smm_remove_all k m) j w \<longleftrightarrow> smm_has m j w \<and> j \<noteq> k"
  by (auto simp: smm_has_def smm_remove_all_def smm_get_def)

lemma smm_has_empty [simp]: "\<not> smm_has map2_empty j w"
  by (simp add: smm_has_def smm_get_def)

lemma smm_values_has: "v \<in> set (smm_values m k) \<longleftrightarrow> smm_has m k v"
  by (auto simp: smm_values_def smm_has_def hset_has_def hset_keys_def map2_contains_key_def map2_get_def
      map_of_eq_None_iff dest: weak_map_of_SomeI split: option.splits)

section \<open>MapMap\<close>

record ('k, 'j, 'v) mapmap =
  mpm_outer :: "('k, ('j, 'v) map2) map2"
  mpm_cache :: "('k, ('j, 'v) map2) map2"

definition mpm_from_root :: "('k, ('j, 'v) map2) map2 \<Rightarrow> ('k, 'j, 'v) mapmap" where
  "mpm_from_root root = \<lparr>mpm_outer = root, mpm_cache = map2_empty\<rparr>"

text \<open>Loading an inner map returns whether it is empty, the map, and the store with it cached.\<close>

definition load_inner_map ::
  "'k \<Rightarrow> ('k, 'j, 'v) mapmap \<Rightarrow> (bool \<times> ('j, 'v) map2) \<times> ('k, 'j, 'v) mapmap" where
  "load_inner_map k m =
     (case map2_get (mpm_cache m) k of
        Some in_map \<Rightarrow> ((map2_is_empty in_map, in_map), m)
      | None \<Rightarrow>
          let (empty, in_map) =
                (case map2_get (mpm_outer m) k of
                   Some root \<Rightarrow> (False, root)
                 | None \<Rightarrow> (True, map2_empty))
          in ((empty, in_map), m\<lparr>mpm_cache := map2_put k in_map (mpm_cache m)\<rparr>))"

definition mpm_get :: "'k \<Rightarrow> 'j \<Rightarrow> ('k, 'j, 'v) mapmap \<Rightarrow> 'v option \<times> ('k, 'j, 'v) mapmap" where
  "mpm_get k j m =
     (case load_inner_map k m of ((is_empty, in_map), m') \<Rightarrow>
        (if is_empty then None else map2_get in_map j, m'))"

text \<open>\<open>for_each_in\<close> visits the entries of one inner map.\<close>

definition mpm_entries_in :: "'k \<Rightarrow> ('k, 'j, 'v) mapmap \<Rightarrow> ('j \<times> 'v) list \<times> ('k, 'j, 'v) mapmap" where
  "mpm_entries_in k m =
     (case load_inner_map k m of ((is_empty, in_map), m') \<Rightarrow> (if is_empty then [] else in_map, m'))"

definition mpm_put ::
  "'k \<Rightarrow> 'j \<Rightarrow> 'v \<Rightarrow> ('k, 'j, 'v) mapmap \<Rightarrow> 'v option \<times> ('k, 'j, 'v) mapmap" where
  "mpm_put k j v m =
     (case load_inner_map k m of ((_, in_map), m') \<Rightarrow>
        (map2_get in_map j, m'\<lparr>mpm_cache := map2_put k (map2_put j v in_map) (mpm_cache m')\<rparr>))"

definition mpm_put_if_absent ::
  "'k \<Rightarrow> 'j \<Rightarrow> 'v \<Rightarrow> ('k, 'j, 'v) mapmap \<Rightarrow> bool \<times> ('k, 'j, 'v) mapmap" where
  "mpm_put_if_absent k j v m =
     (case load_inner_map k m of ((_, in_map), m') \<Rightarrow>
        case map2_set_if_absent j v in_map of (fresh, in_map') \<Rightarrow>
          (fresh, m'\<lparr>mpm_cache := map2_put k in_map' (mpm_cache m')\<rparr>))"

definition mpm_put_many ::
  "'k \<Rightarrow> ('j \<times> 'v) list \<Rightarrow> ('k, 'j, 'v) mapmap \<Rightarrow> ('k, 'j, 'v) mapmap" where
  "mpm_put_many k values m =
     (case load_inner_map k m of ((_, in_map), m') \<Rightarrow>
        m'\<lparr>mpm_cache := map2_put k (fold (\<lambda>(j, v). map2_put j v) values in_map) (mpm_cache m')\<rparr>)"

definition mpm_remove ::
  "'k \<Rightarrow> 'j \<Rightarrow> ('k, 'j, 'v) mapmap \<Rightarrow> 'v option \<times> ('k, 'j, 'v) mapmap" where
  "mpm_remove k j m =
     (case load_inner_map k m of ((is_empty, in_map), m') \<Rightarrow>
        if is_empty then (None, m')
        else (map2_get in_map j, m'\<lparr>mpm_cache := map2_put k (map2_remove j in_map) (mpm_cache m')\<rparr>))"

definition flush_entry ::
  "'k \<times> ('j, 'v) map2 \<Rightarrow> ('k, ('j, 'v) map2) map2 \<Rightarrow> ('k, ('j, 'v) map2) map2" where
  "flush_entry e outer =
     (if map2_is_empty (snd e) then map2_remove (fst e) outer else map2_put (fst e) (snd e) outer)"

definition mpm_flush :: "('k, 'j, 'v) mapmap \<Rightarrow> ('k, 'j, 'v) mapmap" where
  "mpm_flush m = m\<lparr>mpm_outer := fold flush_entry (mpm_cache m) (mpm_outer m)\<rparr>"

text \<open>The content: the cached inner map where there is one, the stored one otherwise.\<close>

definition mpm_lookup :: "('k, 'j, 'v) mapmap \<Rightarrow> 'k \<Rightarrow> 'j \<Rightarrow> 'v option" where
  "mpm_lookup m k j =
     (case map2_get (mpm_cache m) k of
        Some inner \<Rightarrow> map2_get inner j
      | None \<Rightarrow> (case map2_get (mpm_outer m) k of Some inner \<Rightarrow> map2_get inner j | None \<Rightarrow> None))"

definition mpm_ok :: "('k, 'j, 'v) mapmap \<Rightarrow> bool" where
  "mpm_ok m \<longleftrightarrow> map2_ok (mpm_cache m) \<and> map2_ok (mpm_outer m)
     \<and> (\<forall>k inner. map2_get (mpm_outer m) k = Some inner \<longrightarrow> \<not> map2_is_empty inner \<and> map2_ok inner)
     \<and> (\<forall>k inner. map2_get (mpm_cache m) k = Some inner \<longrightarrow> map2_ok inner)"

locale two_level_map =
  fixes lookup :: "'m \<Rightarrow> 'k \<Rightarrow> 'j \<Rightarrow> 'v option"
    and get :: "'k \<Rightarrow> 'j \<Rightarrow> 'm \<Rightarrow> 'v option \<times> 'm"
    and put :: "'k \<Rightarrow> 'j \<Rightarrow> 'v \<Rightarrow> 'm \<Rightarrow> 'v option \<times> 'm"
    and remove :: "'k \<Rightarrow> 'j \<Rightarrow> 'm \<Rightarrow> 'v option \<times> 'm"
    and flush :: "'m \<Rightarrow> 'm"
    and invar :: "'m \<Rightarrow> bool"
  assumes get_lookup: "invar m \<Longrightarrow> get k j m = (r, m') \<Longrightarrow> r = lookup m k j \<and> lookup m' = lookup m \<and> invar m'"
    and put_lookup: "invar m \<Longrightarrow> put k j v m = (r, m') \<Longrightarrow>
      r = lookup m k j \<and> lookup m' = (lookup m)(k := (lookup m k)(j \<mapsto> v)) \<and> invar m'"
    and remove_lookup: "invar m \<Longrightarrow> remove k j m = (r, m') \<Longrightarrow>
      r = lookup m k j \<and> lookup m' = (lookup m)(k := (lookup m k)(j := None)) \<and> invar m'"
    and flush_lookup: "invar m \<Longrightarrow> lookup (flush m) = lookup m \<and> invar (flush m)"
begin

lemma put_get:
  assumes "invar m" and "put k j v m = (r, m1)" and "get k' j' m1 = (x, m2)"
  shows "x = (if k' = k \<and> j' = j then Some v else lookup m k' j')"
  using put_lookup [OF assms(1,2)] get_lookup [OF _ assms(3)] by auto

lemma remove_get:
  assumes "invar m" and "remove k j m = (r, m1)" and "get k' j' m1 = (x, m2)"
  shows "x = (if k' = k \<and> j' = j then None else lookup m k' j')"
  using remove_lookup [OF assms(1,2)] get_lookup [OF _ assms(3)] by auto

lemma put_remove:
  assumes "invar m" and "put k j v m = (r, m1)" and "remove k j m1 = (x, m2)"
  shows "x = Some v" and "lookup m k j = None \<Longrightarrow> lookup m2 = lookup m"
  using put_lookup [OF assms(1,2)] remove_lookup [OF _ assms(3)] by (auto simp: fun_upd_idem)

end

lemma map2_is_empty_empty [simp]: "map2_is_empty map2_empty"
  by (simp add: map2_is_empty_def map2_empty_def)

lemma map2_is_empty_get: "map2_is_empty m \<Longrightarrow> map2_get m k = None"
  by (simp add: map2_is_empty_def map2_get_def)

lemma load_inner_map_spec:
  assumes "mpm_ok m" and "load_inner_map k m = ((e, inner), m')"
  shows "e = map2_is_empty inner \<and> map2_get inner = mpm_lookup m k \<and> mpm_lookup m' = mpm_lookup m
    \<and> mpm_ok m' \<and> map2_ok inner \<and> mpm_outer m' = mpm_outer m"
proof (cases "map2_get (mpm_cache m) k")
  case (Some x)
  with assms show ?thesis by (auto simp: load_inner_map_def mpm_lookup_def mpm_ok_def fun_eq_iff)
next
  case None
  then obtain inner' where m': "m' = m\<lparr>mpm_cache := map2_put k inner' (mpm_cache m)\<rparr>" "inner = inner'"
    and get: "map2_get inner = mpm_lookup m k" and "e = map2_is_empty inner" "map2_ok inner"
    using assms
    by (cases "map2_get (mpm_outer m) k") (auto simp: load_inner_map_def mpm_lookup_def mpm_ok_def fun_eq_iff)
  moreover have "mpm_lookup m' = mpm_lookup m"
    using None get by (auto simp: m' mpm_lookup_def fun_eq_iff split: option.splits)
  moreover have "mpm_ok m'" using assms(1) \<open>map2_ok inner\<close> by (auto simp: m' mpm_ok_def)
  ultimately show ?thesis by simp
qed

text \<open>Writing back a changed inner map.\<close>

lemma mpm_lookup_write:
  assumes "mpm_ok m" and "load_inner_map k m = ((e, inner), m1)" and "map2_ok inner'"
    and "m' = m1\<lparr>mpm_cache := map2_put k inner' (mpm_cache m1)\<rparr>"
  shows "mpm_lookup m' = (mpm_lookup m)(k := map2_get inner') \<and> mpm_ok m'"
proof -
  note sp = load_inner_map_spec [OF assms(1,2)]
  have "mpm_lookup m' = (mpm_lookup m1)(k := map2_get inner')"
    by (auto simp: assms(4) mpm_lookup_def fun_eq_iff split: option.split)
  moreover have "mpm_ok m'" using sp assms(3) by (auto simp: assms(4) mpm_ok_def)
  ultimately show ?thesis using sp by simp
qed

lemma fold_flush_entry:
  assumes "distinct (map fst cache)"
  shows "map2_get (fold flush_entry cache outer) k =
    (case map_of cache k of
       None \<Rightarrow> map2_get outer k
     | Some inner \<Rightarrow> (if map2_is_empty inner then None else Some inner))"
  using assms
proof (induction cache arbitrary: outer)
  case (Cons e cache)
  obtain j inner where e: "e = (j, inner)" by (cases e)
  have "map_of cache j = None" using Cons.prems e by (simp add: map_of_eq_None_iff)
  with Cons e show ?case by (auto simp: flush_entry_def split: option.splits)
qed simp

lemma fold_flush_entry_ok: "map2_ok outer \<Longrightarrow> map2_ok (fold flush_entry cache outer)"
  by (induction cache arbitrary: outer) (auto simp: flush_entry_def)

lemma mpm_flush_outer:
  assumes "mpm_ok m"
  shows "map2_get (mpm_outer (mpm_flush m)) k =
    (case map2_get (mpm_cache m) k of
       None \<Rightarrow> map2_get (mpm_outer m) k
     | Some inner \<Rightarrow> (if map2_is_empty inner then None else Some inner))"
  using assms by (simp add: mpm_flush_def fold_flush_entry mpm_ok_def map2_ok_def) (simp add: map2_get_def)

lemma mpm_flush_spec:
  assumes "mpm_ok m"
  shows "mpm_lookup (mpm_flush m) = mpm_lookup m \<and> mpm_ok (mpm_flush m)"
proof
  have cache: "mpm_cache (mpm_flush m) = mpm_cache m" by (simp add: mpm_flush_def)
  show "mpm_lookup (mpm_flush m) = mpm_lookup m"
    by (auto simp: fun_eq_iff mpm_lookup_def cache mpm_flush_outer [OF assms] split: option.splits)
  have "map2_ok (mpm_outer (mpm_flush m))"
    using assms by (simp add: mpm_flush_def fold_flush_entry_ok mpm_ok_def)
  with assms show "mpm_ok (mpm_flush m)"
    by (auto simp: mpm_ok_def cache mpm_flush_outer [OF assms] split: option.splits if_splits)
qed

interpretation mpm: two_level_map mpm_lookup mpm_get mpm_put mpm_remove mpm_flush mpm_ok
proof unfold_locales
  fix m m' :: "('a, 'b, 'c) mapmap" and k j v r
  assume ok: "mpm_ok m"
  obtain e inner m1 where load: "load_inner_map k m = ((e, inner), m1)" by (metis surj_pair)
  note sp = load_inner_map_spec [OF ok load]
  show "mpm_get k j m = (r, m') \<Longrightarrow> r = mpm_lookup m k j \<and> mpm_lookup m' = mpm_lookup m \<and> mpm_ok m'"
    using sp map2_is_empty_get by (fastforce simp: mpm_get_def load)
  show "mpm_put k j v m = (r, m') \<Longrightarrow>
      r = mpm_lookup m k j \<and> mpm_lookup m' = (mpm_lookup m)(k := (mpm_lookup m k)(j \<mapsto> v)) \<and> mpm_ok m'"
    using sp mpm_lookup_write [OF ok load, of "map2_put j v inner"] by (auto simp: mpm_put_def load m2.lookup_put)
  show "mpm_remove k j m = (r, m') \<Longrightarrow>
      r = mpm_lookup m k j \<and> mpm_lookup m' = (mpm_lookup m)(k := (mpm_lookup m k)(j := None)) \<and> mpm_ok m'"
    using sp mpm_lookup_write [OF ok load, of "map2_remove j inner"] map2_is_empty_get [of inner j]
    by (auto simp: mpm_remove_def load m2.lookup_del fun_upd_idem split: if_splits)
  show "mpm_lookup (mpm_flush m) = mpm_lookup m \<and> mpm_ok (mpm_flush m)" by (rule mpm_flush_spec [OF ok])
qed

lemma mpm_put_if_absent_spec:
  assumes "mpm_ok m" and "mpm_put_if_absent k j v m = (fresh, m')"
  shows "fresh = (mpm_lookup m k j = None)"
    and "mpm_lookup m' = (if fresh then (mpm_lookup m)(k := (mpm_lookup m k)(j \<mapsto> v)) else mpm_lookup m)"
    and "mpm_ok m'"
proof -
  obtain e inner m1 where load: "load_inner_map k m = ((e, inner), m1)" by (metis surj_pair)
  note sp = load_inner_map_spec [OF assms(1) load]
  obtain inner' where r: "map2_set_if_absent j v inner = (fresh, inner')"
    "m' = m1\<lparr>mpm_cache := map2_put k inner' (mpm_cache m1)\<rparr>"
    using assms(2) by (auto simp: mpm_put_if_absent_def load split: prod.splits)
  have inner': "fresh = (mpm_lookup m k j = None)" "map2_ok inner'"
    "map2_get inner' = (if fresh then (mpm_lookup m k)(j \<mapsto> v) else mpm_lookup m k)"
    using r(1) sp by (auto simp: map2_set_if_absent_def map2_contains_key_def m2.lookup_put split: if_splits)
  with mpm_lookup_write [OF assms(1) load inner'(2) r(2)]
  show "fresh = (mpm_lookup m k j = None)" "mpm_ok m'"
    "mpm_lookup m' = (if fresh then (mpm_lookup m)(k := (mpm_lookup m k)(j \<mapsto> v)) else mpm_lookup m)"
    by auto
qed

lemma mpm_entries_in_spec:
  assumes "mpm_ok m" and "mpm_entries_in k m = (es, m')"
  shows "map_of es = mpm_lookup m k" and "distinct (map fst es)" and "mpm_lookup m' = mpm_lookup m" and "mpm_ok m'"
proof -
  obtain e inner m1 where load: "load_inner_map k m = ((e, inner), m1)" by (metis surj_pair)
  note sp = load_inner_map_spec [OF assms(1) load]
  from assms(2) load have es: "es = (if e then [] else inner)" and m': "m' = m1"
    by (auto simp: mpm_entries_in_def)
  have "es = inner" using es sp by (auto simp: map2_is_empty_def)
  with sp m' show "map_of es = mpm_lookup m k" "distinct (map fst es)" "mpm_lookup m' = mpm_lookup m" "mpm_ok m'"
    by (auto simp: map2_get_def map2_ok_def fun_eq_iff)
qed

lemma mpm_put_many_spec:
  assumes "mpm_ok m"
  shows "mpm_lookup (mpm_put_many k vs m) = (mpm_lookup m)(k := mpm_lookup m k ++ map_of (rev vs))"
    and "mpm_ok (mpm_put_many k vs m)"
proof -
  obtain e inner m1 where load: "load_inner_map k m = ((e, inner), m1)" by (metis surj_pair)
  note sp = load_inner_map_spec [OF assms load]
  have "map2_get (fold (\<lambda>(j, v). map2_put j v) vs a) = map2_get a ++ map_of (rev vs) \<and>
      (map2_ok a \<longrightarrow> map2_ok (fold (\<lambda>(j, v). map2_put j v) vs a))" for a :: "('b, 'c) map2"
  proof (induction vs arbitrary: a)
    case (Cons x vs)
    then show ?case by (cases x) (auto simp: fun_eq_iff map_add_def split: option.splits)
  qed simp
  with sp mpm_lookup_write [OF assms load _ refl, of "fold (\<lambda>(j, v). map2_put j v) vs inner"]
  show "mpm_lookup (mpm_put_many k vs m) = (mpm_lookup m)(k := mpm_lookup m k ++ map_of (rev vs))"
    "mpm_ok (mpm_put_many k vs m)" by (auto simp: mpm_put_many_def load)
qed

lemma mpm_reload:
  assumes "mpm_ok m"
  shows "mpm_lookup (mpm_from_root (mpm_outer (mpm_flush m))) = mpm_lookup m"
    and "mpm_ok (mpm_from_root (mpm_outer (mpm_flush m)))"
proof -
  show "mpm_lookup (mpm_from_root (mpm_outer (mpm_flush m))) = mpm_lookup m"
    by (auto simp: fun_eq_iff mpm_lookup_def mpm_from_root_def mpm_flush_outer [OF assms] map2_is_empty_get split: option.splits)
  show "mpm_ok (mpm_from_root (mpm_outer (mpm_flush m)))"
    using mpm_flush_spec [OF assms] by (auto simp: mpm_ok_def mpm_from_root_def)
qed

section \<open>Sequences of operations\<close>

datatype ('k, 'j, 'v) mpm_op =
    OpGet 'k 'j
  | OpPut 'k 'j 'v
  | OpPutMany 'k "('j \<times> 'v) list"
  | OpRemove 'k 'j
  | OpReload

fun mpm_step :: "('k, 'j, 'v) mpm_op \<Rightarrow> ('k, 'j, 'v) mapmap \<Rightarrow> 'v option \<times> ('k, 'j, 'v) mapmap" where
  "mpm_step (OpGet k j) m = mpm_get k j m"
| "mpm_step (OpPut k j v) m = mpm_put k j v m"
| "mpm_step (OpPutMany k vs) m = (None, mpm_put_many k vs m)"
| "mpm_step (OpRemove k j) m = mpm_remove k j m"
| "mpm_step OpReload m = (None, mpm_from_root (mpm_outer (mpm_flush m)))"

fun spec_step ::
  "('k, 'j, 'v) mpm_op \<Rightarrow> ('k \<Rightarrow> 'j \<Rightarrow> 'v option) \<Rightarrow> 'v option \<times> ('k \<Rightarrow> 'j \<Rightarrow> 'v option)" where
  "spec_step (OpGet k j) f = (f k j, f)"
| "spec_step (OpPut k j v) f = (f k j, f(k := (f k)(j \<mapsto> v)))"
| "spec_step (OpPutMany k vs) f = (None, f(k := f k ++ map_of (rev vs)))"
| "spec_step (OpRemove k j) f = (f k j, f(k := (f k)(j := None)))"
| "spec_step OpReload f = (None, f)"

fun run_ops :: "('o \<Rightarrow> 's \<Rightarrow> 'r \<times> 's) \<Rightarrow> 'o list \<Rightarrow> 's \<Rightarrow> 'r list \<times> 's" where
  "run_ops step [] s = ([], s)"
| "run_ops step (x # xs) s =
     (case step x s of (r, s1) \<Rightarrow> case run_ops step xs s1 of (rs, s2) \<Rightarrow> (r # rs, s2))"

lemma mpm_step_refines:
  assumes "mpm_ok m" and "mpm_step x m = (r, m')"
  shows "spec_step x (mpm_lookup m) = (r, mpm_lookup m') \<and> mpm_ok m'"
proof (cases x)
  case (OpGet k j)
  with mpm.get_lookup [OF assms(1)] assms(2) show ?thesis by fastforce
next
  case (OpPut k j v)
  with mpm.put_lookup [OF assms(1)] assms(2) show ?thesis by fastforce
next
  case (OpPutMany k vs)
  with mpm_put_many_spec [OF assms(1)] assms(2) show ?thesis by fastforce
next
  case (OpRemove k j)
  with mpm.remove_lookup [OF assms(1)] assms(2) show ?thesis by fastforce
next
  case OpReload
  with mpm_reload [OF assms(1)] assms(2) show ?thesis by auto
qed

section \<open>Properties\<close>



end
