(* ===== verification/PowerActor.thy ===== *)
theory PowerActor
  imports Runtime Smooth Collections
begin

text \<open>
  The storage power actor: \<open>actors/power/src\<close> (\<open>state.rs\<close>, \<open>lib.rs\<close>).

  A method of the state that can fail after it changed the state returns the state in both cases,
  because \<open>process_deferred_cron_events\<close> goes on after such a failure. The keys of the cron queue are
  the epochs themselves. The subtractions of \<open>add_to_claim\<close> are on unbounded integers, so the
  \<open>expect\<close> behind their \<open>checked_sub\<close> cannot fail.

  The reply of the init actor is a parameter that may depend on the machine the reply meets;
  the invariant needs that it names an actor without a claim (\<open>exec_fresh\<close>), which is what the init
  actor guarantees by allocating fresh identifiers. The decoding of the reward actor's reply, the
  code of the miner actor and the minimum consensus power of the network policy are parameters too.
\<close>

section \<open>State\<close>

datatype post_proof =
    StackedDRGWinning2KiBV1 | StackedDRGWinning8MiBV1 | StackedDRGWinning512MiBV1
  | StackedDRGWinning32GiBV1 | StackedDRGWinning64GiBV1
  | StackedDRGWindow2KiBV1P1 | StackedDRGWindow8MiBV1P1 | StackedDRGWindow512MiBV1P1
  | StackedDRGWindow32GiBV1P1 | StackedDRGWindow64GiBV1P1
  | InvalidPoSt int

record claim =
  window_post_proof_type :: post_proof
  raw_byte_power :: int
  quality_adj_power :: int

record cron_event =
  miner_addr :: address
  callback_payload :: bytes

record power_state =
  total_raw_byte_power :: int
  total_bytes_committed :: int
  total_quality_adj_power :: int
  total_qa_bytes_committed :: int
  total_pledge_collateral :: int
  this_epoch_raw_byte_power :: int
  this_epoch_quality_adj_power :: int
  this_epoch_pledge_collateral :: int
  this_epoch_qa_power_smoothed :: filter_estimate
  miner_count :: int
  miner_above_min_power_count :: int
  ramp_start_epoch :: int
  ramp_duration_epochs :: nat
  cron_event_queue :: "(int, cron_event) multimap"
  first_cron_epoch :: int
  claims :: "(address, claim) map2"

definition CONSENSUS_MINER_MIN_MINERS :: int where "CONSENSUS_MINER_MIN_MINERS = 4"

definition INITIAL_QA_POWER_ESTIMATE_POSITION :: int where
  "INITIAL_QA_POWER_ESTIMATE_POSITION = 750000 * 2 ^ 30"

definition INITIAL_QA_POWER_ESTIMATE_VELOCITY :: int where
  "INITIAL_QA_POWER_ESTIMATE_VELOCITY = 3840 * 2 ^ 30"

definition power_state_new :: power_state where
  "power_state_new =
     \<lparr>total_raw_byte_power = 0, total_bytes_committed = 0, total_quality_adj_power = 0,
      total_qa_bytes_committed = 0, total_pledge_collateral = 0, this_epoch_raw_byte_power = 0,
      this_epoch_quality_adj_power = 0, this_epoch_pledge_collateral = 0,
      this_epoch_qa_power_smoothed =
        filter_estimate_new INITIAL_QA_POWER_ESTIMATE_POSITION INITIAL_QA_POWER_ESTIMATE_VELOCITY,
      miner_count = 0, miner_above_min_power_count = 0, ramp_start_epoch = 0,
      ramp_duration_epochs = 0, cron_event_queue = map2_empty, first_cron_epoch = 0,
      claims = map2_empty\<rparr>"

text \<open>The minimum is that of the policy for every valid proof type.\<close>

fun consensus_miner_min_power :: "int \<Rightarrow> post_proof \<Rightarrow> int option" where
  "consensus_miner_min_power minimum (InvalidPoSt i) = None"
| "consensus_miner_min_power minimum p = Some minimum"

definition set_claim :: "address \<Rightarrow> claim \<Rightarrow> power_state \<Rightarrow> unit result \<times> power_state" where
  "set_claim a cl st =
     (if raw_byte_power cl < 0 then (Inl illegal_state, st)
      else if quality_adj_power cl < 0 then (Inl illegal_state, st)
      else (Inr (), st\<lparr>claims := map2_put a cl (claims st)\<rparr>))"

definition add_to_claim ::
  "int \<Rightarrow> address \<Rightarrow> int \<Rightarrow> int \<Rightarrow> power_state \<Rightarrow> unit result \<times> power_state" where
  "add_to_claim minimum miner pwr qa_power st =
     (case map2_get (claims st) miner of
        None \<Rightarrow> (Inl not_found, st)
      | Some old_claim \<Rightarrow>
          let st1 = st\<lparr>total_qa_bytes_committed := total_qa_bytes_committed st + qa_power,
                       total_bytes_committed := total_bytes_committed st + pwr\<rparr>;
              new_claim = \<lparr>window_post_proof_type = window_post_proof_type old_claim,
                           raw_byte_power = raw_byte_power old_claim + pwr,
                           quality_adj_power = quality_adj_power old_claim + qa_power\<rparr>
          in case consensus_miner_min_power minimum (window_post_proof_type old_claim) of
               None \<Rightarrow> (Inl illegal_state, st1)
             | Some min_power \<Rightarrow>
                 let prev_below = raw_byte_power old_claim < min_power;
                     still_below = raw_byte_power new_claim < min_power;
                     st2 =
                       (if prev_below \<and> \<not> still_below then
                          st1\<lparr>miner_above_min_power_count := miner_above_min_power_count st1 + 1,
                              total_quality_adj_power :=
                                total_quality_adj_power st1 + quality_adj_power new_claim,
                              total_raw_byte_power :=
                                total_raw_byte_power st1 + raw_byte_power new_claim\<rparr>
                        else if \<not> prev_below \<and> still_below then
                          st1\<lparr>miner_above_min_power_count := miner_above_min_power_count st1 - 1,
                              total_quality_adj_power :=
                                total_quality_adj_power st1 - quality_adj_power old_claim,
                              total_raw_byte_power :=
                                total_raw_byte_power st1 - raw_byte_power old_claim\<rparr>
                        else if \<not> prev_below \<and> \<not> still_below then
                          st1\<lparr>total_quality_adj_power := total_quality_adj_power st1 + qa_power,
                              total_raw_byte_power := total_raw_byte_power st1 + pwr\<rparr>
                        else st1)
                 in if raw_byte_power new_claim < 0 then (Inl illegal_state, st2)
                    else if quality_adj_power new_claim < 0 then (Inl illegal_state, st2)
                    else if miner_above_min_power_count st2 < 0 then (Inl illegal_state, st2)
                    else set_claim miner new_claim st2)"

definition miner_nominal_power_meets_consensus_minimum ::
  "int \<Rightarrow> actor_id \<Rightarrow> power_state \<Rightarrow> (int \<times> bool) result" where
  "miner_nominal_power_meets_consensus_minimum minimum miner st =
     (case map2_get (claims st) (ID miner) of
        None \<Rightarrow> Inl illegal_argument
      | Some cl \<Rightarrow>
          (case consensus_miner_min_power minimum (window_post_proof_type cl) of
             None \<Rightarrow> Inl illegal_state
           | Some miner_min_power \<Rightarrow>
               let nominal = raw_byte_power cl
               in if miner_min_power \<le> nominal then Inr (nominal, True)
                  else if CONSENSUS_MINER_MIN_MINERS \<le> miner_above_min_power_count st
                  then Inr (nominal, False)
                  else Inr (nominal, 0 < nominal)))"

definition append_cron_event :: "int \<Rightarrow> cron_event \<Rightarrow> power_state \<Rightarrow> power_state" where
  "append_cron_event epoch event st =
     st\<lparr>first_cron_epoch := (if epoch < first_cron_epoch st then epoch else first_cron_epoch st),
        cron_event_queue := mm_add epoch event (cron_event_queue st)\<rparr>"

definition current_total_power :: "power_state \<Rightarrow> int \<times> int" where
  "current_total_power st =
     (if miner_above_min_power_count st < CONSENSUS_MINER_MIN_MINERS
      then (total_bytes_committed st, total_qa_bytes_committed st)
      else (total_raw_byte_power st, total_quality_adj_power st))"

definition update_smoothed_estimate :: "int \<Rightarrow> power_state \<Rightarrow> power_state result" where
  "update_smoothed_estimate delta st =
     (case next_estimate DEFAULT_ALPHA DEFAULT_BETA (this_epoch_qa_power_smoothed st)
             (this_epoch_quality_adj_power st) delta of
        None \<Rightarrow> Inl Panic
      | Some fe \<Rightarrow> Inr (st\<lparr>this_epoch_qa_power_smoothed := fe\<rparr>))"

definition update_stats_for_new_miner :: "int \<Rightarrow> post_proof \<Rightarrow> power_state \<Rightarrow> power_state result" where
  "update_stats_for_new_miner minimum proof_type st =
     (case consensus_miner_min_power minimum proof_type of
        None \<Rightarrow> Inl illegal_state
      | Some min_power \<Rightarrow>
          Inr (if \<not> 0 < min_power
               then st\<lparr>miner_above_min_power_count := miner_above_min_power_count st + 1\<rparr> else st))"

definition validate_miner_has_claim :: "address \<Rightarrow> power_state \<Rightarrow> unit result" where
  "validate_miner_has_claim miner st =
     (if \<not> map2_contains_key (claims st) miner then Inl forbidden else Inr ())"

text \<open>Deleting a claim that does not exist succeeds.\<close>

definition delete_claim :: "int \<Rightarrow> address \<Rightarrow> power_state \<Rightarrow> unit anyhow \<times> power_state" where
  "delete_claim minimum miner st =
     (case map2_get (claims st) miner of
        None \<Rightarrow> (Inr (), st)
      | Some cl \<Rightarrow>
          (case add_to_claim minimum miner (- raw_byte_power cl) (- quality_adj_power cl) st of
             (Inl e, st1) \<Rightarrow> (Inl (Some e), st1)
           | (Inr _, st1) \<Rightarrow>
               (case map2_delete miner (claims st1) of
                  (None, _) \<Rightarrow> (Inl None, st1)
                | (Some _, cls) \<Rightarrow> (Inr (), st1\<lparr>claims := cls\<rparr>))))"

definition load_cron_events :: "(int, cron_event) multimap \<Rightarrow> int \<Rightarrow> cron_event list" where
  "load_cron_events events epoch = mm_values events epoch"

section \<open>Methods\<close>

record create_miner_params =
  cm_owner :: address
  cm_worker :: address
  cm_window_post_proof_type :: post_proof
  cm_peer :: bytes
  cm_multiaddrs :: "bytes list"

datatype power_params =
    ExecMiner cid create_miner_params
  | DeferredCronEvent bytes filter_estimate filter_estimate
  | NetworkKPI int

type_synonym power_vm = "(power_state, power_params) vm"
type_synonym power_send = "(power_state, power_params) sender"

record power_prims =
  pw_exec_return :: "power_vm \<Rightarrow> bytes option \<Rightarrow> (address \<times> address) result"
  pw_reward_return :: "bytes option \<Rightarrow> (filter_estimate \<times> int) result"
  pw_miner_code :: cid
  pw_minimum :: int

definition EXEC_METHOD :: method_num where "EXEC_METHOD = 2"
definition ON_DEFERRED_CRON_EVENT_METHOD :: method_num where "ON_DEFERRED_CRON_EVENT_METHOD = 12"
definition THIS_EPOCH_REWARD_METHOD :: method_num where "THIS_EPOCH_REWARD_METHOD = 3"
definition UPDATE_NETWORK_KPI :: method_num where "UPDATE_NETWORK_KPI = 4"

definition power_constructor :: "ctx \<Rightarrow> power_state result" where
  "power_constructor c =
     r_bind (validate_immediate_caller_is c [SYSTEM_ACTOR_ADDR]) (\<lambda>_. Inr power_state_new)"

text \<open>A step of a transaction that keeps the state on failure, whose failure aborts the message.\<close>

definition register_miner :: "int \<Rightarrow> address \<Rightarrow> post_proof \<Rightarrow> power_state \<Rightarrow> (unit \<times> power_state) result" where
  "register_miner minimum id_address proof_type st =
     r_bind (or_abort (set_claim id_address
               \<lparr>window_post_proof_type = proof_type, raw_byte_power = 0, quality_adj_power = 0\<rparr> st))
       (\<lambda>(_, st1).
     r_bind (update_stats_for_new_miner minimum proof_type (st1\<lparr>miner_count := miner_count st1 + 1\<rparr>))
       (\<lambda>st2. Inr ((), st2)))"

definition create_miner ::
  "power_prims \<Rightarrow> power_send \<Rightarrow> ctx \<Rightarrow> create_miner_params \<Rightarrow> power_vm \<Rightarrow>
   ((address \<times> address) \<times> power_vm) result" where
  "create_miner P send c p v =
     r_bind (send_or_fail (send 0)
               (send_simple INIT_ACTOR_ADDR EXEC_METHOD (Some (ExecMiner (pw_miner_code P) p))
                  (value_received c)) v) (\<lambda>(d, v1).
     r_bind (pw_exec_return P v1 d) (\<lambda>(id_address, robust_address).
     r_bind (transaction v1 (register_miner (pw_minimum P) id_address (cm_window_post_proof_type p)))
       (\<lambda>(_, v2).
     Inr ((id_address, robust_address), v2))))"

definition update_claimed_power ::
  "power_prims \<Rightarrow> ctx \<Rightarrow> int \<Rightarrow> int \<Rightarrow> power_vm \<Rightarrow> (unit \<times> power_vm) result" where
  "update_claimed_power P c raw_byte_delta quality_adjusted_delta v =
     r_bind (validate_immediate_caller_type c v [Miner]) (\<lambda>_.
     transaction v (\<lambda>st.
       or_abort (add_to_claim (pw_minimum P) (caller c) raw_byte_delta quality_adjusted_delta st)))"

definition enroll_cron_event :: "ctx \<Rightarrow> int \<Rightarrow> bytes \<Rightarrow> power_vm \<Rightarrow> (unit \<times> power_vm) result" where
  "enroll_cron_event c event_epoch payload v =
     r_bind (validate_immediate_caller_type c v [Miner]) (\<lambda>_.
     let miner_event = \<lparr>miner_addr = caller c, callback_payload = payload\<rparr> in
     if event_epoch < 0 then Inl illegal_argument
     else transaction v (\<lambda>st. Inr ((), append_cron_event event_epoch miner_event st)))"

definition update_pledge_total :: "ctx \<Rightarrow> int \<Rightarrow> power_vm \<Rightarrow> (unit \<times> power_vm) result" where
  "update_pledge_total c pledge_delta v =
     r_bind (validate_immediate_caller_type c v [Miner]) (\<lambda>_.
     transaction v (\<lambda>st.
       r_bind (validate_miner_has_claim (caller c) st) (\<lambda>_.
       let st1 = st\<lparr>total_pledge_collateral := total_pledge_collateral st + pledge_delta\<rparr>
       in if total_pledge_collateral st1 < 0 then Inl illegal_state else Inr ((), st1))))"

subsection \<open>The cron tick\<close>

text \<open>The events of one epoch: those of miners with a claim are collected, all are removed.\<close>

definition take_epoch_events ::
  "(address, claim) map2 \<Rightarrow> int \<Rightarrow> (int, cron_event) multimap \<times> cron_event list \<Rightarrow>
   ((int, cron_event) multimap \<times> cron_event list) result" where
  "take_epoch_events cls epoch acc =
     (case acc of (events, cron_events) \<Rightarrow>
        let epoch_events = load_cron_events events epoch
        in if epoch_events = [] then Inr (events, cron_events)
           else
             (case mm_remove_all epoch events of
                None \<Rightarrow> Inl illegal_state
              | Some events' \<Rightarrow>
                  Inr (events', cron_events @
                         filter (\<lambda>evt. map2_contains_key cls (miner_addr evt)) epoch_events)))"

definition take_due_events :: "int \<Rightarrow> power_state \<Rightarrow> (cron_event list \<times> power_state) result" where
  "take_due_events rt_epoch st =
     r_bind (r_fold (take_epoch_events (claims st)) [first_cron_epoch st..rt_epoch]
               (cron_event_queue st, [])) (\<lambda>(events, cron_events).
     Inr (cron_events, st\<lparr>first_cron_epoch := rt_epoch + 1, cron_event_queue := events\<rparr>))"

text \<open>The callbacks, in order; the addresses of those that fail are collected.\<close>

definition deferred_req :: "filter_estimate \<Rightarrow> filter_estimate \<Rightarrow> cron_event \<Rightarrow> power_params send_req" where
  "deferred_req reward_smoothed qa_smoothed evt =
     send_simple (miner_addr evt) ON_DEFERRED_CRON_EVENT_METHOD
       (Some (DeferredCronEvent (callback_payload evt) reward_smoothed qa_smoothed)) 0"

definition run_callback ::
  "power_send \<Rightarrow> filter_estimate \<Rightarrow> filter_estimate \<Rightarrow> nat \<times> cron_event \<Rightarrow>
   power_vm \<times> address list \<Rightarrow> power_vm \<times> address list" where
  "run_callback send reward_smoothed qa_smoothed ievt acc =
     (case send (Suc (fst ievt)) (deferred_req reward_smoothed qa_smoothed (snd ievt)) (fst acc) of
        (r, v') \<Rightarrow>
          (case extract_send_result r of
             Inr _ \<Rightarrow> (v', snd acc)
           | Inl _ \<Rightarrow> (v', snd acc @ [miner_addr (snd ievt)])))"

definition drop_failed_miner :: "int \<Rightarrow> address \<Rightarrow> power_state \<Rightarrow> power_state" where
  "drop_failed_miner minimum miner st =
     (case delete_claim minimum miner st of
        (Inl e, st1) \<Rightarrow> st1
      | (Inr _, st1) \<Rightarrow> st1\<lparr>miner_count := miner_count st1 - 1\<rparr>)"

definition process_deferred_cron_events ::
  "power_prims \<Rightarrow> power_send \<Rightarrow> ctx \<Rightarrow> filter_estimate \<Rightarrow> power_vm \<Rightarrow>
   (cron_event list \<times> power_vm) result" where
  "process_deferred_cron_events P send c reward_smoothed v =
     (let st = vm_state v in
      r_bind (transaction v (take_due_events (curr_epoch c))) (\<lambda>(cron_events, v1).
      case fold (run_callback send reward_smoothed (this_epoch_qa_power_smoothed st))
             (enumerate 0 cron_events) (v1, []) of
        (v2, failed_miner_crons) \<Rightarrow>
          Inr (cron_events,
               if failed_miner_crons = [] then v2
               else v2\<lparr>vm_state := fold (drop_failed_miner (pw_minimum P)) failed_miner_crons
                                    (vm_state v2)\<rparr>)))"

definition close_epoch :: "power_state \<Rightarrow> (int \<times> power_state) result" where
  "close_epoch st =
     (case current_total_power st of (raw, qa) \<Rightarrow>
        r_bind (update_smoothed_estimate 1
                  (st\<lparr>this_epoch_pledge_collateral := total_pledge_collateral st,
                      this_epoch_quality_adj_power := qa, this_epoch_raw_byte_power := raw\<rparr>))
          (\<lambda>st1. Inr (this_epoch_raw_byte_power st1, st1)))"

definition on_epoch_tick_end ::
  "power_prims \<Rightarrow> power_send \<Rightarrow> ctx \<Rightarrow> power_vm \<Rightarrow> (unit \<times> power_vm) result" where
  "on_epoch_tick_end P send c v =
     r_bind (validate_immediate_caller_is c [CRON_ACTOR_ADDR]) (\<lambda>_.
     r_bind (send_or_fail (send 0) (send_simple REWARD_ACTOR_ADDR THIS_EPOCH_REWARD_METHOD None 0) v)
       (\<lambda>(d, v1).
     r_bind (pw_reward_return P d) (\<lambda>rewret.
     r_bind (process_deferred_cron_events P send c (fst rewret) v1) (\<lambda>(evts, v2).
     r_bind (transaction v2 close_epoch) (\<lambda>(raw_power, v3).
     r_bind (send_or_fail (send (Suc (length evts)))
               (send_simple REWARD_ACTOR_ADDR UPDATE_NETWORK_KPI (Some (NetworkKPI raw_power)) 0) v3)
       (\<lambda>(_, v4). Inr ((), v4)))))))"

section \<open>Dispatch\<close>

datatype power_msg =
    CreateMiner create_miner_params
  | CreateMinerExported create_miner_params
  | UpdateClaimedPower int int
  | EnrollCronEvent int bytes
  | OnEpochTickEnd
  | UpdatePledgeTotal int
  | CurrentTotalPower
  | NetworkRawPower
  | MinerRawPower actor_id
  | MinerCount
  | MinerConsensusCount
  | MinerPower actor_id

datatype power_ret =
    PowerUnit
  | CreateMinerReturn address address
  | CurrentTotalPowerReturn int int int filter_estimate int nat
  | RawPowerReturn int
  | MinerRawPowerReturn int bool
  | CountReturn int
  | MinerPowerReturn int int

text \<open>The methods that only read the state.\<close>

fun power_read :: "int \<Rightarrow> power_msg \<Rightarrow> power_state \<Rightarrow> power_ret result" where
  "power_read minimum CurrentTotalPower st =
     Inr (CurrentTotalPowerReturn (this_epoch_raw_byte_power st) (this_epoch_quality_adj_power st)
            (this_epoch_pledge_collateral st) (this_epoch_qa_power_smoothed st)
            (ramp_start_epoch st) (ramp_duration_epochs st))"
| "power_read minimum NetworkRawPower st = Inr (RawPowerReturn (this_epoch_raw_byte_power st))"
| "power_read minimum (MinerRawPower miner) st =
     r_bind (miner_nominal_power_meets_consensus_minimum minimum miner st)
       (\<lambda>(raw, meets). Inr (MinerRawPowerReturn raw meets))"
| "power_read minimum MinerCount st = Inr (CountReturn (miner_count st))"
| "power_read minimum MinerConsensusCount st = Inr (CountReturn (miner_above_min_power_count st))"
| "power_read minimum (MinerPower miner) st =
     (case map2_get (claims st) (ID miner) of
        Some cl \<Rightarrow> Inr (MinerPowerReturn (raw_byte_power cl) (quality_adj_power cl))
      | None \<Rightarrow> Inl not_found)"
| "power_read minimum m st = Inl unhandled_message"

text \<open>The exported methods have hashed numbers from \<open>FIRST_EXPORTED_METHOD_NUMBER\<close> on.\<close>

fun power_method :: "power_msg \<Rightarrow> method_num" where
  "power_method (CreateMiner p) = 2"
| "power_method (UpdateClaimedPower r q) = 3"
| "power_method (EnrollCronEvent e b) = 4"
| "power_method OnEpochTickEnd = 5"
| "power_method (UpdatePledgeTotal d) = 6"
| "power_method CurrentTotalPower = 9"
| "power_method m = FIRST_EXPORTED_METHOD_NUMBER"

definition power_dispatch ::
  "power_prims \<Rightarrow> (power_state, power_params, power_msg, power_ret) dispatch" where
  "power_dispatch P send c m v =
     r_bind (restrict_internal_api c v (power_method m)) (\<lambda>_.
     case m of
       CreateMiner p \<Rightarrow> as_ret (case_prod CreateMinerReturn) (create_miner P send c p v)
     | CreateMinerExported p \<Rightarrow> as_ret (case_prod CreateMinerReturn) (create_miner P send c p v)
     | UpdateClaimedPower r q \<Rightarrow> as_ret (\<lambda>_. PowerUnit) (update_claimed_power P c r q v)
     | EnrollCronEvent e b \<Rightarrow> as_ret (\<lambda>_. PowerUnit) (enroll_cron_event c e b v)
     | OnEpochTickEnd \<Rightarrow> as_ret (\<lambda>_. PowerUnit) (on_epoch_tick_end P send c v)
     | UpdatePledgeTotal d \<Rightarrow> as_ret (\<lambda>_. PowerUnit) (update_pledge_total c d v)
     | _ \<Rightarrow> r_bind (power_read (pw_minimum P) m (vm_state v)) (\<lambda>r. Inr (r, v)))"

section \<open>The books of the power actor\<close>

abbreviation counted :: "int \<Rightarrow> (claim \<Rightarrow> int) \<Rightarrow> claim \<Rightarrow> int" where
  "counted minimum f cl \<equiv> (if minimum \<le> raw_byte_power cl then f cl else 0)"

abbreviation total_of :: "(claim \<Rightarrow> int) \<Rightarrow> power_state \<Rightarrow> int" where
  "total_of f st \<equiv> map_total f (map2_get (claims st))"

text \<open>The recorded totals are those of the claims.\<close>

definition totals_ok :: "int \<Rightarrow> power_state \<Rightarrow> bool" where
  "totals_ok minimum st \<longleftrightarrow>
     total_bytes_committed st = total_of raw_byte_power st \<and>
     total_qa_bytes_committed st = total_of quality_adj_power st \<and>
     total_raw_byte_power st = total_of (counted minimum raw_byte_power) st \<and>
     total_quality_adj_power st = total_of (counted minimum quality_adj_power) st \<and>
     miner_above_min_power_count st = total_of (counted minimum (\<lambda>_. 1)) st"

definition claim_ok :: "int \<Rightarrow> claim \<Rightarrow> bool" where
  "claim_ok minimum cl \<longleftrightarrow> 0 \<le> raw_byte_power cl \<and> 0 \<le> quality_adj_power cl \<and>
     consensus_miner_min_power minimum (window_post_proof_type cl) = Some minimum"

definition claims_ok :: "int \<Rightarrow> power_state \<Rightarrow> bool" where
  "claims_ok minimum st \<longleftrightarrow> map2_ok (claims st) \<and>
     (\<forall>a cl. map2_get (claims st) a = Some cl \<longrightarrow> claim_ok minimum cl) \<and>
     miner_count st \<le> int (length (claims st))"

text \<open>No event is stored before the epoch the next tick starts from, and no empty list is stored.\<close>

definition cron_queue_ok :: "power_state \<Rightarrow> bool" where
  "cron_queue_ok st \<longleftrightarrow> mm_ok (cron_event_queue st) \<and>
     (\<forall>k a. map2_get (cron_event_queue st) k = Some a \<longrightarrow> first_cron_epoch st \<le> k \<and> a \<noteq> [])"

definition power_inv :: "int \<Rightarrow> power_state \<Rightarrow> bool" where
  "power_inv minimum st \<longleftrightarrow> totals_ok minimum st \<and> claims_ok minimum st \<and> cron_queue_ok st \<and>
     0 \<le> total_pledge_collateral st"

lemma min_power_Some: "consensus_miner_min_power minimum p = Some m \<Longrightarrow> m = minimum"
  by (cases p) auto

lemma totals_put:
  assumes "map2_ok (claims st)" and "totals_ok minimum st" and "map2_get (claims st) a = Some old"
    and "total_bytes_committed st' = total_bytes_committed st - raw_byte_power old + raw_byte_power new"
    and "total_qa_bytes_committed st' = total_qa_bytes_committed st - quality_adj_power old + quality_adj_power new"
    and "total_raw_byte_power st' = total_raw_byte_power st - counted minimum raw_byte_power old + counted minimum raw_byte_power new"
    and "total_quality_adj_power st' = total_quality_adj_power st - counted minimum quality_adj_power old + counted minimum quality_adj_power new"
    and "miner_above_min_power_count st' = miner_above_min_power_count st - counted minimum (\<lambda>_. 1) old + counted minimum (\<lambda>_. 1) new"
    and "claims st' = map2_put a new (claims st)"
  shows "totals_ok minimum st'"
  using assms by (simp add: totals_ok_def m2.total_put)

abbreviation grown :: "claim \<Rightarrow> int \<Rightarrow> int \<Rightarrow> claim" where
  "grown cl p q \<equiv> \<lparr>window_post_proof_type = window_post_proof_type cl, raw_byte_power = raw_byte_power cl + p,
     quality_adj_power = quality_adj_power cl + q\<rparr>"

lemma add_to_claim_ok:
  assumes "power_inv minimum st" and "add_to_claim minimum a p q st = (Inr u, st')"
  shows "power_inv minimum st'"
    and "\<exists>cl. map2_get (claims st) a = Some cl \<and>
      claims st' = map2_put a (grown cl p q) (claims st)"
proof -
  obtain old where old: "map2_get (claims st) a = Some old"
    using assms(2) by (auto simp: add_to_claim_def split: option.split_asm)
  have ok: "claim_ok minimum old" "map2_ok (claims st)" using assms(1) old by (auto simp: power_inv_def claims_ok_def)
  let ?new = "grown old p q"
  have r: "claims st' = map2_put a ?new (claims st)" "claim_ok minimum ?new"
    "total_pledge_collateral st' = total_pledge_collateral st" "cron_event_queue st' = cron_event_queue st"
    "first_cron_epoch st' = first_cron_epoch st" "miner_count st' = miner_count st"
    using assms(2) ok(1) unfolding add_to_claim_def
    by (auto simp: old Let_def set_claim_def claim_ok_def split: if_split_asm)
  show "\<exists>cl. map2_get (claims st) a = Some cl \<and>
      claims st' = map2_put a (grown cl p q) (claims st)"
    using old r(1) by blast
  have "totals_ok minimum st'"
  proof (rule totals_put [OF ok(2) _ old _ _ _ _ _ r(1)])
    show "totals_ok minimum st" using assms(1) by (simp add: power_inv_def)
  qed (use assms(2) ok(1) in \<open>auto simp: add_to_claim_def old Let_def set_claim_def claim_ok_def split: if_split_asm\<close>)
  moreover have "claims_ok minimum st'"
    using assms(1) r(2) old by (auto simp: power_inv_def claims_ok_def r(1,6) length_map2_put)
  moreover have "cron_queue_ok st'" using assms(1) by (simp add: power_inv_def cron_queue_ok_def r(4,5))
  ultimately show "power_inv minimum st'" using assms(1) by (simp add: power_inv_def r(3))
qed

lemma add_to_claim_empties:
  assumes "power_inv minimum st" and "0 < minimum" and "map2_get (claims st) a = Some cl"
  shows "\<exists>st'. add_to_claim minimum a (- raw_byte_power cl) (- quality_adj_power cl) st = (Inr (), st')"
proof -
  have ok: "claim_ok minimum cl" using assms(1,3) by (auto simp: power_inv_def claims_ok_def)
  have "map_at (counted minimum (\<lambda>_. 1)) (map2_get (claims st)) a \<le> miner_above_min_power_count st"
    using assms(1) m2.at_le_total [of "claims st" "counted minimum (\<lambda>_. 1)" a]
    by (simp add: power_inv_def totals_ok_def)
  moreover have "0 \<le> miner_above_min_power_count st"
    using assms(1) map_total_nonneg [of "map2_get (claims st)" "counted minimum (\<lambda>_. 1)"]
    by (simp add: power_inv_def totals_ok_def)
  ultimately show ?thesis
    using ok assms(2,3) by (auto simp: add_to_claim_def Let_def set_claim_def claim_ok_def)
qed

lemma drop_failed_miner_ok:
  assumes "power_inv minimum st" and "0 < minimum"
  shows "power_inv minimum (drop_failed_miner minimum a st)"
    and "claims (drop_failed_miner minimum a st) = map2_remove a (claims st)"
proof -
  have "power_inv minimum (drop_failed_miner minimum a st) \<and> claims (drop_failed_miner minimum a st) = map2_remove a (claims st)"
  proof (cases "map2_get (claims st) a")
    case None
    then have "drop_failed_miner minimum a st = st\<lparr>miner_count := miner_count st - 1\<rparr>"
      by (simp add: drop_failed_miner_def delete_claim_def)
    moreover have "map2_remove a (claims st) = claims st"
      using None by (simp add: map2_remove_def map2_get_def delete_notin_dom map_of_eq_None_iff)
    ultimately show ?thesis using assms(1) by (auto simp: power_inv_def totals_ok_def claims_ok_def cron_queue_ok_def)
  next
    case (Some cl)
    obtain st1 where add: "add_to_claim minimum a (- raw_byte_power cl) (- quality_adj_power cl) st = (Inr (), st1)"
      using add_to_claim_empties [OF assms Some] by blast
    note inv1 = add_to_claim_ok(1) [OF assms(1) add]
    have cls: "claims st1 = map2_put a (grown cl (- raw_byte_power cl) (- quality_adj_power cl)) (claims st)"
      using add_to_claim_ok(2) [OF assms(1) add] Some by simp
    have r: "drop_failed_miner minimum a st = st1\<lparr>claims := map2_remove a (claims st), miner_count := miner_count st1 - 1\<rparr>"
      using Some add cls by (simp add: drop_failed_miner_def delete_claim_def map2_delete_def map2_remove_put)
    have ok: "map2_ok (claims st)" "map2_ok (claims st1)" using assms(1) inv1 by (auto simp: power_inv_def claims_ok_def)
    have tot: "totals_ok minimum (st1\<lparr>claims := map2_remove a (claims st1)\<rparr>)"
      using inv1 assms(2) ok(2) cls by (simp add: power_inv_def totals_ok_def m2.total_del)
    have "length (claims st1) = length (claims st)" by (simp add: cls length_map2_put Some)
    moreover have "length (claims st) \<noteq> 0" using Some by (auto simp: map2_get_def)
    ultimately have "claims_ok minimum (drop_failed_miner minimum a st)"
      using inv1 assms(1) ok by (auto simp: r power_inv_def claims_ok_def length_map2_remove Some of_nat_diff split: if_splits)
    moreover have "totals_ok minimum (drop_failed_miner minimum a st)"
      using tot by (simp add: r cls map2_remove_put totals_ok_def)
    ultimately show ?thesis using inv1 by (simp add: r power_inv_def cron_queue_ok_def)
  qed
  then show "power_inv minimum (drop_failed_miner minimum a st)"
    and "claims (drop_failed_miner minimum a st) = map2_remove a (claims st)" by auto
qed

lemma fold_drop_ok:
  assumes "power_inv minimum st" and "0 < minimum"
  shows "power_inv minimum (fold (drop_failed_miner minimum) as st)
    \<and> (\<forall>a. map2_get (claims (fold (drop_failed_miner minimum) as st)) a = (if a \<in> set as then None else map2_get (claims st) a))"
  using assms(1)
proof (induction as arbitrary: st)
  case (Cons a as)
  from drop_failed_miner_ok [OF Cons.prems assms(2), of a] Cons.IH show ?case by auto
qed simp

lemma register_miner_ok:
  assumes "power_inv minimum st" and "0 < minimum" and "map2_get (claims st) a = None"
    and "register_miner minimum a p st = Inr (u, st')"
  shows "power_inv minimum st'"
proof -
  have "p \<noteq> InvalidPoSt i" for i using assms(4)
    by (auto simp: register_miner_def or_abort_def set_claim_def update_stats_for_new_miner_def)
  then have p: "consensus_miner_min_power minimum p = Some minimum" by (cases p) auto
  then have st': "st' = st\<lparr>claims := map2_put a \<lparr>window_post_proof_type = p, raw_byte_power = 0, quality_adj_power = 0\<rparr> (claims st),
      miner_count := miner_count st + 1\<rparr>"
    using assms(2,4) by (auto simp: register_miner_def or_abort_def set_claim_def update_stats_for_new_miner_def)
  have "totals_ok minimum st'"
    using assms(1-3) by (auto simp: st' power_inv_def claims_ok_def totals_ok_def m2.total_put)
  moreover have "claims_ok minimum st'"
    using assms(1-3) p by (auto simp: st' power_inv_def claims_ok_def length_map2_put claim_ok_def)
  ultimately show ?thesis using assms(1) by (simp add: st' power_inv_def cron_queue_ok_def)
qed

section \<open>The cron queue\<close>

lemma queue_append:
  assumes "cron_queue_ok st"
  shows "cron_queue_ok (append_cron_event e evt st)"
proof -
  have "mm_ok (mm_add e evt (cron_event_queue st))" using assms by (intro mm_ok_add) (simp add: cron_queue_ok_def)
  moreover have "(if e < first_cron_epoch st then e else first_cron_epoch st) \<le> k \<and> a \<noteq> []"
    if "map2_get (mm_add e evt (cron_event_queue st)) k = Some a" for k a
  proof -
    have "amt_set n x b \<noteq> []" for n x and b :: "cron_event amt" by (cases b) (auto split: if_split_asm)
    moreover have "k = e \<or> first_cron_epoch st \<le> k" and "k = e \<or> a \<noteq> []"
      using that assms by (auto simp: cron_queue_ok_def mm_add_def Let_def split: if_split_asm)
    ultimately show ?thesis using that by (auto simp: mm_add_def Let_def)
  qed
  ultimately show ?thesis by (auto simp: cron_queue_ok_def append_cron_event_def)
qed

text \<open>Taking the events of a range of epochs.\<close>

lemma take_epoch_none: "mm_values q e = [] \<Longrightarrow> take_epoch_events cls e (q, evs) = Inr (q, evs)"
  by (simp add: take_epoch_events_def load_cron_events_def)

lemma take_epoch_some:
  assumes "mm_values q e \<noteq> []"
  shows "take_epoch_events cls e (q, evs) =
    Inr (map2_remove e q, evs @ filter (\<lambda>evt. map2_contains_key cls (miner_addr evt)) (mm_values q e))"
  using assms
  by (auto simp: take_epoch_events_def load_cron_events_def Let_def mm_remove_all_def map2_delete_def mm_values_def
      split: option.splits)

lemma take_epochs:
  assumes "\<forall>k a. map2_get q k = Some a \<longrightarrow> a \<noteq> []" and "mm_ok q" and "distinct es"
  shows "\<exists>q'. r_fold (take_epoch_events cls) es (q, evs) =
      Inr (q', evs @ concat (map (\<lambda>e. filter (\<lambda>evt. map2_contains_key cls (miner_addr evt)) (mm_values q e)) es))
    \<and> mm_ok q' \<and> (\<forall>k. map2_get q' k = (if k \<in> set es then None else map2_get q k))"
  using assms
proof (induction es arbitrary: q evs)
  case (Cons e es)
  let ?f = "filter (\<lambda>evt. map2_contains_key cls (miner_addr evt))"
  show ?case
  proof (cases "mm_values q e = []")
    case True
    then have none: "map2_get q e = None" using Cons.prems(1) by (auto simp: mm_values_def split: option.splits)
    obtain q' where q': "r_fold (take_epoch_events cls) es (q, evs) = Inr (q', evs @ concat (map (\<lambda>e. ?f (mm_values q e)) es))"
      "mm_ok q'" "\<forall>k. map2_get q' k = (if k \<in> set es then None else map2_get q k)"
      using Cons.IH [of q evs] Cons.prems by auto
    with True none show ?thesis by (intro exI [of _ q']) (auto simp: take_epoch_none)
  next
    case False
    then have some: "map2_get q e \<noteq> None" by (auto simp: mm_values_def split: option.splits)
    have vals: "mm_values (map2_remove e q) k = mm_values q k" if "k \<in> set es" for k
      using that Cons.prems(3) by (auto simp: mm_values_remove)
    obtain q' where q': "r_fold (take_epoch_events cls) es (map2_remove e q, evs @ ?f (mm_values q e)) =
        Inr (q', (evs @ ?f (mm_values q e)) @ concat (map (\<lambda>k. ?f (mm_values (map2_remove e q) k)) es))"
      "mm_ok q'" "\<forall>k. map2_get q' k = (if k \<in> set es then None else map2_get (map2_remove e q) k)"
    proof -
      have "\<forall>k a. map2_get (map2_remove e q) k = Some a \<longrightarrow> a \<noteq> []" using Cons.prems(1) by (auto split: if_splits)
      from Cons.IH [OF this mm_ok_remove [OF Cons.prems(2)], of "evs @ ?f (mm_values q e)"] Cons.prems(3) that
      show thesis by auto
    qed
    have "map (\<lambda>k. ?f (mm_values (map2_remove e q) k)) es = map (\<lambda>k. ?f (mm_values q k)) es"
      using vals by simp
    with q' False some show ?thesis
      by (intro exI [of _ q']) (auto simp: take_epoch_some)
  qed
qed simp

lemma take_due_events_spec:
  assumes "cron_queue_ok st"
  shows "\<exists>q'. take_due_events e st =
      Inr (concat (map (\<lambda>k. filter (\<lambda>evt. map2_contains_key (claims st) (miner_addr evt)) (mm_values (cron_event_queue st) k))
             [first_cron_epoch st..e]),
           st\<lparr>first_cron_epoch := e + 1, cron_event_queue := q'\<rparr>)
    \<and> mm_ok q' \<and> (\<forall>k. map2_get q' k = (if k \<le> e then None else map2_get (cron_event_queue st) k))"
proof -
  obtain q' where q': "r_fold (take_epoch_events (claims st)) [first_cron_epoch st..e] (cron_event_queue st, []) =
      Inr (q', [] @ concat (map (\<lambda>e. filter (\<lambda>evt. map2_contains_key (claims st) (miner_addr evt)) (mm_values (cron_event_queue st) e))
        [first_cron_epoch st..e]))" "mm_ok q'"
    "\<forall>k. map2_get q' k = (if k \<in> set [first_cron_epoch st..e] then None else map2_get (cron_event_queue st) k)"
    using take_epochs [of "cron_event_queue st" "[first_cron_epoch st..e]" "claims st" "[]"] assms
    by (auto simp: cron_queue_ok_def)
  moreover have "map2_get q' k = (if k \<le> e then None else map2_get (cron_event_queue st) k)" for k
    using q'(3) assms by (cases "map2_get (cron_event_queue st) k") (auto simp: cron_queue_ok_def)
  ultimately show ?thesis by (auto simp: take_due_events_def)
qed

section \<open>Every call keeps the books\<close>

text \<open>What is assumed of the init actor: the actor it creates has no claim yet.\<close>

definition exec_fresh :: "power_prims \<Rightarrow> bool" where
  "exec_fresh P \<longleftrightarrow> (\<forall>v d a b. pw_exec_return P v d = Inr (a, b) \<longrightarrow> map2_get (claims (vm_state v)) a = None)"

abbreviation books :: "power_prims \<Rightarrow> power_vm \<Rightarrow> bool" where
  "books P v \<equiv> power_inv (pw_minimum P) (vm_state v)"

lemma create_miner_keeps:
  assumes "sender_ok (books P) send" and "books P v" and "0 < pw_minimum P" and "exec_fresh P"
    and "create_miner P send c p v = Inr (r, v')"
  shows "books P v'"
proof -
  from assms(5) obtain d v1 a b st2 where
    send: "send 0 (send_simple INIT_ACTOR_ADDR EXEC_METHOD (Some (ExecMiner (pw_miner_code P) p)) (value_received c)) v
      = (Response OK d, v1)" and ret: "pw_exec_return P v1 d = Inr (a, b)"
    and reg: "register_miner (pw_minimum P) a (cm_window_post_proof_type p) (vm_state v1) = Inr ((), st2)" "vm_state v' = st2"
    by (auto simp: create_miner_def res_inv)
  have "books P v1" using state_send_keeps [OF assms(1) send assms(2)] .
  moreover have "map2_get (claims (vm_state v1)) a = None" using assms(4) ret by (auto simp: exec_fresh_def)
  ultimately show ?thesis using register_miner_ok [OF _ assms(3) _ reg(1)] reg(2) by simp
qed

lemma run_callbacks_keep:
  assumes "sender_ok (\<lambda>v. J (vm_state v)) send" and "J (vm_state v)"
    and "fold (run_callback send a b) ies (v, fs) = (v', fs')"
  shows "J (vm_state v')"
  using assms(2,3)
proof (induction ies arbitrary: v fs)
  case (Cons x ies)
  obtain r v1 where send: "send (Suc (fst x)) (deferred_req a b (snd x)) v = (r, v1)" by fastforce
  from state_send_keeps [OF assms(1) send Cons.prems(1)] Cons.IH Cons.prems(2) send show ?case
    by (auto simp: run_callback_def split: sum.splits)
qed simp

lemma take_due_keeps:
  assumes "power_inv m st" and "take_due_events e st = Inr (evs, st')"
  shows "power_inv m st'"
proof -
  have "cron_queue_ok st" using assms(1) by (simp add: power_inv_def)
  from take_due_events_spec [OF this, of e] assms(2) obtain q' where
    "st' = st\<lparr>first_cron_epoch := e + 1, cron_event_queue := q'\<rparr>" "mm_ok q'"
    "\<forall>k. map2_get q' k = (if k \<le> e then None else map2_get (cron_event_queue st) k)" by auto
  with assms(1) show ?thesis
    by (auto simp: power_inv_def totals_ok_def claims_ok_def cron_queue_ok_def split: if_splits)
qed

lemma process_deferred_Inr:
  assumes "process_deferred_cron_events P send c rs v = Inr (evs, v')"
  obtains st1 v2 fs where "take_due_events (curr_epoch c) (vm_state v) = Inr (evs, st1)"
    "fold (run_callback send rs (this_epoch_qa_power_smoothed (vm_state v))) (enumerate 0 evs) (v\<lparr>vm_state := st1\<rparr>, []) = (v2, fs)"
    "v' = v2\<lparr>vm_state := fold (drop_failed_miner (pw_minimum P)) fs (vm_state v2)\<rparr>"
proof (cases "take_due_events (curr_epoch c) (vm_state v)")
  case (Inl e)
  with assms show ?thesis by (simp add: process_deferred_cron_events_def transaction_def)
next
  case (Inr x)
  obtain evs0 st1 where x: "x = (evs0, st1)" by (cases x)
  obtain v2 fs where f: "fold (run_callback send rs (this_epoch_qa_power_smoothed (vm_state v)))
      (enumerate 0 evs0) (v\<lparr>vm_state := st1\<rparr>, []) = (v2, fs)" by fastforce
  from assms have "evs0 = evs" "v' = v2\<lparr>vm_state := fold (drop_failed_miner (pw_minimum P)) fs (vm_state v2)\<rparr>"
    by (auto simp: process_deferred_cron_events_def transaction_def Inr x f Let_def)
  with that Inr x f show ?thesis by simp
qed

lemma process_deferred_keeps:
  assumes "sender_ok (books P) send" and "books P v" and "0 < pw_minimum P"
    and "process_deferred_cron_events P send c rs v = Inr (evs, v')"
  shows "books P v'"
proof -
  from assms(4) obtain st1 v2 fs where due: "take_due_events (curr_epoch c) (vm_state v) = Inr (evs, st1)"
    and cb: "fold (run_callback send rs (this_epoch_qa_power_smoothed (vm_state v))) (enumerate 0 evs) (v\<lparr>vm_state := st1\<rparr>, []) = (v2, fs)"
    and v': "v' = v2\<lparr>vm_state := fold (drop_failed_miner (pw_minimum P)) fs (vm_state v2)\<rparr>"
    by (rule process_deferred_Inr)
  have "books P v2" using run_callbacks_keep [OF assms(1) _ cb] take_due_keeps [OF assms(2) due] by simp
  then show ?thesis using fold_drop_ok [OF _ assms(3)] by (simp add: v')
qed

lemma close_epoch_keeps:
  assumes "power_inv m st" and "close_epoch st = Inr (x, st')"
  shows "power_inv m st'"
proof -
  obtain raw qa where "current_total_power st = (raw, qa)" by (cases "current_total_power st")
  with assms(2) obtain fe where "st' = st\<lparr>this_epoch_pledge_collateral := total_pledge_collateral st,
      this_epoch_quality_adj_power := qa, this_epoch_raw_byte_power := raw, this_epoch_qa_power_smoothed := fe\<rparr>"
    by (auto simp: close_epoch_def res_inv update_smoothed_estimate_def split: option.split_asm)
  with assms(1) show ?thesis by (simp add: power_inv_def totals_ok_def claims_ok_def cron_queue_ok_def)
qed

lemma on_epoch_tick_end_Inr:
  assumes "on_epoch_tick_end P send c v = Inr (u, v')"
  obtains d v1 rew evs v2 x st3 r where "caller c = CRON_ACTOR_ADDR"
    "send 0 (send_simple REWARD_ACTOR_ADDR THIS_EPOCH_REWARD_METHOD None 0) v = (Response OK d, v1)"
    "pw_reward_return P d = Inr rew"
    "process_deferred_cron_events P send c (fst rew) v1 = Inr (evs, v2)"
    "close_epoch (vm_state v2) = Inr (x, st3)"
    "send (Suc (length evs)) (send_simple REWARD_ACTOR_ADDR UPDATE_NETWORK_KPI (Some (NetworkKPI x)) 0)
       (v2\<lparr>vm_state := st3\<rparr>) = (Response OK r, v')"
  using assms by (auto simp: on_epoch_tick_end_def res_inv)

lemma on_epoch_tick_end_keeps:
  assumes "sender_ok (books P) send" and "books P v" and "0 < pw_minimum P"
    and "on_epoch_tick_end P send c v = Inr (u, v')"
  shows "books P v'"
proof -
  from assms(4) obtain d v1 rew evs v2 x st3 r where "caller c = CRON_ACTOR_ADDR"
    and s0: "send 0 (send_simple REWARD_ACTOR_ADDR THIS_EPOCH_REWARD_METHOD None 0) v = (Response OK d, v1)"
    and "pw_reward_return P d = Inr rew"
    and pd: "process_deferred_cron_events P send c (fst rew) v1 = Inr (evs, v2)"
    and ce: "close_epoch (vm_state v2) = Inr (x, st3)"
    and s1: "send (Suc (length evs)) (send_simple REWARD_ACTOR_ADDR UPDATE_NETWORK_KPI (Some (NetworkKPI x)) 0)
       (v2\<lparr>vm_state := st3\<rparr>) = (Response OK r, v')"
    by (rule on_epoch_tick_end_Inr)
  have "books P v1" by (rule state_send_keeps [OF assms(1) s0 assms(2)])
  then have "books P v2" using process_deferred_keeps [OF assms(1) _ assms(3) pd] by simp
  then have "power_inv (pw_minimum P) st3" using close_epoch_keeps ce by blast
  then show ?thesis using state_send_keeps [OF assms(1) s1] by simp
qed

lemma enroll_keeps: "books P v \<Longrightarrow> enroll_cron_event c e b v = Inr (u, v') \<Longrightarrow> books P v'"
  using queue_append [of "vm_state v" e]
  by (auto simp: enroll_cron_event_def res_inv Let_def power_inv_def totals_ok_def claims_ok_def append_cron_event_def split: if_split_asm)

lemma pledge_keeps: "books P v \<Longrightarrow> update_pledge_total c d v = Inr (u, v') \<Longrightarrow> books P v'"
  by (auto simp: update_pledge_total_def res_inv Let_def power_inv_def totals_ok_def claims_ok_def cron_queue_ok_def split: if_split_asm)

lemma claimed_keeps:
  assumes "books P v" and "update_claimed_power P c r q v = Inr (u, v')"
  shows "books P v'"
proof -
  from assms(2) obtain st' where "add_to_claim (pw_minimum P) (caller c) r q (vm_state v) = (Inr (), st')" "v' = v\<lparr>vm_state := st'\<rparr>"
    by (auto simp: update_claimed_power_def res_inv or_abort_def split: prod.splits)
  with add_to_claim_ok(1) [OF assms(1)] show ?thesis by simp
qed

lemma power_reentrant:
  assumes "0 < pw_minimum P" and "exec_fresh P"
  shows "reentrant_actor (power_dispatch P) (books P)"
proof
  fix send c m v r v'
  assume ok: "sender_ok (books P) send" and inv: "books P v" and d: "power_dispatch P send c m v = Inr (r, v')"
  show "books P v'"
  proof (cases m)
    case (CreateMiner p)
    with d show ?thesis using create_miner_keeps [OF ok inv assms] by (auto simp: power_dispatch_def res_inv)
  next
    case (CreateMinerExported p)
    with d show ?thesis using create_miner_keeps [OF ok inv assms] by (auto simp: power_dispatch_def res_inv)
  next
    case OnEpochTickEnd
    with d show ?thesis using on_epoch_tick_end_keeps [OF ok inv assms(1)] by (auto simp: power_dispatch_def res_inv)
  next
    case (UpdateClaimedPower a b)
    with d show ?thesis using claimed_keeps [OF inv] by (auto simp: power_dispatch_def res_inv)
  next
    case (EnrollCronEvent a b)
    with d show ?thesis using enroll_keeps [OF inv] by (auto simp: power_dispatch_def res_inv)
  next
    case (UpdatePledgeTotal a)
    with d show ?thesis using pledge_keeps [OF inv] by (auto simp: power_dispatch_def res_inv)
  qed (use d inv in \<open>auto simp: power_dispatch_def res_inv\<close>)
qed simp_all

lemma power_inv_new: "power_inv m power_state_new"
  by (simp add: power_inv_def totals_ok_def claims_ok_def cron_queue_ok_def power_state_new_def m2.total_empty)

section \<open>Properties\<close>

text \<open>
  A machine with two miners, each with a claim above the minimum, two events of the first one that
  are due, and an init actor that hands out the identifier after the largest one with a claim.
\<close>

definition fresh_id :: "(address, claim) map2 \<Rightarrow> nat" where
  "fresh_id cls = Suc (sum_list (map (\<lambda>x. case fst x of ID i \<Rightarrow> i | _ \<Rightarrow> 0) cls))"

definition ex_power_prims :: power_prims where
  "ex_power_prims =
     \<lparr>pw_exec_return = (\<lambda>v d. Inr (ID (fresh_id (claims (vm_state v))), Actor [])),
      pw_reward_return = (\<lambda>d. Inr (filter_estimate_new 0 0, 0)),
      pw_miner_code = 5, pw_minimum = 10\<rparr>"

definition ex_claim :: claim where
  "ex_claim = \<lparr>window_post_proof_type = StackedDRGWindow32GiBV1P1, raw_byte_power = 20, quality_adj_power = 30\<rparr>"

definition ex_event :: cron_event where
  "ex_event = \<lparr>miner_addr = ID 100, callback_payload = [1]\<rparr>"

definition ex_power_state :: power_state where
  "ex_power_state =
     power_state_new\<lparr>claims := [(ID 100, ex_claim), (ID 101, ex_claim)], miner_count := 2,
       miner_above_min_power_count := 2, total_raw_byte_power := 40, total_bytes_committed := 40,
       total_quality_adj_power := 60, total_qa_bytes_committed := 60,
       cron_event_queue := [(3, [(0, ex_event)]), (4, [(0, ex_event)])]\<rparr>"

definition ex_power_vm :: power_vm where
  "ex_power_vm = \<lparr>vm_state = ex_power_state, vm_balance = 0, vm_world = ex_world, vm_sends = []\<rparr>"

lemma ex_exec_fresh: "exec_fresh ex_power_prims"
proof -
  have le: "i \<le> sum_list (map (\<lambda>x. case fst x of ID i \<Rightarrow> i | _ \<Rightarrow> 0) cls)" if "(ID i, cl) \<in> set cls" for i cl cls
    using that by (induction cls) auto
  have "map2_get cls (ID (fresh_id cls)) = None" for cls
  proof (cases "map2_get cls (ID (fresh_id cls))")
    case (Some cl)
    from le [OF map2_get_mem [OF this]] show ?thesis by (simp add: fresh_id_def)
  qed
  then show ?thesis by (simp add: exec_fresh_def ex_power_prims_def)
qed

lemma map_total_two:
  "a \<noteq> b \<Longrightarrow> map_total f (map2_get [(a, x), (b, y)]) = f x + f y"
proof -
  assume ne: "a \<noteq> b"
  then have "map2_get [(a, x), (b, y)] = [a \<mapsto> x, b \<mapsto> y]" by (auto simp: map2_get_def fun_eq_iff)
  moreover have "dom [a \<mapsto> x, b \<mapsto> y] = {a, b}" by auto
  ultimately show ?thesis using ne by (simp add: map_total_def)
qed

lemma ex_power_inv: "power_inv (pw_minimum ex_power_prims) (vm_state ex_power_vm)"
  by (auto simp: power_inv_def totals_ok_def claims_ok_def cron_queue_ok_def mm_ok_def map2_ok_def map_total_two ex_power_vm_def
      ex_power_state_def power_state_new_def ex_power_prims_def ex_claim_def claim_ok_def map2_get_def split: if_split_asm)





end
