(* ===== verification/Batch.thy ===== *)
theory Batch
  imports Runtime "HOL-Library.Multiset"
begin

text \<open>
  \<open>runtime/src/util/batch_return.rs\<close>: the compact result of a batch of operations, the number of
  successes and the exit codes of the failures with their positions. Counts and indices are natural
  numbers: on the target of the actors \<open>usize\<close> has the 32 bits of \<open>u32\<close>.

  It is shown that a batch of exit codes is recovered from its compact form, and that \<open>stack\<close>, which
  works on the compact forms, overlays each batch on the successes of the batches before it.
\<close>

record fail_code =
  fc_idx :: nat
  fc_code :: exit_code

record batch_return =
  success_count :: nat
  fail_codes :: "fail_code list"

definition batch_size :: "batch_return \<Rightarrow> nat" where
  "batch_size b = success_count b + length (fail_codes b)"

definition all_ok :: "batch_return \<Rightarrow> bool" where
  "all_ok b = (fail_codes b = [])"

definition batch_empty :: batch_return where
  "batch_empty = \<lparr>success_count = 0, fail_codes = []\<rparr>"

definition batch_ok :: "nat \<Rightarrow> batch_return" where
  "batch_ok n = \<lparr>success_count = n, fail_codes = []\<rparr>"

text \<open>The generator holds what the batch has so far and the size it has to reach.\<close>

record batch_gen =
  gen_success_count :: nat
  gen_fail_codes :: "fail_code list"
  expect_count :: nat

definition batch_gen_new :: "nat \<Rightarrow> batch_gen" where
  "batch_gen_new n = \<lparr>gen_success_count = 0, gen_fail_codes = [], expect_count = n\<rparr>"

definition add_successes :: "nat \<Rightarrow> batch_gen \<Rightarrow> batch_gen" where
  "add_successes n g = g\<lparr>gen_success_count := gen_success_count g + n\<rparr>"

definition add_success :: "batch_gen \<Rightarrow> batch_gen" where
  "add_success g = add_successes 1 g"

definition add_fail :: "exit_code \<Rightarrow> batch_gen \<Rightarrow> batch_gen" where
  "add_fail code g =
     g\<lparr>gen_fail_codes := gen_fail_codes g @
         [\<lparr>fc_idx = gen_success_count g + length (gen_fail_codes g), fc_code = code\<rparr>]\<rparr>"

definition batch_add :: "exit_code \<Rightarrow> batch_gen \<Rightarrow> batch_gen" where
  "batch_add code g = (if code = OK then add_success g else add_fail code g)"

definition generate :: "batch_gen \<Rightarrow> batch_return result" where
  "generate g =
     ensure (expect_count g = gen_success_count g + length (gen_fail_codes g)) Panic
       (Inr \<lparr>success_count = gen_success_count g, fail_codes = gen_fail_codes g\<rparr>)"

definition batch_of :: "exit_code list \<Rightarrow> batch_return result" where
  "batch_of codes = generate (fold batch_add codes (batch_gen_new (length codes)))"

text \<open>\<open>codes\<close> pads with successes up to each failure, then up to the size.\<close>

definition pad_ok :: "nat \<Rightarrow> exit_code list \<Rightarrow> exit_code list" where
  "pad_ok n ret = ret @ replicate (n - length ret) OK"

definition codes :: "batch_return \<Rightarrow> exit_code list" where
  "codes b = pad_ok (batch_size b)
     (fold (\<lambda>f ret. pad_ok (fc_idx f) ret @ [fc_code f]) (fail_codes b) [])"

text \<open>\<open>successes\<close> walks over the items with a cursor into the failures.\<close>

fun success_items :: "nat \<Rightarrow> fail_code list \<Rightarrow> 'a list \<Rightarrow> 'a list" where
  "success_items i fs [] = []"
| "success_items i [] (x # xs) = x # success_items (Suc i) [] xs"
| "success_items i (f # fs) (x # xs) =
     (if i = fc_idx f then success_items (Suc i) fs xs else x # success_items (Suc i) (f # fs) xs)"

definition successes :: "batch_return \<Rightarrow> 'a list \<Rightarrow> 'a list result" where
  "successes b items = ensure (length items = batch_size b) Panic (Inr (success_items 0 (fail_codes b) items))"

text \<open>The failures of one more batch, moved behind the failures of the base that precede them.\<close>

fun skip_base :: "nat \<Rightarrow> fail_code list \<Rightarrow> nat \<Rightarrow> fail_code list \<times> nat" where
  "skip_base j [] off = ([], off)"
| "skip_base j (f # bf) off = (if fc_idx f \<le> j + off then skip_base j bf (off + 1) else (f # bf, off))"

fun shift_fails :: "fail_code list \<Rightarrow> fail_code list \<Rightarrow> nat \<Rightarrow> fail_code list" where
  "shift_fails [] bf off = []"
| "shift_fails (f # fs) bf off =
     (case skip_base (fc_idx f) bf off of
        (bf', off') \<Rightarrow> \<lparr>fc_idx = fc_idx f + off', fc_code = fc_code f\<rparr> # shift_fails fs bf' off')"

definition stack_one :: "batch_return \<Rightarrow> batch_return \<Rightarrow> batch_return result" where
  "stack_one nxt base =
     ensure (success_count base = batch_size nxt) Panic
       (Inr \<lparr>success_count = success_count nxt,
             fail_codes = sort_key fc_idx
               (fail_codes base @ shift_fails (fail_codes nxt) (fail_codes base) 0)\<rparr>)"

fun stack :: "batch_return list \<Rightarrow> batch_return result" where
  "stack [] = Inr batch_empty"
| "stack (b # bs) =
     r_bind (r_fold stack_one bs b) (\<lambda>base.
       ensure (batch_size base = batch_size b \<and> success_count base = success_count (last (b # bs))) Panic
         (Inr base))"

section \<open>The compact form of a list of exit codes\<close>

fun fails_from :: "nat \<Rightarrow> exit_code list \<Rightarrow> fail_code list" where
  "fails_from n [] = []"
| "fails_from n (c # cs) =
     (if c = OK then fails_from (Suc n) cs else \<lparr>fc_idx = n, fc_code = c\<rparr> # fails_from (Suc n) cs)"

definition oks :: "exit_code list \<Rightarrow> nat" where
  "oks cs = length (filter (\<lambda>c. c = OK) cs)"

definition compact :: "exit_code list \<Rightarrow> batch_return" where
  "compact cs = \<lparr>success_count = oks cs, fail_codes = fails_from 0 cs\<rparr>"

lemma oks_fails: "oks cs + length (fails_from n cs) = length cs"
  by (induction cs arbitrary: n) (auto simp: oks_def)

lemma oks_simps [simp]: "oks [] = 0" "oks (c # cs) = (if c = OK then Suc (oks cs) else oks cs)"
  by (simp_all add: oks_def)

lemma batch_size_compact [simp]: "batch_size (compact cs) = length cs"
  by (simp add: batch_size_def compact_def oks_fails)

lemma fold_batch_add:
  assumes "n = gen_success_count g + length (gen_fail_codes g)"
  shows "fold batch_add cs g =
    g\<lparr>gen_success_count := gen_success_count g + oks cs, gen_fail_codes := gen_fail_codes g @ fails_from n cs\<rparr>"
  using assms
proof (induction cs arbitrary: g n)
  case (Cons c cs)
  have "Suc n = gen_success_count (batch_add c g) + length (gen_fail_codes (batch_add c g))"
    using Cons.prems by (simp add: batch_add_def add_success_def add_successes_def add_fail_def)
  from Cons.IH [OF this] Cons.prems show ?case
    by (simp add: batch_add_def add_success_def add_successes_def add_fail_def)
qed simp

lemma batch_of_compact: "batch_of cs = Inr (compact cs)"
  using fold_batch_add [of 0 "batch_gen_new (length cs)" cs] oks_fails [of cs 0]
  by (simp add: batch_of_def generate_def batch_gen_new_def compact_def)

lemma codes_fold:
  "length ret \<le> n \<Longrightarrow>
   pad_ok (n + length cs) (fold (\<lambda>f ret. pad_ok (fc_idx f) ret @ [fc_code f]) (fails_from n cs) ret)
   = pad_ok n ret @ cs"
proof (induction cs arbitrary: n ret)
  case (Cons c cs)
  show ?case
  proof (cases "c = OK")
    case True
    have "pad_ok (Suc n) ret = pad_ok n ret @ [OK]"
      using Cons.prems by (simp add: pad_ok_def Suc_diff_le replicate_append_same)
    then show ?thesis using True Cons.IH [of ret "Suc n"] Cons.prems by simp
  next
    case False
    have "length (pad_ok n ret) = n" using Cons.prems by (simp add: pad_ok_def)
    then show ?thesis
      using False Cons.IH [of "pad_ok n ret @ [c]" "Suc n"] by (simp add: pad_ok_def)
  qed
qed (simp add: pad_ok_def)

lemma codes_compact: "codes (compact cs) = cs"
  using codes_fold [of "[]" 0 cs] by (simp add: codes_def) (simp add: compact_def pad_ok_def)

lemma success_items_fails: 
  "length xs = length cs \<Longrightarrow> success_items n (fails_from n cs) xs = map fst (filter (\<lambda>(x, c). c = OK) (zip xs cs))"
proof (induction cs arbitrary: n xs)
  case (Cons c cs)
  have later: "\<forall>f \<in> set (fails_from m cs). m \<le> fc_idx f" for m cs
    by (induction cs arbitrary: m) (auto dest: Suc_leD)
  from Cons.prems obtain x ys where xs: "xs = x # ys" "length ys = length cs" by (cases xs) auto
  show ?case
  proof (cases "c = OK")
    case True
    have "success_items n (fails_from (Suc n) cs) (x # ys) = x # success_items (Suc n) (fails_from (Suc n) cs) ys"
      using later [of "Suc n" cs] by (cases "fails_from (Suc n) cs") auto
    then show ?thesis using True Cons.IH [OF xs(2)] xs(1) by simp
  qed (use Cons.IH [OF xs(2)] xs(1) in simp)
qed simp

section \<open>Stacking\<close>

text \<open>What stacking means on the lists: the successes of the base take the codes of the next batch.\<close>

fun overlay :: "exit_code list \<Rightarrow> exit_code list \<Rightarrow> exit_code list" where
  "overlay [] ds = []"
| "overlay (c # cs) ds =
     (if c = OK then (case ds of [] \<Rightarrow> OK # cs | d # ds' \<Rightarrow> d # overlay cs ds') else c # overlay cs ds)"

fun new_fails :: "nat \<Rightarrow> exit_code list \<Rightarrow> exit_code list \<Rightarrow> fail_code list" where
  "new_fails n [] ds = []"
| "new_fails n (c # cs) ds =
     (if c = OK then
        (case ds of [] \<Rightarrow> []
         | d # ds' \<Rightarrow> (if d = OK then [] else [\<lparr>fc_idx = n, fc_code = d\<rparr>]) @ new_fails (Suc n) cs ds')
      else new_fails (Suc n) cs ds)"

lemma fails_from_ge: "f \<in> set (fails_from n cs) \<Longrightarrow> n \<le> fc_idx f"
  by (induction cs arbitrary: n) (auto split: if_splits dest: Suc_leD)

lemma new_fails_ge: "f \<in> set (new_fails n cs ds) \<Longrightarrow> n \<le> fc_idx f"
  by (induction n cs ds rule: new_fails.induct) (auto split: if_splits list.splits dest: Suc_leD)

lemma new_fails_none: "fails_from m ds = [] \<Longrightarrow> new_fails n cs ds = []"
  by (induction n cs ds arbitrary: m rule: new_fails.induct) (auto split: if_splits list.splits)

lemma skip_base_none: "\<forall>f \<in> set bf. j + off < fc_idx f \<Longrightarrow> skip_base j bf off = (bf, off)"
  by (cases bf) auto

lemma shift_fails_new:
  "length ds = oks cs \<Longrightarrow> shift_fails (fails_from m ds) (fails_from (m + off) cs) off = new_fails (m + off) cs ds"
proof (induction cs arbitrary: m off ds)
  case Nil
  then show ?case by simp
next
  case (Cons c cs)
  show ?case
  proof (cases "c = OK")
    case False
    show ?thesis
    proof (cases "fails_from m ds")
      case Nil
      then show ?thesis using new_fails_none [OF Nil] by simp
    next
      case (Cons f fs)
      then have "m \<le> fc_idx f" using fails_from_ge [of f m ds] by simp
      then have "shift_fails (fails_from m ds) (fails_from (m + off) (c # cs)) off
          = shift_fails (fails_from m ds) (fails_from (m + (off + 1)) cs) (off + 1)"
        using False Cons by simp
      then show ?thesis using Cons.IH [of ds m "off + 1"] Cons.prems False by simp
    qed
  next
    case True
    with Cons.prems obtain d ds' where ds: "ds = d # ds'" "length ds' = oks cs" by (cases ds) auto
    have ih: "shift_fails (fails_from (Suc m) ds') (fails_from (Suc m + off) cs) off = new_fails (Suc m + off) cs ds'"
      using Cons.IH [OF ds(2), of "Suc m" off] .
    have "skip_base m (fails_from (Suc (m + off)) cs) off = (fails_from (Suc (m + off)) cs, off)"
      by (rule skip_base_none) (auto dest: fails_from_ge)
    then show ?thesis using ih True ds(1) by simp
  qed
qed

lemma fails_from_sorted: "sorted_wrt (<) (map fc_idx (fails_from n cs))"
  by (induction cs arbitrary: n) (auto dest: fails_from_ge)

lemma overlay_set:
  "length ds = oks cs \<Longrightarrow>
   set (fails_from n (overlay cs ds)) = set (fails_from n cs) \<union> set (new_fails n cs ds)
   \<and> fc_idx ` set (fails_from n cs) \<inter> fc_idx ` set (new_fails n cs ds) = {}
   \<and> distinct (map fc_idx (new_fails n cs ds))"
proof (induction cs arbitrary: n ds)
  case (Cons c cs)
  show ?case
  proof (cases "c = OK")
    case True
    with Cons.prems obtain d ds' where ds: "ds = d # ds'" "length ds' = oks cs" by (cases ds) auto
    from Cons.IH [OF ds(2), of "Suc n"] True ds(1) show ?thesis
      by (auto dest!: fails_from_ge new_fails_ge)
  next
    case False
    then have "length ds = oks cs" using Cons.prems by simp
    from Cons.IH [OF this, of "Suc n"] False show ?thesis
      by (auto dest!: fails_from_ge new_fails_ge)
  qed
qed simp

lemma fails_from_overlay:
  assumes "length ds = oks cs"
  shows "sort_key fc_idx (fails_from 0 cs @ new_fails 0 cs ds) = fails_from 0 (overlay cs ds)"
proof (rule map_sorted_distinct_set_unique [where f = fc_idx])
  let ?l = "fails_from 0 cs @ new_fails 0 cs ds"
  note o = overlay_set [OF assms, of 0]
  have d: "distinct (map fc_idx ?l)"
    using o fails_from_sorted [of 0 cs] by (auto simp: strict_sorted_iff)
  show "set (sort_key fc_idx ?l) = set (fails_from 0 (overlay cs ds))" using o by simp
  then have "set (sort_key fc_idx ?l) \<union> set (fails_from 0 (overlay cs ds)) = set ?l" by simp
  then show "inj_on fc_idx (set (sort_key fc_idx ?l) \<union> set (fails_from 0 (overlay cs ds)))"
    using d by (simp only: distinct_map)
  have "mset (map fc_idx (sort_key fc_idx ?l)) = mset (map fc_idx ?l)" by (simp only: mset_map mset_sort)
  then show "distinct (map fc_idx (sort_key fc_idx ?l))" using d mset_eq_imp_distinct_iff by blast
  show "distinct (map fc_idx (fails_from 0 (overlay cs ds)))" "sorted (map fc_idx (fails_from 0 (overlay cs ds)))"
    using fails_from_sorted [of 0 "overlay cs ds"] by (auto simp: strict_sorted_iff)
qed simp

lemma oks_overlay: "length ds = oks cs \<Longrightarrow> oks (overlay cs ds) = oks ds \<and> length (overlay cs ds) = length cs"
  by (induction cs ds rule: overlay.induct) (auto split: list.splits)

lemma stack_one_compact:
  assumes "length ds = oks cs"
  shows "stack_one (compact ds) (compact cs) = Inr (compact (overlay cs ds))"
  using shift_fails_new [OF assms, of 0 0] fails_from_overlay [OF assms] oks_overlay [OF assms] assms
  by (simp add: stack_one_def) (simp add: compact_def)

text \<open>Batches that can be stacked: each as long as the number of successes of the one before.\<close>

fun stackable :: "exit_code list \<Rightarrow> exit_code list list \<Rightarrow> bool" where
  "stackable cs [] = True"
| "stackable cs (ds # bs) = (length ds = oks cs \<and> stackable ds bs)"

lemma r_fold_stack:
  "stackable ds bs \<Longrightarrow> oks cs = oks ds \<Longrightarrow>
   r_fold stack_one (map compact bs) (compact cs) = Inr (compact (fold (\<lambda>d c. overlay c d) bs cs))
   \<and> oks (fold (\<lambda>d c. overlay c d) bs cs) = oks (last (ds # bs))
   \<and> length (fold (\<lambda>d c. overlay c d) bs cs) = length cs"
proof (induction bs arbitrary: cs ds)
  case (Cons b bs)
  then have b: "length b = oks cs" "stackable b bs" by auto
  from Cons.IH [OF b(2)] oks_overlay [OF b(1)] show ?case
    by (auto simp: stack_one_compact [OF b(1)])
qed simp

section \<open>Properties\<close>

text \<open>
  C37: a batch of exit codes survives its compact form: generating it succeeds, reading the codes back
  gives the batch, its size is the length of the batch, and \<open>successes\<close> selects exactly the items whose code
  is a success.
\<close>

theorem batch_return_roundtrip:
  assumes "length items = length cs"
  shows "\<exists>b. batch_of cs = Inr b \<and> codes b = cs \<and> batch_size b = length cs
    \<and> (all_ok b \<longleftrightarrow> set cs \<subseteq> {OK})
    \<and> successes b items = Inr (map fst (filter (\<lambda>(x, c). c = OK) (zip items cs)))"
proof -
  have "fails_from n cs = [] \<longleftrightarrow> set cs \<subseteq> {OK}" for n by (induction cs arbitrary: n) auto
  then have "all_ok (compact cs) \<longleftrightarrow> set cs \<subseteq> {OK}" by (simp add: all_ok_def compact_def)
  moreover have "successes (compact cs) items = Inr (map fst (filter (\<lambda>(x, c). c = OK) (zip items cs)))"
    using assms success_items_fails [OF assms, of 0] by (simp add: successes_def) (simp add: compact_def)
  ultimately show ?thesis by (simp add: batch_of_compact codes_compact)
qed

theorem batch_return_roundtrip_witness:
  "\<exists>b. batch_of [OK, USR_NOT_FOUND, OK] = Inr b \<and> codes b = [OK, USR_NOT_FOUND, OK]
     \<and> successes b [1, 2, 3 :: nat] = Inr [1, 3]"
  using batch_return_roundtrip [of "[1, 2, 3 :: nat]" "[OK, USR_NOT_FOUND, OK]"] by auto

text \<open>
  C18: stacking compact batches is overlaying the lists they stand for. When each batch is as long as the
  number of successes of the batch before it, \<open>stack\<close> does not panic and returns the compact form of the
  first batch with its successes replaced, batch by batch, by the codes of the next.
\<close>

theorem stack_is_overlay:
  assumes "stackable cs bs"
  shows "\<exists>b xs. batch_of cs = Inr b \<and> map Inr xs = map batch_of bs
    \<and> (\<exists>s. stack (b # xs) = Inr s \<and> batch_of (fold (\<lambda>d c. overlay c d) bs cs) = Inr s)"
proof -
  have "success_count (last (compact cs # map compact bs)) = oks (last (cs # bs))"
    by (simp add: last_map compact_def split: if_splits)
  with r_fold_stack [OF assms refl] have "stack (compact cs # map compact bs) = Inr (compact (fold (\<lambda>d c. overlay c d) bs cs))"
    by simp (simp add: compact_def)
  then show ?thesis
    by (intro exI [of _ "compact cs"] exI [of _ "map compact bs"]) (simp add: batch_of_compact)
qed

theorem stack_is_overlay_witness:
  "\<exists>b x y s. batch_of [OK, USR_NOT_FOUND, OK] = Inr b \<and> batch_of [USR_FORBIDDEN, OK] = Inr x \<and> batch_of [OK] = Inr y
     \<and> stack [b, x, y] = Inr s \<and> codes s = [USR_FORBIDDEN, USR_NOT_FOUND, OK]"
proof -
  obtain b x y s where "batch_of [OK, USR_NOT_FOUND, OK] = Inr b" "[Inr x, Inr y] = map batch_of [[USR_FORBIDDEN, OK], [OK]]"
    "stack [b, x, y] = Inr s" "batch_of [USR_FORBIDDEN, USR_NOT_FOUND, OK] = Inr s"
    using stack_is_overlay [of "[OK, USR_NOT_FOUND, OK]" "[[USR_FORBIDDEN, OK], [OK]]"] by auto
  then show ?thesis using codes_compact by (auto simp: batch_of_compact)
qed

end
