(* ===== verification/MarketState.thy ===== *)
theory MarketState
  imports Collections Batch
begin

text \<open>
  The state of the storage market actor: \<open>actors/market/src/balance_table.rs\<close>, \<open>deal.rs\<close>, \<open>policy.rs\<close>
  and \<open>state.rs\<close>.

  The market holds two balance tables, the escrow of every party and the part of it that is locked by
  deals, the proposals and the states of the deals, and indices into them. A method that fails on the
  way leaves what it changed so far, because \<open>settle_deal_payments\<close> goes on with the next deal after a
  failure; such methods return their result together with the state.

  The ledger invariant \<open>books\<close> says that what a party has locked is exactly what the live deals it is a
  party of still hold of it, and that the three totals of the state are the sums over the live deals.
  It is stated over an assignment of a lock (client and provider collateral and the fee not yet paid) to
  each deal, and every operation on balances is shown to succeed and to change the lock of one deal.
\<close>

definition EPOCH_UNDEFINED :: int where "EPOCH_UNDEFINED = - 1"

section \<open>Balance tables\<close>

type_synonym balance_table = "(address, int) map2"

definition bt_get :: "balance_table \<Rightarrow> address \<Rightarrow> int" where
  "bt_get t a = (case map2_get t a of Some v \<Rightarrow> v | None \<Rightarrow> 0)"

definition bt_add :: "address \<Rightarrow> int \<Rightarrow> balance_table \<Rightarrow> balance_table result" where
  "bt_add a x t =
     (let prev = bt_get t a; total = prev + x
      in if total < 0 then Inl illegal_argument
         else if total = 0 \<and> prev \<noteq> 0 then Inr (map2_remove a t)
         else Inr (map2_put a total t))"

definition subtract_with_minimum :: "address \<Rightarrow> int \<Rightarrow> int \<Rightarrow> balance_table \<Rightarrow> (int \<times> balance_table) result" where
  "subtract_with_minimum a req floor t =
     (let available = max 0 (bt_get t a - floor); sub = min available req
      in if 0 < sub then r_bind (bt_add a (- sub) t) (\<lambda>t'. Inr (sub, t')) else Inr (sub, t))"

definition must_subtract :: "address \<Rightarrow> int \<Rightarrow> balance_table \<Rightarrow> balance_table result" where
  "must_subtract a req t = (if bt_get t a < req then Inl illegal_argument else bt_add a (- req) t)"

definition bt_total :: "balance_table \<Rightarrow> int" where
  "bt_total t = sum_list (map snd t)"

section \<open>Deals and their bounds\<close>

datatype deal_label = StringLabel bytes | BytesLabel bytes

fun label_len :: "deal_label \<Rightarrow> nat" where
  "label_len (StringLabel s) = length s"
| "label_len (BytesLabel b) = length b"

type_synonym deal_id = nat
type_synonym sector_num = nat
type_synonym alloc_id = nat

record deal_proposal =
  piece_cid :: cid
  piece_size :: int
  verified_deal :: bool
  client :: address
  provider :: address
  label :: deal_label
  start_epoch :: int
  end_epoch :: int
  storage_price_per_epoch :: int
  provider_collateral :: int
  client_collateral :: int

definition duration :: "deal_proposal \<Rightarrow> int" where
  "duration p = end_epoch p - start_epoch p"

text \<open>The cast of the duration to an unsigned integer wraps.\<close>

definition total_storage_fee :: "deal_proposal \<Rightarrow> int" where
  "total_storage_fee p = storage_price_per_epoch p * (duration p mod 2 ^ 64)"

definition client_balance_requirement :: "deal_proposal \<Rightarrow> int" where
  "client_balance_requirement p = client_collateral p + total_storage_fee p"

record client_deal_proposal =
  cd_proposal :: deal_proposal
  cd_signature :: bytes

record deal_state =
  sector_number :: sector_num
  sector_start_epoch :: int
  last_updated_epoch :: int
  slash_epoch :: int

record cid_parts =
  cid_version :: nat
  cid_codec :: nat
  cid_hash_code :: nat
  cid_hash_size :: nat

text \<open>The codec and the hash function of piece commitments are constants of the library of chain types.\<close>

record piece_cid_constants =
  FIL_COMMITMENT_UNSEALED :: nat
  SHA2_256_TRUNC254_PADDED :: nat

definition is_piece_cid :: "piece_cid_constants \<Rightarrow> cid_parts \<Rightarrow> bool" where
  "is_piece_cid k c \<longleftrightarrow> cid_version c = 1 \<and> cid_codec c = FIL_COMMITMENT_UNSEALED k
     \<and> cid_hash_code c = SHA2_256_TRUNC254_PADDED k \<and> cid_hash_size c = 32"

definition DEAL_MAX_LABEL_SIZE :: nat where "DEAL_MAX_LABEL_SIZE = 256"
definition TOTAL_FILECOIN :: int where "TOTAL_FILECOIN = 2000000000 * 10 ^ 18"

record market_policy =
  deal_updates_interval :: int
  prov_collateral_percent_supply_num :: int
  prov_collateral_percent_supply_denom :: int
  market_default_allocation_term_buffer :: int
  maximum_verified_allocation_term :: int
  maximum_verified_allocation_expiration :: int

definition deal_duration_bounds :: "int \<Rightarrow> int \<times> int" where
  "deal_duration_bounds sz = (180 * EPOCHS_IN_DAY, 1278 * EPOCHS_IN_DAY)"

definition deal_price_per_epoch_bounds :: "int \<Rightarrow> int \<Rightarrow> int \<times> int" where
  "deal_price_per_epoch_bounds sz dur = (0, TOTAL_FILECOIN)"

text \<open>The division panics when the denominator is zero.\<close>

definition deal_provider_collateral_bounds ::
  "market_policy \<Rightarrow> int \<Rightarrow> int \<Rightarrow> int \<Rightarrow> int \<Rightarrow> (int \<times> int) result" where
  "deal_provider_collateral_bounds pol sz network_raw_power baseline_power network_circulating_supply =
     (let lock_target_num = network_circulating_supply * prov_collateral_percent_supply_num pol;
          power_share_num = sz;
          power_share_denom = max (max network_raw_power baseline_power) power_share_num;
          num = power_share_num * lock_target_num;
          denom = power_share_denom * prov_collateral_percent_supply_denom pol
      in ensure (denom \<noteq> 0) Panic (Inr (num div denom, TOTAL_FILECOIN)))"

definition deal_client_collateral_bounds :: "int \<Rightarrow> int \<Rightarrow> int \<times> int" where
  "deal_client_collateral_bounds sz dur = (0, TOTAL_FILECOIN)"

definition collateral_penalty_for_deal_activation_missed :: "int \<Rightarrow> int" where
  "collateral_penalty_for_deal_activation_missed pcol = pcol"

section \<open>The state\<close>

record market_state =
  proposals :: "deal_proposal amt"
  states :: "deal_state amt"
  pending_proposals :: "cid hset"
  escrow_table :: balance_table
  locked_table :: balance_table
  next_id :: deal_id
  deal_ops_by_epoch :: "(int, deal_id) set_multimap"
  last_cron :: int
  total_client_locked_collateral :: int
  total_provider_locked_collateral :: int
  total_client_storage_fee :: int
  pending_deal_allocation_ids :: "(deal_id, alloc_id) map2"
  provider_sectors :: "(actor_id, (sector_num, deal_id list) map2) map2"

definition market_state_new :: market_state where
  "market_state_new =
     \<lparr>proposals = amt_empty, states = amt_empty, pending_proposals = map2_empty, escrow_table = map2_empty,
      locked_table = map2_empty, next_id = 0, deal_ops_by_epoch = map2_empty, last_cron = EPOCH_UNDEFINED,
      total_client_locked_collateral = 0, total_provider_locked_collateral = 0, total_client_storage_fee = 0,
      pending_deal_allocation_ids = map2_empty, provider_sectors = map2_empty\<rparr>"

definition EX_DEAL_EXPIRED :: exit_code where "EX_DEAL_EXPIRED = USR_OTHER 32"
definition EX_DEAL_NOT_ACTIVATED :: exit_code where "EX_DEAL_NOT_ACTIVATED = USR_OTHER 33"

subsection \<open>Proposals, states, pending deals\<close>

definition find_deal_state :: "market_state \<Rightarrow> deal_id \<Rightarrow> deal_state option" where
  "find_deal_state st i = amt_get (states st) i"

definition put_deal_states :: "(deal_id \<times> deal_state) list \<Rightarrow> market_state \<Rightarrow> market_state" where
  "put_deal_states new st = st\<lparr>states := fold (\<lambda>(i, s). amt_set i s) new (states st)\<rparr>"

definition remove_deal_state :: "deal_id \<Rightarrow> market_state \<Rightarrow> deal_state option \<times> market_state" where
  "remove_deal_state i st = (amt_get (states st) i, st\<lparr>states := amt_delete i (states st)\<rparr>)"

definition find_proposal :: "market_state \<Rightarrow> deal_id \<Rightarrow> deal_proposal option" where
  "find_proposal st i = amt_get (proposals st) i"

definition get_proposal :: "deal_proposal amt \<Rightarrow> deal_id \<Rightarrow> deal_id \<Rightarrow> deal_proposal result" where
  "get_proposal props i next =
     (case amt_get props i of
        Some p \<Rightarrow> Inr p
      | None \<Rightarrow> if i < next then Inl (ActorError EX_DEAL_EXPIRED None) else Inl not_found)"

definition remove_proposal :: "deal_id \<Rightarrow> market_state \<Rightarrow> deal_proposal option \<times> market_state" where
  "remove_proposal i st = (amt_get (proposals st) i, st\<lparr>proposals := amt_delete i (proposals st)\<rparr>)"

definition put_deal_proposals :: "(deal_id \<times> deal_proposal) list \<Rightarrow> market_state \<Rightarrow> market_state" where
  "put_deal_proposals new st = st\<lparr>proposals := fold (\<lambda>(i, p). amt_set i p) new (proposals st)\<rparr>"

definition put_pending_deal_allocation_ids :: "(deal_id \<times> alloc_id) list \<Rightarrow> market_state \<Rightarrow> market_state" where
  "put_pending_deal_allocation_ids new st =
     st\<lparr>pending_deal_allocation_ids := fold (\<lambda>(i, a). map2_put i a) new (pending_deal_allocation_ids st)\<rparr>"

definition remove_pending_deal_allocation_id :: "deal_id \<Rightarrow> market_state \<Rightarrow> alloc_id option \<times> market_state" where
  "remove_pending_deal_allocation_id i st =
     (case map2_delete i (pending_deal_allocation_ids st) of
        (r, m) \<Rightarrow> (r, st\<lparr>pending_deal_allocation_ids := m\<rparr>))"

definition put_deals_by_epoch :: "(int \<times> deal_id) list \<Rightarrow> market_state \<Rightarrow> market_state" where
  "put_deals_by_epoch new st = st\<lparr>deal_ops_by_epoch := fold (\<lambda>(e, i). smm_put e i) new (deal_ops_by_epoch st)\<rparr>"

definition put_batch_deals_by_epoch :: "(int \<times> deal_id list) list \<Rightarrow> market_state \<Rightarrow> market_state" where
  "put_batch_deals_by_epoch new st =
     st\<lparr>deal_ops_by_epoch := fold (\<lambda>(e, is). smm_put_many e is) new (deal_ops_by_epoch st)\<rparr>"

definition get_deals_for_epoch :: "int \<Rightarrow> market_state \<Rightarrow> deal_id list" where
  "get_deals_for_epoch e st = smm_values (deal_ops_by_epoch st) e"

definition remove_deals_by_epoch :: "int list \<Rightarrow> market_state \<Rightarrow> market_state" where
  "remove_deals_by_epoch es st = st\<lparr>deal_ops_by_epoch := fold smm_remove_all es (deal_ops_by_epoch st)\<rparr>"

definition has_pending_deal :: "cid \<Rightarrow> market_state \<Rightarrow> bool" where
  "has_pending_deal c st = hset_has (pending_proposals st) c"

definition put_pending_deals :: "cid list \<Rightarrow> market_state \<Rightarrow> market_state" where
  "put_pending_deals cs st = st\<lparr>pending_proposals := fold hset_put cs (pending_proposals st)\<rparr>"

definition remove_pending_deal :: "cid \<Rightarrow> market_state \<Rightarrow> unit option \<times> market_state" where
  "remove_pending_deal c st =
     (case hset_delete c (pending_proposals st) of (r, s) \<Rightarrow> (r, st\<lparr>pending_proposals := s\<rparr>))"

subsection \<open>Deals of a sector\<close>

type_synonym sector_deals_map = "(sector_num, deal_id list) map2"

definition load_provider_sector_deals ::
  "(actor_id, sector_deals_map) map2 \<Rightarrow> actor_id \<Rightarrow> sector_deals_map" where
  "load_provider_sector_deals ps pr = (case map2_get ps pr of Some m \<Rightarrow> m | None \<Rightarrow> map2_empty)"

definition save_provider_sector_deals ::
  "actor_id \<Rightarrow> sector_deals_map \<Rightarrow> (actor_id, sector_deals_map) map2 \<Rightarrow> (actor_id, sector_deals_map) map2" where
  "save_provider_sector_deals pr sd ps =
     (if map2_is_empty sd then map2_remove pr ps else map2_put pr sd ps)"

definition add_sector_deals :: "sector_num \<times> deal_id list \<Rightarrow> sector_deals_map \<Rightarrow> sector_deals_map" where
  "add_sector_deals = (\<lambda>(sn, ds) sd.
     let new_deals = (case map2_get sd sn of Some old \<Rightarrow> ds @ old | None \<Rightarrow> ds)
     in map2_put sn (remdups_adj (sort new_deals)) sd)"

definition put_sector_deal_ids ::
  "actor_id \<Rightarrow> (sector_num \<times> deal_id list) list \<Rightarrow> market_state \<Rightarrow> market_state" where
  "put_sector_deal_ids pr sds st =
     (let ps = provider_sectors st;
          sd = fold add_sector_deals sds (load_provider_sector_deals ps pr)
      in st\<lparr>provider_sectors := save_provider_sector_deals pr sd ps\<rparr>)"

definition pop_one_sector ::
  "sector_num \<Rightarrow> sector_deals_map \<times> deal_id list \<times> bool \<Rightarrow> sector_deals_map \<times> deal_id list \<times> bool" where
  "pop_one_sector sn = (\<lambda>(sd, popped, flush).
     case map2_delete sn sd of
       (Some ds, sd') \<Rightarrow> (sd', popped @ ds, True)
     | (None, sd') \<Rightarrow> (sd', popped, flush))"

definition pop_sector_deal_ids ::
  "actor_id \<Rightarrow> sector_num list \<Rightarrow> market_state \<Rightarrow> deal_id list \<times> market_state" where
  "pop_sector_deal_ids pr sns st =
     (let ps = provider_sectors st
      in case fold pop_one_sector sns (load_provider_sector_deals ps pr, [], False) of
           (sd, popped, flush) \<Rightarrow>
             (popped, if flush then st\<lparr>provider_sectors := save_provider_sector_deals pr sd ps\<rparr> else st))"

definition drop_sector_deals ::
  "sector_num \<times> deal_id list \<Rightarrow> sector_deals_map \<times> bool \<Rightarrow> sector_deals_map \<times> bool" where
  "drop_sector_deals = (\<lambda>(sn, ds) (sd, flush).
     case map2_get sd sn of
       None \<Rightarrow> (sd, flush)
     | Some old \<Rightarrow>
         let new_deals = filter (\<lambda>i. i \<notin> set ds) old
         in (if new_deals = [] then map2_remove sn sd else map2_put sn new_deals sd, True))"

definition drop_provider_deals ::
  "actor_id \<times> deal_id list amt \<Rightarrow> (actor_id, sector_deals_map) map2 \<Rightarrow> (actor_id, sector_deals_map) map2" where
  "drop_provider_deals = (\<lambda>(pr, sds) ps.
     case fold drop_sector_deals sds (load_provider_sector_deals ps pr, False) of
       (sd, flush) \<Rightarrow> if flush then save_provider_sector_deals pr sd ps else ps)"

definition remove_sector_deal_ids :: "deal_id list amt amt \<Rightarrow> market_state \<Rightarrow> market_state" where
  "remove_sector_deal_ids m st = st\<lparr>provider_sectors := fold drop_provider_deals m (provider_sectors st)\<rparr>"

subsection \<open>Balances\<close>

datatype reason = ClientCollateral | ClientStorageFee | ProviderCollateral

definition add_balance_to_escrow_table :: "address \<Rightarrow> int \<Rightarrow> market_state \<Rightarrow> (unit \<times> market_state) result" where
  "add_balance_to_escrow_table a x st =
     r_bind (bt_add a x (escrow_table st)) (\<lambda>t. Inr ((), st\<lparr>escrow_table := t\<rparr>))"

definition withdraw_balance_from_escrow_table ::
  "address \<Rightarrow> int \<Rightarrow> market_state \<Rightarrow> (int \<times> market_state) result" where
  "withdraw_balance_from_escrow_table a x st =
     r_bind (subtract_with_minimum a x (bt_get (locked_table st) a) (escrow_table st))
       (\<lambda>(ex, t). Inr (ex, st\<lparr>escrow_table := t\<rparr>))"

definition balance_covered :: "address \<Rightarrow> int \<Rightarrow> market_state \<Rightarrow> bool" where
  "balance_covered a amount st \<longleftrightarrow> bt_get (locked_table st) a + amount \<le> bt_get (escrow_table st) a"

definition maybe_lock_balance :: "address \<Rightarrow> int \<Rightarrow> market_state \<Rightarrow> market_state result" where
  "maybe_lock_balance a amount st =
     ensure (\<not> amount < 0) illegal_state
    (ensure (\<not> bt_get (escrow_table st) a < bt_get (locked_table st) a + amount) insufficient_funds
    (r_bind (bt_add a amount (locked_table st)) (\<lambda>t. Inr (st\<lparr>locked_table := t\<rparr>))))"

definition lock_client_and_provider_balances :: "deal_proposal \<Rightarrow> market_state \<Rightarrow> market_state result" where
  "lock_client_and_provider_balances p st =
     r_bind (maybe_lock_balance (client p) (client_balance_requirement p) st) (\<lambda>st1.
     r_bind (maybe_lock_balance (provider p) (provider_collateral p) st1) (\<lambda>st2.
     Inr (st2\<lparr>total_client_locked_collateral := total_client_locked_collateral st2 + client_collateral p,
              total_client_storage_fee := total_client_storage_fee st2 + total_storage_fee p,
              total_provider_locked_collateral :=
                total_provider_locked_collateral st2 + provider_collateral p\<rparr>)))"

fun release :: "reason \<Rightarrow> int \<Rightarrow> market_state \<Rightarrow> market_state" where
  "release ClientCollateral x st = st\<lparr>total_client_locked_collateral := total_client_locked_collateral st - x\<rparr>"
| "release ClientStorageFee x st = st\<lparr>total_client_storage_fee := total_client_storage_fee st - x\<rparr>"
| "release ProviderCollateral x st = st\<lparr>total_provider_locked_collateral := total_provider_locked_collateral st - x\<rparr>"

definition unlock_balance :: "address \<Rightarrow> int \<Rightarrow> reason \<Rightarrow> market_state \<Rightarrow> unit result \<times> market_state" where
  "unlock_balance a amount why st =
     (if amount < 0 then (Inl illegal_state, st)
      else case must_subtract a amount (locked_table st) of
             Inl e \<Rightarrow> (Inl e, st)
           | Inr t \<Rightarrow> (Inr (), (release why amount st)\<lparr>locked_table := t\<rparr>))"

definition transfer_balance :: "address \<Rightarrow> address \<Rightarrow> int \<Rightarrow> market_state \<Rightarrow> unit result \<times> market_state" where
  "transfer_balance from_addr to_addr amount st =
     (if amount < 0 then (Inl illegal_state, st)
      else case must_subtract from_addr amount (escrow_table st) of
             Inl e \<Rightarrow> (Inl e, st)
           | Inr esc \<Rightarrow>
               s_bind (unlock_balance from_addr amount ClientStorageFee st) (\<lambda>_ st1.
                 case bt_add to_addr amount esc of
                   Inl e \<Rightarrow> (Inl e, st1)
                 | Inr esc' \<Rightarrow> (Inr (), st1\<lparr>escrow_table := esc'\<rparr>)))"

definition slash_balance :: "address \<Rightarrow> int \<Rightarrow> reason \<Rightarrow> market_state \<Rightarrow> unit result \<times> market_state" where
  "slash_balance a amount why st =
     (if amount < 0 then (Inl illegal_state, st)
      else case must_subtract a amount (escrow_table st) of
             Inl e \<Rightarrow> (Inl e, st)
           | Inr esc \<Rightarrow> unlock_balance a amount why (st\<lparr>escrow_table := esc\<rparr>))"

subsection \<open>Processing a deal\<close>

definition deal_get_payment_remaining :: "deal_proposal \<Rightarrow> int \<Rightarrow> int result" where
  "deal_get_payment_remaining p slashed_at =
     ensure (\<not> end_epoch p < slashed_at) illegal_state
       (let duration_remaining = end_epoch p - max slashed_at (start_epoch p)
        in ensure (\<not> duration_remaining < 0) illegal_state
             (Inr (storage_price_per_epoch p * duration_remaining)))"

definition remove_completed_deal :: "deal_id \<Rightarrow> market_state \<Rightarrow> unit result \<times> market_state" where
  "remove_completed_deal i st =
     (case remove_deal_state i st of
        (None, st1) \<Rightarrow> (Inl illegal_state, st1)
      | (Some _, st1) \<Rightarrow>
          (case remove_proposal i st1 of
             (None, st2) \<Rightarrow> (Inl illegal_state, st2)
           | (Some _, st2) \<Rightarrow> (Inr (), st2)))"

definition process_deal_init_timed_out :: "deal_proposal \<Rightarrow> market_state \<Rightarrow> int result \<times> market_state" where
  "process_deal_init_timed_out p st =
     s_bind (unlock_balance (client p) (total_storage_fee p) ClientStorageFee st) (\<lambda>_ st1.
     s_bind (unlock_balance (client p) (client_collateral p) ClientCollateral st1) (\<lambda>_ st2.
     let amount_slashed = collateral_penalty_for_deal_activation_missed (provider_collateral p);
         amount_remaining = provider_collateral p - amount_slashed
     in s_bind (slash_balance (provider p) amount_slashed ProviderCollateral st2) (\<lambda>_ st3.
        s_bind (unlock_balance (provider p) amount_remaining ProviderCollateral st3) (\<lambda>_ st4.
        (Inr amount_slashed, st4)))))"

datatype load_deal_state = TooEarly | ProposalExpired int | Loaded deal_state

definition get_active_deal_or_process_timeout ::
  "int \<Rightarrow> deal_id \<Rightarrow> deal_proposal \<Rightarrow> cid \<Rightarrow> market_state \<Rightarrow> load_deal_state result \<times> market_state" where
  "get_active_deal_or_process_timeout epoch i p dcid st =
     (case find_deal_state st i of
        Some s \<Rightarrow> (Inr (Loaded s), st)
      | None \<Rightarrow>
          if epoch < start_epoch p then (Inr TooEarly, st)
          else
            s_bind (process_deal_init_timed_out p st) (\<lambda>slashed st1.
            case remove_proposal i st1 of
              (None, st2) \<Rightarrow> (Inl illegal_state, st2)
            | (Some _, st2) \<Rightarrow>
                (case remove_pending_deal dcid st2 of
                   (None, st3) \<Rightarrow> (Inl illegal_state, st3)
                 | (Some _, st3) \<Rightarrow>
                     (Inr (ProposalExpired slashed), snd (remove_pending_deal_allocation_id i st3)))))"

definition process_deal_expired :: "deal_proposal \<Rightarrow> deal_state \<Rightarrow> market_state \<Rightarrow> unit result \<times> market_state" where
  "process_deal_expired p s st =
     (if sector_start_epoch s = EPOCH_UNDEFINED then (Inl illegal_state, st)
      else
        s_bind (unlock_balance (provider p) (provider_collateral p) ProviderCollateral st) (\<lambda>_ st1.
        unlock_balance (client p) (client_collateral p) ClientCollateral st1))"

text \<open>The transfer of a payment, which is skipped when there is nothing to pay.\<close>

definition pay :: "deal_proposal \<Rightarrow> int \<Rightarrow> market_state \<Rightarrow> unit result \<times> market_state" where
  "pay p x st = (if 0 < x then transfer_balance (client p) (provider p) x st else (Inr (), st))"

text \<open>The refund and the penalty of a terminated deal, common to its two users.\<close>

definition unlock_and_slash ::
  "deal_proposal \<Rightarrow> int \<Rightarrow> market_state \<Rightarrow> (int \<times> int) result \<times> market_state" where
  "unlock_and_slash p slashed_at st =
     (case deal_get_payment_remaining p slashed_at of
        Inl e \<Rightarrow> (Inl e, st)
      | Inr payment_remaining \<Rightarrow>
          s_bind (unlock_balance (client p) payment_remaining ClientStorageFee st) (\<lambda>_ st1.
          s_bind (unlock_balance (client p) (client_collateral p) ClientCollateral st1) (\<lambda>_ st2.
          s_bind (slash_balance (provider p) (provider_collateral p) ProviderCollateral st2) (\<lambda>_ st3.
          (Inr (payment_remaining, provider_collateral p), st3)))))"

text \<open>Returns the amount slashed, the amount paid, whether the deal is completed and whether to remove it.\<close>

definition process_deal_update ::
  "deal_state \<Rightarrow> deal_proposal \<Rightarrow> cid \<Rightarrow> int \<Rightarrow> market_state \<Rightarrow> (int \<times> int \<times> bool \<times> bool) result \<times> market_state" where
  "process_deal_update s p dcid epoch st =
     (let ever_updated = last_updated_epoch s \<noteq> EPOCH_UNDEFINED;
          ever_slashed = slash_epoch s \<noteq> EPOCH_UNDEFINED;
          st1 = (if ever_updated then st else snd (remove_pending_deal dcid st))
      in if ever_updated \<and> epoch < last_updated_epoch s then (Inl illegal_state, st1)
         else if epoch < start_epoch p then (Inr (0, 0, False, False), st1)
         else if ever_slashed \<and> epoch < slash_epoch s then (Inl illegal_state, st1)
         else if ever_slashed \<and> end_epoch p < slash_epoch s then (Inl illegal_state, st1)
         else
           let payment_end = (if ever_slashed then slash_epoch s else min (end_epoch p) epoch);
               payment_start = (if ever_updated \<and> start_epoch p < last_updated_epoch s
                                then last_updated_epoch s else start_epoch p);
               elapsed_payment = storage_price_per_epoch p * (payment_end - payment_start)
           in s_bind (pay p elapsed_payment st1) (\<lambda>_ st2.
              if ever_slashed then
                s_bind (unlock_and_slash p (slash_epoch s) st2) (\<lambda>(remaining, slashed) st3.
                (Inr (slashed, remaining + elapsed_payment, False, True), st3))
              else if end_epoch p \<le> epoch then
                s_bind (process_deal_expired p s st2) (\<lambda>_ st3. (Inr (0, elapsed_payment, True, True), st3))
              else (Inr (0, elapsed_payment, False, False), st2)))"

definition process_slashed_deal :: "deal_proposal \<Rightarrow> deal_state \<Rightarrow> market_state \<Rightarrow> int result \<times> market_state" where
  "process_slashed_deal p s st =
     (let payment_start = max (start_epoch p) (last_updated_epoch s);
          payment_end = min (end_epoch p) (slash_epoch s);
          total_payment = storage_price_per_epoch p * max 0 (payment_end - payment_start)
      in s_bind (pay p total_payment st) (\<lambda>_ st1.
         s_bind (unlock_and_slash p (slash_epoch s) st1) (\<lambda>(remaining, slashed) st2. (Inr slashed, st2))))"

text \<open>The counter of deal identifiers is checked for overflow.\<close>

definition generate_storage_deal_id :: "market_state \<Rightarrow> (deal_id \<times> market_state) result" where
  "generate_storage_deal_id st =
     ensure (next_id st + 1 < 2 ^ 64) Panic (Inr (next_id st, st\<lparr>next_id := next_id st + 1\<rparr>))"

section \<open>The contract of a balance table\<close>

text \<open>
  What the market relies on: an addition that would leave a negative balance is refused, every other one
  changes the balance of one party and the total by the amount.
\<close>

locale token_table =
  fixes get :: "'t \<Rightarrow> 'a \<Rightarrow> int"
    and add :: "'a \<Rightarrow> int \<Rightarrow> 't \<Rightarrow> 'e + 't"
    and total :: "'t \<Rightarrow> int"
    and ok :: "'t \<Rightarrow> bool"
  assumes add_refused: "get t a + x < 0 \<Longrightarrow> \<exists>e. add a x t = Inl e"
    and add_ok: "ok t \<Longrightarrow> 0 \<le> get t a + x \<Longrightarrow>
      \<exists>t'. add a x t = Inr t' \<and> ok t' \<and> get t' = (get t)(a := get t a + x) \<and> total t' = total t + x"
begin

lemma add_Inr:
  assumes "ok t" and "add a x t = Inr t'"
  shows "0 \<le> get t a + x \<and> ok t' \<and> get t' = (get t)(a := get t a + x) \<and> total t' = total t + x"
proof (cases "0 \<le> get t a + x")
  case True
  with add_ok [OF assms(1) True] assms(2) show ?thesis by auto
next
  case False
  with add_refused [of t a x] assms(2) show ?thesis by auto
qed

lemma move_ok:
  assumes "ok t" and "0 \<le> x" and "x \<le> get t a" and "add a (- x) t = Inr t1" and "0 \<le> get t1 b"
  shows "\<exists>t2. add b x t1 = Inr t2 \<and> ok t2 \<and> total t2 = total t
    \<and> (\<forall>c. get t2 c = get t c - (if c = a then x else 0) + (if c = b then x else 0))"
proof -
  note t1 = add_Inr [OF assms(1,4)]
  with assms(2,5) add_ok [of t1 b x] obtain t2 where
    "add b x t1 = Inr t2" "ok t2" "get t2 = (get t1)(b := get t1 b + x)" "total t2 = total t1 + x" by auto
  with t1 show ?thesis by auto
qed

end

lemma bt_total_map: "map2_ok t \<Longrightarrow> bt_total t = map_total (\<lambda>x. x) (map2_get t)"
proof (induction t)
  case (Cons kv t)
  obtain k v where kv: "kv = (k, v)" by (cases kv)
  have "map2_get ((k, v) # t) = (map2_get t)(k \<mapsto> v)" by (auto simp: map2_get_def fun_eq_iff)
  moreover have "map2_get t k = None"
    using Cons.prems kv by (simp add: map2_ok_def map2_get_def map_of_eq_None_iff)
  ultimately have "map_total (\<lambda>x. x) (map2_get ((k, v) # t)) = map_total (\<lambda>x. x) (map2_get t) + v"
    by (simp only: map_total_update [OF m2.finite_lookup] map_at_None)
  then show ?case using Cons kv by (simp add: bt_total_def map2_ok_def)
qed (use m2.total_empty [of "\<lambda>x :: int. x"] in \<open>simp add: bt_total_def map2_empty_def\<close>)

lemma map_at_bt_get: "map_at (\<lambda>x. x) (map2_get t) a = bt_get t a"
  by (simp add: map_at_def bt_get_def split: option.splits)

interpretation bt: token_table bt_get bt_add bt_total map2_ok
proof unfold_locales
  fix t :: balance_table and a x
  show "bt_get t a + x < 0 \<Longrightarrow> \<exists>e. bt_add a x t = Inl e" by (simp add: bt_add_def)
  assume ok: "map2_ok t" and x: "0 \<le> bt_get t a + x"
  show "\<exists>t'. bt_add a x t = Inr t' \<and> map2_ok t' \<and> bt_get t' = (bt_get t)(a := bt_get t a + x)
      \<and> bt_total t' = bt_total t + x"
  proof (cases "bt_get t a + x = 0 \<and> bt_get t a \<noteq> 0")
    case True
    then have "bt_add a x t = Inr (map2_remove a t)" by (simp add: bt_add_def)
    moreover have "bt_total (map2_remove a t) = bt_total t + x"
      using ok True by (simp add: bt_total_map m2.total_del map_at_bt_get)
    moreover have "bt_get (map2_remove a t) = (bt_get t)(a := bt_get t a + x)"
      using True by (auto simp: bt_get_def fun_eq_iff)
    ultimately show ?thesis using ok by simp
  next
    case False
    then have "bt_add a x t = Inr (map2_put a (bt_get t a + x) t)" using x by (auto simp: bt_add_def)
    moreover have "bt_total (map2_put a (bt_get t a + x) t) = bt_total t + x"
      using ok by (simp add: bt_total_map m2.total_put map_at_bt_get)
    moreover have "bt_get (map2_put a (bt_get t a + x) t) = (bt_get t)(a := bt_get t a + x)"
      by (auto simp: bt_get_def fun_eq_iff)
    ultimately show ?thesis using ok by simp
  qed
qed

lemma must_subtract_ok:
  assumes "map2_ok t" and "x \<le> bt_get t a"
  shows "\<exists>t'. must_subtract a x t = Inr t' \<and> map2_ok t' \<and> bt_get t' = (bt_get t)(a := bt_get t a - x)
    \<and> bt_total t' = bt_total t - x"
  using bt.add_ok [OF assms(1), of a "- x"] assms(2) by (auto simp: must_subtract_def)

lemma must_subtract_Inr: "must_subtract a x t = Inr t' \<Longrightarrow> x \<le> bt_get t a \<and> bt_add a (- x) t = Inr t'"
  by (auto simp: must_subtract_def split: if_splits)

section \<open>The ledger\<close>

text \<open>What a live deal holds of its two parties.\<close>

record lock =
  l_client :: address
  l_provider :: address
  l_ccol :: int
  l_pcol :: int
  l_fee :: int

definition held :: "address \<Rightarrow> lock \<Rightarrow> int" where
  "held a l = (if l_client l = a then l_ccol l + l_fee l else 0) + (if l_provider l = a then l_pcol l else 0)"

text \<open>The ledger agrees with the locks: party by party, and in the three totals.\<close>

definition ledger :: "(deal_id \<rightharpoonup> lock) \<Rightarrow> market_state \<Rightarrow> bool" where
  "ledger D st \<longleftrightarrow> finite (dom D) \<and> map2_ok (escrow_table st) \<and> map2_ok (locked_table st)
     \<and> (\<forall>i l. D i = Some l \<longrightarrow> 0 \<le> l_ccol l \<and> 0 \<le> l_pcol l \<and> 0 \<le> l_fee l)
     \<and> (\<forall>a. bt_get (locked_table st) a = map_total (held a) D)
     \<and> total_client_locked_collateral st = map_total l_ccol D
     \<and> total_provider_locked_collateral st = map_total l_pcol D
     \<and> total_client_storage_fee st = map_total l_fee D"

definition covered :: "market_state \<Rightarrow> bool" where
  "covered st \<longleftrightarrow> (\<forall>a. bt_get (locked_table st) a \<le> bt_get (escrow_table st) a)"

definition books :: "(deal_id \<rightharpoonup> lock) \<Rightarrow> market_state \<Rightarrow> bool" where
  "books D st \<longleftrightarrow> ledger D st \<and> covered st"

text \<open>Changes that touch only balances and totals.\<close>

definition ledger_only :: "market_state \<Rightarrow> market_state \<Rightarrow> bool" where
  "ledger_only st st' \<longleftrightarrow> proposals st' = proposals st \<and> states st' = states st \<and> next_id st' = next_id st
     \<and> pending_proposals st' = pending_proposals st \<and> provider_sectors st' = provider_sectors st
     \<and> deal_ops_by_epoch st' = deal_ops_by_epoch st \<and> last_cron st' = last_cron st
     \<and> pending_deal_allocation_ids st' = pending_deal_allocation_ids st"

lemma ledger_only_refl [simp]: "ledger_only st st"
  by (simp add: ledger_only_def)

lemma ledger_only_trans: "ledger_only s t \<Longrightarrow> ledger_only t u \<Longrightarrow> ledger_only s u"
  by (simp add: ledger_only_def)

lemma ledger_cong:
  "ledger D st \<Longrightarrow> escrow_table st' = escrow_table st \<Longrightarrow> locked_table st' = locked_table st \<Longrightarrow>
   total_client_locked_collateral st' = total_client_locked_collateral st \<Longrightarrow>
   total_provider_locked_collateral st' = total_provider_locked_collateral st \<Longrightarrow>
   total_client_storage_fee st' = total_client_storage_fee st \<Longrightarrow> ledger D st'"
  by (simp add: ledger_def)

lemma held_nonneg: "0 \<le> l_ccol l \<Longrightarrow> 0 \<le> l_pcol l \<Longrightarrow> 0 \<le> l_fee l \<Longrightarrow> 0 \<le> held a l"
  by (simp add: held_def)

lemma ledger_held_le:
  assumes "ledger D st" and "D i = Some l"
  shows "held a l \<le> bt_get (locked_table st) a"
proof -
  have "map_at (held a) D i \<le> map_total (held a) D"
    using assms(1) by (intro map_at_le_total) (auto simp: ledger_def intro: held_nonneg)
  with assms show ?thesis by (simp add: ledger_def)
qed

lemma books_escrow_nonneg: "books D st \<Longrightarrow> 0 \<le> bt_get (locked_table st) a \<and> 0 \<le> bt_get (escrow_table st) a"
proof -
  assume b: "books D st"
  have "0 \<le> map_total (held a) D"
    using b by (intro map_total_nonneg) (auto simp: books_def ledger_def intro: held_nonneg)
  with b show ?thesis by (fastforce simp: books_def ledger_def covered_def intro: order_trans)
qed

subsection \<open>Releasing a part of a lock\<close>

fun party :: "reason \<Rightarrow> lock \<Rightarrow> address" where
  "party ClientCollateral l = l_client l"
| "party ClientStorageFee l = l_client l"
| "party ProviderCollateral l = l_provider l"

fun part :: "reason \<Rightarrow> lock \<Rightarrow> int" where
  "part ClientCollateral l = l_ccol l"
| "part ClientStorageFee l = l_fee l"
| "part ProviderCollateral l = l_pcol l"

fun loosen :: "reason \<Rightarrow> int \<Rightarrow> lock \<Rightarrow> lock" where
  "loosen ClientCollateral x l = l\<lparr>l_ccol := l_ccol l - x\<rparr>"
| "loosen ClientStorageFee x l = l\<lparr>l_fee := l_fee l - x\<rparr>"
| "loosen ProviderCollateral x l = l\<lparr>l_pcol := l_pcol l - x\<rparr>"

lemma held_loosen: "held a (loosen why x l) = held a l - (if a = party why l then x else 0)"
  by (cases why) (auto simp: held_def)

lemma part_le_held: "0 \<le> l_ccol l \<Longrightarrow> 0 \<le> l_pcol l \<Longrightarrow> 0 \<le> l_fee l \<Longrightarrow> part why l \<le> held (party why l) l"
  by (cases why) (auto simp: held_def)

lemma ledger_loosen:
  assumes "ledger D st" and "D i = Some l" and "0 \<le> x" and "x \<le> part why l"
    and "map2_ok t" and "bt_get t = (bt_get (locked_table st))(party why l := bt_get (locked_table st) (party why l) - x)"
  shows "ledger (D(i \<mapsto> loosen why x l)) ((release why x st)\<lparr>locked_table := t\<rparr>)"
proof -
  have fin: "finite (dom D)" and nn: "0 \<le> l_ccol l" "0 \<le> l_pcol l" "0 \<le> l_fee l"
    using assms(1,2) by (auto simp: ledger_def)
  define D' where "D' = D(i \<mapsto> loosen why x l)"
  have "map_total f D' = map_total f D - f l + f (loosen why x l)" for f
    using assms(2) fin by (simp add: D'_def map_total_update)
  moreover have "bt_get t a = map_total (held a) D'" for a
    using assms(1,2,6) fin by (simp add: D'_def ledger_def map_total_update held_loosen)
  moreover have "finite (dom D')" using fin by (simp add: D'_def)
  moreover have "0 \<le> l_ccol m \<and> 0 \<le> l_pcol m \<and> 0 \<le> l_fee m" if "D' j = Some m" for j m
    using that assms(1,3,4) nn by (cases why) (auto simp: D'_def ledger_def split: if_splits)
  ultimately have "ledger D' ((release why x st)\<lparr>locked_table := t\<rparr>)"
    using assms(1,5) by (cases why) (auto simp: ledger_def)
  then show ?thesis by (simp add: D'_def)
qed

lemma unlock_ok:
  assumes "ledger D st" and "D i = Some l" and "0 \<le> x" and "x \<le> part why l"
  shows "\<exists>st'. unlock_balance (party why l) x why st = (Inr (), st') \<and> ledger (D(i \<mapsto> loosen why x l)) st'
    \<and> ledger_only st st' \<and> escrow_table st' = escrow_table st
    \<and> bt_get (locked_table st') = (bt_get (locked_table st))(party why l := bt_get (locked_table st) (party why l) - x)"
proof -
  have "x \<le> held (party why l) l"
    using assms part_le_held [of l why] by (auto simp: ledger_def)
  then have le: "x \<le> bt_get (locked_table st) (party why l)"
    using ledger_held_le [OF assms(1,2), of "party why l"] by linarith
  have "map2_ok (locked_table st)" using assms(1) by (simp add: ledger_def)
  from must_subtract_ok [OF this le] obtain t where t: "must_subtract (party why l) x (locked_table st) = Inr t" "map2_ok t"
    "bt_get t = (bt_get (locked_table st))(party why l := bt_get (locked_table st) (party why l) - x)" by blast
  let ?st' = "(release why x st)\<lparr>locked_table := t\<rparr>"
  have "ledger_only st ?st'" by (cases why) (simp_all add: ledger_only_def)
  moreover have "escrow_table ?st' = escrow_table st" by (cases why) auto
  ultimately show ?thesis
    using ledger_loosen [OF assms t(2,3)] t(1,3) assms(3) by (simp add: unlock_balance_def)
qed

lemma sub_le: "(y :: int) \<le> z \<Longrightarrow> 0 \<le> x \<Longrightarrow> y - x \<le> z"
  by simp

lemma books_unlock_ok:
  assumes "books D st" and "D i = Some l" and "0 \<le> x" and "x \<le> part why l" and "a = party why l"
  shows "\<exists>st'. unlock_balance a x why st = (Inr (), st') \<and> books (D(i \<mapsto> loosen why x l)) st'
    \<and> ledger_only st st' \<and> escrow_table st' = escrow_table st"
proof -
  have "ledger D st" using assms(1) by (simp add: books_def)
  from unlock_ok [OF this assms(2-4)] obtain st' where
    st': "unlock_balance (party why l) x why st = (Inr (), st')" "ledger (D(i \<mapsto> loosen why x l)) st'"
    "ledger_only st st'" "escrow_table st' = escrow_table st"
    "bt_get (locked_table st') = (bt_get (locked_table st))(party why l := bt_get (locked_table st) (party why l) - x)"
    by blast
  have "covered st'"
    using assms(1,3) st'(4,5) by (auto simp: books_def covered_def intro: sub_le)
  with st' assms(5) show ?thesis by (auto simp: books_def)
qed

lemma books_slash_ok:
  assumes "books D st" and "D i = Some l" and "0 \<le> x" and "x \<le> part why l" and "a = party why l"
  shows "\<exists>st'. slash_balance a x why st = (Inr (), st') \<and> books (D(i \<mapsto> loosen why x l)) st'
    \<and> ledger_only st st' \<and> bt_total (escrow_table st') = bt_total (escrow_table st) - x
    \<and> bt_get (escrow_table st') = (bt_get (escrow_table st))(a := bt_get (escrow_table st) a - x)"
proof -
  have L: "ledger D st" and C: "covered st" using assms(1) by (simp_all add: books_def)
  have "part why l \<le> held a l" using L assms(2,5) part_le_held [of l why] by (auto simp: ledger_def)
  then have le: "x \<le> bt_get (escrow_table st) a"
    using ledger_held_le [OF L assms(2), of a] C assms(4) by (auto simp: covered_def intro: order_trans)
  have "map2_ok (escrow_table st)" using L by (simp add: ledger_def)
  from must_subtract_ok [OF this le] obtain e where e: "must_subtract a x (escrow_table st) = Inr e" "map2_ok e"
    "bt_get e = (bt_get (escrow_table st))(a := bt_get (escrow_table st) a - x)" "bt_total e = bt_total (escrow_table st) - x"
    by blast
  let ?st1 = "st\<lparr>escrow_table := e\<rparr>"
  have "ledger D ?st1" using L e(2) by (simp add: ledger_def)
  from unlock_ok [OF this assms(2-4)] obtain st' where
    st': "unlock_balance a x why ?st1 = (Inr (), st')" "ledger (D(i \<mapsto> loosen why x l)) st'"
    "ledger_only ?st1 st'" "escrow_table st' = e"
    "bt_get (locked_table st') = (bt_get (locked_table st))(a := bt_get (locked_table st) a - x)"
    using assms(5) by auto
  have "covered st'" using C st'(4,5) e(3) by (simp add: covered_def)
  moreover have "ledger_only st st'" using st'(3) by (simp add: ledger_only_def)
  ultimately show ?thesis
    using st' e assms(3) by (simp add: slash_balance_def books_def)
qed

lemma books_transfer_ok:
  assumes "books D st" and "D i = Some l" and "0 \<le> x" and "x \<le> l_fee l"
  shows "\<exists>st'. transfer_balance (l_client l) (l_provider l) x st = (Inr (), st')
    \<and> books (D(i \<mapsto> l\<lparr>l_fee := l_fee l - x\<rparr>)) st' \<and> ledger_only st st'
    \<and> bt_total (escrow_table st') = bt_total (escrow_table st)
    \<and> (\<forall>a. bt_get (escrow_table st') a = bt_get (escrow_table st) a
          - (if a = l_client l then x else 0) + (if a = l_provider l then x else 0))"
proof -
  have L: "ledger D st" and C: "covered st" using assms(1) by (simp_all add: books_def)
  have "l_fee l \<le> held (l_client l) l" using L assms(2) part_le_held [of l ClientStorageFee] by (auto simp: ledger_def)
  then have le: "x \<le> bt_get (escrow_table st) (l_client l)"
    using ledger_held_le [OF L assms(2), of "l_client l"] C assms(4) by (auto simp: covered_def intro: order_trans)
  have ok: "map2_ok (escrow_table st)" using L by (simp add: ledger_def)
  from must_subtract_ok [OF ok le] obtain e where e: "must_subtract (l_client l) x (escrow_table st) = Inr e"
    "bt_get e = (bt_get (escrow_table st))(l_client l := bt_get (escrow_table st) (l_client l) - x)" by blast
  from unlock_ok [OF L assms(2,3), of ClientStorageFee] assms(4) obtain st1 where
    st1: "unlock_balance (l_client l) x ClientStorageFee st = (Inr (), st1)" "ledger (D(i \<mapsto> l\<lparr>l_fee := l_fee l - x\<rparr>)) st1"
    "ledger_only st st1" "escrow_table st1 = escrow_table st"
    "bt_get (locked_table st1) = (bt_get (locked_table st))(l_client l := bt_get (locked_table st) (l_client l) - x)"
    by auto
  have "0 \<le> bt_get e (l_provider l)" using e(2) le books_escrow_nonneg [OF assms(1)] by simp
  from bt.move_ok [OF ok assms(3) le must_subtract_Inr [OF e(1), THEN conjunct2] this]
  obtain e' where e': "bt_add (l_provider l) x e = Inr e'" "map2_ok e'" "bt_total e' = bt_total (escrow_table st)"
    "\<forall>a. bt_get e' a = bt_get (escrow_table st) a - (if a = l_client l then x else 0) + (if a = l_provider l then x else 0)"
    by blast
  let ?st' = "st1\<lparr>escrow_table := e'\<rparr>"
  have "covered ?st'"
    using C st1(5) e'(4) assms(3) by (auto simp: covered_def add_increasing2)
  moreover have "ledger (D(i \<mapsto> l\<lparr>l_fee := l_fee l - x\<rparr>)) ?st'" using st1(2) e'(2) by (simp add: ledger_def)
  moreover have "transfer_balance (l_client l) (l_provider l) x st = (Inr (), ?st')"
    using e(1) st1(1) e'(1) assms(3) by (simp add: transfer_balance_def)
  ultimately show ?thesis using e'(3,4) st1(3) by (simp add: books_def ledger_only_def)
qed

text \<open>A lock that holds nothing can be dropped.\<close>

lemma books_drop:
  assumes "books D st" and "D i = Some l" and "l_ccol l = 0" and "l_pcol l = 0" and "l_fee l = 0"
  shows "books (D(i := None)) st"
proof -
  have "held a l = 0" for a using assms by (simp add: held_def)
  then show ?thesis
    using assms by (auto simp: books_def ledger_def map_total_delete)
qed

text \<open>Locking the balances for a new deal.\<close>

lemma maybe_lock_Inr:
  assumes "maybe_lock_balance a x st = Inr st'" and "map2_ok (locked_table st)"
  shows "0 \<le> x \<and> (\<exists>t. st' = st\<lparr>locked_table := t\<rparr> \<and> map2_ok t
    \<and> bt_get t = (bt_get (locked_table st))(a := bt_get (locked_table st) a + x)
    \<and> bt_get t a \<le> bt_get (escrow_table st) a)"
proof -
  from assms(1) obtain t where "0 \<le> x" "bt_get (locked_table st) a + x \<le> bt_get (escrow_table st) a"
    "bt_add a x (locked_table st) = Inr t" "st' = st\<lparr>locked_table := t\<rparr>"
    by (auto simp: maybe_lock_balance_def res_inv)
  with bt.add_Inr [OF assms(2)] show ?thesis by auto
qed

lemma books_lock:
  assumes "books D st" and "D i = None" and "lock_client_and_provider_balances p st = Inr st'"
    and "0 \<le> client_collateral p" and "0 \<le> total_storage_fee p"
  shows "books (D(i \<mapsto> \<lparr>l_client = client p, l_provider = provider p, l_ccol = client_collateral p,
           l_pcol = provider_collateral p, l_fee = total_storage_fee p\<rparr>)) st'
    \<and> ledger_only st st' \<and> escrow_table st' = escrow_table st"
proof -
  let ?l = "\<lparr>l_client = client p, l_provider = provider p, l_ccol = client_collateral p,
    l_pcol = provider_collateral p, l_fee = total_storage_fee p\<rparr>"
  have L: "ledger D st" and C: "covered st" using assms(1) by (simp_all add: books_def)
  from assms(3) obtain st1 st2 where
    m: "maybe_lock_balance (client p) (client_balance_requirement p) st = Inr st1"
       "maybe_lock_balance (provider p) (provider_collateral p) st1 = Inr st2"
    and st': "st' = st2\<lparr>total_client_locked_collateral := total_client_locked_collateral st2 + client_collateral p,
              total_client_storage_fee := total_client_storage_fee st2 + total_storage_fee p,
              total_provider_locked_collateral := total_provider_locked_collateral st2 + provider_collateral p\<rparr>"
    by (auto simp: lock_client_and_provider_balances_def res_inv)
  have "map2_ok (locked_table st)" using L by (simp add: ledger_def)
  from maybe_lock_Inr [OF m(1) this] obtain t where t: "st1 = st\<lparr>locked_table := t\<rparr>" "map2_ok t"
    "bt_get t = (bt_get (locked_table st))(client p := bt_get (locked_table st) (client p) + client_balance_requirement p)"
    "bt_get t (client p) \<le> bt_get (escrow_table st) (client p)" by blast
  have "map2_ok (locked_table st1)" using t by simp
  from maybe_lock_Inr [OF m(2) this] obtain u where u: "0 \<le> provider_collateral p" "st2 = st1\<lparr>locked_table := u\<rparr>" "map2_ok u"
    "bt_get u = (bt_get t)(provider p := bt_get t (provider p) + provider_collateral p)"
    "bt_get u (provider p) \<le> bt_get (escrow_table st) (provider p)" using t(1) by auto
  have fin: "finite (dom D)" using L by (simp add: ledger_def)
  have "map_total f (D(i \<mapsto> ?l)) = map_total f D + f ?l" for f
    using assms(2) fin by (simp add: map_total_update)
  moreover have "bt_get u a = map_total (held a) D + held a ?l" for a
    using L t(3) u(4) by (auto simp: ledger_def held_def client_balance_requirement_def)
  ultimately have "ledger (D(i \<mapsto> ?l)) st'"
    using L t(1) u(1-3) st' assms(4,5) fin by (auto simp: ledger_def)
  moreover have "covered st'"
    using C t u st' by (auto simp: covered_def)
  ultimately show ?thesis using st' t(1) u(2) by (simp add: books_def ledger_only_def)
qed

section \<open>Deals and their locks\<close>

definition proposal_ok :: "deal_proposal \<Rightarrow> bool" where
  "proposal_ok p \<longleftrightarrow> 0 \<le> start_epoch p \<and> start_epoch p < end_epoch p \<and> duration p < 2 ^ 64
     \<and> 0 \<le> storage_price_per_epoch p \<and> 0 \<le> client_collateral p \<and> 0 \<le> provider_collateral p
     \<and> (\<exists>i. client p = ID i) \<and> (\<exists>i. provider p = ID i)"

definition deal_ok :: "deal_proposal \<Rightarrow> deal_state option \<Rightarrow> bool" where
  "deal_ok p so \<longleftrightarrow> proposal_ok p \<and>
     (case so of
        None \<Rightarrow> True
      | Some s \<Rightarrow> slash_epoch s = EPOCH_UNDEFINED \<and> sector_start_epoch s \<noteq> EPOCH_UNDEFINED
                 \<and> - 1 \<le> last_updated_epoch s \<and> last_updated_epoch s < end_epoch p)"

text \<open>The epoch up to which a deal is paid, and what it holds.\<close>

definition paid_to :: "deal_proposal \<Rightarrow> deal_state option \<Rightarrow> int" where
  "paid_to p so = (case so of None \<Rightarrow> start_epoch p | Some s \<Rightarrow> max (start_epoch p) (last_updated_epoch s))"

definition lock_of :: "deal_proposal \<Rightarrow> deal_state option \<Rightarrow> lock" where
  "lock_of p so =
     \<lparr>l_client = client p, l_provider = provider p, l_ccol = client_collateral p, l_pcol = provider_collateral p,
      l_fee = storage_price_per_epoch p * (end_epoch p - paid_to p so)\<rparr>"

lemma lock_of_simps [simp]:
  "l_client (lock_of p so) = client p" "l_provider (lock_of p so) = provider p"
  "l_ccol (lock_of p so) = client_collateral p" "l_pcol (lock_of p so) = provider_collateral p"
  "l_fee (lock_of p so) = storage_price_per_epoch p * (end_epoch p - paid_to p so)"
  by (simp_all add: lock_of_def)

lemma total_storage_fee_ok: "proposal_ok p \<Longrightarrow> total_storage_fee p = storage_price_per_epoch p * (end_epoch p - start_epoch p)"
  by (simp add: total_storage_fee_def proposal_ok_def duration_def)

lemma total_storage_fee_lock: "proposal_ok p \<Longrightarrow> total_storage_fee p = l_fee (lock_of p None)"
  by (simp add: total_storage_fee_ok paid_to_def)

lemma paid_to_le: "deal_ok p so \<Longrightarrow> start_epoch p \<le> paid_to p so \<and> paid_to p so < end_epoch p"
  by (auto simp: deal_ok_def proposal_ok_def paid_to_def split: option.splits)

subsection \<open>A payment\<close>

lemma pay_ok:
  assumes "books D st" and "D i = Some l" and "l_client l = client p" and "l_provider l = provider p"
    and "0 \<le> x" and "x \<le> l_fee l"
  shows "\<exists>st'. pay p x st = (Inr (), st') \<and> books (D(i \<mapsto> l\<lparr>l_fee := l_fee l - x\<rparr>)) st' \<and> ledger_only st st'
    \<and> bt_total (escrow_table st') = bt_total (escrow_table st)
    \<and> (\<forall>a. bt_get (escrow_table st') a = bt_get (escrow_table st) a
          - (if a = client p then x else 0) + (if a = provider p then x else 0))"
proof (cases "0 < x")
  case True
  then show ?thesis
    using books_transfer_ok [OF assms(1,2,5,6)] assms(3,4) by (simp add: pay_def)
next
  case False
  then have "x = 0" using assms(5) by simp
  moreover have "D(i \<mapsto> l) = D" using assms(2) by auto
  ultimately show ?thesis using assms(1) by (simp add: pay_def)
qed

subsection \<open>A deal that is not activated in time\<close>

lemma timed_out_ok:
  assumes "books D st" and "D i = Some (lock_of p None)" and "proposal_ok p"
  shows "\<exists>st'. process_deal_init_timed_out p st = (Inr (provider_collateral p), st')
    \<and> books (D(i := None)) st' \<and> ledger_only st st'
    \<and> bt_total (escrow_table st') = bt_total (escrow_table st) - provider_collateral p
    \<and> bt_get (escrow_table st') = (bt_get (escrow_table st))
         (provider p := bt_get (escrow_table st) (provider p) - provider_collateral p)"
proof -
  let ?l0 = "lock_of p None"
  let ?l1 = "?l0\<lparr>l_fee := 0\<rparr>" let ?l2 = "?l1\<lparr>l_ccol := 0\<rparr>" let ?l3 = "?l2\<lparr>l_pcol := 0\<rparr>"
  have nn: "0 \<le> client_collateral p" "0 \<le> provider_collateral p" "0 \<le> total_storage_fee p"
    using assms(3) by (auto simp: proposal_ok_def total_storage_fee_ok)
  from books_unlock_ok [OF assms(1,2) nn(3), of ClientStorageFee "client p"]
  obtain st1 where st1: "unlock_balance (client p) (total_storage_fee p) ClientStorageFee st = (Inr (), st1)"
    "books (D(i \<mapsto> ?l1)) st1" "ledger_only st st1" "escrow_table st1 = escrow_table st"
    using total_storage_fee_lock [OF assms(3)] by auto
  have "(D(i \<mapsto> ?l1)) i = Some ?l1" by simp
  from books_unlock_ok [OF st1(2) this nn(1), of ClientCollateral "client p"]
  obtain st2 where st2: "unlock_balance (client p) (client_collateral p) ClientCollateral st1 = (Inr (), st2)"
    "books (D(i \<mapsto> ?l2)) st2" "ledger_only st1 st2" "escrow_table st2 = escrow_table st1" by (auto simp del: fun_upd_apply)
  have "(D(i \<mapsto> ?l2)) i = Some ?l2" by simp
  from books_slash_ok [OF st2(2) this nn(2), of ProviderCollateral "provider p"]
  obtain st3 where st3: "slash_balance (provider p) (provider_collateral p) ProviderCollateral st2 = (Inr (), st3)"
    "books (D(i \<mapsto> ?l3)) st3" "ledger_only st2 st3"
    "bt_total (escrow_table st3) = bt_total (escrow_table st2) - provider_collateral p"
    "bt_get (escrow_table st3) = (bt_get (escrow_table st2))
       (provider p := bt_get (escrow_table st2) (provider p) - provider_collateral p)" by (auto simp del: fun_upd_apply)
  have i3: "(D(i \<mapsto> ?l3)) i = Some ?l3" by simp
  from books_unlock_ok [OF st3(2) i3 order_refl [of 0], of ProviderCollateral "provider p"]
  obtain st4 where st4: "unlock_balance (provider p) 0 ProviderCollateral st3 = (Inr (), st4)"
    "books (D(i \<mapsto> ?l3)) st4" "ledger_only st3 st4" "escrow_table st4 = escrow_table st3" by (auto simp del: fun_upd_apply)
  have "books ((D(i \<mapsto> ?l3))(i := None)) st4" by (rule books_drop [OF st4(2) i3]) simp_all
  moreover have "ledger_only st st4" using st1(3) st2(3) st3(3) st4(3) ledger_only_trans by blast
  ultimately show ?thesis
    using st1 st2 st3 st4
    by (simp add: process_deal_init_timed_out_def collateral_penalty_for_deal_activation_missed_def)
qed

subsection \<open>A terminated deal\<close>

lemma unlock_and_slash_ok:
  assumes "books D st" and "D i = Some l" and "l_client l = client p" and "l_provider l = provider p"
    and "l_ccol l = client_collateral p" and "l_pcol l = provider_collateral p"
    and "l_fee l = storage_price_per_epoch p * (end_epoch p - max e (start_epoch p))"
    and "proposal_ok p" and "e \<le> end_epoch p"
  shows "\<exists>st'. unlock_and_slash p e st = (Inr (l_fee l, provider_collateral p), st')
    \<and> books (D(i := None)) st' \<and> ledger_only st st'
    \<and> bt_total (escrow_table st') = bt_total (escrow_table st) - provider_collateral p
    \<and> bt_get (escrow_table st') = (bt_get (escrow_table st))
         (provider p := bt_get (escrow_table st) (provider p) - provider_collateral p)"
proof -
  let ?l1 = "l\<lparr>l_fee := 0\<rparr>" let ?l2 = "?l1\<lparr>l_ccol := 0\<rparr>" let ?l3 = "?l2\<lparr>l_pcol := 0\<rparr>"
  have nn: "0 \<le> l_ccol l" "0 \<le> l_pcol l" "0 \<le> l_fee l"
    using assms(1,2) by (auto simp: books_def ledger_def)
  have rem: "deal_get_payment_remaining p e = Inr (l_fee l)"
  proof -
    have "\<not> end_epoch p - max e (start_epoch p) < 0" using assms(8,9) by (auto simp: proposal_ok_def)
    then show ?thesis using assms(7,9) by (simp add: deal_get_payment_remaining_def)
  qed
  from books_unlock_ok [OF assms(1,2) nn(3), of ClientStorageFee "client p"] assms(3)
  obtain st1 where st1: "unlock_balance (client p) (l_fee l) ClientStorageFee st = (Inr (), st1)"
    "books (D(i \<mapsto> ?l1)) st1" "ledger_only st st1" "escrow_table st1 = escrow_table st" by auto
  have "(D(i \<mapsto> ?l1)) i = Some ?l1" by simp
  from books_unlock_ok [OF st1(2) this nn(1), of ClientCollateral "client p"] assms(3,5)
  obtain st2 where st2: "unlock_balance (client p) (client_collateral p) ClientCollateral st1 = (Inr (), st2)"
    "books (D(i \<mapsto> ?l2)) st2" "ledger_only st1 st2" "escrow_table st2 = escrow_table st1" by (auto simp del: fun_upd_apply)
  have "(D(i \<mapsto> ?l2)) i = Some ?l2" by simp
  from books_slash_ok [OF st2(2) this nn(2), of ProviderCollateral "provider p"] assms(4,6)
  obtain st3 where st3: "slash_balance (provider p) (provider_collateral p) ProviderCollateral st2 = (Inr (), st3)"
    "books (D(i \<mapsto> ?l3)) st3" "ledger_only st2 st3"
    "bt_total (escrow_table st3) = bt_total (escrow_table st2) - provider_collateral p"
    "bt_get (escrow_table st3) = (bt_get (escrow_table st2))
       (provider p := bt_get (escrow_table st2) (provider p) - provider_collateral p)" by (auto simp del: fun_upd_apply)
  have i3: "(D(i \<mapsto> ?l3)) i = Some ?l3" by simp
  have "books ((D(i \<mapsto> ?l3))(i := None)) st3" by (rule books_drop [OF st3(2) i3]) simp_all
  moreover have "ledger_only st st3" using st1(3) st2(3) st3(3) ledger_only_trans by blast
  ultimately show ?thesis using rem st1 st2 st3 by (simp add: unlock_and_slash_def)
qed

lemma slashed_deal_ok:
  assumes "books D st" and "D i = Some (lock_of p (Some s))" and "deal_ok p (Some s)"
    and "last_updated_epoch s \<le> e" and "e < end_epoch p"
  shows "\<exists>st'. process_slashed_deal p (s\<lparr>slash_epoch := e\<rparr>) st = (Inr (provider_collateral p), st')
    \<and> books (D(i := None)) st' \<and> ledger_only st st'
    \<and> bt_total (escrow_table st') = bt_total (escrow_table st) - provider_collateral p"
proof -
  let ?x = "storage_price_per_epoch p * max 0 (e - max (start_epoch p) (last_updated_epoch s))"
  let ?l = "lock_of p (Some s)" let ?l1 = "?l\<lparr>l_fee := l_fee ?l - ?x\<rparr>"
  have price: "0 \<le> storage_price_per_epoch p" and p: "proposal_ok p" "start_epoch p < end_epoch p"
    "last_updated_epoch s < end_epoch p"
    using assms(3) by (auto simp: deal_ok_def proposal_ok_def)
  have split: "end_epoch p - paid_to p (Some s) - max 0 (e - max (start_epoch p) (last_updated_epoch s))
      = end_epoch p - max e (start_epoch p)"
    using assms(4,5) p by (auto simp: paid_to_def max_def)
  have "0 \<le> end_epoch p - max e (start_epoch p)" using assms(5) p(2) by simp
  with split have "max 0 (e - max (start_epoch p) (last_updated_epoch s)) \<le> end_epoch p - paid_to p (Some s)" by linarith
  then have x: "0 \<le> ?x" "?x \<le> l_fee ?l" using price by (auto intro: mult_left_mono)
  from pay_ok [OF assms(1,2) lock_of_simps(1,2) x]
  obtain st1 where st1: "pay p ?x st = (Inr (), st1)" "books (D(i \<mapsto> ?l1)) st1" "ledger_only st st1"
    "bt_total (escrow_table st1) = bt_total (escrow_table st)" by blast
  have fee: "l_fee ?l1 = storage_price_per_epoch p * (end_epoch p - max e (start_epoch p))"
    using split by (simp flip: right_diff_distrib)
  have "(D(i \<mapsto> ?l1)) i = Some ?l1" by simp
  from unlock_and_slash_ok [OF st1(2) this _ _ _ _ fee p(1)] assms(5)
  obtain st2 where "unlock_and_slash p e st1 = (Inr (l_fee ?l1, provider_collateral p), st2)"
    "books (D(i := None)) st2" "ledger_only st1 st2"
    "bt_total (escrow_table st2) = bt_total (escrow_table st1) - provider_collateral p"
    by (auto simp del: fun_upd_apply)
  with st1 ledger_only_trans [OF st1(3)] assms(5) show ?thesis
    by (simp add: process_slashed_deal_def)
qed

subsection \<open>Updating an active deal\<close>

lemma expired_ok:
  assumes "books D st" and "D i = Some l" and "l_client l = client p" and "l_provider l = provider p"
    and "l_ccol l = client_collateral p" and "l_pcol l = provider_collateral p" and "l_fee l = 0"
    and "sector_start_epoch s \<noteq> EPOCH_UNDEFINED"
  shows "\<exists>st'. process_deal_expired p s st = (Inr (), st') \<and> books (D(i := None)) st' \<and> ledger_only st st'
    \<and> escrow_table st' = escrow_table st"
proof -
  let ?l1 = "l\<lparr>l_pcol := 0\<rparr>" let ?l2 = "?l1\<lparr>l_ccol := 0\<rparr>"
  have nn: "0 \<le> l_ccol l" "0 \<le> l_pcol l" using assms(1,2) by (auto simp: books_def ledger_def)
  from books_unlock_ok [OF assms(1,2) nn(2), of ProviderCollateral "provider p"] assms(4,6)
  obtain st1 where st1: "unlock_balance (provider p) (provider_collateral p) ProviderCollateral st = (Inr (), st1)"
    "books (D(i \<mapsto> ?l1)) st1" "ledger_only st st1" "escrow_table st1 = escrow_table st" by auto
  have "(D(i \<mapsto> ?l1)) i = Some ?l1" by simp
  from books_unlock_ok [OF st1(2) this nn(1), of ClientCollateral "client p"] assms(3,5)
  obtain st2 where st2: "unlock_balance (client p) (client_collateral p) ClientCollateral st1 = (Inr (), st2)"
    "books (D(i \<mapsto> ?l2)) st2" "ledger_only st1 st2" "escrow_table st2 = escrow_table st1" by (auto simp del: fun_upd_apply)
  have i2: "(D(i \<mapsto> ?l2)) i = Some ?l2" by simp
  have "books ((D(i \<mapsto> ?l2))(i := None)) st2" by (rule books_drop [OF st2(2) i2]) (simp_all add: assms(7))
  then show ?thesis
    using assms(8) st1 st2 ledger_only_trans [OF st1(3) st2(3)] by (simp add: process_deal_expired_def)
qed

definition unpend :: "deal_state \<Rightarrow> cid \<Rightarrow> market_state \<Rightarrow> market_state" where
  "unpend s dcid st = (if last_updated_epoch s \<noteq> EPOCH_UNDEFINED then st else snd (remove_pending_deal dcid st))"

lemma unpend_keeps:
  "proposals (unpend s c st) = proposals st" "states (unpend s c st) = states st" "next_id (unpend s c st) = next_id st"
  "escrow_table (unpend s c st) = escrow_table st" "locked_table (unpend s c st) = locked_table st"
  "books D (unpend s c st) = books D st"
  by (simp_all add: unpend_def remove_pending_deal_def books_def ledger_def covered_def split: prod.split)

lemma process_update_ok:
  assumes b: "books D st" and D: "D i = Some (lock_of p (Some s))" and ok: "deal_ok p (Some s)"
    and e: "0 \<le> e" "last_updated_epoch s \<le> e"
    and x: "x = (if e < start_epoch p then 0
                 else storage_price_per_epoch p * (min (end_epoch p) e - paid_to p (Some s)))"
    and fin: "fin = (end_epoch p \<le> e)"
  shows "\<exists>st'. process_deal_update s p dcid e st = (Inr (0, x, fin, fin), st')
    \<and> books (if fin then D(i := None) else D(i \<mapsto> lock_of p (Some (s\<lparr>last_updated_epoch := e\<rparr>)))) st'
    \<and> ledger_only (unpend s dcid st) st' \<and> bt_total (escrow_table st') = bt_total (escrow_table st)
    \<and> (\<forall>a. bt_get (escrow_table st') a = bt_get (escrow_table st) a
          - (if a = client p then x else 0) + (if a = provider p then x else 0))"
proof -
  let ?st1 = "unpend s dcid st" let ?l = "lock_of p (Some s)"
  have p: "start_epoch p < end_epoch p" "0 \<le> start_epoch p" "0 \<le> storage_price_per_epoch p"
    "slash_epoch s = EPOCH_UNDEFINED" "sector_start_epoch s \<noteq> EPOCH_UNDEFINED" "last_updated_epoch s < end_epoch p"
    using ok by (auto simp: deal_ok_def proposal_ok_def)
  have b1: "books D ?st1" using b by (simp add: unpend_keeps)
  show ?thesis
  proof (cases "e < start_epoch p")
    case True
    then have "lock_of p (Some (s\<lparr>last_updated_epoch := e\<rparr>)) = ?l"
      using e by (simp add: lock_of_def paid_to_def max_def)
    then have "D(i \<mapsto> lock_of p (Some (s\<lparr>last_updated_epoch := e\<rparr>))) = D" using D by auto
    moreover have "process_deal_update s p dcid e st = (Inr (0, 0, False, False), ?st1)"
      using True e by (simp add: process_deal_update_def unpend_def Let_def)
    ultimately show ?thesis using True b1 p(1) x fin by (simp add: unpend_keeps)
  next
    case False
    have start: "(if last_updated_epoch s \<noteq> EPOCH_UNDEFINED \<and> start_epoch p < last_updated_epoch s
        then last_updated_epoch s else start_epoch p) = paid_to p (Some s)"
      using p(2) by (auto simp: paid_to_def EPOCH_UNDEFINED_def max_def)
    have rng: "paid_to p (Some s) \<le> min (end_epoch p) e" using False e p by (simp add: paid_to_def)
    have x': "x = storage_price_per_epoch p * (min (end_epoch p) e - paid_to p (Some s))" using x False by simp
    have "0 \<le> x" "x \<le> l_fee ?l" using p(3) rng by (auto simp: x' intro: mult_left_mono)
    from pay_ok [OF b1 D lock_of_simps(1,2) this] obtain st2 where
      st2: "pay p x ?st1 = (Inr (), st2)" "books (D(i \<mapsto> ?l\<lparr>l_fee := l_fee ?l - x\<rparr>)) st2" "ledger_only ?st1 st2"
      "bt_total (escrow_table st2) = bt_total (escrow_table st)"
      "\<forall>a. bt_get (escrow_table st2) a = bt_get (escrow_table st) a
          - (if a = client p then x else 0) + (if a = provider p then x else 0)"
      by (auto simp: unpend_keeps)
    have run: "process_deal_update s p dcid e st =
        (if fin then s_bind (process_deal_expired p s st2) (\<lambda>_ st3. (Inr (0, x, True, True), st3))
         else (Inr (0, x, False, False), st2))"
      using st2(1) False e p(4) start
      by (simp add: process_deal_update_def Let_def x' fin flip: unpend_def)
    show ?thesis
    proof (cases fin)
      case True
      let ?l1 = "?l\<lparr>l_fee := l_fee ?l - x\<rparr>"
      have i1: "(D(i \<mapsto> ?l1)) i = Some ?l1" by simp
      have "l_fee ?l1 = 0" using True fin by (simp add: x')
      from expired_ok [OF st2(2) i1 _ _ _ _ this p(5), of p]
      obtain st3 where "process_deal_expired p s st2 = (Inr (), st3)" "books (D(i := None)) st3"
        "ledger_only st2 st3" "escrow_table st3 = escrow_table st2" by (auto simp del: fun_upd_apply)
      then show ?thesis
        using run True st2(4,5) ledger_only_trans [OF st2(3)] by (auto simp del: fun_upd_apply)
    next
      case False
      then have "min (end_epoch p) e = e" using fin by simp
      moreover have "paid_to p (Some (s\<lparr>last_updated_epoch := e\<rparr>)) = e"
        using \<open>\<not> e < start_epoch p\<close> by (simp add: paid_to_def)
      ultimately have "?l\<lparr>l_fee := l_fee ?l - x\<rparr> = lock_of p (Some (s\<lparr>last_updated_epoch := e\<rparr>))"
        by (simp add: lock_of_def x' flip: right_diff_distrib)
      then show ?thesis using run False st2 by (simp del: fun_upd_apply)
    qed
  qed
qed

lemma process_update_future:
  "last_updated_epoch s \<noteq> EPOCH_UNDEFINED \<Longrightarrow> e < last_updated_epoch s \<Longrightarrow>
   process_deal_update s p dcid e st = (Inl illegal_state, st)"
  by (simp add: process_deal_update_def)

end
