(* ===== verification/Market.thy ===== *)
theory Market
  imports MarketState
begin

text \<open>
  The storage market actor: \<open>actors/market/src/lib.rs\<close> (every method and the dispatch) on the state of
  \<open>MarketState\<close>.

  Parameters (\<open>market_prims\<close>) are the code outside the repository: the serialisation and the identifier
  of proposals, the validity of piece sizes and of piece commitments, the sizes of sectors, the
  commitment to the data of a sector, the hash that numbers the exported methods, the circulating
  supply, and the decoding of replies. Events are left out except for the addresses they unwrap. A
  bitfield parameter is a list, iterated in ascending order without repetitions.
\<close>

section \<open>Parameters\<close>

record alloc_request =
  ar_provider :: actor_id
  ar_data :: cid
  ar_size :: int
  ar_term_min :: int
  ar_term_max :: int
  ar_expiration :: int

datatype market_params =
    IsControllingAddress address
  | AuthenticateMessage bytes bytes
  | BalanceOf address
  | TransferFrom address address int "alloc_request list"
  | NotifyDeal bytes deal_id

record market_prims =
  mk_policy :: market_policy
  mk_circ_supply :: int
  mk_method_hash :: "string \<Rightarrow> method_num"
  mk_serialize :: "deal_proposal \<Rightarrow> bytes result"
  mk_proposal_cid :: "bytes \<Rightarrow> cid result"
  mk_piece_cids :: piece_cid_constants
  mk_cid_parts :: "cid \<Rightarrow> cid_parts"
  mk_piece_size_ok :: "int \<Rightarrow> bool"
  mk_sector_size :: "nat \<Rightarrow> int option"
  mk_unsealed_cid :: "nat \<Rightarrow> (cid \<times> int) list \<Rightarrow> cid anyhow"
  mk_deal_id :: "bytes \<Rightarrow> deal_id result"
  mk_control_addrs :: "bytes option \<Rightarrow> (address \<times> address \<times> address list) result"
  mk_is_controlling :: "bytes option \<Rightarrow> bool result"
  mk_baseline_power :: "bytes option \<Rightarrow> int result"
  mk_network_power :: "bytes option \<Rightarrow> (int \<times> int) result"
  mk_authenticated :: "bytes option \<Rightarrow> bool result"
  mk_datacap :: "bytes \<Rightarrow> int result"
  mk_alloc_ids :: "bytes \<Rightarrow> alloc_id list result"

type_synonym market_vm = "(market_state, market_params) vm"
type_synonym market_send = "(market_state, market_params) sender"

definition NO_ALLOCATION_ID :: alloc_id where "NO_ALLOCATION_ID = 0"
definition CONTROL_ADDRESSES_METHOD :: method_num where "CONTROL_ADDRESSES_METHOD = 2"
definition THIS_EPOCH_REWARD_METHOD :: method_num where "THIS_EPOCH_REWARD_METHOD = 3"
definition CURRENT_TOTAL_POWER_METHOD :: method_num where "CURRENT_TOTAL_POWER_METHOD = 9"

text \<open>The bits of a bitfield, a cast to \<open>i64\<close>.\<close>

definition bits :: "nat list \<Rightarrow> nat list" where
  "bits xs = remdups_adj (sort xs)"

definition as_i64 :: "int \<Rightarrow> int" where
  "as_i64 n = (n + 2 ^ 63) mod 2 ^ 64 - 2 ^ 63"

definition emit_parties :: "deal_proposal \<Rightarrow> unit result" where
  "emit_parties p = r_bind (addr_id (client p)) (\<lambda>_. r_bind (addr_id (provider p)) (\<lambda>_. Inr ()))"

definition deal_cid :: "market_prims \<Rightarrow> deal_proposal \<Rightarrow> cid result" where
  "deal_cid P p = r_bind (mk_serialize P p) (mk_proposal_cid P)"

text \<open>
  \<open>next_update_epoch\<close>: the first epoch no sooner than \<open>earliest\<close> at the offset of the deal; a zero
  interval panics.
\<close>

definition next_update_epoch :: "deal_id \<Rightarrow> int \<Rightarrow> int \<Rightarrow> int result" where
  "next_update_epoch i interval earliest =
     ensure (interval \<noteq> 0) Panic
       (let offset = as_i64 (int i) smod interval;
            remainder = (earliest - offset) smod interval;
            quotient = (earliest - offset) sdiv interval
        in Inr (if remainder = 0 \<or> earliest - offset < 0 then interval * quotient + offset
                else interval * (quotient + 1) + offset))"

section \<open>Balances\<close>

definition market_constructor :: "ctx \<Rightarrow> market_state result" where
  "market_constructor c = r_bind (validate_immediate_caller_is c [SYSTEM_ACTOR_ADDR]) (\<lambda>_. Inr market_state_new)"

definition request_miner_control_addrs ::
  "market_prims \<Rightarrow> market_send \<Rightarrow> nat \<Rightarrow> actor_id \<Rightarrow> market_vm \<Rightarrow>
   ((address \<times> address \<times> address list) \<times> market_vm) result" where
  "request_miner_control_addrs P send k miner v =
     r_bind (send_or_fail (send k) (send_simple (ID miner) CONTROL_ADDRESSES_METHOD None 0) v)
       (\<lambda>(d, v'). r_bind (mk_control_addrs P d) (\<lambda>addrs. Inr (addrs, v')))"

definition escrow_address ::
  "market_prims \<Rightarrow> market_send \<Rightarrow> nat \<Rightarrow> address \<Rightarrow> market_vm \<Rightarrow>
   ((address \<times> address \<times> address list) \<times> market_vm) result" where
  "escrow_address P send k a v =
     (case resolve_address v a of
        None \<Rightarrow> Inl illegal_argument
      | Some nominal \<Rightarrow>
          (case get_actor_code_cid v nominal of
             None \<Rightarrow> Inl illegal_argument
           | Some code \<Rightarrow>
               if resolve_builtin_actor_type v code = Some Miner then
                 r_bind (request_miner_control_addrs P send k nominal v) (\<lambda>((owner, worker, _), v').
                 Inr ((ID nominal, owner, [owner, worker]), v'))
               else Inr ((ID nominal, ID nominal, [ID nominal]), v)))"

definition add_balance ::
  "market_prims \<Rightarrow> market_send \<Rightarrow> ctx \<Rightarrow> address \<Rightarrow> market_vm \<Rightarrow> (unit \<times> market_vm) result" where
  "add_balance P send c a v =
     ensure (\<not> value_received c \<le> 0) illegal_argument
       (r_bind (escrow_address P send 0 a v) (\<lambda>((nominal, _, _), v1).
        transaction v1 (add_balance_to_escrow_table nominal (value_received c))))"

definition withdraw_balance ::
  "market_prims \<Rightarrow> market_send \<Rightarrow> ctx \<Rightarrow> address \<Rightarrow> int \<Rightarrow> market_vm \<Rightarrow> (int \<times> market_vm) result" where
  "withdraw_balance P send c a amount v =
     ensure (\<not> amount < 0) illegal_argument
       (r_bind (escrow_address P send 0 a v) (\<lambda>((nominal, recipient, approved), v1).
        r_bind (validate_immediate_caller_is c approved) (\<lambda>_.
        r_bind (transaction v1 (withdraw_balance_from_escrow_table nominal amount)) (\<lambda>(ex, v2).
        r_bind (send_or_fail (send 1) (send_simple recipient METHOD_SEND None ex) v2) (\<lambda>(_, v3).
        Inr (ex, v3))))))"

definition get_balance :: "address \<Rightarrow> market_vm \<Rightarrow> (int \<times> int) result" where
  "get_balance a v =
     (case resolve_address v a of
        None \<Rightarrow> Inl illegal_argument
      | Some nominal \<Rightarrow>
          Inr (bt_get (escrow_table (vm_state v)) (ID nominal), bt_get (locked_table (vm_state v)) (ID nominal)))"

section \<open>Publishing deals\<close>

text \<open>Authentication of a proposal by its client, a read-only call.\<close>

definition deal_proposal_is_internally_valid ::
  "market_prims \<Rightarrow> market_send \<Rightarrow> nat \<Rightarrow> client_deal_proposal \<Rightarrow> market_vm \<Rightarrow> unit result \<times> market_vm" where
  "deal_proposal_is_internally_valid P send k d v =
     (case mk_serialize P (cd_proposal d) of
        Inl e \<Rightarrow> (Inl e, v)
      | Inr raw \<Rightarrow>
          (case send k \<lparr>req_to = client (cd_proposal d), req_method = mk_method_hash P ''AuthenticateMessage'',
                        req_params = Some (AuthenticateMessage (cd_signature d) raw), req_value = 0,
                        req_read_only = True\<rparr> v of
             (r, v') \<Rightarrow>
               (r_bind (extract_send_result r) (\<lambda>x.
                r_bind (mk_authenticated P x) (\<lambda>ok. ensure ok illegal_argument (Inr ()))), v')))"

definition validate_terms :: "market_prims \<Rightarrow> int \<Rightarrow> int \<Rightarrow> int \<Rightarrow> deal_proposal \<Rightarrow> unit result" where
  "validate_terms P epoch raw_power baseline p =
     ensure (\<not> DEAL_MAX_LABEL_SIZE < label_len (label p)) illegal_argument
    (ensure (mk_piece_size_ok P (piece_size p)) illegal_argument
    (ensure (is_piece_cid (mk_piece_cids P) (mk_cid_parts P (piece_cid p))) illegal_argument
    (ensure (\<not> end_epoch p \<le> start_epoch p) illegal_argument
    (ensure (\<not> start_epoch p < epoch) illegal_argument
    (let (min_dur, max_dur) = deal_duration_bounds (piece_size p)
     in ensure (\<not> (duration p < min_dur \<or> max_dur < duration p)) illegal_argument
    (let (min_price, max_price) = deal_price_per_epoch_bounds (piece_size p) (duration p)
     in ensure (\<not> (storage_price_per_epoch p < min_price \<or> max_price < storage_price_per_epoch p)) illegal_argument
    (r_bind (deal_provider_collateral_bounds (mk_policy P) (piece_size p) raw_power baseline (mk_circ_supply P))
       (\<lambda>(min_pcol, max_pcol).
     ensure (\<not> (provider_collateral p < min_pcol \<or> max_pcol < provider_collateral p)) illegal_argument
    (let (min_ccol, max_ccol) = deal_client_collateral_bounds (piece_size p) (duration p)
     in ensure (\<not> (client_collateral p < min_ccol \<or> max_ccol < client_collateral p)) illegal_argument
       (Inr ()))))))))))"

definition validate_deal ::
  "market_prims \<Rightarrow> market_send \<Rightarrow> nat \<Rightarrow> ctx \<Rightarrow> int \<Rightarrow> int \<Rightarrow> client_deal_proposal \<Rightarrow> market_vm \<Rightarrow> unit result \<times> market_vm" where
  "validate_deal P send k c raw_power baseline d v =
     s_bind (deal_proposal_is_internally_valid P send k d v) (\<lambda>_ v'.
     (validate_terms P (curr_epoch c) raw_power baseline (cd_proposal d), v'))"

text \<open>The validity index: an error makes a deal invalid, a panic aborts.\<close>

fun validate_deals ::
  "market_prims \<Rightarrow> market_send \<Rightarrow> nat \<Rightarrow> ctx \<Rightarrow> int \<Rightarrow> int \<Rightarrow> client_deal_proposal list \<Rightarrow> market_vm \<Rightarrow>
   (bool list \<times> market_vm) result" where
  "validate_deals P send k c raw_power baseline [] v = Inr ([], v)"
| "validate_deals P send k c raw_power baseline (d # ds) v =
     (case validate_deal P send k c raw_power baseline d v of
        (Inl Panic, _) \<Rightarrow> Inl Panic
      | (r, v') \<Rightarrow>
          r_bind (validate_deals P send (Suc k) c raw_power baseline ds v') (\<lambda>(vs, v'').
          Inr ((case r of Inr _ \<Rightarrow> True | Inl _ \<Rightarrow> False) # vs, v'')))"

definition alloc_request_for_deal :: "market_policy \<Rightarrow> int \<Rightarrow> deal_proposal \<Rightarrow> alloc_request result" where
  "alloc_request_for_deal pol epoch p =
     (let alloc_term_min = end_epoch p - start_epoch p;
          alloc_term_max = min (alloc_term_min + market_default_allocation_term_buffer pol)
                               (maximum_verified_allocation_term pol);
          alloc_expiration = min (start_epoch p) (epoch + maximum_verified_allocation_expiration pol)
      in r_bind (addr_id (provider p)) (\<lambda>pr.
         Inr \<lparr>ar_provider = pr, ar_data = piece_cid p, ar_size = piece_size p, ar_term_min = alloc_term_min,
              ar_term_max = alloc_term_max, ar_expiration = alloc_expiration\<rparr>))"

definition balance_of ::
  "market_prims \<Rightarrow> market_send \<Rightarrow> nat \<Rightarrow> address \<Rightarrow> market_vm \<Rightarrow> (int \<times> market_vm) result" where
  "balance_of P send k owner v =
     r_bind (send_or_fail (send k)
               (send_simple DATACAP_TOKEN_ACTOR_ADDR (mk_method_hash P ''Balance'') (Some (BalanceOf owner)) 0) v)
       (\<lambda>(d, v'). case d of
          None \<Rightarrow> Inl (ActorError USR_ASSERTION_FAILED None)
        | Some raw \<Rightarrow> r_bind (mk_datacap P raw) (\<lambda>x. Inr (x, v')))"

record valid_deal =
  vd_proposal :: deal_proposal
  vd_serialized :: bytes
  vd_cid :: cid

text \<open>What the loop over the proposals accumulates.\<close>

record publish_acc =
  pa_valid :: "valid_deal list"
  pa_cids :: "cid list"
  pa_client_lockup :: "int amt"
  pa_datacap :: "int amt"
  pa_alloc_reqs :: "(cid \<times> alloc_request) list amt"
  pa_provider_lockup :: int
  pa_valid_bf :: "nat list"

definition publish_acc_init :: publish_acc where
  "publish_acc_init =
     \<lparr>pa_valid = [], pa_cids = [], pa_client_lockup = [], pa_datacap = [], pa_alloc_reqs = [],
      pa_provider_lockup = 0, pa_valid_bf = []\<rparr>"

definition accept_deal ::
  "nat \<Rightarrow> actor_id \<Rightarrow> int \<Rightarrow> int \<Rightarrow> valid_deal \<Rightarrow> publish_acc \<Rightarrow> publish_acc" where
  "accept_deal di client_id client_lockup provider_lockup vd acc =
     acc\<lparr>pa_provider_lockup := provider_lockup,
         pa_client_lockup := amt_set client_id client_lockup (pa_client_lockup acc),
         pa_cids := pa_cids acc @ [vd_cid vd], pa_valid := pa_valid acc @ [vd],
         pa_valid_bf := pa_valid_bf acc @ [di]\<rparr>"

text \<open>Datacap for a verified deal: \<open>None\<close> drops the deal for want of datacap.\<close>

definition reserve_datacap ::
  "market_prims \<Rightarrow> market_send \<Rightarrow> nat \<Rightarrow> int \<Rightarrow> actor_id \<Rightarrow> valid_deal \<Rightarrow> publish_acc \<times> market_vm \<Rightarrow>
   (bool \<times> publish_acc \<times> market_vm) result" where
  "reserve_datacap P send k epoch client_id vd = (\<lambda>(acc, v).
     r_bind (case amt_get (pa_datacap acc) client_id of
               Some x \<Rightarrow> Inr (x, v)
             | None \<Rightarrow> set_code USR_NOT_FOUND (balance_of P send k (ID client_id) v))
       (\<lambda>(remaining, v').
     let required = as_i64 (piece_size (vd_proposal vd)) * 10 ^ 18
     in if remaining < required then Inr (False, acc\<lparr>pa_datacap := amt_set client_id remaining (pa_datacap acc)\<rparr>, v')
        else
          r_bind (alloc_request_for_deal (mk_policy P) epoch (vd_proposal vd)) (\<lambda>req.
          let reqs = (case amt_get (pa_alloc_reqs acc) client_id of Some rs \<Rightarrow> rs | None \<Rightarrow> [])
          in Inr (True, acc\<lparr>pa_datacap := amt_set client_id (remaining - required) (pa_datacap acc),
                       pa_alloc_reqs := amt_set client_id (reqs @ [(vd_cid vd, req)]) (pa_alloc_reqs acc)\<rparr>, v'))))"

text \<open>A deal whose parties can pay joins the valid ones unless it is pending already or short of datacap.\<close>

definition admit_deal ::
  "market_prims \<Rightarrow> market_send \<Rightarrow> nat \<Rightarrow> int \<Rightarrow> market_state \<Rightarrow> nat \<Rightarrow> actor_id \<Rightarrow> int \<Rightarrow> int \<Rightarrow> valid_deal \<Rightarrow>
   publish_acc \<times> market_vm \<Rightarrow> (publish_acc \<times> market_vm) result" where
  "admit_deal P send k epoch st di client_id client_lockup provider_lockup vd = (\<lambda>(acc, v).
     if has_pending_deal (vd_cid vd) st \<or> vd_cid vd \<in> set (pa_cids acc) then Inr (acc, v)
     else if verified_deal (vd_proposal vd) then
       r_bind (reserve_datacap P send (k + di) epoch client_id vd (acc, v)) (\<lambda>(enough, acc', v').
       Inr (if enough then accept_deal di client_id client_lockup provider_lockup vd acc' else acc', v'))
     else Inr (accept_deal di client_id client_lockup provider_lockup vd acc, v))"

definition consider_deal ::
  "market_prims \<Rightarrow> market_send \<Rightarrow> nat \<Rightarrow> int \<Rightarrow> address \<Rightarrow> actor_id \<Rightarrow> market_state \<Rightarrow>
   nat \<times> bool \<times> client_deal_proposal \<Rightarrow> publish_acc \<times> market_vm \<Rightarrow> (publish_acc \<times> market_vm) result" where
  "consider_deal P send k epoch provider_raw provider_id st = (\<lambda>(di, valid, deal) (acc, v).
     let p = cd_proposal deal
     in if \<not> valid then Inr (acc, v)
        else if provider p \<noteq> ID provider_id \<and> provider p \<noteq> provider_raw then Inr (acc, v)
        else case resolve_address v (client p) of
          None \<Rightarrow> Inr (acc, v)
        | Some client_id \<Rightarrow>
            let client_lockup = (case amt_get (pa_client_lockup acc) client_id of Some x \<Rightarrow> x | None \<Rightarrow> 0)
                                + client_balance_requirement p;
                provider_lockup = pa_provider_lockup acc + provider_collateral p
            in if \<not> balance_covered (ID client_id) client_lockup st then Inr (acc, v)
               else if \<not> balance_covered (ID provider_id) provider_lockup st then Inr (acc, v)
               else
                 let p' = p\<lparr>provider := ID provider_id, client := ID client_id\<rparr>
                 in r_bind (set_code USR_SERIALIZATION (mk_serialize P p')) (\<lambda>serialized.
                    r_bind (set_code USR_ILLEGAL_ARGUMENT (mk_proposal_cid P serialized)) (\<lambda>pcid.
                    admit_deal P send k epoch st di client_id client_lockup provider_lockup
                      \<lparr>vd_proposal = p', vd_serialized = serialized, vd_cid = pcid\<rparr> (acc, v))))"

text \<open>One transfer of datacap per client, recording the allocation of each proposal.\<close>

definition datacap_transfer_request :: "address \<Rightarrow> alloc_request list \<Rightarrow> market_params result" where
  "datacap_transfer_request client_addr reqs =
     (let datacap_required = sum_list (map ar_size reqs)
      in ensure (datacap_required < 2 ^ 64) Panic
           (Inr (TransferFrom client_addr VERIFIED_REGISTRY_ACTOR_ADDR (datacap_required * 10 ^ 18) reqs)))"

definition transfer_from ::
  "market_prims \<Rightarrow> market_send \<Rightarrow> nat \<Rightarrow> market_params \<Rightarrow> market_vm \<Rightarrow> (alloc_id list \<times> market_vm) result" where
  "transfer_from P send k params v =
     r_bind (send_or_fail (send k)
               (send_simple DATACAP_TOKEN_ACTOR_ADDR (mk_method_hash P ''TransferFrom'') (Some params) 0) v)
       (\<lambda>(d, v'). case d of
          None \<Rightarrow> Inl (ActorError USR_ASSERTION_FAILED None)
        | Some raw \<Rightarrow> r_bind (mk_alloc_ids P raw) (\<lambda>ids. Inr (ids, v')))"

definition allocate_for_client ::
  "market_prims \<Rightarrow> market_send \<Rightarrow> nat \<Rightarrow> nat \<times> actor_id \<times> (cid \<times> alloc_request) list \<Rightarrow>
   (cid, alloc_id) map2 \<times> market_vm \<Rightarrow> ((cid, alloc_id) map2 \<times> market_vm) result" where
  "allocate_for_client P send k = (\<lambda>(j, client_id, cids_and_reqs) (ids, v).
     r_bind (datacap_transfer_request (ID client_id) (map snd cids_and_reqs)) (\<lambda>params.
     r_bind (set_code USR_ILLEGAL_STATE (transfer_from P send (k + j) params v)) (\<lambda>(alloc_ids, v').
     ensure (length alloc_ids = length cids_and_reqs) illegal_state
       (Inr (fold (\<lambda>((pcid, _), a). map2_put pcid a) (zip cids_and_reqs alloc_ids) ids, v')))))"

text \<open>What the transaction collects for the new deals, and the loop that locks their balances.\<close>

record new_deals =
  nd_pending :: "cid list"
  nd_proposals :: "(deal_id \<times> deal_proposal) list"
  nd_ops :: "(int \<times> deal_id) list"
  nd_allocs :: "(deal_id \<times> alloc_id) list"
  nd_ids :: "deal_id list"

definition record_deal ::
  "int \<Rightarrow> (cid, alloc_id) map2 \<Rightarrow> valid_deal \<Rightarrow> market_state \<times> new_deals \<Rightarrow> (market_state \<times> new_deals) result" where
  "record_deal interval alloc_ids vd = (\<lambda>(st, nd).
     r_bind (lock_client_and_provider_balances (vd_proposal vd) st) (\<lambda>st1.
     r_bind (generate_storage_deal_id st1) (\<lambda>(i, st2).
     r_bind (next_update_epoch i interval (start_epoch (vd_proposal vd))) (\<lambda>e.
     Inr (st2,
          \<lparr>nd_pending = nd_pending nd @ [vd_cid vd],
           nd_proposals = nd_proposals nd @ [(i, vd_proposal vd)],
           nd_ops = nd_ops nd @ [(e, i)],
           nd_allocs = nd_allocs nd @ (case map2_get alloc_ids (vd_cid vd) of Some a \<Rightarrow> [(i, a)] | None \<Rightarrow> []),
           nd_ids = nd_ids nd @ [i]\<rparr>)))))"

definition record_deals ::
  "int \<Rightarrow> (cid, alloc_id) map2 \<Rightarrow> valid_deal list \<Rightarrow> market_state \<Rightarrow> (deal_id list \<times> market_state) result" where
  "record_deals interval alloc_ids vds st =
     r_bind (r_fold (record_deal interval alloc_ids) vds
               (st, \<lparr>nd_pending = [], nd_proposals = [], nd_ops = [], nd_allocs = [], nd_ids = []\<rparr>))
       (\<lambda>(st1, nd).
     Inr (nd_ids nd,
          put_deals_by_epoch (nd_ops nd)
         (put_pending_deal_allocation_ids (nd_allocs nd)
         (put_deal_proposals (nd_proposals nd)
         (put_pending_deals (nd_pending nd) st1)))))"

definition notify_client ::
  "market_prims \<Rightarrow> market_send \<Rightarrow> nat \<Rightarrow> nat \<times> valid_deal \<times> deal_id \<Rightarrow> market_vm \<Rightarrow> market_vm result" where
  "notify_client P send k = (\<lambda>(j, vd, i) v.
     r_bind (set_code USR_ILLEGAL_ARGUMENT
               (send_or_fail (send (k + j))
                  (send_simple (client (vd_proposal vd)) (mk_method_hash P ''MarketNotifyDeal'')
                     (Some (NotifyDeal (vd_serialized vd) i)) 0) v))
       (\<lambda>(_, v'). r_bind (emit_parties (vd_proposal vd)) (\<lambda>_. Inr v')))"

text \<open>The method once the caller controls the provider and the network's power is known.\<close>

definition publish_deals_of ::
  "market_prims \<Rightarrow> market_send \<Rightarrow> ctx \<Rightarrow> client_deal_proposal list \<Rightarrow> address \<Rightarrow> actor_id \<Rightarrow> int \<Rightarrow> int \<Rightarrow> market_vm \<Rightarrow>
   ((deal_id list \<times> nat list) \<times> market_vm) result" where
  "publish_deals_of P send c deals provider_raw provider_id raw_power baseline v =
    (let n = length deals
     in r_bind (validate_deals P send 3 c raw_power baseline deals v) (\<lambda>(validity, v1).
     r_bind (r_fold (consider_deal P send (3 + n) (curr_epoch c) provider_raw provider_id (vm_state v1))
               (enumerate 0 (zip validity deals)) (publish_acc_init, v1)) (\<lambda>(acc, v2).
     r_bind (r_fold (allocate_for_client P send (3 + 2 * n)) (enumerate 0 (pa_alloc_reqs acc)) (map2_empty, v2)) (\<lambda>(alloc_ids, v3).
     ensure (length (pa_valid_bf acc) = length (pa_valid acc)) illegal_state
    (ensure (pa_valid_bf acc \<noteq> []) illegal_argument
    (r_bind (transaction v3 (record_deals (deal_updates_interval (mk_policy P)) alloc_ids (pa_valid acc))) (\<lambda>(ids, v4).
     r_bind (r_fold (notify_client P send (3 + 3 * n)) (enumerate 0 (zip (pa_valid acc) ids)) v4) (\<lambda>v5.
     Inr ((ids, pa_valid_bf acc), v5)))))))))"

definition publish_storage_deals ::
  "market_prims \<Rightarrow> market_send \<Rightarrow> ctx \<Rightarrow> client_deal_proposal list \<Rightarrow> market_vm \<Rightarrow>
   ((deal_id list \<times> nat list) \<times> market_vm) result" where
  "publish_storage_deals P send c deals v =
     ensure (deals \<noteq> []) illegal_argument
    (let provider_raw = provider (cd_proposal (hd deals))
     in case resolve_address v provider_raw of
       None \<Rightarrow> Inl not_found
     | Some provider_id \<Rightarrow>
    (case get_actor_code_cid v provider_id of
       None \<Rightarrow> Inl not_found
     | Some code \<Rightarrow>
     ensure (resolve_builtin_actor_type v code = Some Miner) illegal_argument
    (r_bind (send_or_fail (send 0)
               (send_simple (ID provider_id) (mk_method_hash P ''IsControllingAddress'')
                  (Some (IsControllingAddress (caller c))) 0) v) (\<lambda>(d, v1).
     r_bind (mk_is_controlling P d) (\<lambda>is_controlling.
     ensure is_controlling forbidden
    (r_bind (send_or_fail (send 1) (send_simple REWARD_ACTOR_ADDR THIS_EPOCH_REWARD_METHOD None 0) v1) (\<lambda>(d, v2).
     r_bind (mk_baseline_power P d) (\<lambda>baseline.
     r_bind (send_or_fail (send 2) (send_simple STORAGE_POWER_ACTOR_ADDR CURRENT_TOTAL_POWER_METHOD None 0) v2) (\<lambda>(d, v3).
     r_bind (mk_network_power P d) (\<lambda>(raw_power, _).
     publish_deals_of P send c deals provider_raw provider_id raw_power baseline v3))))))))))"

section \<open>Activating deals\<close>

definition validate_deal_can_activate :: "deal_proposal \<Rightarrow> address \<Rightarrow> int \<Rightarrow> int \<Rightarrow> unit result" where
  "validate_deal_can_activate p miner sector_expiration epoch =
     ensure (provider p = miner) forbidden
    (ensure (\<not> start_epoch p < epoch) (ActorError EX_DEAL_EXPIRED None)
    (ensure (\<not> sector_expiration < end_epoch p) illegal_argument
    (Inr ())))"

fun get_proposals ::
  "deal_proposal amt \<Rightarrow> deal_id list \<Rightarrow> deal_id list \<Rightarrow> deal_id \<Rightarrow> (deal_id \<times> deal_proposal) list result" where
  "get_proposals props seen [] next = Inr []"
| "get_proposals props seen (i # is) next =
     ensure (i \<notin> set seen) illegal_argument
       (r_bind (get_proposal props i next) (\<lambda>p.
        r_bind (get_proposals props (i # seen) is next) (\<lambda>ps. Inr ((i, p) # ps))))"

definition compute_data_commitment :: "market_prims \<Rightarrow> nat \<Rightarrow> deal_proposal list \<Rightarrow> cid result" where
  "compute_data_commitment P sector_type ps =
     (case mk_unsealed_cid P sector_type (map (\<lambda>p. (piece_cid p, piece_size p)) ps) of
        Inr x \<Rightarrow> Inr x
      | Inl (Some e) \<Rightarrow> Inl e
      | Inl None \<Rightarrow> Inl illegal_argument)"

definition validate_deals_for_sector ::
  "(deal_id \<times> deal_proposal) list \<Rightarrow> address \<Rightarrow> int \<Rightarrow> int \<Rightarrow> int option \<Rightarrow> unit result" where
  "validate_deals_for_sector ps miner sector_expiry sector_activation sector_size =
     r_bind (r_fold (\<lambda>(i, p) (deal_space, verified_space).
               r_bind (validate_deal_can_activate p miner sector_expiry sector_activation) (\<lambda>_.
               Inr (if verified_deal p then (deal_space, verified_space + piece_size p)
                    else (deal_space + piece_size p, verified_space)))) ps (0, 0))
       (\<lambda>(deal_space, verified_space).
     case sector_size of
       None \<Rightarrow> Inr ()
     | Some sz \<Rightarrow> ensure (\<not> sz < deal_space + verified_space) illegal_argument (Inr ()))"

record sector_deals =
  sd_sector_number :: sector_num
  sd_sector_type :: nat
  sd_sector_expiry :: int
  sd_deal_ids :: "deal_id list"

definition verify_sector :: "market_prims \<Rightarrow> ctx \<Rightarrow> market_state \<Rightarrow> sector_deals \<Rightarrow> cid option list \<Rightarrow> cid option list result" where
  "verify_sector P c st sector out =
     r_bind (get_proposals (proposals st) [] (sd_deal_ids sector) (next_id st)) (\<lambda>ps.
     case mk_sector_size P (sd_sector_type sector) of
       None \<Rightarrow> Inl illegal_argument
     | Some sz \<Rightarrow>
         r_bind (validate_deals_for_sector ps (caller c) (sd_sector_expiry sector) (curr_epoch c) (Some sz)) (\<lambda>_.
         if sd_deal_ids sector = [] then Inr (out @ [None])
         else r_bind (compute_data_commitment P (sd_sector_type sector) (map snd ps)) (\<lambda>d. Inr (out @ [Some d]))))"

definition verify_deals_for_activation ::
  "market_prims \<Rightarrow> ctx \<Rightarrow> sector_deals list \<Rightarrow> market_vm \<Rightarrow> cid option list result" where
  "verify_deals_for_activation P c sectors v =
     r_bind (validate_immediate_caller_type c v [Miner]) (\<lambda>_.
     r_fold (verify_sector P c (vm_state v)) sectors [])"

text \<open>The outer error aborts the message, the inner one fails the deal only.\<close>

definition preactivate_deal ::
  "market_prims \<Rightarrow> market_state \<Rightarrow> deal_id \<Rightarrow> address \<Rightarrow> int \<Rightarrow> int \<Rightarrow> deal_proposal result result" where
  "preactivate_deal P st i miner sector_commitment epoch =
     (case get_proposal (proposals st) i (next_id st) of
        Inl e \<Rightarrow> if err_code e = USR_NOT_FOUND \<or> err_code e = EX_DEAL_EXPIRED then Inr (Inl e) else Inl e
      | Inr p \<Rightarrow>
          (case validate_deal_can_activate p miner sector_commitment epoch of
             Inl e \<Rightarrow> Inr (Inl e)
           | Inr _ \<Rightarrow>
               if find_deal_state st i \<noteq> None then Inr (Inl illegal_argument)
               else
                 r_bind (deal_cid P p) (\<lambda>dcid.
                 if \<not> has_pending_deal dcid st then Inr (Inl illegal_state) else Inr (Inr p))))"

record activated_deal =
  ad_client :: actor_id
  ad_allocation_id :: alloc_id
  ad_data :: cid
  ad_size :: int

record activation_acc =
  aa_states :: "(deal_id \<times> deal_state) list"
  aa_activated :: "deal_id list"
  aa_sectors :: "(sector_num \<times> deal_id list) list"
  aa_allocs :: "(deal_id, alloc_id) map2"

definition fresh_deal_state :: "sector_num \<Rightarrow> int \<Rightarrow> deal_state" where
  "fresh_deal_state sn epoch =
     \<lparr>sector_number = sn, sector_start_epoch = epoch, last_updated_epoch = EPOCH_UNDEFINED,
      slash_epoch = EPOCH_UNDEFINED\<rparr>"

text \<open>All deals of a sector are validated first; one that fails gives the exit code of the sector.\<close>

fun validate_sector_deals ::
  "market_prims \<Rightarrow> ctx \<Rightarrow> market_state \<Rightarrow> deal_id list \<Rightarrow> int \<Rightarrow> deal_id list \<Rightarrow> (exit_code + deal_proposal list) result" where
  "validate_sector_deals P c st activated expiry [] = Inr (Inr [])"
| "validate_sector_deals P c st activated expiry (i # is) =
     (if i \<in> set activated then Inr (Inl USR_ILLEGAL_ARGUMENT)
      else
        r_bind (preactivate_deal P st i (caller c) expiry (curr_epoch c)) (\<lambda>r.
        case r of
          Inl e \<Rightarrow> Inr (Inl (err_code e))
        | Inr p \<Rightarrow>
            r_bind (validate_sector_deals P c st activated expiry is) (\<lambda>rest.
            Inr (case rest of Inl code \<Rightarrow> Inl code | Inr ps \<Rightarrow> Inr (p # ps)))))"

definition activate_deal ::
  "ctx \<Rightarrow> sector_num \<Rightarrow> deal_id \<times> deal_proposal \<Rightarrow> activation_acc \<times> activated_deal list \<Rightarrow>
   (activation_acc \<times> activated_deal list) result" where
  "activate_deal c sn = (\<lambda>(i, p) (acc, out).
     case map2_delete i (aa_allocs acc) of
       (found, allocs) \<Rightarrow>
         r_bind (addr_id (client p)) (\<lambda>cl.
         Inr (acc\<lparr>aa_activated := i # aa_activated acc, aa_allocs := allocs,
                  aa_states := aa_states acc @ [(i, fresh_deal_state sn (curr_epoch c))]\<rparr>,
              out @ [\<lparr>ad_client = cl, ad_allocation_id = (case found of Some a \<Rightarrow> a | None \<Rightarrow> NO_ALLOCATION_ID),
                     ad_data = piece_cid p, ad_size = piece_size p\<rparr>])))"

type_synonym sector_activation = "activated_deal list \<times> cid option"

definition activate_sector ::
  "market_prims \<Rightarrow> ctx \<Rightarrow> bool \<Rightarrow> market_state \<Rightarrow> sector_deals \<Rightarrow>
   activation_acc \<times> batch_gen \<times> sector_activation list \<Rightarrow> (activation_acc \<times> batch_gen \<times> sector_activation list) result" where
  "activate_sector P c compute_cid st sector = (\<lambda>(acc, gen, acts).
     if \<not> distinct (sd_deal_ids sector) then Inr (acc, add_fail USR_ILLEGAL_ARGUMENT gen, acts)
     else
       r_bind (validate_sector_deals P c st (aa_activated acc) (sd_sector_expiry sector) (sd_deal_ids sector)) (\<lambda>r.
       case r of
         Inl code \<Rightarrow> Inr (acc, add_fail code gen, acts)
       | Inr ps \<Rightarrow>
           r_bind (r_fold (activate_deal c (sd_sector_number sector)) (zip (sd_deal_ids sector) ps) (acc, [])) (\<lambda>(acc', activated).
           r_bind (if compute_cid \<and> sd_deal_ids sector \<noteq> []
                   then r_bind (compute_data_commitment P (sd_sector_type sector) ps) (\<lambda>d. Inr (Some d))
                   else Inr None) (\<lambda>commd.
           r_bind (r_fold (\<lambda>p _. emit_parties p) ps ()) (\<lambda>_.
           Inr (acc'\<lparr>aa_sectors := aa_sectors acc' @ [(sd_sector_number sector, sd_deal_ids sector)]\<rparr>,
                add_success gen, acts @ [(activated, commd)]))))))"

definition activation_acc_init :: "market_state \<Rightarrow> activation_acc" where
  "activation_acc_init st =
     \<lparr>aa_states = [], aa_activated = [], aa_sectors = [], aa_allocs = pending_deal_allocation_ids st\<rparr>"

text \<open>The end of both activation transactions.\<close>

definition save_activations :: "actor_id \<Rightarrow> activation_acc \<Rightarrow> market_state \<Rightarrow> market_state" where
  "save_activations miner_id acc st =
     (put_sector_deal_ids miner_id (aa_sectors acc) (put_deal_states (aa_states acc) st))
       \<lparr>pending_deal_allocation_ids := aa_allocs acc\<rparr>"

definition batch_activate_deals ::
  "market_prims \<Rightarrow> ctx \<Rightarrow> sector_deals list \<Rightarrow> bool \<Rightarrow> market_vm \<Rightarrow>
   ((sector_activation list \<times> batch_return) \<times> market_vm) result" where
  "batch_activate_deals P c sectors compute_cid v =
     r_bind (validate_immediate_caller_type c v [Miner]) (\<lambda>_.
     transaction v (\<lambda>st.
       r_bind (r_fold (activate_sector P c compute_cid st) sectors
                 (activation_acc_init st, batch_gen_new (length sectors), [])) (\<lambda>(acc, gen, acts).
       r_bind (addr_id (caller c)) (\<lambda>miner_id.
       r_bind (generate gen) (\<lambda>batch.
       Inr ((acts, batch), save_activations miner_id acc st))))))"

record piece_change =
  pc_data :: cid
  pc_size :: int
  pc_payload :: bytes

record sector_changes =
  sc_sector :: sector_num
  sc_minimum_commitment_epoch :: int
  sc_added :: "piece_change list"

definition activate_piece ::
  "market_prims \<Rightarrow> ctx \<Rightarrow> market_state \<Rightarrow> sector_changes \<Rightarrow> piece_change \<Rightarrow>
   activation_acc \<times> deal_id list \<times> bool list \<Rightarrow> (activation_acc \<times> deal_id list \<times> bool list) result" where
  "activate_piece P c st sector piece = (\<lambda>(acc, ids, ret).
     case mk_deal_id P (pc_payload piece) of
       Inl e \<Rightarrow> Inr (acc, ids, ret @ [False])
     | Inr i \<Rightarrow>
         if i \<in> set (aa_activated acc) then Inr (acc, ids, ret @ [False])
         else
           r_bind (preactivate_deal P st i (caller c) (sc_minimum_commitment_epoch sector) (curr_epoch c)) (\<lambda>r.
           case r of
             Inl e \<Rightarrow> Inr (acc, ids, ret @ [False])
           | Inr p \<Rightarrow>
               if pc_data piece \<noteq> piece_cid p then Inr (acc, ids, ret @ [False])
               else if pc_size piece \<noteq> piece_size p then Inr (acc, ids, ret @ [False])
               else
                 r_bind (emit_parties p) (\<lambda>_.
                 Inr (acc\<lparr>aa_activated := i # aa_activated acc, aa_allocs := map2_remove i (aa_allocs acc),
                          aa_states := aa_states acc @ [(i, fresh_deal_state (sc_sector sector) (curr_epoch c))]\<rparr>,
                      ids @ [i], ret @ [True]))))"

definition change_sector ::
  "market_prims \<Rightarrow> ctx \<Rightarrow> market_state \<Rightarrow> sector_changes \<Rightarrow> activation_acc \<times> bool list list \<Rightarrow>
   (activation_acc \<times> bool list list) result" where
  "change_sector P c st sector = (\<lambda>(acc, rets).
     r_bind (r_fold (activate_piece P c st sector) (sc_added sector) (acc, [], [])) (\<lambda>(acc', ids, ret).
     Inr (acc'\<lparr>aa_sectors := aa_sectors acc' @ [(sc_sector sector, ids)]\<rparr>, rets @ [ret])))"

definition sector_content_changed ::
  "market_prims \<Rightarrow> ctx \<Rightarrow> sector_changes list \<Rightarrow> market_vm \<Rightarrow> (bool list list \<times> market_vm) result" where
  "sector_content_changed P c sectors v =
     r_bind (validate_immediate_caller_type c v [Miner]) (\<lambda>_.
     transaction v (\<lambda>st.
       r_bind (r_fold (change_sector P c st) sectors (activation_acc_init st, [])) (\<lambda>(acc, rets).
       r_bind (addr_id (caller c)) (\<lambda>miner_id.
       Inr (rets, save_activations miner_id acc st)))))"

section \<open>Termination\<close>

text \<open>
  The loop reads proposals and states as they were when the transaction began (\<open>props\<close>, \<open>sts\<close>) and
  changes the state.
\<close>

definition terminate_deal ::
  "market_prims \<Rightarrow> address \<Rightarrow> int \<Rightarrow> deal_proposal amt \<Rightarrow> deal_state amt \<Rightarrow> deal_id \<Rightarrow>
   int \<times> market_state \<Rightarrow> (int \<times> market_state) result" where
  "terminate_deal P miner epoch props sts i = (\<lambda>(slashed, st).
     case amt_get props i of
       None \<Rightarrow> Inr (slashed, st)
     | Some p \<Rightarrow>
         ensure (provider p = miner) illegal_state
        (if end_epoch p \<le> epoch then Inr (slashed, st)
         else case amt_get sts i of
           None \<Rightarrow> Inl illegal_argument
         | Some s \<Rightarrow>
             r_bind (if last_updated_epoch s = EPOCH_UNDEFINED
                     then r_bind (deal_cid P p) (\<lambda>dcid. Inr (snd (remove_pending_deal dcid st)))
                     else Inr st) (\<lambda>st1.
             r_bind (or_abort (process_slashed_deal p (s\<lparr>slash_epoch := epoch\<rparr>) st1)) (\<lambda>(amount, st2).
             r_bind (or_abort (remove_completed_deal i st2)) (\<lambda>(_, st3).
             r_bind (emit_parties p) (\<lambda>_. Inr (slashed + amount, st3)))))))"

definition terminate_deals ::
  "market_prims \<Rightarrow> address \<Rightarrow> actor_id \<Rightarrow> int \<Rightarrow> sector_num list \<Rightarrow> market_state \<Rightarrow> (int \<times> market_state) result" where
  "terminate_deals P miner miner_id epoch sectors st =
     (case pop_sector_deal_ids miner_id sectors st of
        (ids, st1) \<Rightarrow> r_fold (terminate_deal P miner epoch (proposals st) (states st)) ids (0, st1))"

definition burn :: "market_send \<Rightarrow> int \<Rightarrow> market_vm \<Rightarrow> (unit \<times> market_vm) result" where
  "burn send amount v =
     r_bind (send_or_fail (send 0) (send_simple BURNT_FUNDS_ACTOR_ADDR METHOD_SEND None amount) v) (\<lambda>(_, v'). Inr ((), v'))"

definition on_miner_sectors_terminate ::
  "market_prims \<Rightarrow> market_send \<Rightarrow> ctx \<Rightarrow> int \<Rightarrow> sector_num list \<Rightarrow> market_vm \<Rightarrow> (unit \<times> market_vm) result" where
  "on_miner_sectors_terminate P send c epoch sectors v =
     r_bind (validate_immediate_caller_type c v [Miner]) (\<lambda>_.
     r_bind (addr_id (caller c)) (\<lambda>miner_id.
     r_bind (transaction v (terminate_deals P (caller c) miner_id epoch (bits sectors))) (\<lambda>(burn_amount, v1).
     if 0 < burn_amount then burn send burn_amount v1 else Inr ((), v1))))"

section \<open>Cron\<close>

definition push_removal :: "actor_id \<Rightarrow> sector_num \<Rightarrow> deal_id \<Rightarrow> deal_id list amt amt \<Rightarrow> deal_id list amt amt" where
  "push_removal pr sn i m =
     (let inner = (case amt_get m pr of Some x \<Rightarrow> x | None \<Rightarrow> []);
          ds = (case amt_get inner sn of Some x \<Rightarrow> x | None \<Rightarrow> [])
      in amt_set pr (amt_set sn (ds @ [i]) inner) m)"

record cron_acc =
  ca_slashed :: int
  ca_removals :: "deal_id list amt amt"
  ca_updates :: "(int, deal_id list) map2"

definition push_update :: "int \<Rightarrow> deal_id \<Rightarrow> (int, deal_id list) map2 \<Rightarrow> (int, deal_id list) map2" where
  "push_update e i m = map2_put e ((case map2_get m e of Some x \<Rightarrow> x | None \<Rightarrow> []) @ [i]) m"

text \<open>A deal that was settled before: paid, and rescheduled or removed.\<close>

definition cron_update ::
  "market_prims \<Rightarrow> int \<Rightarrow> deal_id \<Rightarrow> deal_proposal \<Rightarrow> cid \<Rightarrow> deal_state \<Rightarrow> cron_acc \<times> market_state \<Rightarrow> (cron_acc \<times> market_state) result" where
  "cron_update P epoch i p dcid s = (\<lambda>(acc, st).
     r_bind (or_abort (process_deal_update s p dcid epoch st)) (\<lambda>((slash_amount, _, completed, remove_deal), st1).
     r_bind
       (if remove_deal then
          r_bind (or_abort (remove_completed_deal i st1)) (\<lambda>(_, st2).
          r_bind (addr_id (provider p)) (\<lambda>pr.
          r_bind (if completed then Inr () else emit_parties p) (\<lambda>_.
          Inr (acc\<lparr>ca_slashed := ca_slashed acc + slash_amount,
                   ca_removals := push_removal pr (sector_number s) i (ca_removals acc)\<rparr>, st2))))
        else
          ensure (slash_amount = 0) illegal_state
            (r_bind (next_update_epoch i (deal_updates_interval (mk_policy P)) (epoch + 1)) (\<lambda>e.
             Inr (acc\<lparr>ca_updates := push_update e i (ca_updates acc)\<rparr>,
                  put_deal_states [(i, s\<lparr>last_updated_epoch := epoch\<rparr>)] st1))))
       (\<lambda>(acc', st'). r_bind (if completed then emit_parties p else Inr ()) (\<lambda>_. Inr (acc', st')))))"

definition cron_deal ::
  "market_prims \<Rightarrow> int \<Rightarrow> deal_id \<Rightarrow> cron_acc \<times> market_state \<Rightarrow> (cron_acc \<times> market_state) result" where
  "cron_deal P epoch i = (\<lambda>(acc, st).
     case find_proposal st i of
       None \<Rightarrow> Inr (acc, st)
     | Some p \<Rightarrow>
         r_bind (deal_cid P p) (\<lambda>dcid.
         r_bind (or_abort (get_active_deal_or_process_timeout epoch i p dcid st)) (\<lambda>(loaded, st1).
         case loaded of
           TooEarly \<Rightarrow> Inl illegal_state
         | ProposalExpired penalty \<Rightarrow> Inr (acc\<lparr>ca_slashed := ca_slashed acc + penalty\<rparr>, st1)
         | Loaded s \<Rightarrow>
             if last_updated_epoch s = EPOCH_UNDEFINED then
               (case remove_pending_deal dcid st1 of
                  (None, _) \<Rightarrow> Inl illegal_state
                | (Some _, st2) \<Rightarrow> Inr (acc, st2))
             else cron_update P epoch i p dcid s (acc, st1))))"

definition cron_epoch ::
  "market_prims \<Rightarrow> int \<Rightarrow> int \<Rightarrow> cron_acc \<times> market_state \<Rightarrow> (cron_acc \<times> market_state) result" where
  "cron_epoch P epoch e = (\<lambda>(acc, st). r_fold (cron_deal P epoch) (get_deals_for_epoch e st) (acc, st))"

definition cron_transaction :: "market_prims \<Rightarrow> int \<Rightarrow> market_state \<Rightarrow> (int \<times> market_state) result" where
  "cron_transaction P epoch st =
     (let epochs = [last_cron st + 1 .. epoch]
      in r_bind (r_fold (cron_epoch P epoch) epochs (\<lparr>ca_slashed = 0, ca_removals = [], ca_updates = []\<rparr>, st))
           (\<lambda>(acc, st1).
         Inr (ca_slashed acc,
              (put_batch_deals_by_epoch (sort_key fst (ca_updates acc))
              (remove_deals_by_epoch epochs
              (remove_sector_deal_ids (ca_removals acc) st1)))\<lparr>last_cron := epoch\<rparr>)))"

definition cron_tick :: "market_prims \<Rightarrow> market_send \<Rightarrow> ctx \<Rightarrow> market_vm \<Rightarrow> (unit \<times> market_vm) result" where
  "cron_tick P send c v =
     r_bind (validate_immediate_caller_is c [CRON_ACTOR_ADDR]) (\<lambda>_.
     r_bind (transaction v (cron_transaction P (curr_epoch c))) (\<lambda>(slashed, v1).
     if slashed \<noteq> 0 then burn send slashed v1 else Inr ((), v1)))"

section \<open>Settling payments\<close>

record settle_acc =
  sa_gen :: batch_gen
  sa_settlements :: "(int \<times> bool) list"
  sa_slashed :: int
  sa_states :: "(deal_id \<times> deal_state) list"
  sa_removals :: "deal_id list amt amt"

definition settle_failed :: "exit_code \<Rightarrow> settle_acc \<Rightarrow> settle_acc" where
  "settle_failed code acc = acc\<lparr>sa_gen := add_fail code (sa_gen acc)\<rparr>"

definition settled :: "int \<Rightarrow> bool \<Rightarrow> settle_acc \<Rightarrow> settle_acc" where
  "settled payment completed acc =
     acc\<lparr>sa_settlements := sa_settlements acc @ [(payment, completed)], sa_gen := add_success (sa_gen acc)\<rparr>"

text \<open>An active deal. A failure of the update is recorded and the loop goes on with the state it left.\<close>

definition settle_active ::
  "int \<Rightarrow> deal_id \<Rightarrow> deal_proposal \<Rightarrow> cid \<Rightarrow> deal_state \<Rightarrow> settle_acc \<times> market_state \<Rightarrow> (settle_acc \<times> market_state) result" where
  "settle_active epoch i p dcid s = (\<lambda>(acc, st).
     ensure (slash_epoch s = EPOCH_UNDEFINED) illegal_argument
    (case process_deal_update s p dcid epoch st of
       (Inl Panic, st1) \<Rightarrow> Inl Panic
     | (Inl e, st1) \<Rightarrow> Inr (settle_failed (err_code e) acc, st1)
     | (Inr (_, payment, completed, remove_deal), st1) \<Rightarrow>
         r_bind
           (if remove_deal then
              r_bind (or_abort (remove_completed_deal i st1)) (\<lambda>(_, st2).
              r_bind (addr_id (provider p)) (\<lambda>pr.
              r_bind (if completed then Inr () else emit_parties p) (\<lambda>_.
              Inr (acc\<lparr>sa_removals := push_removal pr (sector_number s) i (sa_removals acc)\<rparr>, st2))))
            else Inr (acc\<lparr>sa_states := sa_states acc @ [(i, s\<lparr>last_updated_epoch := epoch\<rparr>)]\<rparr>, st1))
           (\<lambda>(acc', st').
         r_bind (if completed then emit_parties p else Inr ()) (\<lambda>_.
         Inr (settled payment remove_deal acc', st')))))"

definition settle_deal ::
  "market_prims \<Rightarrow> int \<Rightarrow> deal_id \<Rightarrow> settle_acc \<times> market_state \<Rightarrow> (settle_acc \<times> market_state) result" where
  "settle_deal P epoch i = (\<lambda>(acc, st).
     case get_proposal (proposals st) i (next_id st) of
       Inl e \<Rightarrow> Inr (settle_failed EX_DEAL_EXPIRED acc, st)
     | Inr p \<Rightarrow>
         (case deal_cid P p of
            Inl Panic \<Rightarrow> Inl Panic
          | Inl e \<Rightarrow> Inr (settle_failed (err_code e) acc, st)
          | Inr dcid \<Rightarrow>
              (case get_active_deal_or_process_timeout epoch i p dcid st of
                 (Inl Panic, st1) \<Rightarrow> Inl Panic
               | (Inl e, st1) \<Rightarrow> Inr (settle_failed (err_code e) acc, st1)
               | (Inr TooEarly, st1) \<Rightarrow> Inr (settled 0 False acc, st1)
               | (Inr (ProposalExpired penalty), st1) \<Rightarrow>
                   Inr (settle_failed EX_DEAL_EXPIRED (acc\<lparr>sa_slashed := sa_slashed acc + penalty\<rparr>), st1)
               | (Inr (Loaded s), st1) \<Rightarrow> settle_active epoch i p dcid s (acc, st1))))"

definition settle_transaction ::
  "market_prims \<Rightarrow> int \<Rightarrow> deal_id list \<Rightarrow> market_state \<Rightarrow> ((batch_gen \<times> (int \<times> bool) list \<times> int) \<times> market_state) result" where
  "settle_transaction P epoch ids st =
     r_bind (r_fold (settle_deal P epoch) ids
               (\<lparr>sa_gen = batch_gen_new (length ids), sa_settlements = [], sa_slashed = 0, sa_states = [],
                 sa_removals = []\<rparr>, st)) (\<lambda>(acc, st1).
     Inr ((sa_gen acc, sa_settlements acc, sa_slashed acc),
          remove_sector_deal_ids (sa_removals acc) (put_deal_states (sa_states acc) st1)))"

definition settle_deal_payments ::
  "market_prims \<Rightarrow> market_send \<Rightarrow> ctx \<Rightarrow> deal_id list \<Rightarrow> market_vm \<Rightarrow>
   ((batch_return \<times> (int \<times> bool) list) \<times> market_vm) result" where
  "settle_deal_payments P send c ids v =
     r_bind (transaction v (settle_transaction P (curr_epoch c) (bits ids))) (\<lambda>((gen, settlements, slashed), v1).
     r_bind (if slashed \<noteq> 0 then burn send slashed v1 else Inr ((), v1)) (\<lambda>(_, v2).
     r_bind (generate gen) (\<lambda>batch. Inr ((batch, settlements), v2))))"

section \<open>Queries and dispatch\<close>

datatype market_msg =
    AddBalance address | AddBalanceExported address
  | WithdrawBalance address int | WithdrawBalanceExported address int
  | PublishStorageDeals "client_deal_proposal list" | PublishStorageDealsExported "client_deal_proposal list"
  | VerifyDealsForActivation "sector_deals list"
  | BatchActivateDeals "sector_deals list" bool
  | OnMinerSectorsTerminate int "sector_num list"
  | CronTick
  | GetBalance address
  | GetDealDataCommitment deal_id | GetDealClient deal_id | GetDealProvider deal_id | GetDealLabel deal_id
  | GetDealTerm deal_id | GetDealTotalPrice deal_id | GetDealClientCollateral deal_id
  | GetDealProviderCollateral deal_id | GetDealVerified deal_id | GetDealActivation deal_id | GetDealSector deal_id
  | SettleDealPayments "deal_id list"
  | SectorContentChanged "sector_changes list"

datatype market_ret =
    MarketUnit
  | AmountReturn int
  | BalanceReturn int int
  | PublishReturn "deal_id list" "nat list"
  | VerifyReturn "cid option list"
  | ActivateReturn "sector_activation list" batch_return
  | SettleReturn batch_return "(int \<times> bool) list"
  | ContentReturn "bool list list"
  | CommitmentReturn cid int
  | PartyReturn actor_id
  | LabelReturn deal_label
  | TermReturn int int
  | VerifiedReturn bool
  | ActivationReturn int int
  | SectorReturn sector_num

text \<open>The queries of a proposal, and the two that read the state of a deal.\<close>

definition deal_query :: "market_state \<Rightarrow> deal_id \<Rightarrow> (deal_proposal \<Rightarrow> market_ret result) \<Rightarrow> market_ret result" where
  "deal_query st i f = r_bind (get_proposal (proposals st) i (next_id st)) f"

definition get_deal_activation :: "market_state \<Rightarrow> deal_id \<Rightarrow> market_ret result" where
  "get_deal_activation st i =
     (case find_deal_state st i of
        Some s \<Rightarrow>
          if slash_epoch s \<noteq> EPOCH_UNDEFINED then Inl (ActorError EX_DEAL_EXPIRED None)
          else Inr (ActivationReturn (sector_start_epoch s) (slash_epoch s))
      | None \<Rightarrow> deal_query st i (\<lambda>_. Inr (ActivationReturn EPOCH_UNDEFINED EPOCH_UNDEFINED)))"

definition get_deal_sector :: "market_state \<Rightarrow> deal_id \<Rightarrow> market_ret result" where
  "get_deal_sector st i =
     (case find_deal_state st i of
        Some s \<Rightarrow>
          if slash_epoch s \<noteq> EPOCH_UNDEFINED then Inl (ActorError EX_DEAL_EXPIRED None)
          else Inr (SectorReturn (sector_number s))
      | None \<Rightarrow> deal_query st i (\<lambda>_. Inl (ActorError EX_DEAL_NOT_ACTIVATED None)))"

fun market_read :: "market_msg \<Rightarrow> market_state \<Rightarrow> market_ret result" where
  "market_read (GetDealDataCommitment i) st = deal_query st i (\<lambda>p. Inr (CommitmentReturn (piece_cid p) (piece_size p)))"
| "market_read (GetDealClient i) st = deal_query st i (\<lambda>p. r_bind (addr_id (client p)) (\<lambda>a. Inr (PartyReturn a)))"
| "market_read (GetDealProvider i) st = deal_query st i (\<lambda>p. r_bind (addr_id (provider p)) (\<lambda>a. Inr (PartyReturn a)))"
| "market_read (GetDealLabel i) st = deal_query st i (\<lambda>p. Inr (LabelReturn (label p)))"
| "market_read (GetDealTerm i) st = deal_query st i (\<lambda>p. Inr (TermReturn (start_epoch p) (duration p)))"
| "market_read (GetDealTotalPrice i) st = deal_query st i (\<lambda>p. Inr (AmountReturn (total_storage_fee p)))"
| "market_read (GetDealClientCollateral i) st = deal_query st i (\<lambda>p. Inr (AmountReturn (client_collateral p)))"
| "market_read (GetDealProviderCollateral i) st = deal_query st i (\<lambda>p. Inr (AmountReturn (provider_collateral p)))"
| "market_read (GetDealVerified i) st = deal_query st i (\<lambda>p. Inr (VerifiedReturn (verified_deal p)))"
| "market_read (GetDealActivation i) st = get_deal_activation st i"
| "market_read (GetDealSector i) st = get_deal_sector st i"
| "market_read m st = Inl unhandled_message"

text \<open>The exported methods have hashed numbers from \<open>FIRST_EXPORTED_METHOD_NUMBER\<close> on.\<close>

fun market_method :: "market_msg \<Rightarrow> method_num" where
  "market_method (AddBalance a) = 2"
| "market_method (WithdrawBalance a x) = 3"
| "market_method (PublishStorageDeals ds) = 4"
| "market_method (VerifyDealsForActivation ss) = 5"
| "market_method (BatchActivateDeals ss b) = 6"
| "market_method (OnMinerSectorsTerminate e ss) = 7"
| "market_method CronTick = 9"
| "market_method m = FIRST_EXPORTED_METHOD_NUMBER"

definition market_dispatch ::
  "market_prims \<Rightarrow> (market_state, market_params, market_msg, market_ret) dispatch" where
  "market_dispatch P send c m v =
     r_bind (restrict_internal_api c v (market_method m)) (\<lambda>_.
     case m of
       AddBalance a \<Rightarrow> as_ret (\<lambda>_. MarketUnit) (add_balance P send c a v)
     | AddBalanceExported a \<Rightarrow> as_ret (\<lambda>_. MarketUnit) (add_balance P send c a v)
     | WithdrawBalance a x \<Rightarrow> as_ret AmountReturn (withdraw_balance P send c a x v)
     | WithdrawBalanceExported a x \<Rightarrow> as_ret AmountReturn (withdraw_balance P send c a x v)
     | PublishStorageDeals ds \<Rightarrow> as_ret (case_prod PublishReturn) (publish_storage_deals P send c ds v)
     | PublishStorageDealsExported ds \<Rightarrow> as_ret (case_prod PublishReturn) (publish_storage_deals P send c ds v)
     | VerifyDealsForActivation ss \<Rightarrow>
         r_bind (verify_deals_for_activation P c ss v) (\<lambda>r. Inr (VerifyReturn r, v))
     | BatchActivateDeals ss b \<Rightarrow> as_ret (case_prod ActivateReturn) (batch_activate_deals P c ss b v)
     | OnMinerSectorsTerminate e ss \<Rightarrow> as_ret (\<lambda>_. MarketUnit) (on_miner_sectors_terminate P send c e ss v)
     | CronTick \<Rightarrow> as_ret (\<lambda>_. MarketUnit) (cron_tick P send c v)
     | SettleDealPayments ids \<Rightarrow> as_ret (case_prod SettleReturn) (settle_deal_payments P send c ids v)
     | SectorContentChanged ss \<Rightarrow> as_ret ContentReturn (sector_content_changed P c ss v)
     | GetBalance a \<Rightarrow> r_bind (get_balance a v) (\<lambda>(b, l). Inr (BalanceReturn b l, v))
     | _ \<Rightarrow> r_bind (market_read m (vm_state v)) (\<lambda>r. Inr (r, v)))"

end
