(* ===== verification/MarketBooks.thy ===== *)
theory MarketBooks
  imports Market
begin

text \<open>
  The books of the storage market balance.

  The locks of the ledger are those of the stored deals (\<open>locks\<close>). The invariant \<open>market_inv\<close> says
  that the ledger agrees with them and that every stored deal is well formed. Every transaction of the
  actor keeps it; the lemmas also say what a transaction takes out of escrow.
\<close>

section \<open>The invariant\<close>

definition locks :: "market_state \<Rightarrow> deal_id \<rightharpoonup> lock" where
  "locks st = (\<lambda>i. map_option (\<lambda>p. lock_of p (amt_get (states st) i)) (amt_get (proposals st) i))"

definition deals_ok :: "market_state \<Rightarrow> bool" where
  "deals_ok st \<longleftrightarrow>
     (\<forall>i p. amt_get (proposals st) i = Some p \<longrightarrow> i < next_id st \<and> deal_ok p (amt_get (states st) i))
     \<and> (\<forall>i. amt_get (proposals st) i = None \<longrightarrow> amt_get (states st) i = None)"

definition market_inv :: "market_state \<Rightarrow> bool" where
  "market_inv st \<longleftrightarrow> books (locks st) st \<and> deals_ok st"

text \<open>Two states with the same deals and the same ledger.\<close>

definition same_books :: "market_state \<Rightarrow> market_state \<Rightarrow> bool" where
  "same_books st st' \<longleftrightarrow> proposals st' = proposals st \<and> states st' = states st \<and> next_id st' = next_id st
     \<and> escrow_table st' = escrow_table st \<and> locked_table st' = locked_table st
     \<and> total_client_locked_collateral st' = total_client_locked_collateral st
     \<and> total_provider_locked_collateral st' = total_provider_locked_collateral st
     \<and> total_client_storage_fee st' = total_client_storage_fee st"

lemma locks_cong: "proposals st' = proposals st \<Longrightarrow> states st' = states st \<Longrightarrow> locks st' = locks st"
  by (simp add: locks_def)

lemma deals_ok_cong:
  "proposals st' = proposals st \<Longrightarrow> states st' = states st \<Longrightarrow> next_id st' = next_id st \<Longrightarrow> deals_ok st' = deals_ok st"
  by (simp add: deals_ok_def)

lemma escrow_update [simp]:
  "locks (st\<lparr>escrow_table := t\<rparr>) = locks st" "deals_ok (st\<lparr>escrow_table := t\<rparr>) = deals_ok st"
  by (simp_all add: locks_def deals_ok_def)

lemma books_same: "same_books st st' \<Longrightarrow> books D st' = books D st"
  by (simp add: same_books_def books_def ledger_def covered_def)

lemma same_books_inv: "same_books st st' \<Longrightarrow> market_inv st \<Longrightarrow> market_inv st'"
  using books_same [of st st'] locks_cong [of st' st] deals_ok_cong [of st' st]
  by (simp add: same_books_def market_inv_def)

lemma same_books_refl [simp]: "same_books st st"
  by (simp add: same_books_def)

lemma same_books_trans: "same_books s t \<Longrightarrow> same_books t u \<Longrightarrow> same_books s u"
  by (simp add: same_books_def)

text \<open>The updates of the indices.\<close>

lemma index_updates [simp]:
  "same_books st (snd (remove_pending_deal c st))"
  "same_books st (put_pending_deals cs st)"
  "same_books st (snd (remove_pending_deal_allocation_id i st))"
  "same_books st (put_pending_deal_allocation_ids xs st)"
  "same_books st (put_deals_by_epoch es st)"
  "same_books st (put_batch_deals_by_epoch bs st)"
  "same_books st (remove_deals_by_epoch ds st)"
  "same_books st (put_sector_deal_ids pr ss st)"
  "same_books st (snd (pop_sector_deal_ids pr ns st))"
  "same_books st (remove_sector_deal_ids m st)"
  by (simp_all add: same_books_def remove_pending_deal_def put_pending_deals_def remove_pending_deal_allocation_id_def
      put_pending_deal_allocation_ids_def put_deals_by_epoch_def put_batch_deals_by_epoch_def
      remove_deals_by_epoch_def put_sector_deal_ids_def pop_sector_deal_ids_def remove_sector_deal_ids_def Let_def
      split: prod.split)

lemma books_put [simp]:
  "books D (put_deal_states xs st) = books D st" "books D (put_deal_proposals ps st) = books D st"
  "books D (st\<lparr>states := s\<rparr>) = books D st" "books D (st\<lparr>proposals := q\<rparr>) = books D st"
  by (simp_all add: put_deal_states_def put_deal_proposals_def books_def ledger_def covered_def)

lemma market_inv_new: "market_inv market_state_new"
  by (simp add: market_inv_def deals_ok_def books_def ledger_def covered_def locks_def market_state_new_def
      amt_empty_def bt_get_def)

lemma invD:
  assumes "market_inv st" and "amt_get (proposals st) i = Some p"
  shows "books (locks st) st" "locks st i = Some (lock_of p (amt_get (states st) i))"
    "deal_ok p (amt_get (states st) i)" "proposal_ok p" "i < next_id st"
  using assms by (auto simp: market_inv_def deals_ok_def deal_ok_def locks_def)

text \<open>Removing a deal, and updating the state of one.\<close>

lemma locks_remove:
  "locks (st\<lparr>states := amt_delete i (states st), proposals := amt_delete i (proposals st)\<rparr>) = (locks st)(i := None)"
  by (auto simp: locks_def)

lemma deals_ok_remove:
  "deals_ok st \<Longrightarrow> deals_ok (st\<lparr>states := amt_delete i (states st), proposals := amt_delete i (proposals st)\<rparr>)"
  by (auto simp: deals_ok_def)

lemma locks_put_state:
  "amt_get (proposals st) i = Some p \<Longrightarrow> locks (put_deal_states [(i, s)] st) = (locks st)(i \<mapsto> lock_of p (Some s))"
  by (auto simp: locks_def put_deal_states_def fun_eq_iff split: option.splits)

lemma deals_ok_put_state:
  "deals_ok st \<Longrightarrow> amt_get (proposals st) i = Some p \<Longrightarrow> deal_ok p (Some s) \<Longrightarrow> deals_ok (put_deal_states [(i, s)] st)"
  by (auto simp: deals_ok_def put_deal_states_def)

lemma remove_completed_ok:
  assumes "amt_get (proposals st) i = Some p" and "amt_get (states st) i = Some s"
  shows "remove_completed_deal i st =
    (Inr (), st\<lparr>states := amt_delete i (states st), proposals := amt_delete i (proposals st)\<rparr>)"
  using assms by (simp add: remove_completed_deal_def remove_deal_state_def remove_proposal_def)

section \<open>Deposits and withdrawals\<close>

lemma add_escrow_inv:
  assumes "market_inv st" and "0 \<le> x" and "add_balance_to_escrow_table a x st = Inr (u, st')"
  shows "market_inv st' \<and> bt_total (escrow_table st') = bt_total (escrow_table st) + x"
proof -
  from assms(3) obtain t where t: "bt_add a x (escrow_table st) = Inr t" "st' = st\<lparr>escrow_table := t\<rparr>"
    by (auto simp: add_balance_to_escrow_table_def res_inv)
  have "map2_ok (escrow_table st)" using assms(1) by (simp add: market_inv_def books_def ledger_def)
  note t' = bt.add_Inr [OF this t(1)]
  have "covered st'"
    using assms(1,2) t' t(2) by (auto simp: market_inv_def books_def covered_def add_increasing2)
  then show ?thesis
    using assms(1) t t' by (simp add: market_inv_def books_def ledger_def)
qed

lemma withdraw_escrow_inv:
  assumes "market_inv st" and "0 \<le> x" and "withdraw_balance_from_escrow_table a x st = Inr (ex, st')"
  shows "market_inv st' \<and> ex = min x (bt_get (escrow_table st) a - bt_get (locked_table st) a) \<and> 0 \<le> ex
    \<and> bt_total (escrow_table st') = bt_total (escrow_table st) - ex
    \<and> bt_get (escrow_table st') = (bt_get (escrow_table st))(a := bt_get (escrow_table st) a - ex)
    \<and> locked_table st' = locked_table st"
proof -
  let ?av = "bt_get (escrow_table st) a - bt_get (locked_table st) a"
  have ok: "map2_ok (escrow_table st)" and le: "bt_get (locked_table st) a \<le> bt_get (escrow_table st) a" for a
    using assms(1) by (auto simp: market_inv_def books_def ledger_def covered_def)
  have av: "max 0 ?av = ?av" using le [of a] by simp
  from assms(3) obtain t where sub: "subtract_with_minimum a x (bt_get (locked_table st) a) (escrow_table st) = Inr (ex, t)"
    and st': "st' = st\<lparr>escrow_table := t\<rparr>"
    by (auto simp: withdraw_balance_from_escrow_table_def res_inv)
  from sub have ex: "ex = min x ?av" unfolding subtract_with_minimum_def av
    by (auto simp: Let_def res_inv min.commute split: if_splits)
  have ex0: "0 \<le> ex" using ex assms(2) le [of a] by simp
  have t: "map2_ok t \<and> bt_get t = (bt_get (escrow_table st))(a := bt_get (escrow_table st) a - ex)
    \<and> bt_total t = bt_total (escrow_table st) - ex"
  proof (cases "0 < ex")
    case True
    then have "bt_add a (- ex) (escrow_table st) = Inr t"
      using sub ex unfolding subtract_with_minimum_def av by (auto simp: Let_def res_inv min.commute split: if_splits)
    from bt.add_Inr [OF ok this] show ?thesis by simp
  next
    case False
    then have "ex = 0" "t = escrow_table st"
      using sub ex ex0 unfolding subtract_with_minimum_def av by (auto simp: Let_def res_inv min.commute split: if_splits)
    then show ?thesis using ok by simp
  qed
  have "covered st'" using le ex t st' by (auto simp: covered_def)
  then show ?thesis
    using assms(1) t st' ex ex0 by (simp add: market_inv_def books_def ledger_def)
qed

section \<open>Publishing\<close>

lemma fold_amt_set_append: "fold (\<lambda>(i, p). amt_set i p) (ps @ [(i, p)]) a = amt_set i p (fold (\<lambda>(i, p). amt_set i p) ps a)"
  by simp

lemma put_proposals_append:
  "put_deal_proposals (ps @ [(i, p)]) st = (put_deal_proposals ps st)\<lparr>proposals := amt_set i p (proposals (put_deal_proposals ps st))\<rparr>"
  by (simp add: put_deal_proposals_def)

text \<open>What validation establishes; that the provider collateral is not negative is checked when it is locked.\<close>

definition publishable :: "deal_proposal \<Rightarrow> bool" where
  "publishable p \<longleftrightarrow> 0 \<le> start_epoch p \<and> start_epoch p < end_epoch p \<and> duration p < 2 ^ 64
     \<and> 0 \<le> storage_price_per_epoch p \<and> 0 \<le> client_collateral p
     \<and> (\<exists>i. client p = ID i) \<and> (\<exists>i. provider p = ID i)"

lemma publishable_lock:
  "publishable p \<Longrightarrow> lock_client_and_provider_balances p st = Inr st' \<Longrightarrow> proposal_ok p"
  by (auto simp: publishable_def proposal_ok_def lock_client_and_provider_balances_def maybe_lock_balance_def res_inv)

lemma record_deal_inv:
  assumes "market_inv (put_deal_proposals (nd_proposals nd) st)" and pub: "publishable (vd_proposal vd)"
    and "record_deal n al vd (st, nd) = Inr (st', nd')"
  shows "market_inv (put_deal_proposals (nd_proposals nd') st') \<and> escrow_table st' = escrow_table st"
proof -
  let ?p = "vd_proposal vd" and ?i = "next_id st" let ?q = "put_deal_proposals (nd_proposals nd) st"
  from assms(3) obtain st1 where lk: "lock_client_and_provider_balances ?p st = Inr st1"
    and st': "st' = st1\<lparr>next_id := next_id st1 + 1\<rparr>" and nd': "nd_proposals nd' = nd_proposals nd @ [(next_id st1, ?p)]"
    by (auto simp: record_deal_def generate_storage_deal_id_def res_inv split: prod.splits)
  have pok: "proposal_ok ?p" by (rule publishable_lock [OF pub lk])
  have keeps: "proposals ?q = fold (\<lambda>(i, p). amt_set i p) (nd_proposals nd) (proposals st)" "states ?q = states st" "next_id ?q = ?i"
    by (simp_all add: put_deal_proposals_def)
  have none: "amt_get (proposals ?q) ?i = None" "amt_get (states st) ?i = None"
  proof -
    show "amt_get (proposals ?q) ?i = None"
      using assms(1) keeps(3) by (cases "amt_get (proposals ?q) ?i") (auto simp: market_inv_def deals_ok_def)
    then show "amt_get (states st) ?i = None"
      using assms(1) keeps(2) by (auto simp: market_inv_def deals_ok_def)
  qed
  have b: "books (locks ?q) st" using assms(1) by (simp add: market_inv_def)
  have "0 \<le> client_collateral ?p" "0 \<le> total_storage_fee ?p"
    using pok by (auto simp: proposal_ok_def total_storage_fee_ok)
  moreover have "locks ?q ?i = None" using none by (simp add: locks_def)
  ultimately have L: "books ((locks ?q)(?i \<mapsto> lock_of ?p None)) st1" "ledger_only st st1" "escrow_table st1 = escrow_table st"
    using books_lock [OF b _ lk, of ?i] total_storage_fee_ok [OF pok] by (simp_all add: lock_of_def paid_to_def)
  have frame: "proposals st1 = proposals st" "states st1 = states st" "next_id st1 = ?i"
    using L(2) by (simp_all add: ledger_only_def)
  let ?q' = "put_deal_proposals (nd_proposals nd') st'"
  have q': "proposals ?q' = amt_set ?i ?p (proposals ?q)" "states ?q' = states st" "next_id ?q' = ?i + 1"
    using nd' st' frame by (simp_all add: put_deal_proposals_def)
  have "locks ?q' = (locks ?q)(?i \<mapsto> lock_of ?p None)"
    using none q' keeps by (auto simp: locks_def fun_eq_iff)
  moreover have "books D st' = books D st1" for D using st' by (simp add: books_def ledger_def covered_def)
  moreover have "deals_ok ?q'"
    using assms(1) pok none q' keeps by (auto simp: market_inv_def deals_ok_def deal_ok_def less_Suc_eq)
  ultimately show ?thesis using L st' by (simp add: market_inv_def)
qed

lemma record_deals_inv:
  assumes "market_inv st" and "\<forall>vd \<in> set vds. publishable (vd_proposal vd)"
    and "record_deals n al vds st = Inr (ids, st')"
  shows "market_inv st' \<and> escrow_table st' = escrow_table st"
proof -
  let ?P = "\<lambda>(s, nd). market_inv (put_deal_proposals (nd_proposals nd) s) \<and> escrow_table s = escrow_table st"
  from assms(3) obtain st1 nd where run: "r_fold (record_deal n al) vds
      (st, \<lparr>nd_pending = [], nd_proposals = [], nd_ops = [], nd_allocs = [], nd_ids = []\<rparr>) = Inr (st1, nd)"
    and st': "st' = put_deals_by_epoch (nd_ops nd) (put_pending_deal_allocation_ids (nd_allocs nd)
         (put_deal_proposals (nd_proposals nd) (put_pending_deals (nd_pending nd) st1)))"
    by (auto simp: record_deals_def res_inv)
  have "?P (st1, nd)"
  proof (rule r_fold_inv [OF run, of ?P])
    show "?P (st, \<lparr>nd_pending = [], nd_proposals = [], nd_ops = [], nd_allocs = [], nd_ids = []\<rparr>)"
      using assms(1) by (simp add: put_deal_proposals_def)
  next
    fix vd s t
    assume "vd \<in> set vds" "?P s" "record_deal n al vd s = Inr t"
    then show "?P t" using record_deal_inv [of "snd s" "fst s" vd n al "fst t" "snd t"] assms(2) by (cases s; cases t) auto
  qed
  moreover have S: "same_books (put_deal_proposals (nd_proposals nd) st1) st'"
    unfolding st' by (simp add: same_books_def put_deals_by_epoch_def put_pending_deal_allocation_ids_def
        put_deal_proposals_def put_pending_deals_def)
  ultimately show ?thesis
    using same_books_inv [OF S] by (simp add: same_books_def put_deal_proposals_def)
qed

section \<open>Activation\<close>

lemma amt_get_fold_set:
  "amt_get (fold (\<lambda>(i, x). amt_set i x) xs a) i = (case map_of (rev xs) i of Some x \<Rightarrow> Some x | None \<Rightarrow> amt_get a i)"
  by (induction xs arbitrary: a) (auto simp: map_add_def split: option.splits)

lemma amt_get_fold_set_notin [simp]:
  "i \<notin> fst ` set xs \<Longrightarrow> amt_get (fold (\<lambda>(i, x). amt_set i x) xs a) i = amt_get a i"
  by (induction xs arbitrary: a) auto

definition fresh_states :: "market_state \<Rightarrow> int \<Rightarrow> (deal_id \<times> deal_state) list \<Rightarrow> bool" where
  "fresh_states st e xs \<longleftrightarrow> (\<forall>(i, s) \<in> set xs. (\<exists>sn. s = fresh_deal_state sn e)
     \<and> amt_get (proposals st) i \<noteq> None \<and> amt_get (states st) i = None)"

lemma put_fresh_inv:
  assumes "market_inv st" and "fresh_states st e xs" and "0 \<le> e"
  shows "market_inv (put_deal_states xs st)"
proof -
  let ?st' = "put_deal_states xs st"
  have new: "(\<exists>sn. s = fresh_deal_state sn e) \<and> amt_get (proposals st) i \<noteq> None \<and> amt_get (states st) i = None"
    if "map_of (rev xs) i = Some s" for i s
    using map_of_SomeD [OF that] assms(2) by (auto simp: fresh_states_def)
  have get: "amt_get (states ?st') i = (case map_of (rev xs) i of Some x \<Rightarrow> Some x | None \<Rightarrow> amt_get (states st) i)" for i
    by (simp add: put_deal_states_def amt_get_fold_set)
  have keep: "proposals ?st' = proposals st" "next_id ?st' = next_id st" by (simp_all add: put_deal_states_def)
  have lock: "lock_of p (Some (fresh_deal_state sn e)) = lock_of p None \<and> deal_ok p (Some (fresh_deal_state sn e))"
    if "proposal_ok p" for p sn
    using that assms(3)
    by (auto simp: lock_of_def paid_to_def fresh_deal_state_def deal_ok_def proposal_ok_def EPOCH_UNDEFINED_def max_def)
  have pok: "proposal_ok p" if "amt_get (proposals st) i = Some p" for i p
    using invD(4) [OF assms(1) that] .
  have "locks ?st' i = locks st i" for i
    using new [of i] lock pok by (cases "map_of (rev xs) i") (auto simp: locks_def get keep)
  then have "locks ?st' = locks st" by (rule ext)
  moreover have "deals_ok ?st'"
    unfolding deals_ok_def keep
  proof (intro conjI allI impI)
    fix i p assume p: "amt_get (proposals st) i = Some p"
    show "i < next_id st" by (rule invD(5) [OF assms(1) p])
    show "deal_ok p (amt_get (states ?st') i)"
      using new [of i] lock [OF pok [OF p]] invD(3) [OF assms(1) p] by (cases "map_of (rev xs) i") (auto simp: get)
  next
    fix i assume "amt_get (proposals st) i = None"
    then show "amt_get (states ?st') i = None"
      using new [of i] assms(1) by (cases "map_of (rev xs) i") (auto simp: get market_inv_def deals_ok_def)
  qed
  ultimately show ?thesis using assms(1) by (simp add: market_inv_def)
qed

lemma preactivate_Inr:
  "preactivate_deal P st i m x e = Inr (Inr p) \<Longrightarrow> amt_get (proposals st) i = Some p \<and> amt_get (states st) i = None"
  by (auto simp: preactivate_deal_def get_proposal_def find_deal_state_def r_bind_eq_Inr
      split: sum.splits if_splits option.splits)

lemma validate_sector_deals_Inr:
  "validate_sector_deals P c st act x is = Inr (Inr ps) \<Longrightarrow>
   \<forall>(i, p) \<in> set (zip is ps). amt_get (proposals st) i = Some p \<and> amt_get (states st) i = None"
proof (induction "is" arbitrary: ps)
  case (Cons i "is")
  from Cons.prems obtain r where r: "preactivate_deal P st i (caller c) x (curr_epoch c) = Inr r"
    by (auto simp: r_bind_eq_Inr split: if_split_asm)
  with Cons.prems obtain p where p: "r = Inr p" by (cases r) (auto split: if_split_asm)
  from Cons.prems r p obtain q where q: "validate_sector_deals P c st act x is = Inr q"
    by (auto simp: r_bind_eq_Inr split: if_split_asm)
  with Cons.prems r p obtain qs where "q = Inr qs" "ps = p # qs" by (cases q) (auto split: if_split_asm)
  with q r p Cons.IH preactivate_Inr show ?case by fastforce
qed simp

lemma fresh_states_append:
  "fresh_states st e xs \<Longrightarrow> amt_get (proposals st) i = Some p \<Longrightarrow> amt_get (states st) i = None \<Longrightarrow>
   fresh_states st e (xs @ [(i, fresh_deal_state sn e)])"
  by (auto simp: fresh_states_def)

lemma activate_sector_fresh:
  assumes "fresh_states st (curr_epoch c) (aa_states (fst s))" and "activate_sector P c b st sector s = Inr t"
  shows "fresh_states st (curr_epoch c) (aa_states (fst t))"
proof -
  obtain acc gen acts where s: "s = (acc, gen, acts)" by (cases s)
  show ?thesis
  proof (cases "fst t = acc")
    case True
    then show ?thesis using assms(1) s by simp
  next
    case False
    with assms(2) s obtain r where
      r: "validate_sector_deals P c st (aa_activated acc) (sd_sector_expiry sector) (sd_deal_ids sector) = Inr r"
      by (auto simp: activate_sector_def r_bind_eq_Inr split: if_split_asm)
    with assms(2) s False obtain ps where ps: "r = Inr ps"
      by (cases r) (auto simp: activate_sector_def split: if_split_asm)
    with r have v: "validate_sector_deals P c st (aa_activated acc) (sd_sector_expiry sector) (sd_deal_ids sector) = Inr (Inr ps)" by simp
    from assms(2) s r ps False obtain acc' out where
      run: "r_fold (activate_deal c (sd_sector_number sector)) (zip (sd_deal_ids sector) ps) (acc, []) = Inr (acc', out)"
      and t: "aa_states (fst t) = aa_states acc'"
      by (auto simp: activate_sector_def r_bind_eq_Inr split: if_split_asm)
    have "fresh_states st (curr_epoch c) (aa_states (fst (acc', out)))"
    proof (rule r_fold_inv [OF run, of "\<lambda>x. fresh_states st (curr_epoch c) (aa_states (fst x))"])
      show "fresh_states st (curr_epoch c) (aa_states (fst (acc, [])))" using assms(1) s by simp
    next
      fix x u w
      assume "x \<in> set (zip (sd_deal_ids sector) ps)" "fresh_states st (curr_epoch c) (aa_states (fst u))"
        "activate_deal c (sd_sector_number sector) x u = Inr w"
      then show "fresh_states st (curr_epoch c) (aa_states (fst w))"
        using validate_sector_deals_Inr [OF v]
        by (auto simp: activate_deal_def map2_delete_def res_inv split: prod.splits intro!: fresh_states_append)
    qed
    then show ?thesis by (simp add: t)
  qed
qed

lemma activate_piece_fresh:
  assumes "fresh_states st (curr_epoch c) (aa_states (fst u))" and "activate_piece P c st sector x u = Inr w"
  shows "fresh_states st (curr_epoch c) (aa_states (fst w))"
proof -
  obtain acc ids ret where u: "u = (acc, ids, ret)" by (cases u)
  show ?thesis
  proof (cases "fst w = acc")
    case True
    then show ?thesis using assms(1) u by simp
  next
    case False
    with assms(2) u obtain i where i: "mk_deal_id P (pc_payload x) = Inr i" "i \<notin> set (aa_activated acc)"
      by (auto simp: activate_piece_def split: sum.split_asm if_split_asm)
    with False assms(2) u obtain r where
      r: "preactivate_deal P st i (caller c) (sc_minimum_commitment_epoch sector) (curr_epoch c) = Inr r"
      by (auto simp: activate_piece_def r_bind_eq_Inr)
    with False assms(2) u i obtain p where p: "r = Inr p"
      by (cases r) (auto simp: activate_piece_def)
    from assms(2) u i r p False have
      "aa_states (fst w) = aa_states acc @ [(i, fresh_deal_state (sc_sector sector) (curr_epoch c))]"
      by (auto simp: activate_piece_def r_bind_eq_Inr split: if_split_asm)
    with assms(1) u preactivate_Inr [of P st i] r p show ?thesis by (auto intro: fresh_states_append)
  qed
qed

lemma change_sector_fresh:
  assumes "fresh_states st (curr_epoch c) (aa_states (fst s))" and "change_sector P c st sector s = Inr t"
  shows "fresh_states st (curr_epoch c) (aa_states (fst t))"
proof -
  obtain acc rets where s: "s = (acc, rets)" by (cases s)
  from assms(2) s obtain acc' ids ret where
    run: "r_fold (activate_piece P c st sector) (sc_added sector) (acc, [], []) = Inr (acc', ids, ret)"
    and t: "aa_states (fst t) = aa_states acc'"
    by (auto simp: change_sector_def res_inv)
  have "fresh_states st (curr_epoch c) (aa_states (fst (acc', ids, ret)))"
  proof (rule r_fold_inv [OF run, of "\<lambda>x. fresh_states st (curr_epoch c) (aa_states (fst x))"])
    show "fresh_states st (curr_epoch c) (aa_states (fst (acc, [], [])))" using assms(1) s by simp
  next
    fix x u w
    assume "fresh_states st (curr_epoch c) (aa_states (fst u))" "activate_piece P c st sector x u = Inr w"
    then show "fresh_states st (curr_epoch c) (aa_states (fst w))" by (rule activate_piece_fresh)
  qed
  then show ?thesis by (simp add: t)
qed

lemma save_activations_inv:
  assumes "market_inv st" and "fresh_states st e (aa_states acc)" and "0 \<le> e"
  shows "market_inv (save_activations m acc st) \<and> escrow_table (save_activations m acc st) = escrow_table st"
proof -
  have "same_books (put_deal_states (aa_states acc) st) (save_activations m acc st)"
    by (simp add: same_books_def save_activations_def put_sector_deal_ids_def Let_def)
  from same_books_inv [OF this put_fresh_inv [OF assms]] this show ?thesis
    by (simp add: same_books_def put_deal_states_def)
qed

section \<open>What the balance operations never touch\<close>

lemma unlock_frame: "ledger_only st (snd (unlock_balance a x w st))"
  by (cases w) (auto simp: unlock_balance_def ledger_only_def split: sum.split)

lemma ledger_only_escrow: "ledger_only (st\<lparr>escrow_table := e\<rparr>) st' \<Longrightarrow> ledger_only st st'"
  by (simp add: ledger_only_def)

lemma s_bind_frame:
  assumes "ledger_only st (snd m)" and "\<And>x s. m = (Inr x, s) \<Longrightarrow> ledger_only s (snd (f x s))"
  shows "ledger_only st (snd (s_bind m f))"
  using assms by (cases m; cases "fst m") (auto simp: s_bind_def intro: ledger_only_trans)

lemma slash_frame: "ledger_only st (snd (slash_balance a x w st))"
  using ledger_only_escrow [OF unlock_frame] by (auto simp: slash_balance_def split: sum.split)

lemma transfer_frame: "ledger_only st (snd (transfer_balance a b x st))"
proof -
  have "ledger_only st (snd (s_bind (unlock_balance a x ClientStorageFee st) (\<lambda>_ st1.
      case bt_add b x e of Inl err \<Rightarrow> (Inl err, st1) | Inr e' \<Rightarrow> (Inr (), st1\<lparr>escrow_table := e'\<rparr>))))" for e
    by (rule s_bind_frame [OF unlock_frame]) (auto simp: ledger_only_def split: sum.split)
  then show ?thesis by (auto simp: transfer_balance_def split: sum.split)
qed

lemma pay_frame: "ledger_only st (snd (pay p x st))"
  by (simp add: pay_def transfer_frame)

lemma unlock_and_slash_frame: "ledger_only st (snd (unlock_and_slash p e st))"
  by (auto simp: unlock_and_slash_def split: sum.split intro!: s_bind_frame unlock_frame slash_frame)

lemma process_slashed_frame: "ledger_only st (snd (process_slashed_deal p s st))"
  unfolding process_slashed_deal_def Let_def
  by (intro s_bind_frame pay_frame unlock_and_slash_frame) auto

section \<open>Termination\<close>

text \<open>Against the snapshot the loop reads, a deal is either as it was or gone.\<close>

definition since :: "market_state \<Rightarrow> market_state \<Rightarrow> bool" where
  "since st0 st \<longleftrightarrow> (\<forall>i.
     amt_get (proposals st) i = amt_get (proposals st0) i \<and> amt_get (states st) i = amt_get (states st0) i
     \<or> amt_get (proposals st) i = None \<and> amt_get (states st) i = None)"

lemma terminate_deal_inv:
  assumes inv: "market_inv st" and sn: "since st0 st"
    and timely: "\<And>s. amt_get (states st0) i = Some s \<Longrightarrow> last_updated_epoch s \<le> epoch"
    and run: "terminate_deal P miner epoch (proposals st0) (states st0) i (sl, st) = Inr (sl', st')"
  shows "market_inv st' \<and> since st0 st' \<and> sl \<le> sl' \<and> bt_total (escrow_table st') + sl' = bt_total (escrow_table st) + sl"
proof (cases "amt_get (proposals st0) i = None \<or> (\<exists>p. amt_get (proposals st0) i = Some p \<and> end_epoch p \<le> epoch)")
  case True
  with run have "st' = st" "sl' = sl" by (auto simp: terminate_deal_def res_inv)
  then show ?thesis using inv sn by simp
next
  case False
  then obtain p where p: "amt_get (proposals st0) i = Some p" "epoch < end_epoch p" by (cases "amt_get (proposals st0) i") auto
  with run obtain s where s: "amt_get (states st0) i = Some s"
    by (auto simp: terminate_deal_def res_inv split: option.split_asm)
  from run p s obtain st1 amount st2 where
    st1: "(if last_updated_epoch s = EPOCH_UNDEFINED
           then r_bind (deal_cid P p) (\<lambda>dcid. Inr (snd (remove_pending_deal dcid st))) else Inr st) = Inr st1"
    and slash: "process_slashed_deal p (s\<lparr>slash_epoch := epoch\<rparr>) st1 = (Inr amount, st2)"
    and rm: "remove_completed_deal i st2 = (Inr (), st')" and sl': "sl' = sl + amount"
    by (auto simp: terminate_deal_def ensure_eq_Inr r_bind_eq_Inr or_abort_eq_Inr split del: if_split)
  have same: "same_books st st1" using st1 by (auto simp: r_bind_eq_Inr split: if_split_asm)
  have f: "proposals st2 = proposals st" "states st2 = states st" "next_id st2 = next_id st"
    using process_slashed_frame [of st1 p "s\<lparr>slash_epoch := epoch\<rparr>"] slash same
    by (simp_all add: ledger_only_def same_books_def)
  from rm f have "amt_get (states st) i \<noteq> None"
    by (auto simp: remove_completed_deal_def remove_deal_state_def split: option.split_asm)
  with sn p s have here: "amt_get (proposals st) i = Some p" "amt_get (states st) i = Some s"
    by (metis since_def)+
  have b: "books (locks st) st1" using invD(1) [OF inv here(1)] books_same [OF same] by simp
  have "locks st i = Some (lock_of p (Some s))" "deal_ok p (Some s)"
    using invD(2,3) [OF inv here(1)] here(2) by simp_all
  from slashed_deal_ok [OF b this timely [OF s] p(2)] slash
  have r: "amount = provider_collateral p" "books ((locks st)(i := None)) st2"
    "bt_total (escrow_table st2) = bt_total (escrow_table st1) - provider_collateral p" by auto
  let ?rm = "\<lambda>u. u\<lparr>states := amt_delete i (states u), proposals := amt_delete i (proposals u)\<rparr>"
  have st': "st' = ?rm st2" using rm remove_completed_ok [of st2 i p s] here f by simp
  have "locks st' = (locks st)(i := None)"
    using locks_remove [of i st] f by (simp add: st' locks_def)
  moreover have "deals_ok st'"
    using inv f by (auto simp: st' deals_ok_def market_inv_def)
  moreover have "since st0 st'" using sn f by (auto simp: st' since_def)
  moreover have "0 \<le> provider_collateral p" using invD(4) [OF inv here(1)] by (simp add: proposal_ok_def)
  ultimately show ?thesis
    using r sl' same st' by (simp add: market_inv_def same_books_def)
qed

lemma terminate_deals_inv:
  assumes inv: "market_inv st" and timely: "list_all (\<lambda>(i, s). last_updated_epoch s \<le> epoch) (states st)"
    and run: "terminate_deals P miner mid epoch sectors st = Inr (sl, st')"
  shows "market_inv st' \<and> 0 \<le> sl \<and> bt_total (escrow_table st') + sl = bt_total (escrow_table st)"
proof -
  let ?Q = "\<lambda>(x, u). market_inv u \<and> since st u \<and> 0 \<le> x \<and> bt_total (escrow_table u) + x = bt_total (escrow_table st)"
  obtain ids st1 where pop: "pop_sector_deal_ids mid sectors st = (ids, st1)" by fastforce
  have same: "same_books st st1" using index_updates(9) [of st mid sectors] pop by simp
  from run pop have fold: "r_fold (terminate_deal P miner epoch (proposals st) (states st)) ids (0, st1) = Inr (sl, st')"
    by (simp add: terminate_deals_def)
  have "?Q (sl, st')"
  proof (rule r_fold_inv [OF fold, of ?Q])
    show "?Q (0, st1)" using same_books_inv [OF same inv] same by (simp add: since_def same_books_def)
  next
    fix i u w
    assume "?Q u" "terminate_deal P miner epoch (proposals st) (states st) i u = Inr w"
    moreover have "last_updated_epoch s \<le> epoch" if "amt_get (states st) i = Some s" for s
      using that timely by (auto simp: amt_get_def list_all_iff dest: map_of_SomeD)
    ultimately show "?Q w"
      using terminate_deal_inv [of "snd u" st i epoch P miner "fst u" "fst w" "snd w"]
      by (cases u; cases w) auto
  qed
  then show ?thesis by simp
qed

section \<open>Time-outs and updates, with states still to be written\<close>

text \<open>
  \<open>settle_deal_payments\<close> writes the new states of the deals at the end of its loop. The invariant is
  therefore stated for the state with the collected ones put in; \<open>cron_tick\<close> is the case of none.
\<close>

lemma put_states_get:
  "i \<notin> fst ` set new \<Longrightarrow> amt_get (states (put_deal_states new st)) i = amt_get (states st) i"
  "proposals (put_deal_states new st) = proposals st" "next_id (put_deal_states new st) = next_id st"
  by (simp_all add: put_deal_states_def)

lemma put_states_same: "same_books st st' \<Longrightarrow> same_books (put_deal_states new st) (put_deal_states new st')"
  by (simp add: same_books_def put_deal_states_def)

lemma put_states_nil [simp]: "put_deal_states [] st = st"
  by (simp add: put_deal_states_def)

text \<open>A ledger operation that frees all that a deal holds, followed by its removal.\<close>

lemma removed_inv:
  assumes inv: "market_inv (put_deal_states new st)" and i: "i \<notin> fst ` set new"
    and b: "books ((locks (put_deal_states new st))(i := None)) st1" and "ledger_only st st1"
    and st2: "proposals st2 = amt_delete i (proposals st1)" "next_id st2 = next_id st1"
      "escrow_table st2 = escrow_table st1" "locked_table st2 = locked_table st1"
      "total_client_locked_collateral st2 = total_client_locked_collateral st1"
      "total_provider_locked_collateral st2 = total_provider_locked_collateral st1"
      "total_client_storage_fee st2 = total_client_storage_fee st1"
    and states: "\<And>j. amt_get (states st2) j = (if j = i then None else amt_get (states st1) j)"
  shows "market_inv (put_deal_states new st2)"
proof -
  let ?q = "put_deal_states new st" and ?q2 = "put_deal_states new st2"
  have f: "proposals st1 = proposals st" "states st1 = states st" "next_id st1 = next_id st"
    using assms(4) by (simp_all add: ledger_only_def)
  have get: "amt_get (states ?q2) j = (if j = i then None else amt_get (states ?q) j)" for j
  proof (cases "j = i")
    case True
    then show ?thesis using put_states_get(1) [OF i, of st2] states by simp
  next
    case False
    then show ?thesis using f states by (simp add: put_deal_states_def amt_get_fold_set split: option.split)
  qed
  have "locks ?q2 = (locks ?q)(i := None)"
    using st2 f get by (auto simp: locks_def put_states_get(2) fun_eq_iff)
  moreover have "books D ?q2 = books D st1" for D
    using st2 by (simp add: put_deal_states_def books_def ledger_def covered_def)
  moreover have "deals_ok ?q2"
    using inv st2 f get by (auto simp: market_inv_def deals_ok_def put_states_get)
  ultimately show ?thesis using b by (simp add: market_inv_def)
qed

fun penalty_of :: "load_deal_state result \<Rightarrow> int" where
  "penalty_of (Inr (ProposalExpired x)) = x"
| "penalty_of r = 0"

lemma active_or_timeout_inv:
  assumes inv: "market_inv (put_deal_states new st)" and i: "i \<notin> fst ` set new"
    and p: "amt_get (proposals st) i = Some p"
    and run: "get_active_deal_or_process_timeout e i p dcid st = (r, st')"
  shows "market_inv (put_deal_states new st') \<and> 0 \<le> penalty_of r
    \<and> bt_total (escrow_table st') + penalty_of r \<le> bt_total (escrow_table st)
    \<and> (\<forall>s. r = Inr (Loaded s) \<longrightarrow> st' = st \<and> amt_get (states st) i = Some s)"
proof (cases "amt_get (states st) i = None \<and> start_epoch p \<le> e")
  case False
  then have "st' = st" "penalty_of r = 0" "\<forall>s. r = Inr (Loaded s) \<longrightarrow> amt_get (states st) i = Some s"
    using run by (auto simp: get_active_deal_or_process_timeout_def find_deal_state_def split: option.split_asm if_split_asm)
  then show ?thesis using inv by simp
next
  case True
  let ?q = "put_deal_states new st"
  have pq: "amt_get (proposals ?q) i = Some p" and sq: "amt_get (states ?q) i = None"
    using p True i by (simp_all add: put_states_get)
  have b: "books (locks ?q) st" "locks ?q i = Some (lock_of p None)" and pok: "proposal_ok p"
    using invD [OF inv pq] sq by simp_all
  from timed_out_ok [OF b pok] obtain st1 where st1: "process_deal_init_timed_out p st = (Inr (provider_collateral p), st1)"
    "books ((locks ?q)(i := None)) st1" "ledger_only st st1"
    "bt_total (escrow_table st1) = bt_total (escrow_table st) - provider_collateral p" by blast
  let ?st2 = "st1\<lparr>proposals := amt_delete i (proposals st1)\<rparr>"
  have frame: "proposals st1 = proposals st" "states st1 = states st" using st1(3) by (simp_all add: ledger_only_def)
  have inv2: "market_inv (put_deal_states new ?st2)"
    using True frame by (intro removed_inv [OF inv i st1(2,3)]) auto
  have r: "get_active_deal_or_process_timeout e i p dcid st =
      (case remove_pending_deal dcid ?st2 of
         (None, st3) \<Rightarrow> (Inl illegal_state, st3)
       | (Some _, st3) \<Rightarrow> (Inr (ProposalExpired (provider_collateral p)), snd (remove_pending_deal_allocation_id i st3)))"
    using True st1(1) p frame
    by (simp add: get_active_deal_or_process_timeout_def find_deal_state_def remove_proposal_def)
  obtain o3 st3 where o3: "remove_pending_deal dcid ?st2 = (o3, st3)" by fastforce
  have s3: "same_books ?st2 st3" using index_updates(1) [of ?st2 dcid] o3 by simp
  have s4: "same_books ?st2 (snd (remove_pending_deal_allocation_id i st3))"
    using s3 index_updates(3) same_books_trans by blast
  have "same_books ?st2 st'" and pen: "penalty_of r = 0 \<or> penalty_of r = provider_collateral p" and "\<nexists>s. r = Inr (Loaded s)"
    using run r o3 s3 s4 by (auto split: option.split_asm)
  moreover from this(1) have "market_inv (put_deal_states new st')"
    using same_books_inv [OF put_states_same inv2] by blast
  moreover have "0 \<le> provider_collateral p" using pok by (simp add: proposal_ok_def)
  ultimately show ?thesis using st1(4) by (auto simp: same_books_def)
qed

lemma update_inv:
  assumes inv: "market_inv (put_deal_states new st)" and i: "i \<notin> fst ` set new"
    and p: "amt_get (proposals st) i = Some p" and s: "amt_get (states st) i = Some s" and e: "0 \<le> e"
    and run: "process_deal_update s p dcid e st = (Inr (sl, x, fin, rm), st1)"
  shows "sl = 0 \<and> fin = rm \<and> 0 \<le> x \<and> bt_total (escrow_table st1) = bt_total (escrow_table st)
    \<and> amt_get (proposals st1) i = Some p \<and> amt_get (states st1) i = Some s
    \<and> (rm \<longrightarrow> (\<forall>st2. remove_completed_deal i st1 = (Inr (), st2) \<longrightarrow>
          market_inv (put_deal_states new st2) \<and> escrow_table st2 = escrow_table st1))
    \<and> (\<not> rm \<longrightarrow> market_inv (put_deal_states (new @ [(i, s\<lparr>last_updated_epoch := e\<rparr>)]) st1))"
proof -
  let ?q = "put_deal_states new st" and ?s' = "s\<lparr>last_updated_epoch := e\<rparr>"
  have pq: "amt_get (proposals ?q) i = Some p" and sq: "amt_get (states ?q) i = Some s"
    using p s i by (simp_all add: put_states_get)
  have b: "books (locks ?q) st" "locks ?q i = Some (lock_of p (Some s))" and ok: "deal_ok p (Some s)"
    using invD [OF inv pq] sq by simp_all
  have "\<not> (last_updated_epoch s \<noteq> EPOCH_UNDEFINED \<and> e < last_updated_epoch s)"
    using run process_update_future [of s e p dcid st] by auto
  then have last: "last_updated_epoch s \<le> e" using e by (auto simp: EPOCH_UNDEFINED_def)
  from process_update_ok [OF b ok e last refl refl, of dcid] obtain st' where r:
    "process_deal_update s p dcid e st = (Inr (0, if e < start_epoch p then 0
         else storage_price_per_epoch p * (min (end_epoch p) e - paid_to p (Some s)), end_epoch p \<le> e, end_epoch p \<le> e), st')"
    "books (if end_epoch p \<le> e then (locks ?q)(i := None) else (locks ?q)(i \<mapsto> lock_of p (Some ?s'))) st'"
    "ledger_only (unpend s dcid st) st'" "bt_total (escrow_table st') = bt_total (escrow_table st)" by blast
  have res: "sl = 0" "rm = (end_epoch p \<le> e)" "fin = (end_epoch p \<le> e)" "st1 = st'"
    "x = (if e < start_epoch p then 0 else storage_price_per_epoch p * (min (end_epoch p) e - paid_to p (Some s)))"
    using run unfolding r(1) by auto
  have B: "books (if rm then (locks ?q)(i := None) else (locks ?q)(i \<mapsto> lock_of p (Some ?s'))) st1"
    unfolding res(2,4) by (rule r(2))
  have L: "ledger_only (unpend s dcid st) st1" "bt_total (escrow_table st1) = bt_total (escrow_table st)"
    unfolding res(4) by (rule r(3), rule r(4))
  have f: "proposals st1 = proposals st" "states st1 = states st" "next_id st1 = next_id st"
    using L(1) by (simp_all add: ledger_only_def unpend_keeps)
  have x: "0 \<le> x" using res(5) ok last by (auto simp: deal_ok_def proposal_ok_def paid_to_def)
  have rm: "market_inv (put_deal_states new st2) \<and> escrow_table st2 = escrow_table st1"
    if "rm" "remove_completed_deal i st1 = (Inr (), st2)" for st2
  proof -
    have st2: "st2 = st1\<lparr>states := amt_delete i (states st1), proposals := amt_delete i (proposals st1)\<rparr>"
      using that(2) remove_completed_ok [of st1 i p s] p s f by simp
    let ?st = "unpend s dcid st"
    have inv': "market_inv (put_deal_states new ?st)"
      using same_books_inv [OF put_states_same inv] index_updates(1) by (simp add: unpend_def)
    have "locks (put_deal_states new ?st) = locks ?q"
      by (rule locks_cong) (simp_all add: put_deal_states_def unpend_keeps)
    then have "books ((locks (put_deal_states new ?st))(i := None)) st1" using B that(1) by simp
    from removed_inv [OF inv' i this L(1), of st2] have "market_inv (put_deal_states new st2)" by (simp add: st2)
    then show ?thesis using st2 by simp
  qed
  have keep: "market_inv (put_deal_states (new @ [(i, ?s')]) st1)" if "\<not> rm"
  proof -
    let ?q' = "put_deal_states (new @ [(i, ?s')]) st1"
    have get: "amt_get (states ?q') j = (if j = i then Some ?s' else amt_get (states ?q) j)" for j
      using f by (simp add: put_deal_states_def)
    have "locks ?q' = (locks ?q)(i \<mapsto> lock_of p (Some ?s'))"
      using p f get by (auto simp: locks_def put_states_get fun_eq_iff)
    moreover have "deal_ok p (Some ?s')" using ok e that res(2) by (simp add: deal_ok_def)
    then have "deals_ok ?q'"
      using inv p f get by (auto simp: market_inv_def deals_ok_def put_states_get)
    ultimately show ?thesis using B that by (simp add: market_inv_def)
  qed
  show ?thesis
    by (intro conjI impI allI) (use res(1-3) L(2) x f p s rm keep in simp_all)
qed

section \<open>Cron\<close>

definition cron_inv :: "int \<Rightarrow> cron_acc \<times> market_state \<Rightarrow> bool" where
  "cron_inv T x \<longleftrightarrow> market_inv (snd x) \<and> 0 \<le> ca_slashed (fst x)
     \<and> bt_total (escrow_table (snd x)) + ca_slashed (fst x) \<le> T"

lemma cron_update_inv:
  assumes C: "cron_inv T (acc, st)" and p: "amt_get (proposals st) i = Some p" and s: "amt_get (states st) i = Some s"
    and e: "0 \<le> e" and run: "cron_update P e i p dcid s (acc, st) = Inr y"
  shows "cron_inv T y"
proof -
  from run obtain sl x fin rm st1 where u: "process_deal_update s p dcid e st = (Inr (sl, x, fin, rm), st1)"
    by (auto simp: cron_update_def r_bind_eq_Inr or_abort_eq_Inr)
  have inv: "market_inv (put_deal_states [] st)" using C by (simp add: cron_inv_def)
  note U = update_inv [OF inv _ p s e u, simplified]
  show ?thesis
  proof (cases rm)
    case True
    with run u obtain st2 acc' where rc: "remove_completed_deal i st1 = (Inr (), st2)"
      and y: "y = (acc', st2)" "ca_slashed acc' = ca_slashed acc + sl"
      by (auto simp: cron_update_def res_inv)
    with U True C show ?thesis by (auto simp: cron_inv_def)
  next
    case False
    with run u obtain acc' where "y = (acc', put_deal_states [(i, s\<lparr>last_updated_epoch := e\<rparr>)] st1)"
      "ca_slashed acc' = ca_slashed acc"
      by (auto simp: cron_update_def res_inv)
    with U False C show ?thesis by (auto simp: cron_inv_def put_deal_states_def)
  qed
qed

lemma cron_deal_inv:
  assumes C: "cron_inv T x" and e: "0 \<le> e" and run: "cron_deal P e i x = Inr y"
  shows "cron_inv T y"
proof -
  obtain acc st where x: "x = (acc, st)" by (cases x)
  show ?thesis
  proof (cases "amt_get (proposals st) i")
    case None
    then show ?thesis using run C x by (simp add: cron_deal_def find_proposal_def)
  next
    case (Some p)
    with run x obtain dcid loaded st1 where g: "get_active_deal_or_process_timeout e i p dcid st = (Inr loaded, st1)"
      and rest: "(case loaded of TooEarly \<Rightarrow> Inl illegal_state
         | ProposalExpired penalty \<Rightarrow> Inr (acc\<lparr>ca_slashed := ca_slashed acc + penalty\<rparr>, st1)
         | Loaded s \<Rightarrow>
             if last_updated_epoch s = EPOCH_UNDEFINED then
               (case remove_pending_deal dcid st1 of (None, _) \<Rightarrow> Inl illegal_state | (Some _, st2) \<Rightarrow> Inr (acc, st2))
             else cron_update P e i p dcid s (acc, st1)) = Inr y"
      by (auto simp: cron_deal_def find_proposal_def r_bind_eq_Inr or_abort_eq_Inr)
    have inv: "market_inv (put_deal_states [] st)" using C x by (simp add: cron_inv_def)
    note A = active_or_timeout_inv [OF inv _ Some g, simplified]
    show ?thesis
    proof (cases loaded)
      case (Loaded s)
      then have st1: "st1 = st" "amt_get (states st) i = Some s" using A by auto
      show ?thesis
      proof (cases "last_updated_epoch s = EPOCH_UNDEFINED")
        case True
        obtain o2 st2 where o2: "remove_pending_deal dcid st = (o2, st2)" by fastforce
        then have "same_books st st2" using index_updates(1) [of st dcid] by simp
        then have "cron_inv T (acc, st2)"
          using C x same_books_inv by (auto simp: cron_inv_def same_books_def)
        with rest Loaded True o2 st1 show ?thesis by (auto split: option.split_asm)
      next
        case False
        with rest Loaded st1 have "cron_update P e i p dcid s (acc, st) = Inr y" by simp
        then show ?thesis using cron_update_inv [OF _ Some st1(2) e] C x by blast
      qed
    qed (use rest A C x in \<open>auto simp: cron_inv_def\<close>)
  qed
qed

lemma cron_transaction_inv:
  assumes "market_inv st" and "0 \<le> e" and "cron_transaction P e st = Inr (sl, st')"
  shows "market_inv st' \<and> 0 \<le> sl \<and> bt_total (escrow_table st') + sl \<le> bt_total (escrow_table st)"
proof -
  let ?T = "bt_total (escrow_table st)"
  from assms(3) obtain acc st1 where
    run: "r_fold (cron_epoch P e) [last_cron st + 1 .. e] (\<lparr>ca_slashed = 0, ca_removals = [], ca_updates = []\<rparr>, st) = Inr (acc, st1)"
    and sl: "sl = ca_slashed acc"
    and st': "st' = (put_batch_deals_by_epoch (sort_key fst (ca_updates acc)) (remove_deals_by_epoch [last_cron st + 1 .. e]
              (remove_sector_deal_ids (ca_removals acc) st1)))\<lparr>last_cron := e\<rparr>"
    by (auto simp: cron_transaction_def Let_def r_bind_eq_Inr)
  have "cron_inv ?T (acc, st1)"
  proof (rule r_fold_inv [OF run])
    show "cron_inv ?T (\<lparr>ca_slashed = 0, ca_removals = [], ca_updates = []\<rparr>, st)" using assms(1) by (simp add: cron_inv_def)
  next
    fix k u w
    assume "cron_inv ?T u" "cron_epoch P e k u = Inr w"
    then show "cron_inv ?T w"
      using r_fold_inv [of "cron_deal P e" _ u w "cron_inv ?T"] cron_deal_inv [OF _ assms(2)]
      by (cases u) (auto simp: cron_epoch_def)
  qed
  moreover have "same_books st1 st'"
    by (simp add: st' same_books_def put_batch_deals_by_epoch_def remove_deals_by_epoch_def remove_sector_deal_ids_def)
  ultimately show ?thesis using same_books_inv [of st1 st'] by (simp add: cron_inv_def sl same_books_def)
qed

section \<open>Settlement\<close>

definition settle_inv :: "int \<Rightarrow> deal_id set \<Rightarrow> settle_acc \<times> market_state \<Rightarrow> bool" where
  "settle_inv T seen x \<longleftrightarrow> market_inv (put_deal_states (sa_states (fst x)) (snd x)) \<and> 0 \<le> sa_slashed (fst x)
     \<and> bt_total (escrow_table (snd x)) + sa_slashed (fst x) \<le> T \<and> fst ` set (sa_states (fst x)) \<subseteq> seen"

lemma settle_inv_mono: "settle_inv T seen x \<Longrightarrow> settle_inv T (insert i seen) x"
  unfolding settle_inv_def by blast

lemma settle_active_inv:
  assumes S: "settle_inv T seen (acc, st)" and i: "i \<notin> seen" and p: "amt_get (proposals st) i = Some p"
    and s: "amt_get (states st) i = Some s" and e: "0 \<le> e" and run: "settle_active e i p dcid s (acc, st) = Inr y"
  shows "settle_inv T (insert i seen) y"
proof -
  have inv: "market_inv (put_deal_states (sa_states acc) st)" and new: "i \<notin> fst ` set (sa_states acc)"
    using S i by (auto simp: settle_inv_def)
  show ?thesis
  proof (cases "last_updated_epoch s \<noteq> EPOCH_UNDEFINED \<and> e < last_updated_epoch s")
    case True
    with process_update_future [of s e p dcid st] have "process_deal_update s p dcid e st = (Inl illegal_state, st)" by simp
    with run have "y = (settle_failed USR_ILLEGAL_STATE acc, st)" by (simp add: settle_active_def ensure_eq_Inr)
    with S have "settle_inv T seen y" by (simp add: settle_failed_def settle_inv_def)
    then show ?thesis by (rule settle_inv_mono)
  next
    case False
    then have last: "last_updated_epoch s \<le> e" using e by (auto simp: EPOCH_UNDEFINED_def)
    have ok: "books (locks (put_deal_states (sa_states acc) st)) st"
      "locks (put_deal_states (sa_states acc) st) i = Some (lock_of p (Some s))" "deal_ok p (Some s)"
      using invD [OF inv, of i p] p s new by (simp_all add: put_states_get)
    from process_update_ok [OF ok e last refl refl, of dcid] obtain sl x fin rm st1 where
      u: "process_deal_update s p dcid e st = (Inr (sl, x, fin, rm), st1)" by blast
    note U = update_inv [OF inv new p s e u]
    show ?thesis
    proof (cases rm)
      case True
      with run u obtain st2 acc' where rc: "remove_completed_deal i st1 = (Inr (), st2)"
        and y: "y = (acc', st2)" "sa_slashed acc' = sa_slashed acc" "sa_states acc' = sa_states acc"
        by (auto simp: settle_active_def settled_def res_inv)
      with U True S have "settle_inv T seen y" by (simp add: settle_inv_def)
      then show ?thesis by (rule settle_inv_mono)
    next
      case False
      with run u obtain acc' where y: "y = (acc', st1)" "sa_slashed acc' = sa_slashed acc"
        "sa_states acc' = sa_states acc @ [(i, s\<lparr>last_updated_epoch := e\<rparr>)]"
        by (auto simp: settle_active_def settled_def res_inv)
      have "fst ` set (sa_states acc) \<subseteq> insert i seen" using S by (auto simp: settle_inv_def)
      with U False S y show ?thesis by (simp add: settle_inv_def)
    qed
  qed
qed

lemma settle_deal_inv:
  assumes S: "settle_inv T seen x" and i: "i \<notin> seen" and e: "0 \<le> e" and run: "settle_deal P e i x = Inr y"
  shows "settle_inv T (insert i seen) y"
proof -
  obtain acc st where x: "x = (acc, st)" by (cases x)
  have failed: "settle_inv T (insert i seen) (settle_failed code acc, st)" for code
    using S x by (intro settle_inv_mono) (simp add: settle_failed_def settle_inv_def)
  have inv: "market_inv (put_deal_states (sa_states acc) st)" and new: "i \<notin> fst ` set (sa_states acc)"
    using S i x by (auto simp: settle_inv_def)
  show ?thesis
  proof (cases "amt_get (proposals st) i")
    case None
    with run x have "y = (settle_failed EX_DEAL_EXPIRED acc, st)" by (auto simp: settle_deal_def get_proposal_def split: if_split_asm)
    then show ?thesis using failed by simp
  next
    case (Some p)
    show ?thesis
    proof (cases "deal_cid P p")
      case (Inl err)
      with run x Some obtain code where "y = (settle_failed code acc, st)"
        by (cases err) (auto simp: settle_deal_def get_proposal_def)
      then show ?thesis using failed by simp
    next
      case (Inr dcid)
      obtain r st1 where g: "get_active_deal_or_process_timeout e i p dcid st = (r, st1)" by fastforce
      note A = active_or_timeout_inv [OF inv new Some g]
      have R: "(case (r, st1) of (Inl Panic, st1) \<Rightarrow> Inl Panic
               | (Inl e, st1) \<Rightarrow> Inr (settle_failed (err_code e) acc, st1)
               | (Inr TooEarly, st1) \<Rightarrow> Inr (settled 0 False acc, st1)
               | (Inr (ProposalExpired penalty), st1) \<Rightarrow>
                   Inr (settle_failed EX_DEAL_EXPIRED (acc\<lparr>sa_slashed := sa_slashed acc + penalty\<rparr>), st1)
               | (Inr (Loaded s), st1) \<Rightarrow> settle_active e i p dcid s (acc, st1)) = Inr y"
        using run x Some Inr g by (simp add: settle_deal_def get_proposal_def)
      show ?thesis
      proof (cases "\<exists>s. r = Inr (Loaded s)")
        case True
        then obtain s where s: "r = Inr (Loaded s)" by blast
        with A have "st1 = st" "amt_get (states st) i = Some s" by auto
        with R s settle_active_inv [OF _ i Some _ e] S x show ?thesis by auto
      next
        case False
        then have "snd y = st1 \<and> sa_states (fst y) = sa_states acc \<and> sa_slashed (fst y) = sa_slashed acc + penalty_of r"
          using R by (auto simp: settle_failed_def settled_def split: sum.split_asm actor_error.split_asm load_deal_state.split_asm)
        then have "settle_inv T seen y" using A S x by (auto simp: settle_inv_def)
        then show ?thesis by (rule settle_inv_mono)
      qed
    qed
  qed
qed

lemma settle_fold_inv:
  "settle_inv T seen x \<Longrightarrow> distinct ids \<Longrightarrow> seen \<inter> set ids = {} \<Longrightarrow> 0 \<le> e \<Longrightarrow> r_fold (settle_deal P e) ids x = Inr y \<Longrightarrow>
   settle_inv T (seen \<union> set ids) y"
proof (induction ids arbitrary: x seen)
  case (Cons i ids)
  then obtain z where z: "settle_deal P e i x = Inr z" "r_fold (settle_deal P e) ids z = Inr y" by (auto simp: r_bind_eq_Inr)
  have "settle_inv T (insert i seen) z" using settle_deal_inv [OF Cons.prems(1) _ Cons.prems(4) z(1)] Cons.prems(3) by simp
  from Cons.IH [OF this _ _ Cons.prems(4) z(2)] Cons.prems show ?case by simp
qed simp

lemma settle_transaction_inv:
  assumes "market_inv st" and "0 \<le> e" and "distinct ids" and "settle_transaction P e ids st = Inr ((g, ss, sl), st')"
  shows "market_inv st' \<and> 0 \<le> sl \<and> bt_total (escrow_table st') + sl \<le> bt_total (escrow_table st)"
proof -
  let ?T = "bt_total (escrow_table st)"
  from assms(4) obtain acc st1 where run: "r_fold (settle_deal P e) ids
      (\<lparr>sa_gen = batch_gen_new (length ids), sa_settlements = [], sa_slashed = 0, sa_states = [], sa_removals = []\<rparr>, st) = Inr (acc, st1)"
    and sl: "sl = sa_slashed acc" and st': "st' = remove_sector_deal_ids (sa_removals acc) (put_deal_states (sa_states acc) st1)"
    by (auto simp: settle_transaction_def r_bind_eq_Inr)
  have "settle_inv ?T ({} \<union> set ids) (acc, st1)"
    by (rule settle_fold_inv [OF _ assms(3) _ assms(2) run]) (use assms(1) in \<open>simp_all add: settle_inv_def\<close>)
  moreover have "same_books (put_deal_states (sa_states acc) st1) st'" by (simp add: st')
  ultimately show ?thesis
    using same_books_inv [of "put_deal_states (sa_states acc) st1" st']
    by (simp add: settle_inv_def sl same_books_def put_deal_states_def)
qed

end
