(* ===== verification/MarketRun.thy ===== *)
theory MarketRun
  imports MarketBooks
begin

text \<open>
  The market on the machine: every method, with whatever re-entrant calls happen in its sends, keeps the
  books and the cover of all escrow by the balance of the actor. The family \<open>covers\<close> of invariants, one
  per reserve, is the instance of \<open>valued_actor\<close> for this actor. The properties of the market follow.
\<close>

section \<open>On the machine\<close>

text \<open>The balance covers all escrow with a reserve of \<open>k\<close>; every reserve is kept, so none is used up during a send.\<close>

definition covers :: "int \<Rightarrow> market_vm \<Rightarrow> bool" where
  "covers k v \<longleftrightarrow> market_inv (vm_state v) \<and> bt_total (escrow_table (vm_state v)) + k \<le> vm_balance v"

lemma covers_weaken: "covers k v \<Longrightarrow> j \<le> k \<Longrightarrow> covers j v"
  by (simp add: covers_def)

lemma send_covers:
  assumes "sender_ok (covers k) send" and "send i req v = (r, v')" and "covers (k + req_value req) v" and "0 \<le> req_value req"
  shows "covers k v'"
  using sender_okD(5) [OF assms(1,2)] assms(3,4) by (simp add: covers_def debit_def)

lemma send_or_fail_covers:
  assumes "sender_ok (covers k) send" and "send_or_fail (send i) req v = Inr (d, v')" and "covers (k + req_value req) v" and "0 \<le> req_value req"
  shows "covers k v'"
  using send_covers [OF assms(1) _ assms(3,4)] assms(2) by (auto simp: send_or_fail_Inr)

lemma zero_send_covers:
  assumes "sender_ok (covers k) send" and "send_or_fail (send i) (send_simple a m p 0) v = Inr (d, v')" and "covers k v"
  shows "covers k v'"
  by (rule send_or_fail_covers [OF assms(1,2)]) (use assms(3) in \<open>simp_all add: send_simple_def\<close>)

lemma escrow_address_covers:
  assumes "sender_ok (covers k) send" and "escrow_address P send i a v = Inr (x, v')" and "covers k v"
  shows "covers k v'"
  using assms(2,3) zero_send_covers [OF assms(1) _ assms(3)]
  by (auto simp: escrow_address_def request_miner_control_addrs_def r_bind_eq_Inr split: option.split_asm if_split_asm)

lemma add_balance_covers:
  assumes "\<And>j. sender_ok (covers j) send" and "covers (k + value_received c) v" and "add_balance P send c a v = Inr (u, v')"
  shows "covers k v'"
proof -
  from assms(3) obtain nominal w v1 where pos: "0 < value_received c"
    and e: "escrow_address P send 0 a v = Inr ((nominal, w), v1)"
    and t: "transaction v1 (add_balance_to_escrow_table nominal (value_received c)) = Inr (u, v')"
    by (auto simp: add_balance_def ensure_eq_Inr r_bind_eq_Inr)
  have "covers (k + value_received c) v1" by (rule escrow_address_covers [OF assms(1) e assms(2)])
  with t pos add_escrow_inv [of "vm_state v1" "value_received c" nominal] show ?thesis
    by (auto simp: covers_def transaction_Inr)
qed

lemma withdraw_balance_covers:
  assumes "\<And>j. sender_ok (covers j) send" and "covers k v" and "withdraw_balance P send c a x v = Inr (ex, v')"
  shows "covers k v'"
proof -
  from assms(3) obtain nominal rec app v1 v2 d where nn: "0 \<le> x"
    and e: "escrow_address P send 0 a v = Inr ((nominal, rec, app), v1)"
    and t: "transaction v1 (withdraw_balance_from_escrow_table nominal x) = Inr (ex, v2)"
    and s: "send_or_fail (send 1) (send_simple rec METHOD_SEND None ex) v2 = Inr (d, v')"
    by (auto simp: withdraw_balance_def ensure_eq_Inr r_bind_eq_Inr)
  have "covers k v1" by (rule escrow_address_covers [OF assms(1) e assms(2)])
  with t nn withdraw_escrow_inv [of "vm_state v1" x nominal ex]
  have v2: "covers (k + ex) v2" "0 \<le> ex" by (auto simp: covers_def transaction_Inr)
  show ?thesis by (rule send_or_fail_covers [OF assms(1) s]) (use v2 in \<open>simp_all add: send_simple_def\<close>)
qed

lemma burn_covers:
  assumes "\<And>j. sender_ok (covers j) send" and "covers (k + x) v" and "0 \<le> x" and "burn send x v = Inr (u, v')"
  shows "covers k v'"
proof -
  from assms(4) obtain d where s: "send_or_fail (send 0) (send_simple BURNT_FUNDS_ACTOR_ADDR METHOD_SEND None x) v = Inr (d, v')"
    by (auto simp: burn_def r_bind_eq_Inr)
  show ?thesis by (rule send_or_fail_covers [OF assms(1) s]) (use assms(2,3) in \<open>simp_all add: send_simple_def\<close>)
qed

lemma burn_if_covers:
  assumes "\<And>j. sender_ok (covers j) send" and "covers (k + x) v" and "0 \<le> x"
    and "(if b then burn send x v else Inr ((), v)) = Inr (u, v')"
  shows "covers k v'"
  using assms(2,3,4) burn_covers [OF assms(1-3)] covers_weaken [of "k + x" v k] by (auto split: if_split_asm)

section \<open>Publishing on the machine\<close>

lemma validate_terms_Inr:
  assumes "validate_terms P e raw base p = Inr u" and "0 \<le> e"
  shows "0 \<le> start_epoch p \<and> start_epoch p < end_epoch p \<and> duration p < 2 ^ 64 \<and> 0 \<le> storage_price_per_epoch p
    \<and> 0 \<le> client_collateral p"
  using assms
  by (auto simp: validate_terms_def ensure_eq_Inr r_bind_eq_Inr deal_duration_bounds_def
      deal_price_per_epoch_bounds_def deal_client_collateral_bounds_def EPOCHS_IN_DAY_def)

lemma validate_deal_covers:
  assumes "sender_ok (covers k) send" and "covers k v" and "validate_deal P send i c raw base d v = (r, v')"
  shows "covers k v' \<and> (\<forall>u. r = Inr u \<longrightarrow> validate_terms P (curr_epoch c) raw base (cd_proposal d) = Inr u)"
proof -
  obtain q v1 where q: "deal_proposal_is_internally_valid P send i d v = (q, v1)" by fastforce
  have "covers k v1"
  proof (cases "mk_serialize P (cd_proposal d)")
    case (Inl e)
    then show ?thesis using q assms(2) by (simp add: deal_proposal_is_internally_valid_def)
  next
    case (Inr raw')
    let ?req = "\<lparr>req_to = client (cd_proposal d), req_method = mk_method_hash P ''AuthenticateMessage'',
      req_params = Some (AuthenticateMessage (cd_signature d) raw'), req_value = 0, req_read_only = True\<rparr>"
    obtain x v2 where x: "send i ?req v = (x, v2)" by fastforce
    from send_covers [OF assms(1) x] assms(2) have "covers k v2" by simp
    moreover have "v1 = v2" using q Inr x by (simp add: deal_proposal_is_internally_valid_def)
    ultimately show ?thesis by simp
  qed
  with assms(3) q show ?thesis by (cases q) (auto simp: validate_deal_def)
qed

lemma validate_deals_covers:
  assumes "sender_ok (covers k) send"
  shows "covers k v \<Longrightarrow> validate_deals P send i c raw base ds v = Inr (vs, v') \<Longrightarrow> covers k v' \<and>
    (\<forall>(b, d) \<in> set (zip vs ds). b \<longrightarrow> validate_terms P (curr_epoch c) raw base (cd_proposal d) = Inr ())"
proof (induction ds arbitrary: i v vs)
  case (Cons d ds)
  obtain r v1 where r: "validate_deal P send i c raw base d v = (r, v1)" by fastforce
  note V = validate_deal_covers [OF assms Cons.prems(1) r]
  have "r \<noteq> Inl Panic" using Cons.prems(2) r by (cases r) auto
  then have "r_bind (validate_deals P send (Suc i) c raw base ds v1) (\<lambda>(ws, v2).
      Inr ((case r of Inr _ \<Rightarrow> True | Inl _ \<Rightarrow> False) # ws, v2)) = Inr (vs, v')"
    using Cons.prems(2) r by (cases r; cases "projl r") auto
  then obtain ws where ws: "validate_deals P send (Suc i) c raw base ds v1 = Inr (ws, v')"
    and vs: "vs = (case r of Inr _ \<Rightarrow> True | Inl _ \<Rightarrow> False) # ws" by (auto simp: r_bind_eq_Inr)
  from Cons.IH [OF _ ws] V vs show ?case by (auto split: sum.split_asm)
qed auto

lemma reserve_datacap_covers:
  assumes "sender_ok (covers k) send" and "covers k v" and "reserve_datacap P send i e cl vd (acc, v) = Inr (b, acc', v')"
  shows "covers k v' \<and> pa_valid acc' = pa_valid acc"
proof -
  have bal: "covers k v1" if "balance_of P send i (ID cl) v = Inr (x, v1)" for x v1
    using that zero_send_covers [OF assms(1) _ assms(2)]
    by (auto simp: balance_of_def r_bind_eq_Inr split: option.split_asm)
  from assms(3) obtain x v1 where "(case amt_get (pa_datacap acc) cl of Some x \<Rightarrow> Inr (x, v)
      | None \<Rightarrow> set_code USR_NOT_FOUND (balance_of P send i (ID cl) v)) = Inr (x, v1)" and "v' = v1" "pa_valid acc' = pa_valid acc"
    by (auto simp: reserve_datacap_def r_bind_eq_Inr Let_def split: if_split_asm)
  then show ?thesis using bal assms(2) by (cases "amt_get (pa_datacap acc) cl") (auto simp: set_code_Inr)
qed

lemma admit_deal_covers:
  assumes ok: "sender_ok (covers k) send" and vd: "publishable (vd_proposal vd)"
    and pre: "covers k v" "\<forall>vd \<in> set (pa_valid acc). publishable (vd_proposal vd)"
    and run: "admit_deal P send n e st di cid cl pl vd (acc, v) = Inr (acc', v')"
  shows "covers k v' \<and> (\<forall>vd \<in> set (pa_valid acc'). publishable (vd_proposal vd))"
proof (cases "has_pending_deal (vd_cid vd) st \<or> vd_cid vd \<in> set (pa_cids acc) \<or> \<not> verified_deal (vd_proposal vd)")
  case True
  with run pre vd show ?thesis by (auto simp: admit_deal_def accept_deal_def split: if_split_asm)
next
  case False
  with run obtain b acc1 where r: "reserve_datacap P send (n + di) e cid vd (acc, v) = Inr (b, acc1, v')"
    and acc': "acc' = (if b then accept_deal di cid cl pl vd acc1 else acc1)"
    by (auto simp: admit_deal_def r_bind_eq_Inr)
  have "set (pa_valid acc') \<subseteq> insert vd (set (pa_valid acc1))" by (auto simp: acc' accept_deal_def)
  with reserve_datacap_covers [OF ok pre(1) r] pre(2) vd show ?thesis by auto
qed

lemma consider_deal_admits:
  assumes "consider_deal P send n e praw pid st (di, valid, deal) (acc, v) = Inr y"
  shows "y = (acc, v) \<or> valid \<and> (\<exists>cid cl pl vd. vd_proposal vd = (cd_proposal deal)\<lparr>provider := ID pid, client := ID cid\<rparr>
    \<and> admit_deal P send n e st di cid cl pl vd (acc, v) = Inr y)"
proof (cases "resolve_address v (client (cd_proposal deal))")
  case None
  with assms show ?thesis by (auto simp: consider_deal_def Let_def split: if_split_asm)
next
  case (Some cid)
  define cl where "cl = (case amt_get (pa_client_lockup acc) cid of Some x \<Rightarrow> x | None \<Rightarrow> 0)
    + client_balance_requirement (cd_proposal deal)"
  let ?pl = "pa_provider_lockup acc + provider_collateral (cd_proposal deal)"
  let ?p = "(cd_proposal deal)\<lparr>provider := ID pid, client := ID cid\<rparr>"
  define T where "T = r_bind (set_code USR_SERIALIZATION (mk_serialize P ?p)) (\<lambda>ser.
    r_bind (set_code USR_ILLEGAL_ARGUMENT (mk_proposal_cid P ser)) (\<lambda>pcid.
    admit_deal P send n e st di cid cl ?pl \<lparr>vd_proposal = ?p, vd_serialized = ser, vd_cid = pcid\<rparr> (acc, v)))"
  have "consider_deal P send n e praw pid st (di, valid, deal) (acc, v) =
     (if \<not> valid then Inr (acc, v)
      else if provider (cd_proposal deal) \<noteq> ID pid \<and> provider (cd_proposal deal) \<noteq> praw then Inr (acc, v)
      else if \<not> balance_covered (ID cid) cl st then Inr (acc, v)
      else if \<not> balance_covered (ID pid) ?pl st then Inr (acc, v)
      else T)"
    unfolding consider_deal_def T_def cl_def Let_def prod.case Some option.case by (rule refl)
  with assms have y: "y = (acc, v) \<or> valid \<and> T = Inr y" by (simp split: if_split_asm)
  have "\<exists>vd. vd_proposal vd = ?p \<and> admit_deal P send n e st di cid cl ?pl vd (acc, v) = Inr y" if "T = Inr y"
  proof -
    from that obtain ser pcid where
      "admit_deal P send n e st di cid cl ?pl \<lparr>vd_proposal = ?p, vd_serialized = ser, vd_cid = pcid\<rparr> (acc, v) = Inr y"
      unfolding T_def r_bind_eq_Inr by blast
    moreover have "vd_proposal \<lparr>vd_proposal = ?p, vd_serialized = ser, vd_cid = pcid\<rparr> = ?p" by simp
    ultimately show ?thesis by blast
  qed
  with y show ?thesis by blast
qed

lemma consider_deal_covers:
  assumes ok: "sender_ok (covers k) send"
    and fit: "valid \<Longrightarrow> validate_terms P e raw base (cd_proposal deal) = Inr ()" and e: "0 \<le> e"
    and pre: "covers k v" "\<forall>vd \<in> set (pa_valid acc). publishable (vd_proposal vd)"
    and run: "consider_deal P send n e praw pid st (di, valid, deal) (acc, v) = Inr (acc', v')"
  shows "covers k v' \<and> (\<forall>vd \<in> set (pa_valid acc'). publishable (vd_proposal vd))"
proof (cases "(acc', v') = (acc, v)")
  case False
  with consider_deal_admits [OF run] obtain cid cl pl vd where valid: "valid"
    and vd: "vd_proposal vd = (cd_proposal deal)\<lparr>provider := ID pid, client := ID cid\<rparr>"
    and r: "admit_deal P send n e st di cid cl pl vd (acc, v) = Inr (acc', v')" by blast
  have "publishable (vd_proposal vd)"
    using validate_terms_Inr [OF fit [OF valid] e] vd by (simp add: publishable_def duration_def)
  then show ?thesis by (rule admit_deal_covers [OF ok _ pre r])
qed (use pre in simp)

lemma consider_deals_covers:
  assumes ok: "sender_ok (covers k) send" and e: "0 \<le> e"
    and fit: "\<forall>(b, d) \<in> set (zip vs ds). b \<longrightarrow> validate_terms P e raw base (cd_proposal d) = Inr ()"
    and pre: "covers k v"
    and run: "r_fold (consider_deal P send n e praw pid st) (enumerate 0 (zip vs ds)) (publish_acc_init, v) = Inr (acc, v')"
  shows "covers k v' \<and> (\<forall>vd \<in> set (pa_valid acc). publishable (vd_proposal vd))"
proof -
  let ?I = "\<lambda>(acc, u). covers k u \<and> (\<forall>vd \<in> set (pa_valid acc). publishable (vd_proposal vd))"
  have "?I (acc, v')" using run
  proof (rule r_fold_inv [where P = ?I])
    show "?I (publish_acc_init, v)" using pre by (simp add: publish_acc_init_def)
    fix x s t assume x: "x \<in> set (enumerate 0 (zip vs ds))" and s: "?I s" and step: "consider_deal P send n e praw pid st x s = Inr t"
    obtain di b d where xe: "x = (di, b, d)" by (cases x)
    have "(b, d) \<in> set (zip vs ds)" using enumerate_snd [OF x] xe by simp
    with fit have fb: "b \<Longrightarrow> validate_terms P e raw base (cd_proposal d) = Inr ()" by auto
    obtain a u a' u' where "s = (a, u)" "t = (a', u')" by fastforce
    with consider_deal_covers [OF ok fb e, of b u a n praw pid st di a' u'] s step xe show "?I t" by simp
  qed
  then show ?thesis by simp
qed

lemma transfer_from_covers:
  assumes "sender_ok (covers k) send" and "covers k v" and "transfer_from P send n ps v = Inr (x, v')"
  shows "covers k v'"
  using assms(3) zero_send_covers [OF assms(1) _ assms(2)]
  by (auto simp: transfer_from_def r_bind_eq_Inr split: option.split_asm)

lemma allocate_covers:
  assumes ok: "sender_ok (covers k) send" and pre: "covers k v"
    and run: "r_fold (allocate_for_client P send n) rs (m, v) = Inr (m', v')"
  shows "covers k v'"
proof -
  have "(\<lambda>(_, u). covers k u) (m', v')" using run
  proof (rule r_fold_inv)
    show "(\<lambda>(_, u). covers k u) (m, v)" using pre by simp
    fix x s t assume s: "(\<lambda>(_, u). covers k u) s" and step: "allocate_for_client P send n x s = Inr t"
    from step obtain j ps ids u where "transfer_from P send j ps (snd s) = Inr (ids, u)" and "snd t = u"
      by (cases x; cases s) (auto simp: allocate_for_client_def r_bind_eq_Inr set_code_Inr ensure_eq_Inr)
    with transfer_from_covers [OF ok] s show "(\<lambda>(_, u). covers k u) t" by (cases s; cases t) auto
  qed
  then show ?thesis by simp
qed

lemma notify_covers:
  assumes ok: "sender_ok (covers k) send" and pre: "covers k v"
    and run: "r_fold (notify_client P send n) ns v = Inr v'"
  shows "covers k v'"
  using run
proof (rule r_fold_inv)
  show "covers k v" by (rule pre)
  fix x s t assume s: "covers k s" and step: "notify_client P send n x s = Inr t"
  from step obtain j a m ps d where "send_or_fail (send j) (send_simple a m ps 0) s = Inr (d, t)"
    by (cases x) (auto simp: notify_client_def r_bind_eq_Inr set_code_Inr)
  from zero_send_covers [OF ok this s] show "covers k t" .
qed

lemma publish_deals_of_covers:
  assumes ok: "sender_ok (covers k) send" and pre: "covers k v" and e: "0 \<le> curr_epoch c"
    and run: "publish_deals_of P send c ds praw pid raw base v = Inr (r, v')"
  shows "covers k v'"
proof -
  let ?n = "deal_updates_interval (mk_policy P)"
  obtain vs v1 where val: "validate_deals P send 3 c raw base ds v = Inr (vs, v1)"
    using run by (cases "validate_deals P send 3 c raw base ds v") (auto simp: publish_deals_of_def)
  let ?con = "r_fold (consider_deal P send (3 + length ds) (curr_epoch c) praw pid (vm_state v1)) (enumerate 0 (zip vs ds))
      (publish_acc_init, v1)"
  obtain acc v2 where con: "?con = Inr (acc, v2)"
    using run val by (cases ?con) (auto simp: publish_deals_of_def)
  let ?al = "r_fold (allocate_for_client P send (3 + 2 * length ds)) (enumerate 0 (pa_alloc_reqs acc)) (map2_empty, v2)"
  obtain al v3 where al: "?al = Inr (al, v3)"
    using run val con by (cases ?al) (auto simp: publish_deals_of_def)
  from run val con al obtain ids v4 where
    rec: "transaction v3 (record_deals ?n al (pa_valid acc)) = Inr (ids, v4)" and
    notify: "r_fold (notify_client P send (3 + 3 * length ds)) (enumerate 0 (zip (pa_valid acc) ids)) v4 = Inr v'"
    by (auto simp: publish_deals_of_def r_bind_eq_Inr ensure_eq_Inr)
  note V = validate_deals_covers [OF ok pre val]
  note C = consider_deals_covers [OF ok e _ _ con, of raw base]
  have v3: "covers k v3" by (rule allocate_covers [OF ok _ al]) (use V C in blast)
  have "covers k v4" using rec v3 record_deals_inv [of "vm_state v3" "pa_valid acc" ?n al ids] V C
    by (auto simp: covers_def transaction_Inr)
  then show ?thesis by (rule notify_covers [OF ok _ notify])
qed

lemma publish_covers:
  assumes ok: "sender_ok (covers k) send" and pre: "covers k v" and e: "0 \<le> curr_epoch c"
    and run: "publish_storage_deals P send c ds v = Inr (r, v')"
  shows "covers k v'"
proof -
  note zero = zero_send_covers [OF ok]
  from run obtain a1 a2 a3 b1 b2 b3 c1 c2 c3 d1 d2 d3 v1 v2 v3 praw pid raw base where
    s1: "send_or_fail (send 0) (send_simple a1 b1 c1 0) v = Inr (d1, v1)" and
    s2: "send_or_fail (send 1) (send_simple a2 b2 c2 0) v1 = Inr (d2, v2)" and
    s3: "send_or_fail (send 2) (send_simple a3 b3 c3 0) v2 = Inr (d3, v3)" and
    rest: "publish_deals_of P send c ds praw pid raw base v3 = Inr (r, v')"
    by (auto simp: publish_storage_deals_def Let_def ensure_eq_Inr r_bind_eq_Inr split: option.split_asm)
  show ?thesis by (rule publish_deals_of_covers [OF ok zero [OF s3 zero [OF s2 zero [OF s1 pre]]] e rest])
qed

section \<open>The other methods\<close>

lemma distinct_bits: "distinct (bits xs)"
proof -
  have "distinct (remdups_adj ys)" if "sorted ys" for ys :: "nat list"
    using that by (induction ys rule: remdups_adj.induct) (auto simp del: remdups_adj_set simp: remdups_adj_set order.antisym)
  then show ?thesis by (simp add: bits_def)
qed

lemma saved_covers:
  assumes "covers k v" and "fresh_states (vm_state v) e (aa_states acc)" and "0 \<le> e"
  shows "covers k (v\<lparr>vm_state := save_activations m acc (vm_state v)\<rparr>)"
  using save_activations_inv [OF _ assms(2,3), of m] assms(1) by (simp add: covers_def)

lemma batch_activate_covers:
  assumes "covers k v" and e: "0 \<le> curr_epoch c" and "batch_activate_deals P c ss b v = Inr (r, v')"
  shows "covers k v'"
proof -
  from assms(3) obtain acc gen acts m where
    run: "r_fold (activate_sector P c b (vm_state v)) ss
      (activation_acc_init (vm_state v), batch_gen_new (length ss), []) = Inr (acc, gen, acts)"
    and v': "v' = v\<lparr>vm_state := save_activations m acc (vm_state v)\<rparr>"
    by (auto simp: batch_activate_deals_def r_bind_eq_Inr transaction_Inr)
  let ?I = "\<lambda>s. fresh_states (vm_state v) (curr_epoch c) (aa_states (fst s))"
  have "?I (acc, gen, acts)" using run
  proof (rule r_fold_inv)
    show "?I (activation_acc_init (vm_state v), batch_gen_new (length ss), [])"
      by (simp add: fresh_states_def activation_acc_init_def)
  qed (rule activate_sector_fresh)
  with saved_covers [OF assms(1) _ e] v' show ?thesis by simp
qed

lemma sector_content_covers:
  assumes "covers k v" and e: "0 \<le> curr_epoch c" and "sector_content_changed P c ss v = Inr (r, v')"
  shows "covers k v'"
proof -
  from assms(3) obtain acc rets m where
    run: "r_fold (change_sector P c (vm_state v)) ss (activation_acc_init (vm_state v), []) = Inr (acc, rets)"
    and v': "v' = v\<lparr>vm_state := save_activations m acc (vm_state v)\<rparr>"
    by (auto simp: sector_content_changed_def r_bind_eq_Inr transaction_Inr)
  let ?I = "\<lambda>s. fresh_states (vm_state v) (curr_epoch c) (aa_states (fst s))"
  have "?I (acc, rets)" using run
  proof (rule r_fold_inv)
    show "?I (activation_acc_init (vm_state v), [])"
      by (simp add: fresh_states_def activation_acc_init_def)
  qed (rule change_sector_fresh)
  with saved_covers [OF assms(1) _ e] v' show ?thesis by simp
qed

text \<open>A transaction that takes \<open>x\<close> out of escrow leaves \<open>x\<close> more in reserve.\<close>

lemma slashed_covers:
  assumes "covers k v" and "market_inv s \<and> 0 \<le> x \<and> bt_total (escrow_table s) + x \<le> bt_total (escrow_table (vm_state v))"
  shows "covers (k + x) (v\<lparr>vm_state := s\<rparr>)"
  using assms by (simp add: covers_def)

lemma terminate_covers:
  assumes ok: "\<And>j. sender_ok (covers j) send" and v: "covers k v"
    and timely: "list_all (\<lambda>(i, s). last_updated_epoch s \<le> e) (states (vm_state v))"
    and run: "on_miner_sectors_terminate P send c e ss v = Inr (u, v')"
  shows "covers k v'"
proof -
  from run obtain m x s where t: "terminate_deals P (caller c) m e (bits ss) (vm_state v) = Inr (x, s)"
    and b: "(if 0 < x then burn send x (v\<lparr>vm_state := s\<rparr>) else Inr ((), v\<lparr>vm_state := s\<rparr>)) = Inr (u, v')"
    by (auto simp: on_miner_sectors_terminate_def r_bind_eq_Inr transaction_Inr)
  from terminate_deals_inv [OF _ timely t] v
  have i: "market_inv s \<and> 0 \<le> x \<and> bt_total (escrow_table s) + x \<le> bt_total (escrow_table (vm_state v))"
    by (simp add: covers_def)
  show ?thesis by (rule burn_if_covers [OF ok slashed_covers [OF v i] _ b]) (use i in simp)
qed

lemma cron_covers:
  assumes ok: "\<And>j. sender_ok (covers j) send" and v: "covers k v" and e: "0 \<le> curr_epoch c"
    and run: "cron_tick P send c v = Inr (u, v')"
  shows "covers k v'"
proof -
  from run obtain x s where t: "cron_transaction P (curr_epoch c) (vm_state v) = Inr (x, s)"
    and b: "(if x \<noteq> 0 then burn send x (v\<lparr>vm_state := s\<rparr>) else Inr ((), v\<lparr>vm_state := s\<rparr>)) = Inr (u, v')"
    by (auto simp: cron_tick_def r_bind_eq_Inr transaction_Inr)
  from cron_transaction_inv [OF _ e t] v
  have i: "market_inv s \<and> 0 \<le> x \<and> bt_total (escrow_table s) + x \<le> bt_total (escrow_table (vm_state v))"
    by (simp add: covers_def)
  show ?thesis by (rule burn_if_covers [OF ok slashed_covers [OF v i] _ b]) (use i in simp)
qed

lemma settle_covers:
  assumes ok: "\<And>j. sender_ok (covers j) send" and v: "covers k v" and e: "0 \<le> curr_epoch c"
    and run: "settle_deal_payments P send c ids v = Inr (u, v')"
  shows "covers k v'"
proof -
  from run obtain g ss x s w where t: "settle_transaction P (curr_epoch c) (bits ids) (vm_state v) = Inr ((g, ss, x), s)"
    and b: "(if x \<noteq> 0 then burn send x (v\<lparr>vm_state := s\<rparr>) else Inr ((), v\<lparr>vm_state := s\<rparr>)) = Inr (w, v')"
    by (auto simp: settle_deal_payments_def r_bind_eq_Inr transaction_Inr)
  from settle_transaction_inv [OF _ e distinct_bits t] v
  have i: "market_inv s \<and> 0 \<le> x \<and> bt_total (escrow_table s) + x \<le> bt_total (escrow_table (vm_state v))"
    by (simp add: covers_def)
  show ?thesis by (rule burn_if_covers [OF ok slashed_covers [OF v i] _ b]) (use i in simp)
qed

text \<open>
  The epochs of the chain are not negative, and the miner actor dates a termination with the current epoch,
  never before the last update of a deal.
\<close>

definition well_timed :: "ctx \<Rightarrow> market_msg \<Rightarrow> market_vm \<Rightarrow> bool" where
  "well_timed c m v \<longleftrightarrow> 0 \<le> curr_epoch c \<and>
     (case m of OnMinerSectorsTerminate e ss \<Rightarrow> list_all (\<lambda>(i, s). last_updated_epoch s \<le> e) (states (vm_state v)) | _ \<Rightarrow> True)"

definition timed_dispatch :: "market_prims \<Rightarrow> (market_state, market_params, market_msg, market_ret) dispatch" where
  "timed_dispatch P send c m v = ensure (well_timed c m v) forbidden (market_dispatch P send c m v)"

lemma timed_dispatch_covers:
  assumes ok: "\<And>j. sender_ok (covers j) send" and v: "covers (k + value_received c) v" and nn: "0 \<le> value_received c"
    and run: "timed_dispatch P send c m v = Inr (r, v')"
  shows "covers k v'"
proof -
  from run have e: "0 \<le> curr_epoch c" and timed: "well_timed c m v" and d: "market_dispatch P send c m v = Inr (r, v')"
    by (auto simp: timed_dispatch_def well_timed_def ensure_eq_Inr)
  have k: "covers k v" using v nn by (simp add: covers_weaken)
  note facts = add_balance_covers [OF ok v] withdraw_balance_covers [OF ok k] publish_covers [OF ok k e]
    batch_activate_covers [OF k e] cron_covers [OF ok k e] settle_covers [OF ok k e]
    sector_content_covers [OF k e]
  show ?thesis
  proof (cases m)
    case (OnMinerSectorsTerminate e' ss)
    with timed have "list_all (\<lambda>(i, s). last_updated_epoch s \<le> e') (states (vm_state v))" by (simp add: well_timed_def)
    from terminate_covers [OF ok k this] d OnMinerSectorsTerminate show ?thesis
      by (auto simp: market_dispatch_def r_bind_eq_Inr as_ret_Inr)
  qed (use d k in \<open>auto simp: market_dispatch_def r_bind_eq_Inr as_ret_Inr dest: facts\<close>)
qed

interpretation mk: valued_actor "timed_dispatch P" covers for P
proof unfold_locales
  fix send k v c m r v'
  assume ok: "\<And>j. sender_ok (covers j) send" and v: "covers k v" and nn: "0 \<le> value_received c"
    and run: "timed_dispatch P send c m (v\<lparr>vm_balance := vm_balance v + value_received c\<rparr>) = Inr (r, v')"
  show "covers k v'"
    by (rule timed_dispatch_covers [OF ok _ nn run]) (use v in \<open>simp add: covers_def\<close>)
qed (simp_all add: covers_def)

section \<open>Properties\<close>


text \<open>A market, a deal in it and the primitives for the examples.\<close>

definition ex_deal :: deal_proposal where
  "ex_deal = \<lparr>piece_cid = 7, piece_size = 2048, verified_deal = False, client = ID 101, provider = ID 102,
     label = StringLabel [], start_epoch = 10, end_epoch = 110, storage_price_per_epoch = 3,
     provider_collateral = 20, client_collateral = 5\<rparr>"

definition ex_deal_state :: deal_state where
  "ex_deal_state = \<lparr>sector_number = 1, sector_start_epoch = 9, last_updated_epoch = 30, slash_epoch = EPOCH_UNDEFINED\<rparr>"

definition ex_market :: market_state where
  "ex_market = market_state_new\<lparr>proposals := [(0, ex_deal)], states := [(0, ex_deal_state)], next_id := 1,
     escrow_table := [(ID 101, 400), (ID 102, 50)], locked_table := [(ID 101, 245), (ID 102, 20)],
     total_client_locked_collateral := 5, total_provider_locked_collateral := 20, total_client_storage_fee := 240\<rparr>"

definition ex_mk_prims :: market_prims where
  "ex_mk_prims = \<lparr>mk_policy = \<lparr>deal_updates_interval = 30, prov_collateral_percent_supply_num = 1,
       prov_collateral_percent_supply_denom = 100, market_default_allocation_term_buffer = 0,
       maximum_verified_allocation_term = 100, maximum_verified_allocation_expiration = 100\<rparr>,
     mk_circ_supply = 0, mk_method_hash = (\<lambda>_. FIRST_EXPORTED_METHOD_NUMBER), mk_serialize = (\<lambda>_. Inr []),
     mk_proposal_cid = (\<lambda>_. Inr 0), mk_piece_cids = undefined, mk_cid_parts = undefined,
     mk_piece_size_ok = (\<lambda>_. True), mk_sector_size = (\<lambda>_. None), mk_unsealed_cid = (\<lambda>_ _. Inr 0),
     mk_deal_id = (\<lambda>_. Inr 0), mk_control_addrs = (\<lambda>_. Inl illegal_state), mk_is_controlling = (\<lambda>_. Inr False),
     mk_baseline_power = (\<lambda>_. Inr 0), mk_network_power = (\<lambda>_. Inr (0, 0)), mk_authenticated = (\<lambda>_. Inr False),
     mk_datacap = (\<lambda>_. Inr 0), mk_alloc_ids = (\<lambda>_. Inr [])\<rparr>"

definition ex_market_vm :: "market_state \<Rightarrow> market_vm" where
  "ex_market_vm st = \<lparr>vm_state = st, vm_balance = 450, vm_world = ex_world, vm_sends = []\<rparr>"

lemma ex_market_inv: "market_inv ex_market"
proof -
  have l: "locks ex_market = [0 \<mapsto> lock_of ex_deal (Some ex_deal_state)]"
    by (rule ext) (simp add: locks_def ex_market_def amt_get_def)
  have t: "map_total f (locks ex_market) = f (lock_of ex_deal (Some ex_deal_state))" for f
    by (simp add: l map_total_def)
  have "deals_ok ex_market"
    by (simp add: deals_ok_def ex_market_def amt_get_def deal_ok_def proposal_ok_def ex_deal_def ex_deal_state_def
        duration_def EPOCH_UNDEFINED_def)
  moreover have "books (locks ex_market) ex_market"
    unfolding books_def ledger_def covered_def t
    by (simp add: l) (simp add: ex_market_def held_def lock_of_def paid_to_def ex_deal_def ex_deal_state_def map2_ok_def
        bt_get_def map2_get_def)
  ultimately show ?thesis by (simp add: market_inv_def)
qed

text \<open>
  C13: a deal update pays exactly. For a stored deal that is active, an update at an epoch no sooner than
  the last one succeeds and moves the price of the epochs since then (from the start and to the end of the
  deal) from the escrow of the client to that of the provider; no other escrow changes. It unlocks what it
  pays, and at the end of the deal both collaterals as well.
\<close>

theorem deal_update_pays_exactly:
  assumes "market_inv st" and "amt_get (proposals st) i = Some p" and "amt_get (states st) i = Some s"
    and "0 \<le> e" and "last_updated_epoch s \<le> e"
    and "x = (if e < start_epoch p then 0
              else storage_price_per_epoch p * (min (end_epoch p) e - max (start_epoch p) (last_updated_epoch s)))"
    and "fin = (end_epoch p \<le> e)"
  shows "\<exists>st'. process_deal_update s p dcid e st = (Inr (0, x, fin, fin), st') \<and> 0 \<le> x
    \<and> (\<forall>a. bt_get (escrow_table st') a = bt_get (escrow_table st) a
          - (if a = client p then x else 0) + (if a = provider p then x else 0))
    \<and> (\<forall>a. bt_get (locked_table st') a = bt_get (locked_table st) a
          - (if a = client p then x + (if fin then client_collateral p else 0) else 0)
          - (if a = provider p \<and> fin then provider_collateral p else 0))"
proof -
  note inv = invD [OF assms(1,2), unfolded assms(3)]
  let ?l = "lock_of p (Some s)" and ?l' = "lock_of p (Some (s\<lparr>last_updated_epoch := e\<rparr>))"
  let ?D = "if fin then (locks st)(i := None) else (locks st)(i \<mapsto> ?l')"
  have x: "x = (if e < start_epoch p then 0 else storage_price_per_epoch p * (min (end_epoch p) e - paid_to p (Some s)))"
    using assms(6) by (simp add: paid_to_def)
  from process_update_ok [OF inv(1) inv(2) inv(3) assms(4,5) x assms(7)] obtain st' where
    run: "process_deal_update s p dcid e st = (Inr (0, x, fin, fin), st')" and b: "books ?D st'"
    and esc: "\<forall>a. bt_get (escrow_table st') a = bt_get (escrow_table st) a
          - (if a = client p then x else 0) + (if a = provider p then x else 0)"
    by blast
  have p: "start_epoch p < end_epoch p" "0 \<le> storage_price_per_epoch p" "last_updated_epoch s < end_epoch p"
    using inv(3) by (auto simp: deal_ok_def proposal_ok_def)
  have nn: "0 \<le> x" using p assms(5,6) by auto
  have fee: "x = l_fee ?l - (if fin then 0 else l_fee ?l')"
    using x p assms(5,7) by (auto simp: paid_to_def max_def min_def algebra_simps)
  have fin: "finite (dom (locks st))" using inv(1) by (simp add: books_def ledger_def)
  have "bt_get (locked_table st') a = bt_get (locked_table st) a - held a ?l + (if fin then 0 else held a ?l')" for a
    using b inv(1) map_total_delete [OF fin, of "held a" i] map_total_update [OF fin, of "held a" i ?l'] inv(2)
    by (auto simp: books_def ledger_def)
  then have "bt_get (locked_table st') a = bt_get (locked_table st) a
          - (if a = client p then x + (if fin then client_collateral p else 0) else 0)
          - (if a = provider p \<and> fin then provider_collateral p else 0)" for a
    using fee by (simp add: held_def)
  with run nn esc show ?thesis by blast
qed

theorem deal_update_pays_exactly_witness:
  "\<exists>st'. process_deal_update ex_deal_state ex_deal 0 50 ex_market = (Inr (0, 60, False, False), st')
     \<and> bt_get (escrow_table st') (ID 101) = 340 \<and> bt_get (escrow_table st') (ID 102) = 110
     \<and> bt_get (locked_table st') (ID 101) = 185"
  using deal_update_pays_exactly [OF ex_market_inv, of 0 ex_deal ex_deal_state 50 60 False 0]
  by (auto simp: ex_market_def amt_get_def ex_deal_def ex_deal_state_def bt_get_def map2_get_def)


text \<open>
  C16: a withdrawal takes only what is free. A withdrawal that succeeds was called by the party itself, or by
  the owner or worker of the miner it names; what it takes is the amount asked for or, if less, what the
  escrow of the party has beyond its locked balance. That is the whole change of the ledger, and the amount
  returned is the amount sent.
\<close>

theorem withdraw_takes_only_free:
  assumes "\<And>j. sender_ok (covers j) send" and "covers 0 v" and "withdraw_balance P send c a x v = Inr (ex, v')"
  shows "\<exists>nominal recipient approved v1. escrow_address P send 0 a v = Inr ((nominal, recipient, approved), v1)
    \<and> caller c \<in> set approved
    \<and> ex = min x (bt_get (escrow_table (vm_state v1)) nominal - bt_get (locked_table (vm_state v1)) nominal) \<and> 0 \<le> ex
    \<and> bt_get (escrow_table (vm_state v')) =
        (bt_get (escrow_table (vm_state v1)))(nominal := bt_get (escrow_table (vm_state v1)) nominal - ex)
    \<and> locked_table (vm_state v') = locked_table (vm_state v1)
    \<and> vm_sends v' = send_simple recipient METHOD_SEND None ex # vm_sends v1"
proof -
  from assms(3) obtain nominal rec app v1 v2 d where nn: "0 \<le> x"
    and e: "escrow_address P send 0 a v = Inr ((nominal, rec, app), v1)" and auth: "caller c \<in> set app"
    and t: "transaction v1 (withdraw_balance_from_escrow_table nominal x) = Inr (ex, v2)"
    and s: "send_or_fail (send 1) (send_simple rec METHOD_SEND None ex) v2 = Inr (d, v')"
    by (auto simp: withdraw_balance_def ensure_eq_Inr r_bind_eq_Inr validate_immediate_caller_is_def split: if_split_asm)
  have inv: "market_inv (vm_state v1)" using escrow_address_covers [OF assms(1) e assms(2)] by (simp add: covers_def)
  from t obtain st where st: "withdraw_balance_from_escrow_table nominal x (vm_state v1) = Inr (ex, st)"
    and v2: "v2 = v1\<lparr>vm_state := st\<rparr>" by (auto simp: transaction_Inr)
  note w = withdraw_escrow_inv [OF inv nn st]
  from s obtain r where r: "send 1 (send_simple rec METHOD_SEND None ex) v2 = (r, v')" "send_success r"
    by (auto simp: send_or_fail_Inr)
  from sender_okD(4) [OF assms(1) r(1) _ r(2)] v2
  have "vm_state v' = st \<and> vm_sends v' = send_simple rec METHOD_SEND None ex # vm_sends v1"
    by (auto simp: bare_transfer_def send_simple_def)
  with e auth w show ?thesis by metis
qed

theorem withdraw_takes_only_free_witness:
  "\<exists>v'. withdraw_balance ex_mk_prims ex_pay (ex_ctx (ID 101)) (ID 101) 1000 (ex_market_vm ex_market) = Inr (155, v')
     \<and> bt_get (escrow_table (vm_state v')) (ID 101) = 245
     \<and> vm_sends v' = [send_simple (ID 101) METHOD_SEND None 155]"
proof -
  have esc: "escrow_address ex_mk_prims ex_pay 0 (ID 101) (ex_market_vm ex_market)
      = Inr ((ID 101, ID 101, [ID 101]), ex_market_vm ex_market)"
    by (simp add: escrow_address_def resolve_address_def get_actor_code_cid_def resolve_builtin_actor_type_def
        ex_market_vm_def ex_world_def)
  obtain v' where v': "withdraw_balance ex_mk_prims ex_pay (ex_ctx (ID 101)) (ID 101) 1000 (ex_market_vm ex_market) = Inr (155, v')"
    by (simp add: withdraw_balance_def esc) (simp add: validate_immediate_caller_is_def ex_ctx_def transaction_def
        withdraw_balance_from_escrow_table_def subtract_with_minimum_def ex_market_vm_def ex_market_def bt_get_def
        bt_add_def map2_get_def map2_put_def send_or_fail_def ex_pay_def send_simple_def debit_def market_state_new_def)
  have c: "covers 0 (ex_market_vm ex_market)" using ex_market_inv
    by (simp add: covers_def ex_market_vm_def ex_market_def bt_total_def)
  have "bt_get (escrow_table (vm_state (ex_market_vm ex_market))) (ID 101) = 400" "vm_sends (ex_market_vm ex_market) = []"
    by (simp_all add: ex_market_vm_def ex_market_def bt_get_def map2_get_def)
  with withdraw_takes_only_free [OF ex_pay_ok c v'] esc v' show ?thesis by auto
qed

text \<open>
  Updates of a deal are spread over the interval. For a positive interval and an epoch and a deal
  identifier in range, \<open>next_update_epoch\<close> returns the one epoch of the interval that starts at
  the given one that is congruent to the identifier of the deal.
\<close>

theorem next_update_epoch_in_interval:
  assumes "0 < interval" and "0 \<le> earliest" and "i < 2 ^ 63"
  shows "\<exists>e. next_update_epoch i interval earliest = Inr e \<and> earliest \<le> e \<and> e < earliest + interval
    \<and> e mod interval = int i mod interval"
proof -
  let ?o = "int i mod interval" let ?d = "earliest - ?o"
  have i: "as_i64 (int i) = int i" using assms(3) by (simp add: as_i64_def)
  have o: "0 \<le> ?o" "?o < interval" using assms(1) by simp_all
  have off: "int i smod interval = ?o" using assms(1) by (simp add: signed_modulo_int_def sgn_if)
  have cong: "(interval * q + ?o) mod interval = ?o" for q by simp
  show ?thesis
  proof (cases "?d < 0")
    case True
    have "(?o - earliest) div interval = 0" by (rule div_pos_pos_trivial) (use True o assms(2) in linarith)+
    then have "?d sdiv interval = 0" using True assms(1) by (simp add: signed_divide_int_def sgn_if)
    moreover have "?o < earliest + interval" using o assms(2) by linarith
    ultimately show ?thesis using True i off assms(1) by (simp add: next_update_epoch_def Let_def)
  next
    case False
    then have sd: "?d sdiv interval = ?d div interval" and sm: "?d smod interval = ?d mod interval"
      using assms(1) by (simp_all add: signed_divide_int_def signed_modulo_int_def sgn_if)
    have dm: "interval * (?d div interval) + ?d mod interval = ?d" by simp
    have r: "0 \<le> ?d mod interval" "?d mod interval < interval" using assms(1) by simp_all
    show ?thesis
    proof (cases "?d mod interval = 0")
      case True
      then have "interval * (?d div interval) + ?o = earliest" using dm by linarith
      with cong [of "?d div interval"] have "earliest mod interval = ?o" by metis
      with True show ?thesis using i off sd sm assms(1) dm by (simp add: next_update_epoch_def Let_def)
    next
      case ne: False
      have "next_update_epoch i interval earliest = Inr (interval * (?d div interval + 1) + ?o)"
        using ne False i off sd sm assms(1) by (simp add: next_update_epoch_def Let_def)
      moreover have "interval * (?d div interval + 1) + ?o = earliest - ?d mod interval + interval"
        using dm by (simp add: algebra_simps)
      ultimately show ?thesis using cong [of "?d div interval + 1"] r ne by auto
    qed
  qed
qed

theorem next_update_epoch_in_interval_witness:
  "next_update_epoch 7 30 100 = Inr 127"
  using next_update_epoch_in_interval [of 30 100 7] by (simp add: next_update_epoch_def as_i64_def Let_def
    signed_divide_int_def signed_modulo_int_def)

end
