(* ===== verification/Verifreg.thy ===== *)
theory Verifreg
  imports Collections Batch "HOL-Library.Signed_Division"
begin

text \<open>
  The verified registry (\<open>actors/verifreg/src/{lib,state,expiration,types}.rs\<close>): verifiers with an allowance
  of data cap, allocations of data cap by clients, and claims of allocations by storage providers.

  Tables of allocations and claims are maps of maps, loaded, changed in a cache and flushed as in the code.
  Data cap is held as tokens by another actor, to which the registry sends; replies and encodings are
  fields of \<open>vr_prims\<close>. Events are left out.
\<close>

section \<open>State\<close>

type_synonym alloc_id = nat
type_synonym sector_num = nat

record allocation =
  al_client :: actor_id
  al_provider :: actor_id
  al_data :: cid
  al_size :: nat
  al_term_min :: int
  al_term_max :: int
  al_expiration :: int

record data_claim =
  dc_provider :: actor_id
  dc_client :: actor_id
  dc_data :: cid
  dc_size :: nat
  dc_term_min :: int
  dc_term_max :: int
  dc_term_start :: int
  dc_sector :: sector_num

type_synonym allocs = "(actor_id, alloc_id, allocation) mapmap"
type_synonym claim_table = "(actor_id, alloc_id, data_claim) mapmap"

record vr_state =
  root_key :: address
  verifiers :: "(address, int) map2"
  remove_data_cap_proposal_ids :: "(address \<times> address, nat) map2"
  allocations :: "(actor_id, (alloc_id, allocation) map2) map2"
  next_allocation_id :: alloc_id
  claims :: "(actor_id, (alloc_id, data_claim) map2) map2"

definition vr_state_new :: "address \<Rightarrow> vr_state" where
  "vr_state_new root = \<lparr>root_key = root, verifiers = map2_empty, remove_data_cap_proposal_ids = map2_empty,
     allocations = map2_empty, next_allocation_id = 1, claims = map2_empty\<rparr>"

definition put_verifier :: "address \<Rightarrow> int \<Rightarrow> vr_state \<Rightarrow> vr_state" where
  "put_verifier a cap st = st\<lparr>verifiers := map2_put a cap (verifiers st)\<rparr>"

definition st_remove_verifier :: "address \<Rightarrow> vr_state \<Rightarrow> vr_state result" where
  "st_remove_verifier a st =
     (case map2_delete a (verifiers st) of
        (None, _) \<Rightarrow> Inl illegal_argument
      | (Some _, vs) \<Rightarrow> Inr (st\<lparr>verifiers := vs\<rparr>))"

definition get_verifier_cap :: "address \<Rightarrow> vr_state \<Rightarrow> int option" where
  "get_verifier_cap a st = map2_get (verifiers st) a"

definition load_allocs :: "vr_state \<Rightarrow> allocs" where
  "load_allocs st = mpm_from_root (allocations st)"

definition save_allocs :: "allocs \<Rightarrow> vr_state \<Rightarrow> vr_state" where
  "save_allocs m st = st\<lparr>allocations := mpm_outer (mpm_flush m)\<rparr>"

definition load_claims :: "vr_state \<Rightarrow> claim_table" where
  "load_claims st = mpm_from_root (claims st)"

definition save_claims :: "claim_table \<Rightarrow> vr_state \<Rightarrow> vr_state" where
  "save_claims m st = st\<lparr>claims := mpm_outer (mpm_flush m)\<rparr>"

text \<open>Identifiers are consecutive; the counter is checked for overflow.\<close>

definition insert_allocations :: "actor_id \<Rightarrow> allocation list \<Rightarrow> vr_state \<Rightarrow> (alloc_id list \<times> vr_state) result" where
  "insert_allocations client new_allocs st =
     (if new_allocs = [] then Inr ([], st)
      else
        let first_id = next_allocation_id st; count = length new_allocs
        in ensure (first_id + count < 2 ^ 64) Panic
             (let st1 = save_allocs (mpm_put_many client (zip [first_id..<first_id + count] new_allocs) (load_allocs st)) st
              in Inr ([first_id..<first_id + count], st1\<lparr>next_allocation_id := first_id + count\<rparr>)))"

definition put_claims :: "(alloc_id \<times> data_claim) list \<Rightarrow> vr_state \<Rightarrow> vr_state" where
  "put_claims cs st =
     (if cs = [] then st
      else save_claims (fold (\<lambda>(i, d) m. snd (mpm_put (dc_provider d) i d m)) cs (load_claims st)) st)"

section \<open>Expiration\<close>

definition claim_expiration :: "data_claim \<Rightarrow> int" where
  "claim_expiration d = dc_term_start d + dc_term_max d"

definition find_expired ::
  "('v \<Rightarrow> int) \<Rightarrow> actor_id \<Rightarrow> int \<Rightarrow> (actor_id, alloc_id, 'v) mapmap \<Rightarrow>
   alloc_id list \<times> (actor_id, alloc_id, 'v) mapmap" where
  "find_expired expiration owner epoch m =
     (case mpm_entries_in owner m of
        (es, m') \<Rightarrow> (map fst (filter (\<lambda>(i, x). expiration x \<le> epoch) es), m'))"

definition check_one ::
  "('v \<Rightarrow> int) \<Rightarrow> actor_id \<Rightarrow> int \<Rightarrow> alloc_id \<Rightarrow> batch_gen \<times> (actor_id, alloc_id, 'v) mapmap \<Rightarrow>
   batch_gen \<times> (actor_id, alloc_id, 'v) mapmap" where
  "check_one expiration owner epoch i = (\<lambda>(g, m).
     case mpm_get owner i m of
       (Some x, m') \<Rightarrow> (if expiration x \<le> epoch then add_success g else add_fail USR_FORBIDDEN g, m')
     | (None, m') \<Rightarrow> (add_fail USR_NOT_FOUND g, m'))"

definition check_expired ::
  "('v \<Rightarrow> int) \<Rightarrow> alloc_id list \<Rightarrow> actor_id \<Rightarrow> int \<Rightarrow> (actor_id, alloc_id, 'v) mapmap \<Rightarrow>
   (batch_return \<times> (actor_id, alloc_id, 'v) mapmap) result" where
  "check_expired expiration candidates owner epoch m =
     (case fold (check_one expiration owner epoch) candidates (batch_gen_new (length candidates), m) of
        (g, m') \<Rightarrow> r_bind (generate g) (\<lambda>b. Inr (b, m')))"

text \<open>The part that both removals share: what was considered, the results, and what to remove.\<close>

definition select_expired ::
  "('v \<Rightarrow> int) \<Rightarrow> alloc_id list \<Rightarrow> actor_id \<Rightarrow> int \<Rightarrow> (actor_id, alloc_id, 'v) mapmap \<Rightarrow>
   (alloc_id list \<times> batch_return \<times> alloc_id list \<times> (actor_id, alloc_id, 'v) mapmap) result" where
  "select_expired expiration ids owner epoch m =
     (if ids = [] then
        (case find_expired expiration owner epoch m of
           (found, m') \<Rightarrow> Inr (found, batch_ok (length found mod 2 ^ 32), found, m'))
      else
        r_bind (check_expired expiration ids owner epoch m) (\<lambda>(b, m').
        r_bind (successes b ids) (\<lambda>to_remove. Inr (ids, b, to_remove, m'))))"

section \<open>Parameters and replies\<close>

record vr_policy =
  minimum_verified_allocation_size :: int
  minimum_verified_allocation_term :: int
  vr_maximum_verified_allocation_term :: int
  vr_maximum_verified_allocation_expiration :: int

record vr_alloc_req =
  vq_provider :: actor_id
  vq_data :: cid
  vq_size :: nat
  vq_term_min :: int
  vq_term_max :: int
  vq_expiration :: int

record claim_extension =
  cx_provider :: actor_id
  cx_claim :: alloc_id
  cx_term_max :: int

record tokens_received =
  tr_from :: actor_id
  tr_to :: actor_id
  tr_amount :: int
  tr_operator_data :: bytes

record allocation_claim =
  ac_client :: actor_id
  ac_allocation_id :: alloc_id
  ac_data :: cid
  ac_size :: nat

record sector_claims =
  sc_sector_num :: sector_num
  sc_expiry :: int
  sc_claims :: "allocation_claim list"

record claim_term =
  ct_provider :: actor_id
  ct_claim_id :: alloc_id
  ct_term_max :: int

record removal_request =
  rr_verifier :: address
  rr_signature :: bytes

datatype vr_params =
    BalanceParams address
  | MintParams address int "address list"
  | BurnParams int
  | DestroyParams address int
  | TransferParams address int
  | AuthenticateParams bytes bytes

record vr_prims =
  vp_policy :: vr_policy
  vp_precision :: int
  vp_token_type :: nat
  vp_method_hash :: "string \<Rightarrow> method_num"
  vp_balance :: "bytes option \<Rightarrow> int result"
  vp_authenticated :: "bytes option \<Rightarrow> bool result"
  vp_removal_payload :: "address \<times> int \<times> nat \<Rightarrow> bytes option"
  vp_tokens_received :: "bytes \<Rightarrow> tokens_received result"
  vp_alloc_reqs :: "bytes \<Rightarrow> (vr_alloc_req list \<times> claim_extension list) result"

type_synonym vr_vm = "(vr_state, vr_params) vm"
type_synonym vr_send = "(vr_state, vr_params) sender"

section \<open>Calls of the token actor\<close>

definition datacap_to_tokens :: "vr_prims \<Rightarrow> int \<Rightarrow> int" where
  "datacap_to_tokens P amount = amount * vp_precision P"

definition tokens_to_datacap :: "vr_prims \<Rightarrow> int \<Rightarrow> int" where
  "tokens_to_datacap P amount = amount sdiv vp_precision P"

definition vr_balance :: "vr_prims \<Rightarrow> vr_send \<Rightarrow> nat \<Rightarrow> address \<Rightarrow> vr_vm \<Rightarrow> (int \<times> vr_vm) result" where
  "vr_balance P send k owner v =
     r_bind (send_or_fail (send k)
               \<lparr>req_to = DATACAP_TOKEN_ACTOR_ADDR, req_method = vp_method_hash P ''Balance'',
                req_params = Some (BalanceParams owner), req_value = 0, req_read_only = True\<rparr> v)
       (\<lambda>(d, v'). r_bind (vp_balance P d) (\<lambda>x. Inr (tokens_to_datacap P x, v')))"

definition datacap_send :: "vr_prims \<Rightarrow> vr_send \<Rightarrow> nat \<Rightarrow> string \<Rightarrow> vr_params \<Rightarrow> vr_vm \<Rightarrow> vr_vm result" where
  "datacap_send P send k name params v =
     r_bind (send_or_fail (send k)
               (send_simple DATACAP_TOKEN_ACTOR_ADDR (vp_method_hash P name) (Some params) 0) v)
       (\<lambda>(_, v'). Inr v')"

definition vr_mint :: "vr_prims \<Rightarrow> vr_send \<Rightarrow> nat \<Rightarrow> address \<Rightarrow> int \<Rightarrow> address list \<Rightarrow> vr_vm \<Rightarrow> vr_vm result" where
  "vr_mint P send k to amount operators v =
     datacap_send P send k ''Mint'' (MintParams to (datacap_to_tokens P amount) operators) v"

definition vr_burn :: "vr_prims \<Rightarrow> vr_send \<Rightarrow> nat \<Rightarrow> int \<Rightarrow> vr_vm \<Rightarrow> vr_vm result" where
  "vr_burn P send k amount v =
     (if amount = 0 then Inr v else datacap_send P send k ''Burn'' (BurnParams (datacap_to_tokens P amount)) v)"

definition vr_destroy :: "vr_prims \<Rightarrow> vr_send \<Rightarrow> nat \<Rightarrow> address \<Rightarrow> int \<Rightarrow> vr_vm \<Rightarrow> vr_vm result" where
  "vr_destroy P send k owner amount v =
     (if amount = 0 then Inr v
      else datacap_send P send k ''Destroy'' (DestroyParams owner (datacap_to_tokens P amount)) v)"

definition vr_transfer :: "vr_prims \<Rightarrow> vr_send \<Rightarrow> nat \<Rightarrow> actor_id \<Rightarrow> int \<Rightarrow> vr_vm \<Rightarrow> vr_vm result" where
  "vr_transfer P send k to amount v =
     datacap_send P send k ''Transfer'' (TransferParams (ID to) (datacap_to_tokens P amount)) v"

section \<open>Verifiers and clients\<close>

definition vr_constructor :: "ctx \<Rightarrow> address \<Rightarrow> vr_vm \<Rightarrow> vr_state result" where
  "vr_constructor c root v =
     r_bind (validate_immediate_caller_is c [SYSTEM_ACTOR_ADDR]) (\<lambda>_.
     case resolve_address v root of
       None \<Rightarrow> Inl illegal_argument
     | Some i \<Rightarrow> Inr (vr_state_new (ID i)))"

definition add_verifier ::
  "vr_prims \<Rightarrow> vr_send \<Rightarrow> ctx \<Rightarrow> address \<Rightarrow> int \<Rightarrow> vr_vm \<Rightarrow> (unit \<times> vr_vm) result" where
  "add_verifier P send c a allowance v =
     ensure (\<not> allowance < minimum_verified_allocation_size (vp_policy P)) illegal_argument
    (r_bind (resolve_to_actor_id (send 0) a True v) (\<lambda>(verifier, v1).
     r_bind (validate_immediate_caller_is c [root_key (vm_state v1)]) (\<lambda>_.
     ensure (ID verifier \<noteq> root_key (vm_state v1)) illegal_argument
    (r_bind (vr_balance P send 1 (ID verifier) v1) (\<lambda>(token_balance, v2).
     ensure (\<not> 0 < token_balance) illegal_argument
    (transaction v2 (\<lambda>st. Inr ((), put_verifier (ID verifier) allowance st))))))))"

definition remove_verifier :: "vr_send \<Rightarrow> ctx \<Rightarrow> address \<Rightarrow> vr_vm \<Rightarrow> (unit \<times> vr_vm) result" where
  "remove_verifier send c a v =
     r_bind (resolve_to_actor_id (send 0) a False v) (\<lambda>(verifier, v1).
     transaction v1 (\<lambda>st.
       r_bind (validate_immediate_caller_is c [root_key st]) (\<lambda>_.
       r_bind (st_remove_verifier (ID verifier) st) (\<lambda>st'. Inr ((), st')))))"

definition spend_allowance :: "address \<Rightarrow> address \<Rightarrow> int \<Rightarrow> vr_state \<Rightarrow> (unit \<times> vr_state) result" where
  "spend_allowance verifier client allowance st =
     ensure (client \<noteq> root_key st) illegal_argument
       (case get_verifier_cap verifier st of
          None \<Rightarrow> Inl not_found
        | Some cap \<Rightarrow>
            ensure (get_verifier_cap client st = None) illegal_argument
           (ensure (\<not> cap < allowance) illegal_argument
           (let st1 = put_verifier verifier (cap - allowance) st
            in r_bind (addr_id verifier) (\<lambda>_. r_bind (addr_id client) (\<lambda>_. Inr ((), st1))))))"

definition add_verified_client ::
  "vr_prims \<Rightarrow> vr_send \<Rightarrow> ctx \<Rightarrow> address \<Rightarrow> int \<Rightarrow> vr_vm \<Rightarrow> (unit \<times> vr_vm) result" where
  "add_verified_client P send c a allowance v =
     ensure (\<not> allowance < minimum_verified_allocation_size (vp_policy P)) illegal_argument
    (r_bind (resolve_to_actor_id (send 0) a True v) (\<lambda>(client_id, v1).
     r_bind (transaction v1 (spend_allowance (caller c) (ID client_id) allowance)) (\<lambda>(_, v2).
     r_bind (vr_mint P send 1 (ID client_id) allowance [STORAGE_MARKET_ACTOR_ADDR] v2) (\<lambda>v3. Inr ((), v3)))))"

definition is_verifier :: "vr_state \<Rightarrow> address \<Rightarrow> bool" where
  "is_verifier st a = map2_contains_key (verifiers st) a"

definition use_proposal_id ::
  "address \<Rightarrow> address \<Rightarrow> (address \<times> address, nat) map2 \<Rightarrow> (nat \<times> (address \<times> address, nat) map2) result" where
  "use_proposal_id verifier client ids =
     (let curr_id = (case map2_get ids (verifier, client) of Some i \<Rightarrow> i | None \<Rightarrow> 0)
      in ensure (curr_id + 1 < 2 ^ 64) Panic
           (Inr (curr_id, map2_put (verifier, client) (curr_id + 1) ids)))"

definition remove_data_cap_request_is_valid ::
  "vr_prims \<Rightarrow> vr_send \<Rightarrow> nat \<Rightarrow> removal_request \<Rightarrow> nat \<Rightarrow> int \<Rightarrow> address \<Rightarrow> vr_vm \<Rightarrow> vr_vm result" where
  "remove_data_cap_request_is_valid P send k request i to_remove client v =
     (case vp_removal_payload P (client, to_remove, i) of
        None \<Rightarrow> Inl (ActorError USR_SERIALIZATION None)
      | Some payload \<Rightarrow>
          r_bind (send_or_fail (send k)
                    \<lparr>req_to = rr_verifier request, req_method = vp_method_hash P ''AuthenticateMessage'',
                     req_params = Some (AuthenticateParams (rr_signature request) payload),
                     req_value = 0, req_read_only = True\<rparr> v) (\<lambda>(d, v').
          r_bind (vp_authenticated P d) (\<lambda>ok. ensure ok illegal_argument (Inr v'))))"

definition use_two_proposals :: "ctx \<Rightarrow> address \<Rightarrow> address \<Rightarrow> address \<Rightarrow> address \<Rightarrow> vr_state \<Rightarrow> ((nat \<times> nat) \<times> vr_state) result" where
  "use_two_proposals c param verifier_1 verifier_2 client st =
     r_bind (validate_immediate_caller_is c [root_key st]) (\<lambda>_.
     ensure (param \<noteq> VERIFIED_REGISTRY_ACTOR_ADDR) illegal_argument
    (ensure (is_verifier st verifier_1) not_found
    (ensure (is_verifier st verifier_2) not_found
    (r_bind (use_proposal_id verifier_1 client (remove_data_cap_proposal_ids st)) (\<lambda>(id_1, ids1).
     r_bind (use_proposal_id verifier_2 client ids1) (\<lambda>(id_2, ids2).
     Inr ((id_1, id_2), st\<lparr>remove_data_cap_proposal_ids := ids2\<rparr>)))))))"

definition remove_verified_client_data_cap ::
  "vr_prims \<Rightarrow> vr_send \<Rightarrow> ctx \<Rightarrow> address \<Rightarrow> int \<Rightarrow> removal_request \<Rightarrow> removal_request \<Rightarrow> vr_vm \<Rightarrow>
   ((address \<times> int) \<times> vr_vm) result" where
  "remove_verified_client_data_cap P send c a amount r1 r2 v =
     r_bind (resolve_to_actor_id (send 0) a False v) (\<lambda>(client, v1).
     r_bind (resolve_to_actor_id (send 1) (rr_verifier r1) True v1) (\<lambda>(verifier_1, v2).
     r_bind (resolve_to_actor_id (send 2) (rr_verifier r2) True v2) (\<lambda>(verifier_2, v3).
     ensure (verifier_1 \<noteq> verifier_2) illegal_argument
    (r_bind (transaction v3 (use_two_proposals c a (ID verifier_1) (ID verifier_2) (ID client))) (\<lambda>((id_1, id_2), v4).
     r_bind (remove_data_cap_request_is_valid P send 3 r1 id_1 amount (ID client) v4) (\<lambda>v5.
     r_bind (remove_data_cap_request_is_valid P send 4 r2 id_2 amount (ID client) v5) (\<lambda>v6.
     r_bind (vr_balance P send 5 (ID client) v6) (\<lambda>(bal, v7).
     r_bind (vr_destroy P send 6 (ID client) (min bal amount) v7) (\<lambda>v8.
     Inr ((ID client, min bal amount), v8))))))))))"

section \<open>Removal of expired allocations and claims\<close>

text \<open>An identifier that is not there is unwrapped: a panic.\<close>

definition remove_one_alloc :: "actor_id \<Rightarrow> alloc_id \<Rightarrow> int \<times> allocs \<Rightarrow> (int \<times> allocs) result" where
  "remove_one_alloc client i = (\<lambda>(recovered, m).
     case mpm_remove client i m of
       (None, _) \<Rightarrow> Inl Panic
     | (Some a, m') \<Rightarrow> Inr (recovered + int (al_size a), m'))"

definition remove_expired_allocs_tx ::
  "int \<Rightarrow> actor_id \<Rightarrow> alloc_id list \<Rightarrow> vr_state \<Rightarrow> ((alloc_id list \<times> batch_return \<times> int) \<times> vr_state) result" where
  "remove_expired_allocs_tx epoch client ids st =
     r_bind (select_expired al_expiration ids client epoch (load_allocs st)) (\<lambda>(considered, b, to_remove, m).
     r_bind (r_fold (remove_one_alloc client) to_remove (0, m)) (\<lambda>(recovered, m').
     Inr ((considered, b, recovered), save_allocs m' st)))"

definition remove_expired_allocations ::
  "vr_prims \<Rightarrow> vr_send \<Rightarrow> ctx \<Rightarrow> actor_id \<Rightarrow> alloc_id list \<Rightarrow> vr_vm \<Rightarrow>
   ((alloc_id list \<times> batch_return \<times> int) \<times> vr_vm) result" where
  "remove_expired_allocations P send c client ids v =
     r_bind (transaction v (remove_expired_allocs_tx (curr_epoch c) client ids)) (\<lambda>((considered, b, recovered), v1).
     r_bind (vr_transfer P send 0 client recovered v1) (\<lambda>v2. Inr ((considered, b, recovered), v2)))"

definition remove_one_claim :: "actor_id \<Rightarrow> alloc_id \<Rightarrow> claim_table \<Rightarrow> claim_table result" where
  "remove_one_claim provider i m =
     (case mpm_remove provider i m of (None, _) \<Rightarrow> Inl Panic | (Some _, m') \<Rightarrow> Inr m')"

definition remove_expired_claims ::
  "ctx \<Rightarrow> actor_id \<Rightarrow> alloc_id list \<Rightarrow> vr_vm \<Rightarrow> ((alloc_id list \<times> batch_return) \<times> vr_vm) result" where
  "remove_expired_claims c provider ids v =
     transaction v (\<lambda>st.
       r_bind (select_expired claim_expiration ids provider (curr_epoch c) (load_claims st)) (\<lambda>(considered, b, to_remove, m).
       r_bind (r_fold (remove_one_claim provider) to_remove m) (\<lambda>m'.
       Inr ((considered, b), save_claims m' st))))"

section \<open>Claims\<close>

definition can_claim_alloc :: "allocation_claim \<Rightarrow> actor_id \<Rightarrow> allocation \<Rightarrow> int \<Rightarrow> int \<Rightarrow> bool" where
  "can_claim_alloc cl provider a epoch sector_expiry \<longleftrightarrow>
     (let sector_lifetime = sector_expiry - epoch
      in provider = al_provider a \<and> ac_client cl = al_client a \<and> ac_data cl = al_data a \<and> ac_size cl = al_size a
         \<and> epoch \<le> al_expiration a \<and> al_term_min a \<le> sector_lifetime \<and> sector_lifetime \<le> al_term_max a)"

definition claim_of :: "actor_id \<Rightarrow> int \<Rightarrow> sector_num \<Rightarrow> allocation \<Rightarrow> data_claim" where
  "claim_of provider epoch sector a =
     \<lparr>dc_provider = provider, dc_client = al_client a, dc_data = al_data a, dc_size = al_size a,
      dc_term_min = al_term_min a, dc_term_max = al_term_max a, dc_term_start = epoch, dc_sector = sector\<rparr>"

text \<open>The validation of a sector: the exit code of the first claim that fails, or the new claims.\<close>

fun gather_claims ::
  "actor_id \<Rightarrow> int \<Rightarrow> sector_claims \<Rightarrow> allocation_claim list \<Rightarrow> (alloc_id \<times> data_claim) list \<Rightarrow> allocs \<Rightarrow>
   (exit_code + (alloc_id \<times> data_claim) list) \<times> allocs" where
  "gather_claims provider epoch sector [] acc m = (Inr acc, m)"
| "gather_claims provider epoch sector (cl # cls) acc m =
     (case mpm_get (ac_client cl) (ac_allocation_id cl) m of
        (Some a, m') \<Rightarrow>
          if \<not> can_claim_alloc cl provider a epoch (sc_expiry sector) then (Inl USR_FORBIDDEN, m')
          else gather_claims provider epoch sector cls
                 (acc @ [(ac_allocation_id cl, claim_of provider epoch (sc_sector_num sector) a)]) m'
      | (None, m') \<Rightarrow> (Inl USR_NOT_FOUND, m'))"

definition write_claim ::
  "actor_id \<Rightarrow> alloc_id \<times> data_claim \<Rightarrow> claim_table \<times> allocs \<times> int \<Rightarrow> (claim_table \<times> allocs \<times> int) result" where
  "write_claim provider = (\<lambda>(i, d) (cs, as, space).
     case mpm_put_if_absent provider i d cs of
       (inserted, cs') \<Rightarrow>
         ensure inserted illegal_argument
           (Inr (cs', snd (mpm_remove (dc_client d) i as), space + int (dc_size d))))"

record claim_acc =
  cl_claims :: claim_table
  cl_allocs :: allocs
  cl_gen :: batch_gen
  cl_results :: "int list"
  cl_total :: int

definition claim_sector :: "actor_id \<Rightarrow> int \<Rightarrow> sector_claims \<Rightarrow> claim_acc \<Rightarrow> claim_acc result" where
  "claim_sector provider epoch sector acc =
     (case gather_claims provider epoch sector (sc_claims sector) [] (cl_allocs acc) of
        (Inl code, as) \<Rightarrow> Inr (acc\<lparr>cl_allocs := as, cl_gen := add_fail code (cl_gen acc)\<rparr>)
      | (Inr new_claims, as) \<Rightarrow>
          r_bind (r_fold (write_claim provider) new_claims (cl_claims acc, as, 0)) (\<lambda>(cs, as', space).
          Inr \<lparr>cl_claims = cs, cl_allocs = as', cl_gen = add_success (cl_gen acc),
               cl_results = cl_results acc @ [space], cl_total = cl_total acc + space\<rparr>))"

definition claim_tx ::
  "actor_id \<Rightarrow> int \<Rightarrow> sector_claims list \<Rightarrow> vr_state \<Rightarrow> ((batch_gen \<times> int list \<times> int) \<times> vr_state) result" where
  "claim_tx provider epoch sectors st =
     r_bind (r_fold (claim_sector provider epoch) sectors
               \<lparr>cl_claims = load_claims st, cl_allocs = load_allocs st, cl_gen = batch_gen_new (length sectors),
                cl_results = [], cl_total = 0\<rparr>) (\<lambda>acc.
     Inr ((cl_gen acc, cl_results acc, cl_total acc), save_claims (cl_claims acc) (save_allocs (cl_allocs acc) st)))"

definition claim_allocations ::
  "vr_prims \<Rightarrow> vr_send \<Rightarrow> ctx \<Rightarrow> sector_claims list \<Rightarrow> bool \<Rightarrow> vr_vm \<Rightarrow> ((batch_return \<times> int list) \<times> vr_vm) result" where
  "claim_allocations P send c sectors all_or_nothing v =
     r_bind (validate_immediate_caller_type c v [Miner]) (\<lambda>_.
     r_bind (addr_id (caller c)) (\<lambda>provider.
     ensure (sectors \<noteq> []) illegal_argument
    (r_bind (transaction v (claim_tx provider (curr_epoch c) sectors)) (\<lambda>((g, results, total), v1).
     r_bind (generate g) (\<lambda>b.
     ensure (\<not> (all_or_nothing \<and> \<not> all_ok b)) illegal_argument
    (r_bind (vr_burn P send 0 total v1) (\<lambda>v2. Inr ((b, results), v2))))))))"

definition get_claim_one :: "actor_id \<Rightarrow> alloc_id \<Rightarrow> batch_gen \<times> data_claim list \<times> claim_table \<Rightarrow> batch_gen \<times> data_claim list \<times> claim_table" where
  "get_claim_one provider i = (\<lambda>(g, ds, m).
     case mpm_get provider i m of
       (None, m') \<Rightarrow> (add_fail USR_NOT_FOUND g, ds, m')
     | (Some d, m') \<Rightarrow> (add_success g, ds @ [d], m'))"

definition get_claims :: "actor_id \<Rightarrow> alloc_id list \<Rightarrow> vr_state \<Rightarrow> (batch_return \<times> data_claim list) result" where
  "get_claims provider ids st =
     (case fold (get_claim_one provider) ids (batch_gen_new (length ids), [], load_claims st) of
        (g, ds, _) \<Rightarrow> r_bind (generate g) (\<lambda>b. Inr (b, ds)))"

definition extend_term ::
  "vr_prims \<Rightarrow> actor_id \<Rightarrow> claim_term \<Rightarrow> batch_gen \<times> claim_table \<Rightarrow> batch_gen \<times> claim_table" where
  "extend_term P caller_id t = (\<lambda>(g, m).
     if vr_maximum_verified_allocation_term (vp_policy P) < ct_term_max t then (add_fail USR_ILLEGAL_ARGUMENT g, m)
     else case mpm_get (ct_provider t) (ct_claim_id t) m of
       (None, m') \<Rightarrow> (add_fail USR_NOT_FOUND g, m')
     | (Some d, m') \<Rightarrow>
         if dc_client d \<noteq> caller_id then (add_fail USR_FORBIDDEN g, m')
         else if ct_term_max t < dc_term_max d then (add_fail USR_ILLEGAL_ARGUMENT g, m')
         else (add_success g, snd (mpm_put (ct_provider t) (ct_claim_id t) (d\<lparr>dc_term_max := ct_term_max t\<rparr>) m')))"

definition extend_claim_terms ::
  "vr_prims \<Rightarrow> ctx \<Rightarrow> claim_term list \<Rightarrow> vr_vm \<Rightarrow> (batch_return \<times> vr_vm) result" where
  "extend_claim_terms P c terms v =
     r_bind (addr_id (caller c)) (\<lambda>caller_id.
     r_bind (transaction v (\<lambda>st.
       case fold (extend_term P caller_id) terms (batch_gen_new (length terms), load_claims st) of
         (g, m) \<Rightarrow> Inr (g, save_claims m st))) (\<lambda>(g, v1).
     r_bind (generate g) (\<lambda>b. Inr (b, v1))))"

section \<open>Receiving tokens\<close>

definition validate_tokens_received :: "vr_prims \<Rightarrow> nat \<Rightarrow> bytes \<Rightarrow> actor_id \<Rightarrow> tokens_received result" where
  "validate_tokens_received P ty payload my_id =
     ensure (ty = vp_token_type P) illegal_argument
       (r_bind (vp_tokens_received P payload) (\<lambda>t. ensure (tr_to t = my_id) illegal_argument (Inr t)))"

definition validate_new_allocation :: "vr_policy \<Rightarrow> int \<Rightarrow> vr_alloc_req \<Rightarrow> unit result" where
  "validate_new_allocation p epoch r =
     ensure (\<not> int (vq_size r) < minimum_verified_allocation_size p) illegal_argument
    (ensure (\<not> vq_term_min r < minimum_verified_allocation_term p) illegal_argument
    (ensure (\<not> vr_maximum_verified_allocation_term p < vq_term_max r) illegal_argument
    (ensure (\<not> vq_term_max r < vq_term_min r) illegal_argument
    (ensure (\<not> vq_expiration r < epoch) illegal_argument
    (ensure (\<not> epoch + vr_maximum_verified_allocation_expiration p < vq_expiration r) illegal_argument
    (Inr ()))))))"

definition check_miner_id :: "actor_id \<Rightarrow> vr_vm \<Rightarrow> unit result" where
  "check_miner_id i v =
     (case get_actor_code_cid v i of
        None \<Rightarrow> Inl illegal_argument
      | Some code \<Rightarrow> ensure (resolve_builtin_actor_type v code = Some Miner) illegal_argument (Inr ()))"

definition new_allocation ::
  "vr_prims \<Rightarrow> int \<Rightarrow> actor_id \<Rightarrow> vr_vm \<Rightarrow> vr_alloc_req \<Rightarrow> allocation list \<times> int \<Rightarrow> (allocation list \<times> int) result" where
  "new_allocation P epoch client v r = (\<lambda>(as, total).
     r_bind (validate_new_allocation (vp_policy P) epoch r) (\<lambda>_.
     r_bind (check_miner_id (vq_provider r) v) (\<lambda>_.
     Inr (as @ [\<lparr>al_client = client, al_provider = vq_provider r, al_data = vq_data r, al_size = vq_size r,
                 al_term_min = vq_term_min r, al_term_max = vq_term_max r, al_expiration = vq_expiration r\<rparr>],
          total + int (vq_size r)))))"

definition validate_claim_extension :: "vr_policy \<Rightarrow> int \<Rightarrow> claim_extension \<Rightarrow> data_claim \<Rightarrow> unit result" where
  "validate_claim_extension p epoch r d =
     (let term_limit_relative = epoch + vr_maximum_verified_allocation_term p - dc_term_start d
      in ensure (\<not> term_limit_relative < cx_term_max r) illegal_argument
        (ensure (\<not> cx_term_max r \<le> dc_term_max d) illegal_argument
        (ensure (\<not> dc_term_start d + dc_term_max d < epoch) forbidden
        (Inr ()))))"

definition extend_claim ::
  "vr_prims \<Rightarrow> int \<Rightarrow> claim_extension \<Rightarrow> claim_table \<times> (alloc_id \<times> data_claim) list \<times> int \<Rightarrow>
   (claim_table \<times> (alloc_id \<times> data_claim) list \<times> int) result" where
  "extend_claim P epoch r = (\<lambda>(m, updated, total).
     case mpm_get (cx_provider r) (cx_claim r) m of
       (None, _) \<Rightarrow> Inl not_found
     | (Some d, m') \<Rightarrow>
         r_bind (validate_claim_extension (vp_policy P) epoch r d) (\<lambda>_.
         Inr (m', updated @ [(cx_claim r, d\<lparr>dc_term_max := cx_term_max r\<rparr>)], total + int (dc_size d))))"

definition store_received ::
  "actor_id \<Rightarrow> allocation list \<Rightarrow> (alloc_id \<times> data_claim) list \<Rightarrow> vr_state \<Rightarrow> (alloc_id list \<times> vr_state) result" where
  "store_received client new_allocs updated st =
     r_bind (insert_allocations client new_allocs st) (\<lambda>(ids, st1). Inr (ids, put_claims updated st1))"

definition universal_receiver_hook ::
  "vr_prims \<Rightarrow> vr_send \<Rightarrow> ctx \<Rightarrow> nat \<Rightarrow> bytes \<Rightarrow> vr_vm \<Rightarrow>
   ((batch_return \<times> batch_return \<times> alloc_id list) \<times> vr_vm) result" where
  "universal_receiver_hook P send c ty payload v =
     r_bind (validate_immediate_caller_is c [DATACAP_TOKEN_ACTOR_ADDR]) (\<lambda>_.
     r_bind (addr_id (receiver c)) (\<lambda>my_id.
     r_bind (validate_tokens_received P ty payload my_id) (\<lambda>t.
     r_bind (vp_alloc_reqs P (tr_operator_data t)) (\<lambda>(alloc_reqs, extensions).
     r_bind (r_fold (new_allocation P (curr_epoch c) (tr_from t) v) alloc_reqs ([], 0)) (\<lambda>(new_allocs, alloc_total).
     r_bind (r_fold (extend_claim P (curr_epoch c)) extensions (load_claims (vm_state v), [], 0))
       (\<lambda>(_, updated, extension_total).
     ensure (alloc_total + extension_total = tokens_to_datacap P (tr_amount t)) illegal_argument
    (r_bind (vr_burn P send 0 extension_total v) (\<lambda>v1.
     r_bind (transaction v1 (store_received (tr_from t) new_allocs updated)) (\<lambda>(ids, v2).
     Inr ((batch_ok (length new_allocs mod 2 ^ 32), batch_ok (length updated mod 2 ^ 32), ids), v2))))))))))"

section \<open>Dispatch\<close>

datatype vr_msg =
    AddVerifier address int
  | RemoveVerifier address
  | AddVerifiedClient address int | AddVerifiedClientExported address int
  | RemoveVerifiedClientDataCap address int removal_request removal_request
  | RemoveExpiredAllocations actor_id "alloc_id list" | RemoveExpiredAllocationsExported actor_id "alloc_id list"
  | ClaimAllocations "sector_claims list" bool
  | GetClaims actor_id "alloc_id list" | GetClaimsExported actor_id "alloc_id list"
  | ExtendClaimTerms "claim_term list" | ExtendClaimTermsExported "claim_term list"
  | RemoveExpiredClaims actor_id "alloc_id list" | RemoveExpiredClaimsExported actor_id "alloc_id list"
  | UniversalReceiverHook nat bytes

datatype vr_ret =
    VrUnit
  | RemoveDataCapReturn address int
  | RemoveAllocationsReturn "alloc_id list" batch_return int
  | ClaimReturn batch_return "int list"
  | GetClaimsReturn batch_return "data_claim list"
  | ExtendReturn batch_return
  | RemoveClaimsReturn "alloc_id list" batch_return
  | AllocationsResponse batch_return batch_return "alloc_id list"

fun vr_method :: "vr_msg \<Rightarrow> method_num" where
  "vr_method (AddVerifier a x) = 2"
| "vr_method (RemoveVerifier a) = 3"
| "vr_method (AddVerifiedClient a x) = 4"
| "vr_method (RemoveVerifiedClientDataCap a x r1 r2) = 7"
| "vr_method (RemoveExpiredAllocations i ids) = 8"
| "vr_method (ClaimAllocations ss b) = 9"
| "vr_method (GetClaims p ids) = 10"
| "vr_method (ExtendClaimTerms ts) = 11"
| "vr_method (RemoveExpiredClaims p ids) = 12"
| "vr_method m = FIRST_EXPORTED_METHOD_NUMBER"

definition vr_dispatch :: "vr_prims \<Rightarrow> (vr_state, vr_params, vr_msg, vr_ret) dispatch" where
  "vr_dispatch P send c m v =
     r_bind (restrict_internal_api c v (vr_method m)) (\<lambda>_.
     case m of
       AddVerifier a x \<Rightarrow> as_ret (\<lambda>_. VrUnit) (add_verifier P send c a x v)
     | RemoveVerifier a \<Rightarrow> as_ret (\<lambda>_. VrUnit) (remove_verifier send c a v)
     | AddVerifiedClient a x \<Rightarrow> as_ret (\<lambda>_. VrUnit) (add_verified_client P send c a x v)
     | AddVerifiedClientExported a x \<Rightarrow> as_ret (\<lambda>_. VrUnit) (add_verified_client P send c a x v)
     | RemoveVerifiedClientDataCap a x r1 r2 \<Rightarrow>
         as_ret (case_prod RemoveDataCapReturn) (remove_verified_client_data_cap P send c a x r1 r2 v)
     | RemoveExpiredAllocations i ids \<Rightarrow>
         as_ret (\<lambda>(cs, b, x). RemoveAllocationsReturn cs b x) (remove_expired_allocations P send c i ids v)
     | RemoveExpiredAllocationsExported i ids \<Rightarrow>
         as_ret (\<lambda>(cs, b, x). RemoveAllocationsReturn cs b x) (remove_expired_allocations P send c i ids v)
     | ClaimAllocations ss b \<Rightarrow> as_ret (case_prod ClaimReturn) (claim_allocations P send c ss b v)
     | GetClaims p ids \<Rightarrow> r_bind (get_claims p ids (vm_state v)) (\<lambda>(b, ds). Inr (GetClaimsReturn b ds, v))
     | GetClaimsExported p ids \<Rightarrow> r_bind (get_claims p ids (vm_state v)) (\<lambda>(b, ds). Inr (GetClaimsReturn b ds, v))
     | ExtendClaimTerms ts \<Rightarrow> as_ret ExtendReturn (extend_claim_terms P c ts v)
     | ExtendClaimTermsExported ts \<Rightarrow> as_ret ExtendReturn (extend_claim_terms P c ts v)
     | RemoveExpiredClaims p ids \<Rightarrow> as_ret (case_prod RemoveClaimsReturn) (remove_expired_claims c p ids v)
     | RemoveExpiredClaimsExported p ids \<Rightarrow> as_ret (case_prod RemoveClaimsReturn) (remove_expired_claims c p ids v)
     | UniversalReceiverHook ty payload \<Rightarrow>
         as_ret (\<lambda>(a, x, ids). AllocationsResponse a x ids) (universal_receiver_hook P send c ty payload v))"

end
