(* ===== verification/VerifregRun.thy ===== *)
theory VerifregRun
  imports Verifreg
begin

text \<open>
  Identifiers of allocations and claims. An identifier names at most one open allocation or one claim,
  and one that is spent is never open again; both survive every re-entrant sequence of calls. The
  registry accounts for every unit of data cap it receives.
\<close>

section \<open>What the tables hold\<close>

type_synonym alloc_view = "actor_id \<Rightarrow> alloc_id \<Rightarrow> allocation option"
type_synonym claim_view = "actor_id \<Rightarrow> alloc_id \<Rightarrow> data_claim option"

definition alloc_at :: "vr_state \<Rightarrow> alloc_view" where
  "alloc_at st = mpm_lookup (load_allocs st)"

definition claim_at :: "vr_state \<Rightarrow> claim_view" where
  "claim_at st = mpm_lookup (load_claims st)"

definition ids_ok :: "nat \<Rightarrow> alloc_view \<Rightarrow> claim_view \<Rightarrow> bool" where
  "ids_ok n A C \<longleftrightarrow>
     (\<forall>c i a. A c i = Some a \<longrightarrow> al_client a = c \<and> i < n)
     \<and> (\<forall>p i d. C p i = Some d \<longrightarrow> dc_provider d = p \<and> i < n)
     \<and> (\<forall>c c' i. A c i \<noteq> None \<longrightarrow> A c' i \<noteq> None \<longrightarrow> c = c')
     \<and> (\<forall>c p i. A c i \<noteq> None \<longrightarrow> C p i = None)
     \<and> (\<forall>p p' i. C p i \<noteq> None \<longrightarrow> C p' i \<noteq> None \<longrightarrow> p = p')"

text \<open>An identifier that is no open allocation and no claim of another provider.\<close>

definition spent :: "nat \<Rightarrow> alloc_view \<Rightarrow> claim_view \<Rightarrow> alloc_id \<times> actor_id \<Rightarrow> bool" where
  "spent n A C = (\<lambda>(i, p). i < n \<and> (\<forall>c. A c i = None) \<and> (\<forall>p'. p' \<noteq> p \<longrightarrow> C p' i = None))"

definition ids_inv :: "(alloc_id \<times> actor_id) set \<Rightarrow> nat \<Rightarrow> alloc_view \<Rightarrow> claim_view \<Rightarrow> bool" where
  "ids_inv K n A C \<longleftrightarrow> ids_ok n A C \<and> (\<forall>k \<in> K. spent n A C k)"

lemma ids_invD:
  assumes "ids_inv K n A C"
  shows "A c i = Some a \<Longrightarrow> al_client a = c \<and> i < n"
    and "C p i = Some d \<Longrightarrow> dc_provider d = p \<and> i < n"
    and "A c i \<noteq> None \<Longrightarrow> A c' i \<noteq> None \<Longrightarrow> c = c'"
    and "A c i \<noteq> None \<Longrightarrow> C p i = None"
    and "C p i \<noteq> None \<Longrightarrow> C p' i \<noteq> None \<Longrightarrow> p = p'"
    and "k \<in> K \<Longrightarrow> spent n A C k"
  using assms unfolding ids_inv_def ids_ok_def by blast+

definition upd2 :: "'k \<Rightarrow> 'j \<Rightarrow> 'v option \<Rightarrow> ('k \<Rightarrow> 'j \<Rightarrow> 'v option) \<Rightarrow> 'k \<Rightarrow> 'j \<Rightarrow> 'v option" where
  "upd2 k j x m = m(k := (m k)(j := x))"

lemma upd2_apply: "upd2 k j x m k' j' = (if k' = k \<and> j' = j then x else m k' j')"
  by (simp add: upd2_def)

lemma ids_inv_drop_alloc: "ids_inv K n A C \<Longrightarrow> ids_inv K n (upd2 c i None A) C"
  unfolding ids_inv_def ids_ok_def spent_def upd2_apply by (auto split: if_split_asm)

lemma ids_inv_drop_claim: "ids_inv K n A C \<Longrightarrow> ids_inv K n A (upd2 p i None C)"
  unfolding ids_inv_def ids_ok_def spent_def upd2_apply by (auto split: if_split_asm)

text \<open>An identifier that \<open>K\<close> ties to one provider may be given a claim of that provider again.\<close>

definition tied :: "(alloc_id \<times> actor_id) set \<Rightarrow> alloc_id \<times> data_claim \<Rightarrow> bool" where
  "tied K = (\<lambda>(i, d). (i, dc_provider d) \<in> K \<and> (\<forall>q. (i, q) \<in> K \<longrightarrow> q = dc_provider d))"

lemma ids_inv_put_claim:
  assumes "ids_inv K n A C" and "tied K (i, d)"
  shows "ids_inv K n A (upd2 (dc_provider d) i (Some d) C)"
proof -
  have "spent n A C (i, dc_provider d)" using assms by (auto simp: ids_inv_def tied_def)
  then have i: "i < n" "\<forall>c. A c i = None" "\<forall>p'. p' \<noteq> dc_provider d \<longrightarrow> C p' i = None" by (auto simp: spent_def)
  from assms(1) i have "ids_ok n A (upd2 (dc_provider d) i (Some d) C)"
    unfolding ids_inv_def ids_ok_def upd2_apply by (auto split: if_split_asm)
  moreover have "spent n A (upd2 (dc_provider d) i (Some d) C) k" if "k \<in> K" for k
    using that assms unfolding ids_inv_def spent_def tied_def upd2_apply by (cases k) auto
  ultimately show ?thesis by (simp add: ids_inv_def)
qed

lemma claim_ties:
  assumes "ids_inv K n A C" and "C p i = Some d"
  shows "ids_inv (insert (i, p) K) n A C" and "(i, q) \<in> K \<Longrightarrow> q = p" and "dc_provider d = p"
proof -
  have "i < n" "dc_provider d = p" using assms by (auto simp: ids_inv_def ids_ok_def)
  moreover have "A c i = None" for c using assms unfolding ids_inv_def ids_ok_def by (metis option.distinct(1))
  moreover have "p' \<noteq> p \<Longrightarrow> C p' i = None" for p' using assms unfolding ids_inv_def ids_ok_def by (metis option.distinct(1))
  ultimately show "ids_inv (insert (i, p) K) n A C" "dc_provider d = p"
    using assms(1) by (auto simp: ids_inv_def spent_def)
  show "(i, q) \<in> K \<Longrightarrow> q = p" using assms unfolding ids_inv_def spent_def by fastforce
qed

text \<open>A claim of an allocation that was found open: it is still open, or it is claimed already.\<close>

definition claimable :: "nat \<Rightarrow> alloc_view \<Rightarrow> claim_view \<Rightarrow> actor_id \<Rightarrow> alloc_id \<times> data_claim \<Rightarrow> bool" where
  "claimable n A C p = (\<lambda>(i, d). i < n \<and> dc_provider d = p \<and> (\<forall>c. c \<noteq> dc_client d \<longrightarrow> A c i = None)
     \<and> (\<forall>q. q \<noteq> p \<longrightarrow> C q i = None) \<and> (A (dc_client d) i \<noteq> None \<or> C p i \<noteq> None)
     \<and> (\<forall>a. A (dc_client d) i = Some a \<longrightarrow> dc_size d = al_size a))"

lemma ids_inv_claim:
  assumes "ids_inv K n A C" and "claimable n A C p (i, d)" and "C p i = None"
  shows "ids_inv K n (upd2 (dc_client d) i None A) (upd2 p i (Some d) C)"
    and "claimable n A C p x \<Longrightarrow> claimable n (upd2 (dc_client d) i None A) (upd2 p i (Some d) C) p x"
proof -
  have c: "i < n" "dc_provider d = p" "A (dc_client d) i \<noteq> None" "\<And>c. c \<noteq> dc_client d \<Longrightarrow> A c i = None"
    "\<And>q. q \<noteq> p \<Longrightarrow> C q i = None"
    using assms(2,3) by (auto simp: claimable_def)
  have "ids_ok n (upd2 (dc_client d) i None A) (upd2 p i (Some d) C)"
    using assms(1) c unfolding ids_inv_def ids_ok_def upd2_apply by (auto split: if_split_asm)
  moreover have "spent n (upd2 (dc_client d) i None A) (upd2 p i (Some d) C) k" if "k \<in> K" for k
    using that assms(1) c(3) unfolding ids_inv_def spent_def upd2_apply by (cases k) force
  ultimately show "ids_inv K n (upd2 (dc_client d) i None A) (upd2 p i (Some d) C)" by (simp add: ids_inv_def)
  show "claimable n A C p x \<Longrightarrow> claimable n (upd2 (dc_client d) i None A) (upd2 p i (Some d) C) p x"
    unfolding claimable_def upd2_apply by (cases x) auto
qed

lemma open_claimable:
  assumes "ids_inv K n A C" and "A c i = Some a" and "dc_provider d = p" and "dc_client d = al_client a"
    and "dc_size d = al_size a"
  shows "claimable n A C p (i, d)"
proof -
  have "i < n" "al_client a = c" using assms(1,2) by (auto simp: ids_inv_def ids_ok_def)
  moreover have "c' \<noteq> c \<Longrightarrow> A c' i = None" for c' using assms(1,2) unfolding ids_inv_def ids_ok_def by (metis option.distinct(1))
  moreover have "C q i = None" for q using assms(1,2) unfolding ids_inv_def ids_ok_def by (metis option.distinct(1))
  ultimately show ?thesis using assms(2-5) by (auto simp: claimable_def)
qed

text \<open>New allocations have identifiers from the counter on.\<close>

lemma ids_inv_insert:
  assumes "ids_inv K n A C" and "\<And>i a. M i = Some a \<Longrightarrow> n \<le> i \<and> i < n' \<and> al_client a = c" and "n \<le> n'"
  shows "ids_inv K n' (A(c := A c ++ M)) C"
proof -
  let ?A = "A(c := A c ++ M)"
  note inv = ids_invD [OF assms(1)]
  have M: "i < n \<Longrightarrow> M i = None" for i using assms(2) by (metis leD option.exhaust)
  have fresh: "n \<le> i \<Longrightarrow> A c' i = None" "n \<le> i \<Longrightarrow> C p i = None" for c' p i
    using inv(1,2) by (meson leD not_None_eq)+
  have low: "?A c' i = A c' i" if "i < n" for c' i using M [OF that] by (simp add: map_add_def)
  have high: "?A c' i = (if c' = c then M i else None)" if "n \<le> i" for c' i
    using fresh(1) [OF that] by (simp add: map_add_def split: option.split)
  have "ids_ok n' ?A C" unfolding ids_ok_def
  proof (intro conjI allI impI)
    fix c' i a assume x: "?A c' i = Some a"
    show "al_client a = c'" "i < n'"
      using x low [of i c'] high [of i c'] inv(1) [of c' i a] assms(2) [of i a] assms(3)
      by (cases "i < n"; simp split: if_split_asm)+
  next
    fix p i d assume x: "C p i = Some d"
    show "dc_provider d = p" "i < n'" using inv(2) [OF x] assms(3) by simp_all
  next
    fix c1 c2 i assume x: "?A c1 i \<noteq> None" "?A c2 i \<noteq> None"
    show "c1 = c2" using x low [of i] high [of i] inv(3) [of c1 i c2]
      by (cases "i < n"; simp split: if_split_asm)
  next
    fix c' p i assume x: "?A c' i \<noteq> None"
    show "C p i = None" using x low [of i c'] inv(4) [of c' i p] fresh(2) [of i p] by (cases "i < n"; simp)
  next
    fix p p' i assume "C p i \<noteq> None" "C p' i \<noteq> None"
    then show "p = p'" by (rule inv(5))
  qed
  moreover have "spent n' ?A C k" if "k \<in> K" for k
    using inv(6) [OF that] assms(3) low by (cases k) (simp add: spent_def)
  ultimately show ?thesis by (simp add: ids_inv_def)
qed

section \<open>Totals over a two-level table\<close>

definition flat :: "('k \<Rightarrow> 'j \<Rightarrow> 'v option) \<Rightarrow> 'k \<times> 'j \<Rightarrow> 'v option" where
  "flat L = (\<lambda>(k, j). L k j)"

lemma flat_apply [simp]: "flat L (k, j) = L k j"
  by (simp add: flat_def)

lemma flat_upd2: "flat (upd2 k j x L) = (flat L)((k, j) := x)"
  by (auto simp: flat_def upd2_def fun_eq_iff)

lemma flat_finite: "finite (dom (flat (mpm_lookup m)))"
proof -
  have fin: "finite (dom (flat (\<lambda>k j. case map2_get t k of Some inner \<Rightarrow> map2_get inner j | None \<Rightarrow> None)))"
    for t :: "('a, ('b, 'c) map2) map2"
  proof (rule finite_subset)
    show "dom (flat (\<lambda>k j. case map2_get t k of Some inner \<Rightarrow> map2_get inner j | None \<Rightarrow> None))
      \<subseteq> (\<Union>(k, inner) \<in> set t. {k} \<times> fst ` set inner)"
      by (force simp: flat_def map2_get_def dest: map_of_SomeD split: option.split_asm)
  qed auto
  show ?thesis
    by (rule finite_subset [OF _ finite_UnI [OF fin [of "mpm_cache m"] fin [of "mpm_outer m"]]])
       (auto simp: flat_def mpm_lookup_def split: option.split_asm)
qed

definition open_size :: "alloc_view \<Rightarrow> int" where
  "open_size A = map_total (\<lambda>a. int (al_size a)) (flat A)"

lemma open_size_remove:
  assumes "finite (dom (flat A))"
  shows "open_size (upd2 c i None A) = open_size A - (case A c i of Some a \<Rightarrow> int (al_size a) | None \<Rightarrow> 0)"
  using map_total_delete [OF assms, of "\<lambda>a. int (al_size a)" "(c, i)"]
  by (simp add: open_size_def flat_upd2 map_at_def)

section \<open>Transactions\<close>

definition tables_ok :: "vr_state \<Rightarrow> bool" where
  "tables_ok st \<longleftrightarrow> mpm_ok (load_allocs st) \<and> mpm_ok (load_claims st)"

definition vr_inv :: "(alloc_id \<times> actor_id) set \<Rightarrow> vr_state \<Rightarrow> bool" where
  "vr_inv K st \<longleftrightarrow> tables_ok st \<and> ids_inv K (next_allocation_id st) (alloc_at st) (claim_at st)"

lemma vr_inv_cong:
  "allocations st' = allocations st \<Longrightarrow> claims st' = claims st \<Longrightarrow> next_allocation_id st' = next_allocation_id st
   \<Longrightarrow> vr_inv K st' = vr_inv K st"
  by (simp add: vr_inv_def tables_ok_def alloc_at_def claim_at_def load_allocs_def load_claims_def)

lemma saved [simp]:
  "next_allocation_id (save_allocs m st) = next_allocation_id st" "next_allocation_id (save_claims d st) = next_allocation_id st"
  "claim_at (save_allocs m st) = claim_at st" "alloc_at (save_claims d st) = alloc_at st"
  "load_claims (save_allocs m st) = load_claims st" "load_allocs (save_claims d st) = load_allocs st"
  by (simp_all add: save_allocs_def save_claims_def alloc_at_def claim_at_def load_allocs_def load_claims_def)

lemma save_allocs_at: "mpm_ok m \<Longrightarrow> alloc_at (save_allocs m st) = mpm_lookup m \<and> mpm_ok (load_allocs (save_allocs m st))"
  using mpm_reload [of m] by (simp add: save_allocs_def alloc_at_def load_allocs_def)

lemma save_claims_at: "mpm_ok m \<Longrightarrow> claim_at (save_claims m st) = mpm_lookup m \<and> mpm_ok (load_claims (save_claims m st))"
  using mpm_reload [of m] by (simp add: save_claims_def claim_at_def load_claims_def)

lemma saved_inv:
  assumes "mpm_ok am" and "mpm_ok cm" and "ids_inv K (next_allocation_id st) (mpm_lookup am) (mpm_lookup cm)"
  shows "vr_inv K (save_claims cm (save_allocs am st))"
  using assms save_allocs_at [of am st] save_claims_at [of cm "save_allocs am st"]
  by (simp add: vr_inv_def tables_ok_def)

lemma mpm_get_keeps:
  "mpm_ok m \<Longrightarrow> mpm_get k j m = (r, m') \<Longrightarrow> r = mpm_lookup m k j \<and> mpm_lookup m' = mpm_lookup m \<and> mpm_ok m'"
  by (rule mpm.get_lookup)

lemma mpm_put_upd2:
  "mpm_ok m \<Longrightarrow> mpm_put k j v m = (r, m') \<Longrightarrow> mpm_lookup m' = upd2 k j (Some v) (mpm_lookup m) \<and> mpm_ok m'"
  using mpm.put_lookup [of m k j v r m'] by (simp add: upd2_def)

lemma mpm_remove_upd2:
  "mpm_ok m \<Longrightarrow> mpm_remove k j m = (r, m') \<Longrightarrow>
   r = mpm_lookup m k j \<and> mpm_lookup m' = upd2 k j None (mpm_lookup m) \<and> mpm_ok m'"
  using mpm.remove_lookup [of m k j r m'] by (simp add: upd2_def)

lemma check_one_keeps:
  assumes "mpm_ok m" and "check_one f owner e i (g, m) = (g', m')"
  shows "mpm_lookup m' = mpm_lookup m \<and> mpm_ok m'"
proof -
  obtain r m1 where get: "mpm_get owner i m = (r, m1)" by fastforce
  with assms(2) have "m' = m1" by (simp add: check_one_def split: option.split_asm)
  with mpm_get_keeps [OF assms(1) get] show ?thesis by simp
qed

lemma fold_check_keeps:
  "mpm_ok m \<Longrightarrow> fold (check_one f owner e) ids (g, m) = (g', m') \<Longrightarrow> mpm_lookup m' = mpm_lookup m \<and> mpm_ok m'"
proof (induction ids arbitrary: g m)
  case (Cons i ids)
  obtain g1 m1 where 1: "check_one f owner e i (g, m) = (g1, m1)" by fastforce
  from check_one_keeps [OF Cons.prems(1) 1] Cons.IH [of m1 g1] Cons.prems(2) 1 show ?case by simp
qed simp

lemma select_expired_keeps:
  assumes "mpm_ok m" and "select_expired f ids owner e m = Inr (cs, b, rem, m')"
  shows "mpm_lookup m' = mpm_lookup m \<and> mpm_ok m'"
proof (cases "ids = []")
  case True
  obtain es m1 where "mpm_entries_in owner m = (es, m1)" by fastforce
  with True assms(2) mpm_entries_in_spec(3,4) [OF assms(1) this] show ?thesis
    by (simp add: select_expired_def find_expired_def)
next
  case False
  obtain g m1 where f: "fold (check_one f owner e) ids (batch_gen_new (length ids), m) = (g, m1)" by fastforce
  from fold_check_keeps [OF assms(1) f] False assms(2) show ?thesis
    by (auto simp: select_expired_def check_expired_def f res_inv)
qed

lemma remove_allocs_inv:
  assumes "mpm_ok m" and "ids_inv K n (mpm_lookup m) C"
    and "r_fold (remove_one_alloc client) ids (x, m) = Inr (y, m')"
  shows "mpm_ok m' \<and> ids_inv K n (mpm_lookup m') C \<and> open_size (mpm_lookup m') + y = open_size (mpm_lookup m) + x"
proof -
  let ?I = "\<lambda>(z, t). mpm_ok t \<and> ids_inv K n (mpm_lookup t) C \<and> open_size (mpm_lookup t) + z = open_size (mpm_lookup m) + x"
  have "?I (y, m')" using assms(3)
  proof (rule r_fold_inv [where P = ?I])
    show "?I (x, m)" using assms(1,2) by simp
    fix i s t assume s: "?I s" and step: "remove_one_alloc client i s = Inr t"
    obtain z u where su: "s = (z, u)" by fastforce
    obtain r u' where rem: "mpm_remove client i u = (r, u')" by fastforce
    from step su rem obtain a where t: "r = Some a" "t = (z + int (al_size a), u')"
      by (auto simp: remove_one_alloc_def split: option.split_asm)
    from mpm_remove_upd2 [OF _ rem] s su have u': "mpm_lookup u client i = Some a"
      "mpm_lookup u' = upd2 client i None (mpm_lookup u)" "mpm_ok u'" by (simp_all add: t)
    with s su ids_inv_drop_alloc [of K n "mpm_lookup u" C client i] open_size_remove [OF flat_finite [of u], of client i]
    show "?I t" by (simp add: t)
  qed
  then show ?thesis by simp
qed

lemma remove_allocs_tx_inv:
  assumes "vr_inv K st" and "remove_expired_allocs_tx e client ids st = Inr ((cs, b, x), st')"
  shows "vr_inv K st' \<and> open_size (alloc_at st') + x = open_size (alloc_at st) \<and> claim_at st' = claim_at st"
proof -
  from assms(2) obtain rem m m' where
    sel: "select_expired al_expiration ids client e (load_allocs st) = Inr (cs, b, rem, m)"
    and run: "r_fold (remove_one_alloc client) rem (0, m) = Inr (x, m')" and st': "st' = save_allocs m' st"
    by (auto simp: remove_expired_allocs_tx_def r_bind_eq_Inr)
  have ok: "mpm_ok (load_allocs st)" "mpm_ok (load_claims st)" "ids_inv K (next_allocation_id st) (alloc_at st) (claim_at st)"
    using assms(1) by (auto simp: vr_inv_def tables_ok_def)
  from select_expired_keeps [OF ok(1) sel] have m: "mpm_lookup m = alloc_at st" "mpm_ok m" by (auto simp: alloc_at_def)
  from remove_allocs_inv [OF m(2) _ run, of K "next_allocation_id st" "claim_at st"] m ok(3)
  have "mpm_ok m'" "ids_inv K (next_allocation_id st) (mpm_lookup m') (claim_at st)"
    "open_size (mpm_lookup m') + x = open_size (alloc_at st)" by auto
  with save_allocs_at [of m' st] ok(2) show ?thesis by (simp add: st' vr_inv_def tables_ok_def)
qed

lemma remove_claims_inv:
  assumes "mpm_ok m" and "ids_inv K n A (mpm_lookup m)" and "r_fold (remove_one_claim p) ids m = Inr m'"
  shows "mpm_ok m' \<and> ids_inv K n A (mpm_lookup m')"
  using assms(3)
proof (rule r_fold_inv)
  show "mpm_ok m \<and> ids_inv K n A (mpm_lookup m)" using assms(1,2) by simp
  fix i s t assume s: "mpm_ok s \<and> ids_inv K n A (mpm_lookup s)" and step: "remove_one_claim p i s = Inr t"
  obtain r u where rem: "mpm_remove p i s = (r, u)" by fastforce
  with step have "t = u" by (simp add: remove_one_claim_def split: option.split_asm)
  with mpm_remove_upd2 [OF _ rem] s ids_inv_drop_claim [of K n A "mpm_lookup s" p i]
  show "mpm_ok t \<and> ids_inv K n A (mpm_lookup t)" by simp
qed

lemma gather_claims_claimable:
  assumes "ids_inv K n A C"
  shows "mpm_ok m \<Longrightarrow> mpm_lookup m = A \<Longrightarrow> \<forall>x \<in> set acc. claimable n A C p x \<Longrightarrow>
    gather_claims p e sector cls acc m = (r, m') \<Longrightarrow>
    mpm_ok m' \<and> mpm_lookup m' = A \<and> (\<forall>xs. r = Inr xs \<longrightarrow> (\<forall>x \<in> set xs. claimable n A C p x))"
proof (induction cls arbitrary: acc m)
  case (Cons cl cls)
  obtain x m1 where get: "mpm_get (ac_client cl) (ac_allocation_id cl) m = (x, m1)" by fastforce
  note m1 = mpm_get_keeps [OF Cons.prems(1) get]
  show ?case
  proof (cases x)
    case None
    with get m1 Cons.prems(2,4) show ?thesis by auto
  next
    case (Some a)
    show ?thesis
    proof (cases "can_claim_alloc cl p a e (sc_expiry sector)")
      case True
      let ?d = "claim_of p e (sc_sector_num sector) a"
      have "claimable n A C p (ac_allocation_id cl, ?d)"
        using open_claimable [OF assms, of "ac_client cl" "ac_allocation_id cl" a ?d p] m1 Some Cons.prems(2)
        by (simp add: claim_of_def)
      with Cons.IH [of m1 "acc @ [(ac_allocation_id cl, ?d)]"] True Some get m1 Cons.prems show ?thesis by auto
    next
      case False
      with Some get m1 Cons.prems(2,4) show ?thesis by auto
    qed
  qed
qed auto

text \<open>Writing a list of claims that were found open.\<close>

lemma write_claim_inv:
  assumes cs: "mpm_ok cs" and as: "mpm_ok as" and inv: "ids_inv K n (mpm_lookup as) (mpm_lookup cs)"
    and cl: "claimable n (mpm_lookup as) (mpm_lookup cs) p (i, d)"
    and run: "write_claim p (i, d) (cs, as, sp) = Inr (cs', as', sp')"
  shows "mpm_ok cs' \<and> mpm_ok as' \<and> ids_inv K n (mpm_lookup as') (mpm_lookup cs')
    \<and> open_size (mpm_lookup as') + sp' = open_size (mpm_lookup as) + sp
    \<and> (claimable n (mpm_lookup as) (mpm_lookup cs) p x \<longrightarrow> claimable n (mpm_lookup as') (mpm_lookup cs') p x)"
proof -
  obtain b c1 where put: "mpm_put_if_absent p i d cs = (b, c1)" by fastforce
  obtain r a1 where rem: "mpm_remove (dc_client d) i as = (r, a1)" by fastforce
  from run put rem have b: "b" and eq: "cs' = c1" "as' = a1" "sp' = sp + int (dc_size d)"
    by (auto simp: write_claim_def ensure_eq_Inr)
  note P = mpm_put_if_absent_spec [OF cs put]
  have new: "mpm_lookup cs' = upd2 p i (Some d) (mpm_lookup cs)" "mpm_lookup cs p i = None" "mpm_ok cs'"
    using P b by (simp_all add: eq upd2_def)
  have old: "mpm_lookup as' = upd2 (dc_client d) i None (mpm_lookup as)" "mpm_ok as'"
    using mpm_remove_upd2 [OF as rem] by (simp_all add: eq)
  from cl new(2) obtain a where "mpm_lookup as (dc_client d) i = Some a" "dc_size d = al_size a"
    by (auto simp: claimable_def)
  then have "open_size (mpm_lookup as') + sp' = open_size (mpm_lookup as) + sp"
    using open_size_remove [OF flat_finite [of as], of "dc_client d" i] by (simp add: old(1) eq(3))
  with ids_inv_claim [OF inv cl new(2)] new(1,3) old show ?thesis by metis
qed

lemma write_claims_inv:
  "mpm_ok cs \<Longrightarrow> mpm_ok as \<Longrightarrow> ids_inv K n (mpm_lookup as) (mpm_lookup cs) \<Longrightarrow>
   \<forall>x \<in> set xs. claimable n (mpm_lookup as) (mpm_lookup cs) p x \<Longrightarrow>
   r_fold (write_claim p) xs (cs, as, sp) = Inr (cs', as', sp') \<Longrightarrow>
   mpm_ok cs' \<and> mpm_ok as' \<and> ids_inv K n (mpm_lookup as') (mpm_lookup cs')
   \<and> open_size (mpm_lookup as') + sp' = open_size (mpm_lookup as) + sp"
proof (induction xs arbitrary: cs as sp)
  case (Cons x xs)
  obtain i d where x: "x = (i, d)" by fastforce
  from Cons.prems(5) obtain cs1 as1 sp1 where step: "write_claim p (i, d) (cs, as, sp) = Inr (cs1, as1, sp1)"
    and rest: "r_fold (write_claim p) xs (cs1, as1, sp1) = Inr (cs', as', sp')"
    by (auto simp: x r_bind_eq_Inr)
  have cl: "claimable n (mpm_lookup as) (mpm_lookup cs) p (i, d)" using Cons.prems(4) x by simp
  note W = write_claim_inv [OF Cons.prems(1-3) cl step]
  have "\<forall>y \<in> set xs. claimable n (mpm_lookup as1) (mpm_lookup cs1) p y" using W Cons.prems(4) by simp
  with Cons.IH [OF _ _ _ _ rest] W show ?case by simp
qed simp

definition claim_acc_ok :: "(alloc_id \<times> actor_id) set \<Rightarrow> nat \<Rightarrow> int \<Rightarrow> claim_acc \<Rightarrow> bool" where
  "claim_acc_ok K n tot acc \<longleftrightarrow> mpm_ok (cl_claims acc) \<and> mpm_ok (cl_allocs acc)
     \<and> ids_inv K n (mpm_lookup (cl_allocs acc)) (mpm_lookup (cl_claims acc))
     \<and> open_size (mpm_lookup (cl_allocs acc)) + cl_total acc = tot"

lemma claim_sector_inv:
  assumes "claim_acc_ok K n tot acc" and "claim_sector p e sector acc = Inr acc'"
  shows "claim_acc_ok K n tot acc'"
proof -
  obtain r as where g: "gather_claims p e sector (sc_claims sector) [] (cl_allocs acc) = (r, as)" by fastforce
  have ok: "mpm_ok (cl_claims acc)" "mpm_ok (cl_allocs acc)"
    "ids_inv K n (mpm_lookup (cl_allocs acc)) (mpm_lookup (cl_claims acc))"
    "open_size (mpm_lookup (cl_allocs acc)) + cl_total acc = tot"
    using assms(1) by (auto simp: claim_acc_ok_def)
  note G = gather_claims_claimable [OF ok(3) ok(2) refl _ g]
  show ?thesis
  proof (cases r)
    case (Inl code)
    with G assms(2) g ok show ?thesis by (auto simp: claim_sector_def claim_acc_ok_def)
  next
    case (Inr xs)
    with assms(2) g obtain cs as' sp where w: "r_fold (write_claim p) xs (cl_claims acc, as, 0) = Inr (cs, as', sp)"
      and acc': "cl_claims acc' = cs" "cl_allocs acc' = as'" "cl_total acc' = cl_total acc + sp"
      by (auto simp: claim_sector_def r_bind_eq_Inr)
    from G Inr have "mpm_ok as" "mpm_lookup as = mpm_lookup (cl_allocs acc)"
      "\<forall>x \<in> set xs. claimable n (mpm_lookup as) (mpm_lookup (cl_claims acc)) p x" by auto
    with write_claims_inv [OF ok(1) _ _ _ w, of K n] ok(3,4) show ?thesis by (simp add: claim_acc_ok_def acc')
  qed
qed

lemma claim_tx_inv:
  assumes "vr_inv K st" and "claim_tx p e sectors st = Inr ((g, rs, x), st')"
  shows "vr_inv K st' \<and> open_size (alloc_at st') + x = open_size (alloc_at st)"
proof -
  let ?n = "next_allocation_id st" and ?t = "open_size (alloc_at st)"
  let ?acc = "\<lparr>cl_claims = load_claims st, cl_allocs = load_allocs st, cl_gen = batch_gen_new (length sectors),
                cl_results = [], cl_total = 0\<rparr>"
  from assms(2) obtain acc where run: "r_fold (claim_sector p e) sectors ?acc = Inr acc" and x: "x = cl_total acc"
    and st': "st' = save_claims (cl_claims acc) (save_allocs (cl_allocs acc) st)"
    by (auto simp: claim_tx_def r_bind_eq_Inr)
  have "claim_acc_ok K ?n ?t acc" using run
  proof (rule r_fold_inv)
    show "claim_acc_ok K ?n ?t ?acc"
      using assms(1) by (simp add: claim_acc_ok_def vr_inv_def tables_ok_def alloc_at_def claim_at_def)
  qed (rule claim_sector_inv)
  then have ok: "mpm_ok (cl_claims acc)" "mpm_ok (cl_allocs acc)" "open_size (mpm_lookup (cl_allocs acc)) + x = ?t"
    "ids_inv K ?n (mpm_lookup (cl_allocs acc)) (mpm_lookup (cl_claims acc))"
    by (auto simp: claim_acc_ok_def x)
  with saved_inv [OF ok(2,1,4)] save_allocs_at [OF ok(2), of st] show ?thesis by (simp add: st')
qed

lemma ids_inv_mono: "ids_inv K' n A C \<Longrightarrow> K \<subseteq> K' \<Longrightarrow> ids_inv K n A C"
  by (auto simp: ids_inv_def)

lemma vr_inv_mono: "vr_inv K' st \<Longrightarrow> K \<subseteq> K' \<Longrightarrow> vr_inv K st"
  by (auto simp: vr_inv_def intro: ids_inv_mono)

lemma ids_inv_update_claim:
  assumes "ids_inv K n A C" and "C p i = Some d0" and "dc_provider d = p"
  shows "ids_inv K n A (upd2 p i (Some d) C)"
proof -
  note T = claim_ties [OF assms(1,2)]
  have "tied (insert (i, p) K) (i, d)" using T(2) assms(3) by (auto simp: tied_def)
  from ids_inv_put_claim [OF T(1) this] assms(3) show ?thesis by (auto intro: ids_inv_mono)
qed

lemma extend_term_inv:
  assumes "mpm_ok m" and "ids_inv K n A (mpm_lookup m)" and "extend_term P cid t (g, m) = (g', m')"
  shows "mpm_ok m' \<and> ids_inv K n A (mpm_lookup m')"
proof -
  obtain r m1 where get: "mpm_get (ct_provider t) (ct_claim_id t) m = (r, m1)" by fastforce
  note m1 = mpm_get_keeps [OF assms(1) get]
  consider "m' = m" | "m' = m1" | d where "r = Some d"
    "m' = snd (mpm_put (ct_provider t) (ct_claim_id t) (d\<lparr>dc_term_max := ct_term_max t\<rparr>) m1)"
    using assms(3) get by (auto simp: extend_term_def split: if_split_asm option.split_asm)
  then show ?thesis
  proof cases
    case (3 d)
    let ?d = "d\<lparr>dc_term_max := ct_term_max t\<rparr>"
    obtain x m2 where put: "mpm_put (ct_provider t) (ct_claim_id t) ?d m1 = (x, m2)" by fastforce
    have c: "mpm_lookup m (ct_provider t) (ct_claim_id t) = Some d" using m1 3 by simp
    have "dc_provider ?d = ct_provider t" using claim_ties(3) [OF assms(2) c] by simp
    from ids_inv_update_claim [OF assms(2) c this] mpm_put_upd2 [OF _ put] m1 3(2) put show ?thesis by simp
  qed (use assms(1,2) m1 in auto)
qed

lemma extend_terms_inv:
  "mpm_ok m \<Longrightarrow> ids_inv K n A (mpm_lookup m) \<Longrightarrow> fold (extend_term P cid) ts (g, m) = (g', m') \<Longrightarrow>
   mpm_ok m' \<and> ids_inv K n A (mpm_lookup m')"
proof (induction ts arbitrary: g m)
  case (Cons t ts)
  obtain g1 m1 where 1: "extend_term P cid t (g, m) = (g1, m1)" by fastforce
  from extend_term_inv [OF Cons.prems(1,2) 1] Cons.IH [of m1 g1] Cons.prems(3) 1 show ?case by simp
qed simp

text \<open>Storing received allocations and extended claims.\<close>

lemma map_of_zip_upt:
  "map_of (rev (zip [n..<n + length as] as)) i = (if n \<le> i \<and> i < n + length as then Some (as ! (i - n)) else None)"
proof (induction as rule: rev_induct)
  case (snoc a as)
  then show ?case by (auto simp: nth_append)
qed simp

lemma open_size_insert:
  assumes "finite (dom (flat A))" and "\<And>i. n \<le> i \<Longrightarrow> A c i = None"
  shows "finite (dom (flat (A(c := A c ++ map_of (rev (zip [n..<n + length as] as))))))
    \<and> open_size (A(c := A c ++ map_of (rev (zip [n..<n + length as] as)))) = open_size A + (\<Sum>a\<leftarrow>as. int (al_size a))"
proof (induction as rule: rev_induct)
  case Nil
  then show ?case using assms(1) by simp
next
  case (snoc a as)
  let ?M = "\<lambda>as. map_of (rev (zip [n..<n + length as] as))"
  let ?A = "A(c := A c ++ ?M as)"
  have "?M (as @ [a]) = (?M as)(n + length as \<mapsto> a)" by simp
  then have eq: "A(c := A c ++ ?M (as @ [a])) = upd2 c (n + length as) (Some a) ?A" by (simp add: upd2_def)
  have None: "?A c (n + length as) = None" using assms(2) by (simp add: map_add_def map_of_zip_upt)
  have None': "flat ?A (c, n + length as) = None" unfolding flat_apply by (rule None)
  have fin: "finite (dom (flat ?A))" using snoc by (rule conjunct1)
  have "open_size (upd2 c (n + length as) (Some a) ?A) = open_size ?A + int (al_size a)"
    unfolding open_size_def flat_upd2 map_total_update [OF fin] map_at_None [where m = "flat ?A" and k = "(c, n + length as)", OF None'] by simp
  moreover have "finite (dom (flat (upd2 c (n + length as) (Some a) ?A)))" unfolding flat_upd2 using fin by simp
  moreover have "open_size ?A = open_size A + (\<Sum>a\<leftarrow>as. int (al_size a))" using snoc by (rule conjunct2)
  ultimately show ?case unfolding eq by simp
qed

lemma insert_allocations_inv:
  assumes "vr_inv K st" and "insert_allocations client as st = Inr (ids, st')" and "\<forall>a \<in> set as. al_client a = client"
  shows "vr_inv K st' \<and> open_size (alloc_at st') = open_size (alloc_at st) + (\<Sum>a\<leftarrow>as. int (al_size a))
    \<and> claim_at st' = claim_at st \<and> ids = [next_allocation_id st..<next_allocation_id st + length as]
    \<and> next_allocation_id st' = next_allocation_id st + length as
    \<and> (\<forall>j < length as. alloc_at st' client (ids ! j) = Some (as ! j))"
proof (cases "as = []")
  case True
  with assms show ?thesis by (simp add: insert_allocations_def)
next
  case False
  let ?n = "next_allocation_id st" and ?M = "map_of (rev (zip [next_allocation_id st..<next_allocation_id st + length as] as))"
  let ?m = "mpm_put_many client (zip [?n..<?n + length as] as) (load_allocs st)"
  from False assms(2) have st': "st' = (save_allocs ?m st)\<lparr>next_allocation_id := ?n + length as\<rparr>"
    and ids: "ids = [?n..<?n + length as]"
    by (auto simp: insert_allocations_def Let_def ensure_eq_Inr)
  have ok: "mpm_ok (load_allocs st)" "mpm_ok (load_claims st)" and inv: "ids_inv K ?n (alloc_at st) (claim_at st)"
    using assms(1) by (auto simp: vr_inv_def tables_ok_def)
  have m: "mpm_lookup ?m = (alloc_at st)(client := alloc_at st client ++ ?M)" "mpm_ok ?m"
    using mpm_put_many_spec [OF ok(1)] by (simp_all add: alloc_at_def)
  have at: "alloc_at st' = (alloc_at st)(client := alloc_at st client ++ ?M)" "mpm_ok (load_allocs st')"
    "claim_at st' = claim_at st" "load_claims st' = load_claims st"
    using save_allocs_at [OF m(2), of st] m(1)
    by (simp_all add: st' alloc_at_def load_allocs_def claim_at_def load_claims_def save_allocs_def)
  have "ids_inv K (?n + length as) (alloc_at st') (claim_at st)" unfolding at
    by (rule ids_inv_insert [OF inv]) (use assms(3) in \<open>auto simp: map_of_zip_upt split: if_split_asm\<close>)
  moreover have fresh: "alloc_at st c i = None" if "?n \<le> i" for c i
    using ids_invD(1) [OF inv, of c i] that by (cases "alloc_at st c i") auto
  moreover have "open_size (alloc_at st') = open_size (alloc_at st) + (\<Sum>a\<leftarrow>as. int (al_size a))" unfolding at
    using open_size_insert [of "alloc_at st" ?n client as] flat_finite [of "load_allocs st"] fresh by (simp add: alloc_at_def)
  moreover have "alloc_at st' client (ids ! j) = Some (as ! j)" if "j < length as" for j
    using that by (simp add: at ids map_of_zip_upt map_add_def)
  ultimately show ?thesis using at ok(2) ids by (simp add: vr_inv_def tables_ok_def) (simp add: st')
qed

lemma put_claims_fold_inv:
  "mpm_ok m \<Longrightarrow> ids_inv K n A (mpm_lookup m) \<Longrightarrow> \<forall>x \<in> set xs. tied K x \<Longrightarrow>
   mpm_ok (fold (\<lambda>(i, d) m. snd (mpm_put (dc_provider d) i d m)) xs m) \<and>
   ids_inv K n A (mpm_lookup (fold (\<lambda>(i, d) m. snd (mpm_put (dc_provider d) i d m)) xs m))"
proof (induction xs arbitrary: m)
  case (Cons x xs)
  obtain i d where x: "x = (i, d)" by fastforce
  obtain r m1 where put: "mpm_put (dc_provider d) i d m = (r, m1)" by fastforce
  have t: "tied K (i, d)" using Cons.prems(3) x by simp
  from mpm_put_upd2 [OF Cons.prems(1) put] ids_inv_put_claim [OF Cons.prems(2) t] Cons.IH [of m1] Cons.prems(3) put
  show ?case by (simp add: x)
qed simp

lemma put_claims_inv:
  assumes "vr_inv K st" and "\<forall>x \<in> set xs. tied K x"
  shows "vr_inv K (put_claims xs st) \<and> alloc_at (put_claims xs st) = alloc_at st"
proof (cases "xs = []")
  case True
  then show ?thesis using assms by (simp add: put_claims_def)
next
  case False
  let ?m = "fold (\<lambda>(i, d) m. snd (mpm_put (dc_provider d) i d m)) xs (load_claims st)"
  have "mpm_ok ?m \<and> ids_inv K (next_allocation_id st) (alloc_at st) (mpm_lookup ?m)"
    by (rule put_claims_fold_inv) (use assms in \<open>auto simp: vr_inv_def tables_ok_def claim_at_def\<close>)
  with save_claims_at [of ?m st] False assms(1) show ?thesis
    by (simp add: put_claims_def vr_inv_def tables_ok_def)
qed

section \<open>On the machine\<close>

definition vr_keeps :: "(alloc_id \<times> actor_id) set \<Rightarrow> vr_vm \<Rightarrow> bool" where
  "vr_keeps K v = vr_inv K (vm_state v)"

lemma datacap_send_keeps:
  assumes "sender_ok (vr_keeps K) send" and "datacap_send P send k name params v = Inr v'" and "vr_keeps K v"
  shows "vr_keeps K v'"
proof -
  from assms(2) obtain d where s: "send k (send_simple DATACAP_TOKEN_ACTOR_ADDR (vp_method_hash P name) (Some params) 0) v
      = (Response OK d, v')"
    by (auto simp: datacap_send_def r_bind_eq_Inr send_or_fail_Inr)
  from sender_okD(5) [OF assms(1) s] assms(3) show ?thesis by (simp add: vr_keeps_def debit_def)
qed

lemma vr_calls_keep:
  assumes "sender_ok (vr_keeps K) send" and "vr_keeps K v"
  shows "vr_mint P send k a x ops v = Inr v' \<Longrightarrow> vr_keeps K v'"
    and "vr_burn P send k x v = Inr v' \<Longrightarrow> vr_keeps K v'"
    and "vr_destroy P send k a x v = Inr v' \<Longrightarrow> vr_keeps K v'"
    and "vr_transfer P send k i x v = Inr v' \<Longrightarrow> vr_keeps K v'"
  using datacap_send_keeps [OF assms(1) _ assms(2)] assms(2)
  by (auto simp: vr_mint_def vr_burn_def vr_destroy_def vr_transfer_def split: if_split_asm)

lemma read_only_send:
  assumes "sender_ok I send"
  shows "vr_balance P send k a v = Inr (x, v') \<Longrightarrow> v' = v"
    and "remove_data_cap_request_is_valid P send k rq i y a v = Inr v' \<Longrightarrow> v' = v"
  using sender_okD(3) [OF assms]
  by (fastforce simp: vr_balance_def remove_data_cap_request_is_valid_def r_bind_eq_Inr send_or_fail_Inr ensure_eq_Inr
      split: option.split_asm)+

lemma resolve_keeps:
  assumes "sender_ok (vr_keeps K) send" and "resolve_to_actor_id (send k) a b v = Inr (i, v')"
  shows "vr_keeps J v' = vr_keeps J v"
  using resolve_to_actor_id_frame(1) [OF assms] by (simp add: vr_keeps_def)

lemma verifier_update_inv [simp]:
  "vr_inv K (put_verifier a x st) = vr_inv K st" "vr_inv K (st\<lparr>remove_data_cap_proposal_ids := ids\<rparr>) = vr_inv K st"
  by (rule vr_inv_cong; simp add: put_verifier_def)+

lemma add_verifier_keeps:
  assumes ok: "sender_ok (vr_keeps K) send" and v: "vr_keeps K v" and "add_verifier P send c a x v = Inr (u, v')"
  shows "vr_keeps K v'"
proof -
  from assms(3) obtain i v1 b v2 where r: "resolve_to_actor_id (send 0) a True v = Inr (i, v1)"
    and bal: "vr_balance P send 1 (ID i) v1 = Inr (b, v2)" and v': "v' = v2\<lparr>vm_state := put_verifier (ID i) x (vm_state v2)\<rparr>"
    by (auto simp: add_verifier_def ensure_eq_Inr r_bind_eq_Inr transaction_Inr)
  from v resolve_keeps [OF ok r] read_only_send(1) [OF ok bal] show ?thesis by (simp add: v' vr_keeps_def)
qed

lemma remove_verifier_keeps:
  assumes ok: "sender_ok (vr_keeps K) send" and v: "vr_keeps K v" and "remove_verifier send c a v = Inr (u, v')"
  shows "vr_keeps K v'"
proof -
  from assms(3) obtain i v1 st' where r: "resolve_to_actor_id (send 0) a False v = Inr (i, v1)"
    and st: "st_remove_verifier (ID i) (vm_state v1) = Inr st'" and v': "v' = v1\<lparr>vm_state := st'\<rparr>"
    by (auto simp: remove_verifier_def ensure_eq_Inr r_bind_eq_Inr transaction_Inr)
  from st have "vr_inv K st' = vr_inv K (vm_state v1)"
    by (intro vr_inv_cong) (auto simp: st_remove_verifier_def split: prod.split_asm option.split_asm)
  with v resolve_keeps [OF ok r] show ?thesis by (simp add: v' vr_keeps_def)
qed

lemma add_client_keeps:
  assumes ok: "sender_ok (vr_keeps K) send" and v: "vr_keeps K v" and "add_verified_client P send c a x v = Inr (u, v')"
  shows "vr_keeps K v'"
proof -
  from assms(3) obtain i v1 st' where r: "resolve_to_actor_id (send 0) a True v = Inr (i, v1)"
    and st: "spend_allowance (caller c) (ID i) x (vm_state v1) = Inr ((), st')"
    and mint: "vr_mint P send 1 (ID i) x [STORAGE_MARKET_ACTOR_ADDR] (v1\<lparr>vm_state := st'\<rparr>) = Inr v'"
    by (auto simp: add_verified_client_def ensure_eq_Inr r_bind_eq_Inr transaction_Inr)
  from st have "vr_inv K st' = vr_inv K (vm_state v1)"
    by (auto simp: spend_allowance_def ensure_eq_Inr r_bind_eq_Inr Let_def split: option.split_asm)
  with v resolve_keeps [OF ok r] have "vr_keeps K (v1\<lparr>vm_state := st'\<rparr>)" by (simp add: vr_keeps_def)
  from vr_calls_keep(1) [OF ok this mint] show ?thesis .
qed

lemma remove_client_keeps:
  assumes ok: "sender_ok (vr_keeps K) send" and v: "vr_keeps K v"
    and "remove_verified_client_data_cap P send c a x r1 r2 v = Inr (u, v')"
  shows "vr_keeps K v'"
proof -
  from assms(3) obtain i1 i2 i3 v1 v2 v3 ids st' v5 v6 b v7 y where
    r: "resolve_to_actor_id (send 0) a False v = Inr (i1, v1)"
      "resolve_to_actor_id (send 1) (rr_verifier r1) True v1 = Inr (i2, v2)"
      "resolve_to_actor_id (send 2) (rr_verifier r2) True v2 = Inr (i3, v3)"
    and st: "use_two_proposals c a (ID i2) (ID i3) (ID i1) (vm_state v3) = Inr (ids, st')"
    and val: "remove_data_cap_request_is_valid P send 3 r1 (fst ids) x (ID i1) (v3\<lparr>vm_state := st'\<rparr>) = Inr v5"
      "remove_data_cap_request_is_valid P send 4 r2 (snd ids) x (ID i1) v5 = Inr v6"
    and bal: "vr_balance P send 5 (ID i1) v6 = Inr (b, v7)" and d: "vr_destroy P send 6 (ID i1) y v7 = Inr v'"
    by (auto simp: remove_verified_client_data_cap_def ensure_eq_Inr r_bind_eq_Inr transaction_Inr)
  from st have "vr_inv K st' = vr_inv K (vm_state v3)"
    by (auto simp: use_two_proposals_def ensure_eq_Inr r_bind_eq_Inr)
  with v resolve_keeps [OF ok r(1)] resolve_keeps [OF ok r(2)] resolve_keeps [OF ok r(3)]
  have "vr_keeps K (v3\<lparr>vm_state := st'\<rparr>)" by (simp add: vr_keeps_def)
  then have "vr_keeps K v7"
    using read_only_send(2) [OF ok val(1)] read_only_send(2) [OF ok val(2)] read_only_send(1) [OF ok bal] by simp
  from vr_calls_keep(3) [OF ok this d] show ?thesis .
qed

lemma remove_allocs_keeps:
  assumes ok: "sender_ok (vr_keeps K) send" and v: "vr_keeps K v"
    and "remove_expired_allocations P send c i ids v = Inr (u, v')"
  shows "vr_keeps K v'"
proof -
  from assms(3) obtain cs b x st' where t: "remove_expired_allocs_tx (curr_epoch c) i ids (vm_state v) = Inr ((cs, b, x), st')"
    and tr: "vr_transfer P send 0 i x (v\<lparr>vm_state := st'\<rparr>) = Inr v'"
    by (auto simp: remove_expired_allocations_def r_bind_eq_Inr transaction_Inr)
  from remove_allocs_tx_inv [OF _ t] v have "vr_keeps K (v\<lparr>vm_state := st'\<rparr>)" by (simp add: vr_keeps_def)
  from vr_calls_keep(4) [OF ok this tr] show ?thesis .
qed

lemma remove_claims_tx_inv:
  assumes "vr_inv K (vm_state v)" and "remove_expired_claims c p ids v = Inr (u, v')"
  shows "vr_inv K (vm_state v') \<and> alloc_at (vm_state v') = alloc_at (vm_state v) \<and> vm_sends v' = vm_sends v"
proof -
  let ?st = "vm_state v"
  from assms(2) obtain cs b rem m m' where
    sel: "select_expired claim_expiration ids p (curr_epoch c) (load_claims ?st) = Inr (cs, b, rem, m)"
    and run: "r_fold (remove_one_claim p) rem m = Inr m'" and v': "v' = v\<lparr>vm_state := save_claims m' ?st\<rparr>"
    by (auto simp: remove_expired_claims_def r_bind_eq_Inr transaction_Inr)
  have ok: "mpm_ok (load_allocs ?st)" "mpm_ok (load_claims ?st)" "ids_inv K (next_allocation_id ?st) (alloc_at ?st) (claim_at ?st)"
    using assms(1) by (auto simp: vr_inv_def tables_ok_def)
  from select_expired_keeps [OF ok(2) sel] have m: "mpm_lookup m = claim_at ?st" "mpm_ok m" by (auto simp: claim_at_def)
  from remove_claims_inv [OF m(2) _ run, of K "next_allocation_id ?st" "alloc_at ?st"] m ok(3)
  have "mpm_ok m'" "ids_inv K (next_allocation_id ?st) (alloc_at ?st) (mpm_lookup m')" by auto
  with save_claims_at [of m' ?st] ok(1) show ?thesis by (simp add: v' vr_inv_def tables_ok_def)
qed

lemma claim_keeps:
  assumes ok: "sender_ok (vr_keeps K) send" and v: "vr_keeps K v" and "claim_allocations P send c ss b v = Inr (u, v')"
  shows "vr_keeps K v'"
proof -
  from assms(3) obtain p g rs x st' where t: "claim_tx p (curr_epoch c) ss (vm_state v) = Inr ((g, rs, x), st')"
    and burn: "vr_burn P send 0 x (v\<lparr>vm_state := st'\<rparr>) = Inr v'"
    by (auto simp: claim_allocations_def ensure_eq_Inr r_bind_eq_Inr transaction_Inr)
  from claim_tx_inv [OF _ t] v have "vr_keeps K (v\<lparr>vm_state := st'\<rparr>)" by (simp add: vr_keeps_def)
  from vr_calls_keep(2) [OF ok this burn] show ?thesis .
qed

lemma extend_tx_inv:
  assumes "vr_inv K (vm_state v)" and "extend_claim_terms P c ts v = Inr (u, v')"
  shows "vr_inv K (vm_state v') \<and> alloc_at (vm_state v') = alloc_at (vm_state v) \<and> vm_sends v' = vm_sends v"
proof -
  let ?st = "vm_state v"
  from assms(2) obtain i where i: "addr_id (caller c) = Inr i"
    by (auto simp: extend_claim_terms_def r_bind_eq_Inr)
  obtain g m where f: "fold (extend_term P i) ts (batch_gen_new (length ts), load_claims ?st) = (g, m)" by fastforce
  from assms(2) i f have v': "v' = v\<lparr>vm_state := save_claims m ?st\<rparr>"
    by (auto simp: extend_claim_terms_def r_bind_eq_Inr transaction_Inr)
  have ok: "mpm_ok (load_allocs ?st)" "mpm_ok (load_claims ?st)" "ids_inv K (next_allocation_id ?st) (alloc_at ?st) (claim_at ?st)"
    using assms(1) by (auto simp: vr_inv_def tables_ok_def)
  from extend_terms_inv [OF ok(2) _ f, of K "next_allocation_id ?st" "alloc_at ?st"] ok(3)
  have "mpm_ok m" "ids_inv K (next_allocation_id ?st) (alloc_at ?st) (mpm_lookup m)" by (auto simp: claim_at_def)
  with save_claims_at [of m ?st] ok(1) show ?thesis by (simp add: v' vr_inv_def tables_ok_def)
qed

lemma new_allocations_client:
  assumes "r_fold (new_allocation P e client v) rs ([], 0) = Inr (as, tot)"
  shows "(\<forall>a \<in> set as. al_client a = client) \<and> tot = (\<Sum>a\<leftarrow>as. int (al_size a))"
proof -
  let ?I = "\<lambda>(as, t). (\<forall>a \<in> set as. al_client a = client) \<and> t = (\<Sum>a\<leftarrow>as. int (al_size a))"
  have "?I (as, tot)" using assms
  proof (rule r_fold_inv)
    fix r s t assume "?I s" and "new_allocation P e client v r s = Inr t"
    then show "?I t" by (cases s) (auto simp: new_allocation_def r_bind_eq_Inr)
  qed simp
  then show ?thesis by simp
qed

lemma extend_claims_found:
  assumes "mpm_ok m" and "r_fold (extend_claim P e) rs (m, [], 0) = Inr (m', xs, tot)"
    and "ids_inv K n A (mpm_lookup m)"
  shows "\<forall>(i, d) \<in> set xs. \<exists>d0. mpm_lookup m (dc_provider d) i = Some d0"
proof -
  let ?I = "\<lambda>(u, xs, t). mpm_ok u \<and> mpm_lookup u = mpm_lookup m
    \<and> (\<forall>(i, d) \<in> set xs. \<exists>d0. mpm_lookup m (dc_provider d) i = Some d0)"
  have "?I (m', xs, tot)" using assms(2)
  proof (rule r_fold_inv [where P = ?I])
    show "?I (m, [], 0)" using assms(1) by simp
    fix r s t assume s: "?I s" and step: "extend_claim P e r s = Inr t"
    obtain u ys z where su: "s = (u, ys, z)" by (cases s)
    obtain x u' where get: "mpm_get (cx_provider r) (cx_claim r) u = (x, u')" by fastforce
    from step su get obtain d where d: "x = Some d"
      "t = (u', ys @ [(cx_claim r, d\<lparr>dc_term_max := cx_term_max r\<rparr>)], z + int (dc_size d))"
      by (auto simp: extend_claim_def r_bind_eq_Inr split: option.split_asm)
    have u': "mpm_lookup m (cx_provider r) (cx_claim r) = Some d" "mpm_lookup u' = mpm_lookup m" "mpm_ok u'"
      using mpm_get_keeps [OF _ get] s su d(1) by auto
    with ids_invD(2) [OF assms(3) u'(1)] s su d(2) show "?I t" by auto
  qed
  then show ?thesis by simp
qed

text \<open>The claims to extend are tied to their providers before the tokens are burnt.\<close>

lemma found_tied:
  assumes "ids_inv K n A C" and "\<forall>(i, d) \<in> set xs. \<exists>d0. C (dc_provider d) i = Some d0"
  shows "ids_inv (K \<union> (\<lambda>(i, d). (i, dc_provider d)) ` set xs) n A C"
    and "\<forall>x \<in> set xs. tied (K \<union> (\<lambda>(i, d). (i, dc_provider d)) ` set xs) x"
proof -
  let ?K = "K \<union> (\<lambda>(i, d). (i, dc_provider d)) ` set xs"
  have one: "spent n A C (i, dc_provider d)" if x: "(i, d) \<in> set xs" for i d
  proof -
    obtain d0 where "C (dc_provider d) i = Some d0" using x assms(2) by auto
    from claim_ties(1) [OF assms(1) this] show ?thesis by (simp add: ids_inv_def)
  qed
  with assms(1) show inv: "ids_inv ?K n A C" by (auto simp: ids_inv_def)
  show "\<forall>x \<in> set xs. tied ?K x"
  proof
    fix x assume x: "x \<in> set xs"
    obtain i d where xe: "x = (i, d)" by fastforce
    obtain d0 where d0: "C (dc_provider d) i = Some d0" using x xe assms(2) by auto
    have "(i, q) \<in> ?K \<Longrightarrow> q = dc_provider d" for q using claim_ties(2) [OF inv d0] .
    then show "tied ?K x" using x xe by (force simp: tied_def)
  qed
qed

lemma store_received_inv:
  assumes "vr_inv K st" and "store_received client as xs st = Inr (ids, st')"
    and "\<forall>a \<in> set as. al_client a = client" and "\<forall>x \<in> set xs. tied K x"
  shows "vr_inv K st' \<and> open_size (alloc_at st') = open_size (alloc_at st) + (\<Sum>a\<leftarrow>as. int (al_size a))"
proof -
  from assms(2) obtain st1 where i: "insert_allocations client as st = Inr (ids, st1)" and st': "st' = put_claims xs st1"
    by (auto simp: store_received_def r_bind_eq_Inr)
  from insert_allocations_inv [OF assms(1) i assms(3)] put_claims_inv [of K st1 xs] assms(4) show ?thesis
    by (simp add: st')
qed

text \<open>The parts of a successful call of the hook.\<close>

lemma hook_Inr:
  assumes "universal_receiver_hook P send c ty payload v = Inr (u, v')"
  obtains t rs xs as alloc_total m updated ext_total v1 ids st' where
    "vp_tokens_received P payload = Inr t"
    "r_fold (new_allocation P (curr_epoch c) (tr_from t) v) rs ([], 0) = Inr (as, alloc_total)"
    "r_fold (extend_claim P (curr_epoch c)) xs (load_claims (vm_state v), [], 0) = Inr (m, updated, ext_total)"
    "alloc_total + ext_total = tokens_to_datacap P (tr_amount t)"
    "vr_burn P send 0 ext_total v = Inr v1"
    "store_received (tr_from t) as updated (vm_state v1) = Inr (ids, st')" "v' = v1\<lparr>vm_state := st'\<rparr>"
proof -
  from assms obtain my_id where m: "addr_id (receiver c) = Inr my_id"
    by (auto simp: universal_receiver_hook_def r_bind_eq_Inr)
  from assms m obtain t where t: "validate_tokens_received P ty payload my_id = Inr t"
    by (cases "validate_tokens_received P ty payload my_id") (auto simp: universal_receiver_hook_def r_bind_eq_Inr)
  have t': "vp_tokens_received P payload = Inr t"
    using t by (auto simp: validate_tokens_received_def ensure_eq_Inr r_bind_eq_Inr)
  from assms m t obtain rs xs where rq: "vp_alloc_reqs P (tr_operator_data t) = Inr (rs, xs)"
    by (cases "vp_alloc_reqs P (tr_operator_data t)") (auto simp: universal_receiver_hook_def r_bind_eq_Inr)
  let ?f = "r_fold (new_allocation P (curr_epoch c) (tr_from t) v) rs ([], 0)"
  obtain as alloc_total where as: "?f = Inr (as, alloc_total)"
    using assms m t rq by (cases ?f) (auto simp: universal_receiver_hook_def r_bind_eq_Inr)
  let ?g = "r_fold (extend_claim P (curr_epoch c)) xs (load_claims (vm_state v), [], 0)"
  obtain m updated ext_total where ex: "?g = Inr (m, updated, ext_total)"
    using assms m t rq as by (cases ?g) (auto simp: universal_receiver_hook_def r_bind_eq_Inr)
  from assms m t rq as ex obtain v1 ids st' where
    "alloc_total + ext_total = tokens_to_datacap P (tr_amount t)" "vr_burn P send 0 ext_total v = Inr v1"
    "store_received (tr_from t) as updated (vm_state v1) = Inr (ids, st')" "v' = v1\<lparr>vm_state := st'\<rparr>"
    by (auto simp: universal_receiver_hook_def r_bind_eq_Inr ensure_eq_Inr transaction_Inr)
  with t' as ex that show thesis by blast
qed

lemma hook_keeps:
  assumes ok: "\<And>J. sender_ok (vr_keeps J) send" and v: "vr_keeps K v"
    and run: "universal_receiver_hook P send c ty payload v = Inr (u, v')"
  shows "vr_keeps K v'"
  using run
proof (rule hook_Inr)
  fix t rs xs as alloc_total m updated ext_total v1 ids st'
  assume as: "r_fold (new_allocation P (curr_epoch c) (tr_from t) v) rs ([], 0) = Inr (as, alloc_total)"
    and ex: "r_fold (extend_claim P (curr_epoch c)) xs (load_claims (vm_state v), [], 0) = Inr (m, updated, ext_total)"
    and burn: "vr_burn P send 0 ext_total v = Inr v1"
    and store: "store_received (tr_from t) as updated (vm_state v1) = Inr (ids, st')" and v': "v' = v1\<lparr>vm_state := st'\<rparr>"
  let ?K = "K \<union> (\<lambda>(i, d). (i, dc_provider d)) ` set updated"
  have inv: "vr_inv K (vm_state v)" using v by (simp add: vr_keeps_def)
  then have ok1: "mpm_ok (load_claims (vm_state v))" "ids_inv K (next_allocation_id (vm_state v)) (alloc_at (vm_state v)) (claim_at (vm_state v))"
    by (auto simp: vr_inv_def tables_ok_def)
  have found: "\<forall>(i, d) \<in> set updated. \<exists>d0. claim_at (vm_state v) (dc_provider d) i = Some d0"
    using extend_claims_found [OF ok1(1) ex] ok1(2) by (simp add: claim_at_def)
  note T = found_tied [OF ok1(2) found]
  have "vr_keeps ?K v" using T(1) inv by (simp add: vr_keeps_def vr_inv_def)
  from vr_calls_keep(2) [OF ok this burn] have "vr_inv ?K (vm_state v1)" by (simp add: vr_keeps_def)
  from store_received_inv [OF this store _ T(2)] new_allocations_client [OF as] have "vr_inv ?K st'" by blast
  then show ?thesis by (auto simp: v' vr_keeps_def intro: vr_inv_mono)
qed

lemma vr_dispatch_keeps:
  assumes ok: "\<And>J. sender_ok (vr_keeps J) send" and v: "vr_keeps K v" and run: "vr_dispatch P send c m v = Inr (r, v')"
  shows "vr_keeps K v'"
proof -
  note facts = add_verifier_keeps [OF ok v] remove_verifier_keeps [OF ok v] add_client_keeps [OF ok v]
    remove_client_keeps [OF ok v] remove_allocs_keeps [OF ok v] claim_keeps [OF ok v] hook_keeps [OF ok v]
  have inv: "vr_inv K (vm_state v)" using v by (simp add: vr_keeps_def)
  have "remove_expired_claims c p ids v = Inr (u, v') \<Longrightarrow> vr_keeps K v'" for p ids u
    using remove_claims_tx_inv [OF inv] by (simp add: vr_keeps_def)
  moreover have "extend_claim_terms P c ts v = Inr (u, v') \<Longrightarrow> vr_keeps K v'" for ts u
    using extend_tx_inv [OF inv] by (simp add: vr_keeps_def)
  ultimately show ?thesis using run v
    by (cases m) (auto simp: vr_dispatch_def r_bind_eq_Inr as_ret_Inr dest: facts)
qed

interpretation vr: valued_actor "vr_dispatch P" vr_keeps for P
proof unfold_locales
  fix send K v c m r v'
  assume ok: "\<And>J. sender_ok (vr_keeps J) send" and v: "vr_keeps K v"
    and run: "vr_dispatch P send c m (v\<lparr>vm_balance := vm_balance v + value_received c\<rparr>) = Inr (r, v')"
  show "vr_keeps K v'" by (rule vr_dispatch_keeps [OF ok _ run]) (use v in \<open>simp add: vr_keeps_def\<close>)
qed (simp_all add: vr_keeps_def)

section \<open>Accounting of the data cap\<close>

text \<open>What a send takes from the registry, in tokens, and what a message brings.\<close>

fun request_tokens :: "vr_params option \<Rightarrow> int" where
  "request_tokens (Some (BurnParams x)) = x"
| "request_tokens (Some (TransferParams a x)) = x"
| "request_tokens p = 0"

definition tokens_out :: "vr_vm \<Rightarrow> int" where
  "tokens_out v = (\<Sum>req\<leftarrow>vm_sends v. request_tokens (req_params req))"

fun tokens_in :: "vr_prims \<Rightarrow> vr_msg \<Rightarrow> int" where
  "tokens_in P (UniversalReceiverHook ty payload) =
     (case vp_tokens_received P payload of
        Inl e \<Rightarrow> 0
      | Inr t \<Rightarrow> datacap_to_tokens P (tokens_to_datacap P (tr_amount t)))"
| "tokens_in P m = 0"

definition accounted :: "vr_prims \<Rightarrow> vr_vm \<Rightarrow> int" where
  "accounted P v = datacap_to_tokens P (open_size (alloc_at (vm_state v))) + tokens_out v"

text \<open>A sender that does not call back into the registry.\<close>

definition quiet :: "('st, 'p) sender \<Rightarrow> bool" where
  "quiet send \<longleftrightarrow>
     (\<forall>i req v r v'. send i req v = (r, v') \<longrightarrow>
        vm_state v' = vm_state v
        \<and> vm_sends v' = (if send_success r \<and> \<not> req_read_only req then req # vm_sends v else vm_sends v))"

lemma quietD:
  assumes "quiet send" and "send i req v = (r, v')"
  shows "vm_state v' = vm_state v"
    and "vm_sends v' = (if send_success r \<and> \<not> req_read_only req then req # vm_sends v else vm_sends v)"
  using assms unfolding quiet_def by blast+

lemma tokens_out_state [simp]: "tokens_out (v\<lparr>vm_state := st\<rparr>) = tokens_out v"
  by (simp add: tokens_out_def)

lemma datacap_send_accounts:
  assumes "quiet send" and "datacap_send P send k name params v = Inr v'"
  shows "vm_state v' = vm_state v \<and> tokens_out v' = tokens_out v + request_tokens (Some params)"
proof -
  from assms(2) obtain d where s: "send k (send_simple DATACAP_TOKEN_ACTOR_ADDR (vp_method_hash P name) (Some params) 0) v
      = (Response OK d, v')"
    by (auto simp: datacap_send_def r_bind_eq_Inr send_or_fail_Inr)
  from quietD [OF assms(1) s] show ?thesis by (simp add: tokens_out_def send_simple_def)
qed

lemma vr_calls_account:
  assumes "quiet send"
  shows "vr_mint P send k a x ops v = Inr v' \<Longrightarrow> vm_state v' = vm_state v \<and> tokens_out v' = tokens_out v"
    and "vr_destroy P send k a x v = Inr v' \<Longrightarrow> vm_state v' = vm_state v \<and> tokens_out v' = tokens_out v"
    and "vr_burn P send k x v = Inr v' \<Longrightarrow> vm_state v' = vm_state v \<and> tokens_out v' = tokens_out v + datacap_to_tokens P x"
    and "vr_transfer P send k i x v = Inr v' \<Longrightarrow> vm_state v' = vm_state v \<and> tokens_out v' = tokens_out v + datacap_to_tokens P x"
  using datacap_send_accounts [OF assms]
  by (force simp: vr_mint_def vr_burn_def vr_destroy_def vr_transfer_def datacap_to_tokens_def split: if_split_asm)+

lemma reads_account:
  assumes "quiet send"
  shows "vr_balance P send k a v = Inr (x, v') \<Longrightarrow> vm_state v' = vm_state v \<and> tokens_out v' = tokens_out v"
    and "remove_data_cap_request_is_valid P send k rq i y a v = Inr v' \<Longrightarrow> vm_state v' = vm_state v \<and> tokens_out v' = tokens_out v"
  using quietD [OF assms]
  by (fastforce simp: vr_balance_def remove_data_cap_request_is_valid_def r_bind_eq_Inr send_or_fail_Inr ensure_eq_Inr tokens_out_def
      split: option.split_asm)+

lemma resolve_accounts:
  assumes "quiet send" and "resolve_to_actor_id (send k) a b v = Inr (i, v')"
  shows "vm_state v' = vm_state v \<and> tokens_out v' = tokens_out v"
proof -
  have "vm_state u = vm_state v \<and> tokens_out u = tokens_out v"
    if "send k (send_simple a METHOD_SEND None 0) v = (x, u)" for x u
    using quietD [OF assms(1) that] by (simp add: tokens_out_def send_simple_def split: if_split_asm)
  with assms(2) show ?thesis by (auto simp: resolve_to_actor_id_def res_inv split: option.splits prod.splits)
qed

lemma add_verifier_accounts:
  assumes q: "quiet send" and "add_verifier P send c a x v = Inr (u, v')"
  shows "accounted P v' = accounted P v"
proof -
  from assms(2) obtain i v1 b v2 where r: "resolve_to_actor_id (send 0) a True v = Inr (i, v1)"
    and bal: "vr_balance P send 1 (ID i) v1 = Inr (b, v2)" and v': "v' = v2\<lparr>vm_state := put_verifier (ID i) x (vm_state v2)\<rparr>"
    by (auto simp: add_verifier_def ensure_eq_Inr r_bind_eq_Inr transaction_Inr)
  from resolve_accounts [OF q r] reads_account(1) [OF q bal] show ?thesis
    by (simp add: v' accounted_def alloc_at_def load_allocs_def put_verifier_def)
qed

lemma remove_verifier_accounts:
  assumes q: "quiet send" and "remove_verifier send c a v = Inr (u, v')"
  shows "accounted P v' = accounted P v"
proof -
  from assms(2) obtain i v1 st' where r: "resolve_to_actor_id (send 0) a False v = Inr (i, v1)"
    and st: "st_remove_verifier (ID i) (vm_state v1) = Inr st'" and v': "v' = v1\<lparr>vm_state := st'\<rparr>"
    by (auto simp: remove_verifier_def ensure_eq_Inr r_bind_eq_Inr transaction_Inr)
  from st have "alloc_at st' = alloc_at (vm_state v1)"
    by (auto simp: st_remove_verifier_def alloc_at_def load_allocs_def split: prod.split_asm option.split_asm)
  with resolve_accounts [OF q r] show ?thesis by (simp add: v' accounted_def)
qed

lemma add_client_accounts:
  assumes q: "quiet send" and "add_verified_client P send c a x v = Inr (u, v')"
  shows "accounted P v' = accounted P v"
proof -
  from assms(2) obtain i v1 st' where r: "resolve_to_actor_id (send 0) a True v = Inr (i, v1)"
    and st: "spend_allowance (caller c) (ID i) x (vm_state v1) = Inr ((), st')"
    and mint: "vr_mint P send 1 (ID i) x [STORAGE_MARKET_ACTOR_ADDR] (v1\<lparr>vm_state := st'\<rparr>) = Inr v'"
    by (auto simp: add_verified_client_def ensure_eq_Inr r_bind_eq_Inr transaction_Inr)
  from st have "alloc_at st' = alloc_at (vm_state v1)"
    by (auto simp: spend_allowance_def ensure_eq_Inr r_bind_eq_Inr Let_def alloc_at_def load_allocs_def put_verifier_def
        split: option.split_asm)
  with resolve_accounts [OF q r] vr_calls_account(1) [OF q mint] show ?thesis by (simp add: accounted_def tokens_out_def)
qed

lemma remove_client_accounts:
  assumes q: "quiet send" and "remove_verified_client_data_cap P send c a x r1 r2 v = Inr (u, v')"
  shows "accounted P v' = accounted P v"
proof -
  from assms(2) obtain i1 i2 i3 v1 v2 v3 ids st' v5 v6 b v7 y where
    r: "resolve_to_actor_id (send 0) a False v = Inr (i1, v1)"
      "resolve_to_actor_id (send 1) (rr_verifier r1) True v1 = Inr (i2, v2)"
      "resolve_to_actor_id (send 2) (rr_verifier r2) True v2 = Inr (i3, v3)"
    and st: "use_two_proposals c a (ID i2) (ID i3) (ID i1) (vm_state v3) = Inr (ids, st')"
    and val: "remove_data_cap_request_is_valid P send 3 r1 (fst ids) x (ID i1) (v3\<lparr>vm_state := st'\<rparr>) = Inr v5"
      "remove_data_cap_request_is_valid P send 4 r2 (snd ids) x (ID i1) v5 = Inr v6"
    and bal: "vr_balance P send 5 (ID i1) v6 = Inr (b, v7)" and d: "vr_destroy P send 6 (ID i1) y v7 = Inr v'"
    by (auto simp: remove_verified_client_data_cap_def ensure_eq_Inr r_bind_eq_Inr transaction_Inr)
  from st have "alloc_at st' = alloc_at (vm_state v3)"
    by (auto simp: use_two_proposals_def ensure_eq_Inr r_bind_eq_Inr alloc_at_def load_allocs_def)
  moreover have "vm_state v' = st' \<and> tokens_out v' = tokens_out v3"
    using reads_account(2) [OF q val(1)] reads_account(2) [OF q val(2)] reads_account(1) [OF q bal] vr_calls_account(2) [OF q d]
    by (simp add: tokens_out_def)
  ultimately show ?thesis
    using resolve_accounts [OF q r(1)] resolve_accounts [OF q r(2)] resolve_accounts [OF q r(3)] by (simp add: accounted_def)
qed

lemma remove_allocs_accounts:
  assumes q: "quiet send" and inv: "vr_inv K (vm_state v)" and "remove_expired_allocations P send c i ids v = Inr (u, v')"
  shows "accounted P v' = accounted P v"
proof -
  from assms(3) obtain cs b x st' where t: "remove_expired_allocs_tx (curr_epoch c) i ids (vm_state v) = Inr ((cs, b, x), st')"
    and tr: "vr_transfer P send 0 i x (v\<lparr>vm_state := st'\<rparr>) = Inr v'"
    by (auto simp: remove_expired_allocations_def r_bind_eq_Inr transaction_Inr)
  from remove_allocs_tx_inv [OF inv t] have "open_size (alloc_at (vm_state v)) = open_size (alloc_at st') + x" by simp
  with vr_calls_account(4) [OF q tr] show ?thesis by (simp add: accounted_def tokens_out_def datacap_to_tokens_def distrib_right)
qed

lemma claim_accounts:
  assumes q: "quiet send" and inv: "vr_inv K (vm_state v)" and "claim_allocations P send c ss b v = Inr (u, v')"
  shows "accounted P v' = accounted P v"
proof -
  from assms(3) obtain p g rs x st' where t: "claim_tx p (curr_epoch c) ss (vm_state v) = Inr ((g, rs, x), st')"
    and burn: "vr_burn P send 0 x (v\<lparr>vm_state := st'\<rparr>) = Inr v'"
    by (auto simp: claim_allocations_def ensure_eq_Inr r_bind_eq_Inr transaction_Inr)
  from claim_tx_inv [OF inv t] have "open_size (alloc_at (vm_state v)) = open_size (alloc_at st') + x" by simp
  with vr_calls_account(3) [OF q burn] show ?thesis by (simp add: accounted_def tokens_out_def datacap_to_tokens_def distrib_right)
qed

text \<open>The extended claims burn exactly the sum of their sizes, the rest becomes open allocations.\<close>

lemma hook_accounts:
  assumes q: "quiet send" and inv: "vr_inv K (vm_state v)"
    and run: "universal_receiver_hook P send c ty payload v = Inr (u, v')"
  shows "accounted P v' = accounted P v + tokens_in P (UniversalReceiverHook ty payload)"
  using run
proof (rule hook_Inr)
  fix t rs xs as alloc_total m updated ext_total v1 ids st'
  assume t: "vp_tokens_received P payload = Inr t"
    and as: "r_fold (new_allocation P (curr_epoch c) (tr_from t) v) rs ([], 0) = Inr (as, alloc_total)"
    and ex: "r_fold (extend_claim P (curr_epoch c)) xs (load_claims (vm_state v), [], 0) = Inr (m, updated, ext_total)"
    and sum: "alloc_total + ext_total = tokens_to_datacap P (tr_amount t)"
    and burn: "vr_burn P send 0 ext_total v = Inr v1"
    and store: "store_received (tr_from t) as updated (vm_state v1) = Inr (ids, st')" and v': "v' = v1\<lparr>vm_state := st'\<rparr>"
  let ?K = "K \<union> (\<lambda>(i, d). (i, dc_provider d)) ` set updated"
  have ok: "mpm_ok (load_claims (vm_state v))" "ids_inv K (next_allocation_id (vm_state v)) (alloc_at (vm_state v)) (claim_at (vm_state v))"
    using inv by (auto simp: vr_inv_def tables_ok_def)
  have found: "\<forall>(i, d) \<in> set updated. \<exists>d0. claim_at (vm_state v) (dc_provider d) i = Some d0"
    using extend_claims_found [OF ok(1) ex] ok(2) by (simp add: claim_at_def)
  note T = found_tied [OF ok(2) found] and b = vr_calls_account(3) [OF q burn]
  have "vr_inv ?K (vm_state v1)" using T(1) inv b by (simp add: vr_inv_def)
  from store_received_inv [OF this store _ T(2)] new_allocations_client [OF as]
  have "open_size (alloc_at st') = open_size (alloc_at (vm_state v1)) + alloc_total" by blast
  with b show ?thesis
    by (simp add: v' t sum [symmetric] accounted_def datacap_to_tokens_def distrib_right)
qed

lemma vr_dispatch_accounts:
  assumes q: "quiet send" and inv: "vr_inv K (vm_state v)" and run: "vr_dispatch P send c m v = Inr (r, v')"
  shows "accounted P v' = accounted P v + tokens_in P m"
proof -
  note facts = add_verifier_accounts [OF q] remove_verifier_accounts [OF q] add_client_accounts [OF q]
    remove_client_accounts [OF q] remove_allocs_accounts [OF q inv] claim_accounts [OF q inv] hook_accounts [OF q inv]
  have "remove_expired_claims c p ids v = Inr (u, v') \<Longrightarrow> accounted P v' = accounted P v" for p ids u
    using remove_claims_tx_inv [OF inv] by (simp add: accounted_def tokens_out_def)
  moreover have "extend_claim_terms P c ts v = Inr (u, v') \<Longrightarrow> accounted P v' = accounted P v" for ts u
    using extend_tx_inv [OF inv] by (simp add: accounted_def tokens_out_def)
  ultimately show ?thesis using run
    by (cases m) (auto simp: vr_dispatch_def r_bind_eq_Inr as_ret_Inr dest: facts)
qed

section \<open>Removal of named allocations\<close>

definition expiry_code :: "('v \<Rightarrow> int) \<Rightarrow> int \<Rightarrow> (alloc_id \<Rightarrow> 'v option) \<Rightarrow> alloc_id \<Rightarrow> exit_code" where
  "expiry_code f e L i = (case L i of None \<Rightarrow> USR_NOT_FOUND | Some x \<Rightarrow> if f x \<le> e then OK else USR_FORBIDDEN)"

lemma fold_check_codes:
  assumes "mpm_ok m"
  shows "\<exists>m'. fold (check_one f owner e) ids (g, m) = (fold batch_add (map (expiry_code f e (mpm_lookup m owner)) ids) g, m')
     \<and> mpm_lookup m' = mpm_lookup m \<and> mpm_ok m'"
  using assms
proof (induction ids arbitrary: g m)
  case (Cons i ids)
  obtain r m1 where get: "mpm_get owner i m = (r, m1)" by fastforce
  note m1 = mpm_get_keeps [OF Cons.prems get]
  then have "check_one f owner e i (g, m) = (batch_add (expiry_code f e (mpm_lookup m owner) i) g, m1)"
    by (auto simp: check_one_def get expiry_code_def batch_add_def split: option.split)
  with m1 Cons.IH [of m1] show ?case by simp
qed simp

lemma select_named:
  assumes "mpm_ok m" and "ids \<noteq> []"
  shows "\<exists>m'. select_expired f ids owner e m = Inr (ids, compact (map (expiry_code f e (mpm_lookup m owner)) ids),
       filter (\<lambda>i. expiry_code f e (mpm_lookup m owner) i = OK) ids, m') \<and> mpm_lookup m' = mpm_lookup m \<and> mpm_ok m'"
proof -
  let ?c = "expiry_code f e (mpm_lookup m owner)"
  from fold_check_codes [OF assms(1)] obtain m' where
    f: "fold (check_one f owner e) ids (batch_gen_new (length ids), m) = (fold batch_add (map ?c ids) (batch_gen_new (length ids)), m')"
    and m': "mpm_lookup m' = mpm_lookup m" "mpm_ok m'" by blast
  have "check_expired f ids owner e m = Inr (compact (map ?c ids), m')"
    using batch_of_compact [of "map ?c ids"] by (simp add: check_expired_def f batch_of_def)
  moreover have "map fst (filter (\<lambda>(x, c). c = OK) (zip ids (map ?c ids))) = filter (\<lambda>i. ?c i = OK) ids"
    by (induction ids) auto
  then have "successes (compact (map ?c ids)) ids = Inr (filter (\<lambda>i. ?c i = OK) ids)"
    using success_items_fails [of ids "map ?c ids" 0] by (simp add: successes_def) (simp add: compact_def)
  ultimately show ?thesis using assms(2) m' by (simp add: select_expired_def)
qed

lemma remove_one_step:
  assumes "mpm_ok m"
  shows "remove_one_alloc client i (z, m) =
    (case mpm_lookup m client i of None \<Rightarrow> Inl Panic
     | Some a \<Rightarrow> Inr (z + int (al_size a), snd (mpm_remove client i m)))"
    and "mpm_ok (snd (mpm_remove client i m))" "mpm_lookup (snd (mpm_remove client i m)) = upd2 client i None (mpm_lookup m)"
proof -
  obtain r m1 where rem: "mpm_remove client i m = (r, m1)" by fastforce
  from mpm_remove_upd2 [OF assms rem] show "remove_one_alloc client i (z, m) =
      (case mpm_lookup m client i of None \<Rightarrow> Inl Panic | Some a \<Rightarrow> Inr (z + int (al_size a), snd (mpm_remove client i m)))"
    "mpm_ok (snd (mpm_remove client i m))" "mpm_lookup (snd (mpm_remove client i m)) = upd2 client i None (mpm_lookup m)"
    by (auto simp: remove_one_alloc_def rem split: option.split)
qed

lemma remove_absent:
  "mpm_ok m \<Longrightarrow> (\<exists>i \<in> set xs. mpm_lookup m client i = None) \<or> \<not> distinct xs \<Longrightarrow>
   r_fold (remove_one_alloc client) xs (z, m) = Inl Panic"
proof (induction xs arbitrary: z m)
  case (Cons i xs)
  note st = remove_one_step [OF Cons.prems(1), of client i]
  show ?case
  proof (cases "mpm_lookup m client i")
    case (Some a)
    then have "(\<exists>j \<in> set xs. upd2 client i None (mpm_lookup m) client j = None) \<or> \<not> distinct xs"
      using Cons.prems(2) by (auto simp: upd2_apply)
    with Cons.IH [OF st(2)] st(1,3) Some show ?thesis by simp
  qed (simp add: st(1))
qed simp

lemma remove_distinct:
  assumes "mpm_ok m" and "\<forall>i \<in> set xs. mpm_lookup m client i \<noteq> None" and "distinct xs"
  shows "\<exists>m'. r_fold (remove_one_alloc client) xs (z, m) = Inr (z + (\<Sum>i\<leftarrow>xs. int (al_size (the (mpm_lookup m client i)))), m')
     \<and> mpm_ok m' \<and> (\<forall>c i. mpm_lookup m' c i = (if c = client \<and> i \<in> set xs then None else mpm_lookup m c i))"
  using assms
proof (induction xs arbitrary: z m)
  case (Cons i xs)
  note st = remove_one_step [OF Cons.prems(1), of client i]
  let ?m = "snd (mpm_remove client i m)"
  from Cons.prems(2) obtain a where a: "mpm_lookup m client i = Some a" by auto
  have s: "(\<Sum>j\<leftarrow>xs. int (al_size (the (mpm_lookup ?m client j)))) = (\<Sum>j\<leftarrow>xs. int (al_size (the (mpm_lookup m client j))))"
    using Cons.prems(3) st(3) by (intro arg_cong [where f = sum_list] map_cong) (auto simp: upd2_apply)
  have "\<forall>j \<in> set xs. mpm_lookup ?m client j \<noteq> None" using Cons.prems(2,3) st(3) by (auto simp: upd2_apply)
  from Cons.IH [OF st(2) this, of "z + int (al_size a)"] Cons.prems(3) obtain m' where
    m': "r_fold (remove_one_alloc client) xs (z + int (al_size a), ?m)
        = Inr (z + int (al_size a) + (\<Sum>j\<leftarrow>xs. int (al_size (the (mpm_lookup m client j)))), m')" "mpm_ok m'"
      "\<forall>c j. mpm_lookup m' c j = (if c = client \<and> j \<in> set xs then None else mpm_lookup ?m c j)"
    unfolding s by auto
  then show ?case using a by (intro exI [of _ m']) (auto simp: st(1) st(3) upd2_apply add.assoc)
qed simp

text \<open>
  C38: a removal of named allocations. With expired identifiers named once, it frees exactly those of the named
  allocations that are expired, reports for every identifier whether it was removed, not expired or not found,
  and recovers the sum of the sizes; an expired identifier that is named twice makes it panic.
\<close>

theorem named_removal_exact:
  assumes "tables_ok st" and "ids \<noteq> []" and "code = expiry_code al_expiration e (alloc_at st client)"
    and "gone = filter (\<lambda>i. code i = OK) ids"
  shows "(\<not> distinct gone \<longrightarrow> remove_expired_allocs_tx e client ids st = Inl Panic)
    \<and> (distinct gone \<longrightarrow> (\<exists>b st'. remove_expired_allocs_tx e client ids st
          = Inr ((ids, b, \<Sum>i\<leftarrow>gone. int (al_size (the (alloc_at st client i)))), st')
        \<and> codes b = map code ids
        \<and> (\<forall>c i. alloc_at st' c i = (if c = client \<and> i \<in> set gone then None else alloc_at st c i))))"
proof -
  have "mpm_ok (load_allocs st)" using assms(1) by (simp add: tables_ok_def)
  from select_named [OF this assms(2), of al_expiration client e] obtain m where
    sel: "select_expired al_expiration ids client e (load_allocs st) = Inr (ids, compact (map code ids), gone, m)"
    and m: "mpm_lookup m = alloc_at st" "mpm_ok m" by (auto simp: assms(3,4) alloc_at_def)
  have run: "remove_expired_allocs_tx e client ids st =
      r_bind (r_fold (remove_one_alloc client) gone (0, m)) (\<lambda>(x, m'). Inr ((ids, compact (map code ids), x), save_allocs m' st))"
    by (simp add: remove_expired_allocs_tx_def sel)
  have there: "\<forall>i \<in> set gone. mpm_lookup m client i \<noteq> None"
    by (auto simp: assms(3,4) m(1) expiry_code_def split: option.split_asm)
  show ?thesis
  proof (intro conjI impI)
    assume "\<not> distinct gone"
    with remove_absent [OF m(2), of gone client 0] show "remove_expired_allocs_tx e client ids st = Inl Panic" by (simp add: run)
  next
    assume "distinct gone"
    from remove_distinct [OF m(2) there this, of 0] save_allocs_at codes_compact
    show "\<exists>b st'. remove_expired_allocs_tx e client ids st
          = Inr ((ids, b, \<Sum>i\<leftarrow>gone. int (al_size (the (alloc_at st client i)))), st')
        \<and> codes b = map code ids
        \<and> (\<forall>c i. alloc_at st' c i = (if c = client \<and> i \<in> set gone then None else alloc_at st c i))"
      by (auto simp: run m(1))
  qed
qed

section \<open>Properties\<close>

lemma vr_new_keeps: "vm_state v = vr_state_new root \<Longrightarrow> vr_keeps {} v"
  by (simp add: vr_keeps_def vr_inv_def tables_ok_def ids_inv_def ids_ok_def alloc_at_def claim_at_def load_allocs_def
      load_claims_def vr_state_new_def mpm_from_root_def mpm_lookup_def mpm_ok_def)

text \<open>
  C4: an identifier names one thing. From a new registry on, over every sequence of calls, also re-entrant
  ones, an identifier is below the counter, is held by at most one client as an open allocation or by at most one
  provider as a claim, and never by both; the record names the actor it is filed under.
\<close>

theorem allocation_ids_unique:
  assumes "vm_state v = vr_state_new root" and "st = vm_state (run_calls (vr_dispatch P) cs v)"
  shows "(\<forall>a. alloc_at st client i = Some a \<longrightarrow>
            al_client a = client \<and> i < next_allocation_id st \<and> claim_at st provider i = None
            \<and> (alloc_at st client' i \<noteq> None \<longrightarrow> client' = client))
       \<and> (\<forall>d. claim_at st provider i = Some d \<longrightarrow>
            dc_provider d = provider \<and> i < next_allocation_id st
            \<and> (claim_at st provider' i \<noteq> None \<longrightarrow> provider' = provider))"
proof -
  have "vr_keeps {} (run_calls (vr_dispatch P) cs v)"
    by (rule vr.run_calls_keeps) (rule vr_new_keeps [OF assms(1)])
  then have I: "ids_inv {} (next_allocation_id st) (alloc_at st) (claim_at st)"
    by (simp add: vr_keeps_def vr_inv_def assms(2))
  show ?thesis
    using ids_invD(1,2) [OF I] ids_invD(3) [OF I, of client i client'] ids_invD(4) [OF I, of client i provider]
      ids_invD(5) [OF I, of provider i provider'] by auto
qed

text \<open>
  C9: a claim is final. Once a provider has a claim, over every later sequence of calls, also
  re-entrant ones, its identifier is never an open allocation again and never a claim of another provider.
\<close>

theorem claimed_id_stays_claimed:
  assumes "vm_state v = vr_state_new root" and "v1 = run_calls (vr_dispatch P) cs v"
    and "claim_at (vm_state v1) provider i = Some d" and "st = vm_state (run_calls (vr_dispatch P) cs' v1)"
  shows "alloc_at st client i = None \<and> (claim_at st provider' i \<noteq> None \<longrightarrow> provider' = provider)"
proof -
  have "vr_keeps {} v1" unfolding assms(2) by (rule vr.run_calls_keeps) (rule vr_new_keeps [OF assms(1)])
  then have "vr_keeps {(i, provider)} v1"
    using claim_ties(1) [where C = "claim_at (vm_state v1)", OF _ assms(3)] by (auto simp: vr_keeps_def vr_inv_def)
  then have "vr_keeps {(i, provider)} (run_calls (vr_dispatch P) cs' v1)" by (rule vr.run_calls_keeps)
  then have "ids_inv {(i, provider)} (next_allocation_id st) (alloc_at st) (claim_at st)"
    by (simp add: vr_keeps_def vr_inv_def assms(4))
  from ids_invD(6) [OF this, of "(i, provider)"] show ?thesis by (auto simp: spent_def)
qed


section \<open>Examples\<close>

definition ex_vr_prims :: vr_prims where
  "ex_vr_prims = \<lparr>vp_policy = \<lparr>minimum_verified_allocation_size = 1, minimum_verified_allocation_term = 10,
       vr_maximum_verified_allocation_term = 100, vr_maximum_verified_allocation_expiration = 50\<rparr>,
     vp_precision = 10, vp_token_type = 1, vp_method_hash = (\<lambda>_. FIRST_EXPORTED_METHOD_NUMBER),
     vp_balance = (\<lambda>_. Inr 0), vp_authenticated = (\<lambda>_. Inr True), vp_removal_payload = (\<lambda>_. Some []),
     vp_tokens_received = (\<lambda>_. Inr \<lparr>tr_from = 101, tr_to = 6, tr_amount = 83, tr_operator_data = []\<rparr>),
     vp_alloc_reqs = (\<lambda>_. Inr ([\<lparr>vq_provider = 102, vq_data = 7, vq_size = 8, vq_term_min = 10,
       vq_term_max = 90, vq_expiration = 40\<rparr>], []))\<rparr>"

definition ex_vr_world :: world where
  "ex_vr_world = ex_world\<lparr>code_table := (\<lambda>i. Some (if i = 102 then 1 else 0)),
     type_table := (\<lambda>x. Some (if x = 1 then Miner else Account))\<rparr>"

definition ex_vr_vm :: vr_vm where
  "ex_vr_vm = \<lparr>vm_state = vr_state_new (ID 80), vm_balance = 0, vm_world = ex_vr_world, vm_sends = []\<rparr>"

definition ex_receive :: "vr_msg call" where
  "ex_receive = Call ((ex_ctx DATACAP_TOKEN_ACTOR_ADDR)\<lparr>receiver := ID 6\<rparr>) (UniversalReceiverHook 1 []) []"

definition ex_claim :: "vr_msg call" where
  "ex_claim = Call (ex_ctx (ID 102)) (ClaimAllocations [\<lparr>sc_sector_num = 3, sc_expiry = 60,
     sc_claims = [\<lparr>ac_client = 101, ac_allocation_id = 1, ac_data = 7, ac_size = 8\<rparr>]\<rparr>] True)
     [Resp [] (Response OK None) ex_vr_world]"

definition ex_alloc :: allocation where
  "ex_alloc = \<lparr>al_client = 101, al_provider = 102, al_data = 7, al_size = 8, al_term_min = 10, al_term_max = 90, al_expiration = 40\<rparr>"

lemmas ex_simps = restrict_internal_api_def ex_ctx_def validate_immediate_caller_is_def as_ret_def transaction_def
  get_actor_code_cid_def resolve_builtin_actor_type_def ex_vr_world_def ex_world_def

lemma ex_hook:
  assumes "vm_world v = ex_vr_world" and "store_received 101 [ex_alloc] [] (vm_state v) = Inr (ids, st)"
  shows "vr_dispatch ex_vr_prims send ((ex_ctx DATACAP_TOKEN_ACTOR_ADDR)\<lparr>receiver := ID 6\<rparr>) (UniversalReceiverHook 1 []) v 
  = Inr (AllocationsResponse (batch_ok 1) (batch_ok 0) ids, v\<lparr>vm_state := st\<rparr>)"
  by (simp add: vr_dispatch_def universal_receiver_hook_def validate_tokens_received_def ex_vr_prims_def new_allocation_def
      validate_new_allocation_def check_miner_id_def ex_simps assms [unfolded ex_alloc_def] tokens_to_datacap_def
      vr_burn_def signed_divide_int_def)

definition ex_claimed :: data_claim where
  "ex_claimed = claim_of 102 5 3 ex_alloc"

definition ex_vr1 :: vr_state where
  "ex_vr1 = (vr_state_new (ID 80))\<lparr>allocations := [(101, [(1, ex_alloc)])], next_allocation_id := 2\<rparr>"

definition ex_vr2 :: vr_state where
  "ex_vr2 = ex_vr1\<lparr>allocations := [], claims := [(102, [(1, ex_claimed)])]\<rparr>"

definition ex_vr3 :: vr_state where
  "ex_vr3 = ex_vr2\<lparr>allocations := [(101, [(2, ex_alloc)])], next_allocation_id := 3\<rparr>"

lemmas ex_tables = load_allocs_def save_allocs_def load_claims_def save_claims_def mpm_from_root_def mpm_flush_def
  flush_entry_def mpm_put_many_def mpm_get_def mpm_put_if_absent_def map2_set_if_absent_def mpm_remove_def
  load_inner_map_def map2_contains_key_def map2_get_def map2_put_def map2_empty_def map2_is_empty_def map2_remove_def

lemma ex_store:
  "store_received 101 [ex_alloc] [] (vr_state_new (ID 80)) = Inr ([1], ex_vr1)"
  "store_received 101 [ex_alloc] [] ex_vr2 = Inr ([2], ex_vr3)"
  by (simp_all add: store_received_def insert_allocations_def put_claims_def ex_tables vr_state_new_def ex_vr1_def
      ex_vr2_def ex_vr3_def upt_rec)

lemma ex_claim_tx:
  "claim_tx 102 5 [\<lparr>sc_sector_num = 3, sc_expiry = 60,
     sc_claims = [\<lparr>ac_client = 101, ac_allocation_id = 1, ac_data = 7, ac_size = 8\<rparr>]\<rparr>] ex_vr1
   = Inr ((add_success (batch_gen_new 1), [8], 8), ex_vr2)"
  by (simp add: claim_tx_def claim_sector_def write_claim_def can_claim_alloc_def ex_tables vr_state_new_def ex_vr1_def
      ex_vr2_def ex_alloc_def claim_of_def ex_claimed_def)


lemma ex_receive_run:
  assumes "vm_world v = ex_vr_world" and "store_received 101 [ex_alloc] [] (vm_state v) = Inr (ids, st)"
  shows "run_calls (vr_dispatch ex_vr_prims) [ex_receive] v = v\<lparr>vm_state := st\<rparr>"
  using ex_hook [OF assms] by (simp add: run_calls_def ex_receive_def invoke.simps ex_ctx_def)

lemma ex_claim_run:
  "\<exists>v'. run_calls (vr_dispatch ex_vr_prims) [ex_receive, ex_claim] ex_vr_vm = v' \<and> vm_state v' = ex_vr2
     \<and> vm_world v' = ex_vr_world"
proof -
  have 1: "run_calls (vr_dispatch ex_vr_prims) [ex_receive] ex_vr_vm = ex_vr_vm\<lparr>vm_state := ex_vr1\<rparr>"
    by (rule ex_receive_run) (simp_all add: ex_vr_vm_def ex_store)
  have "run_calls (vr_dispatch ex_vr_prims) [ex_receive, ex_claim] ex_vr_vm
      = run_calls (vr_dispatch ex_vr_prims) [ex_claim] (ex_vr_vm\<lparr>vm_state := ex_vr1\<rparr>)"
    by (simp add: 1 [symmetric]) (simp add: run_calls_def)
  also have "\<dots> = ex_vr_vm\<lparr>vm_state := ex_vr2, vm_sends :=
      [send_simple DATACAP_TOKEN_ACTOR_ADDR FIRST_EXPORTED_METHOD_NUMBER (Some (BurnParams 80)) 0]\<rparr>"
    using ex_claim_tx
    by (simp add: run_calls_def ex_claim_def invoke.simps run_resp.simps vr_dispatch_def claim_allocations_def ex_simps
        validate_immediate_caller_type_def ex_vr_vm_def generate_def add_success_def add_successes_def batch_gen_new_def
        all_ok_def vr_burn_def datacap_send_def send_or_fail_def debit_def send_simple_def ex_vr_prims_def
        datacap_to_tokens_def METHOD_SEND_def FIRST_EXPORTED_METHOD_NUMBER_def Let_def)
  finally show ?thesis by (simp add: ex_vr_vm_def)
qed

lemmas ex_views = alloc_at_def claim_at_def mpm_lookup_def ex_tables vr_state_new_def ex_vr1_def ex_vr2_def ex_vr3_def

theorem allocation_ids_unique_witness:
  "\<exists>st. st = vm_state (run_calls (vr_dispatch ex_vr_prims) [ex_receive] ex_vr_vm)
     \<and> alloc_at st 101 1 \<noteq> None \<and> claim_at st 102 1 = None \<and> 1 < next_allocation_id st"
proof -
  define st where "st = vm_state (run_calls (vr_dispatch ex_vr_prims) [ex_receive] ex_vr_vm)"
  have "st = ex_vr1" unfolding st_def by (subst ex_receive_run) (simp_all add: ex_vr_vm_def ex_store)
  then have "alloc_at st 101 1 = Some ex_alloc" by (simp add: ex_views)
  then show ?thesis using allocation_ids_unique [OF _ st_def, of "ID 80" 101 1 102 101 102] st_def
    by (auto simp: ex_vr_vm_def)
qed

theorem claimed_id_stays_claimed_witness:
  "\<exists>v1 st. v1 = run_calls (vr_dispatch ex_vr_prims) [ex_receive, ex_claim] ex_vr_vm
     \<and> st = vm_state (run_calls (vr_dispatch ex_vr_prims) [ex_receive] v1)
     \<and> claim_at (vm_state v1) 102 1 \<noteq> None \<and> alloc_at st 101 2 \<noteq> None \<and> alloc_at st 101 1 = None"
proof -
  obtain v1 where v1: "v1 = run_calls (vr_dispatch ex_vr_prims) [ex_receive, ex_claim] ex_vr_vm"
    and w: "vm_state v1 = ex_vr2" "vm_world v1 = ex_vr_world" using ex_claim_run by blast
  define st where "st = vm_state (run_calls (vr_dispatch ex_vr_prims) [ex_receive] v1)"
  have "st = ex_vr3" unfolding st_def using ex_receive_run [OF w(2)] ex_store(2) w(1) by simp
  then have a: "alloc_at st 101 2 \<noteq> None" by (simp add: ex_views)
  have d: "claim_at (vm_state v1) 102 1 = Some ex_claimed" using w(1) by (simp add: ex_views)
  have "alloc_at st 101 1 = None"
    using claimed_id_stays_claimed [OF _ v1 d st_def, of "ID 80" 101] by (simp add: ex_vr_vm_def)
  with d a show ?thesis using v1 st_def by blast
qed

lemma ex_pay_quiet: "quiet ex_pay"
  by (auto simp: quiet_def ex_pay_def debit_def split: if_splits)


theorem named_removal_exact_witness:
  "remove_expired_allocs_tx 40 101 [1, 1] ex_vr1 = Inl Panic
   \<and> (\<exists>b st'. remove_expired_allocs_tx 40 101 [1, 2] ex_vr1 = Inr (([1, 2], b, 8), st')
        \<and> codes b = [OK, USR_NOT_FOUND] \<and> alloc_at st' 101 1 = None)"
proof -
  have t: "tables_ok ex_vr1"
    by (auto simp: tables_ok_def mpm_ok_def map2_ok_def ex_tables ex_vr1_def vr_state_new_def split: if_splits)
  have a: "alloc_at ex_vr1 101 = [1 \<mapsto> ex_alloc]" by (rule ext) (simp add: ex_views)
  show ?thesis
    using named_removal_exact [OF t _ refl refl, of "[1, 1]" 40 101] named_removal_exact [OF t _ refl refl, of "[1, 2]" 40 101]
    by (auto simp: a expiry_code_def ex_alloc_def)
qed

end
