(* ===== verification/Spec2Isabelle.thy ===== *)
theory Spec2Isabelle
  imports Multisig Paych InitActor BasicActors Vesting Assignment PartitionRun RewardActor PowerActor MarketRun VerifregRun
begin

text \<open>
  \<^bold>\<open>The Filecoin built-in actors in Isabelle/HOL\<close>

  The repository holds the system actors of the Filecoin network: state machines that the virtual
  machine calls with a message, that read and write their own state, hold a balance, and send messages
  to each other. A state is stored in content-addressed maps (HAMT) and arrays (AMT).

  \<^bold>\<open>How the code is represented.\<close> A Rust struct is a record, an enum a datatype, a function that may
  fail returns \<open>'e + 'a\<close> with \<open>Inl\<close> the error (\<open>'a result\<close> for \<open>ActorError\<close>, \<open>'a anyhow\<close> for an
  \<open>anyhow::Error\<close> with or without an exit code); \<open>Inl Panic\<close> is a panic. \<open>TokenAmount\<close>, \<open>BigInt\<close> and
  \<open>ChainEpoch\<close> are \<open>int\<close>; where the code divides, the rounding of the operator it uses is written out.
  Identifiers kept in a \<open>u64\<close> whose overflow the code handles are checked as the code checks them.
  A HAMT and an AMT are association lists with a key invariant (theory \<open>Map2\<close>); bitfields are finite sets
  or lists of indices. Loops are structural recursion or folds; a loop with no bound in its text is a
  \<open>partial_function (option)\<close>, and it is proved that it returns. No fuel is used.

  \<^bold>\<open>The machine.\<close> \<open>Runtime\<close> has the state, the balance and the log of sends of the actor under study
  (\<open>vm\<close>), the context of a call (\<open>ctx\<close>), \<open>transaction\<close>, caller validation and sends. What the rest of the
  network does during a send is a parameter, \<open>send\<close>: it may fail, and it may call back into the actor any
  number of times. The locale \<open>reentrant_actor\<close> takes a dispatch function and an invariant, and shows that
  the invariant survives every tree of such calls; \<open>valued_actor\<close> does so for a family of invariants that
  depend on the balance. Each actor interprets one of them on its own dispatch. Code
  outside the repository (signatures, hashes, serialisation, replies of other actors) is a parameter.

  \<^bold>\<open>The theories.\<close>

  \<^item> \<open>Prelude\<close>: the result monad, folds of fallible steps, arithmetic and list lemmas.
  \<^item> \<open>Map2\<close> (\<open>runtime/src/util/map.rs\<close> and the AMT): content of maps and arrays, sums over them.
  \<^item> \<open>Collections\<close> (\<open>runtime/src/util/{multimap,set,set_multimap,mapmap}.rs\<close>): the cached map of maps
    refines a two-level map (locale \<open>two_level_map\<close>).
  \<^item> \<open>Runtime\<close> (\<open>runtime/src/{actor_error,builtin/shared,builtin/singletons,runtime/fvm}.rs\<close>): the machine.
  \<^item> \<open>Smooth\<close> (\<open>runtime/src/builtin/reward\<close>): Q.128 arithmetic, alpha-beta filter, logarithm.
  \<^item> \<open>Multisig\<close> (\<open>actors/multisig\<close>): signer and threshold invariant, at-most-once execution, locked funds.
  \<^item> \<open>Paych\<close> (\<open>actors/paych\<close>): solvency, no replay of vouchers, settlement.
  \<^item> \<open>InitActor\<close> (\<open>actors/init\<close>): fresh identifiers, stable address resolution.
  \<^item> \<open>BasicActors\<close> (\<open>actors/{account,ethaccount,cron}\<close>).
  \<^item> \<open>RewardActor\<close> (\<open>actors/reward\<close>): minting, termination of the catch-up loops, payment of rewards.
  \<^item> \<open>PowerActor\<close> (\<open>actors/power\<close>): totals are sums over the claims, delivery of cron events.
  \<^item> \<open>Batch\<close> (\<open>runtime/src/util/batch_return.rs\<close>): compact batch results, generation and stacking.
  \<^item> \<open>MarketState\<close>, \<open>Market\<close>, \<open>MarketBooks\<close>, \<open>MarketRun\<close> (\<open>actors/market\<close>): balance tables (locale
    \<open>token_table\<close>), deals and the ledger operations; the methods; the books of every transaction; solvency
    of the actor under re-entrant calls, exact payment of deals, withdrawals.
  \<^item> \<open>Verifreg\<close>, \<open>VerifregRun\<close> (\<open>actors/verifreg\<close>): allocations and claims, every method; identifiers are
    used once, the data cap of every message is accounted for.
  \<^item> \<open>Epochs\<close>, \<open>SectorPower\<close>, \<open>Vesting\<close>, \<open>BitfieldQueue\<close>, \<open>Assignment\<close>, \<open>Expiration\<close> (\<open>actors/miner\<close>):
    deadline arithmetic, power and fees of sectors, vesting of funds, the queues, deadline assignment.
  \<^item> \<open>QueueAccounts\<close>, \<open>QueueMoves\<close> (\<open>expiration_queue.rs\<close>): for a table of sectors and a set of faults, every
    entry of the expiration queue is determined by its sets of sectors, and every operation keeps it so.
  \<^item> \<open>Partition\<close>, \<open>PartitionRun\<close> (\<open>partition_state.rs\<close>, \<open>sectors.rs\<close>, \<open>sector_map.rs\<close>, \<open>termination.rs\<close>): the
    operations of a partition; its power is the power of its sectors, each live sector is scheduled once.

  \<^bold>\<open>Not modelled.\<close> The failures of the block store and the encodings of keys and values, which are the
  business of third-party crates; events and logging, which no state depends on; the cryptography of
  the proof system and of the EVM precompiles; the token ledger of the datacap actor
  (crate \<open>frc46_token\<close>); the test virtual machine, the integration tests and the build script. Of
  the miner actor the deadlines and the message handlers, and the EVM actor with its address manager,
  remain to be added in that order.
\<close>

end
